(* ===== verification/Prelude.thy ===== *)
theory Prelude
  imports Complex_Main
begin

text \<open>
  Shared vocabulary of the development: the Python values the components use (numbers,
  exceptions, results of a call, strings), the three interface locales that several
  components implement (a keyed store, an invariant of a transition system and the
  refinement of an abstract specification), and the generic lemmas on lists, strings and maps.

  Numbers (Python's \<^verbatim>\<open>int | float\<close>) are \<^typ>\<open>real\<close>: clock values, timeouts and ratios are
  exact here, so the rounding of floating point is not modelled. Counters are
  \<^typ>\<open>nat\<close> or \<^typ>\<open>int\<close>, because Python integers do not overflow.
\<close>

section \<open>Collections of simplification rules\<close>

named_theorems py_simps \<open>unfolding rules of the Python vocabulary\<close>
named_theorems model_defs \<open>definitions of the operations of a component\<close>

section \<open>Numbers, exceptions and results\<close>

type_synonym number = real

text \<open>
  An exception is its class, given by the names of the method resolution order, and its
  arguments. The test of an \<^verbatim>\<open>except\<close> clause is membership in that order.
\<close>

record pyexc =
  exc_mro :: "string list"
  exc_args :: "string list"

definition isinstance_exc :: "pyexc \<Rightarrow> string \<Rightarrow> bool" where
  "isinstance_exc e c \<longleftrightarrow> c \<in> set (exc_mro e)"

definition except_matches :: "string list \<Rightarrow> pyexc \<Rightarrow> bool" where
  "except_matches cs e \<longleftrightarrow> (\<exists>c \<in> set cs. isinstance_exc e c)"

abbreviation is_Exception :: "pyexc \<Rightarrow> bool" where
  "is_Exception e \<equiv> isinstance_exc e ''Exception''"

definition mk_exc :: "string list \<Rightarrow> string list \<Rightarrow> pyexc" where
  "mk_exc cs args = \<lparr>exc_mro = cs, exc_args = args\<rparr>"

definition ValueError :: "string \<Rightarrow> pyexc" where
  "ValueError m = mk_exc [''ValueError'', ''Exception'', ''BaseException''] [m]"

definition RuntimeError :: "string \<Rightarrow> pyexc" where
  "RuntimeError m = mk_exc [''RuntimeError'', ''Exception'', ''BaseException''] [m]"

definition TypeError :: "string \<Rightarrow> pyexc" where
  "TypeError m = mk_exc [''TypeError'', ''Exception'', ''BaseException''] [m]"

definition KeyError :: "string \<Rightarrow> pyexc" where
  "KeyError m = mk_exc [''KeyError'', ''LookupError'', ''Exception'', ''BaseException''] [m]"

definition AssertionError :: "string \<Rightarrow> pyexc" where
  "AssertionError m = mk_exc [''AssertionError'', ''Exception'', ''BaseException''] [m]"

definition TimeoutError :: pyexc where
  "TimeoutError = mk_exc [''TimeoutError'', ''OSError'', ''Exception'', ''BaseException''] []"

definition ConnectionError :: "string \<Rightarrow> pyexc" where
  "ConnectionError m =
     mk_exc [''ConnectionError'', ''OSError'', ''Exception'', ''BaseException''] [m]"

definition CancelledError :: pyexc where
  "CancelledError = mk_exc [''CancelledError'', ''BaseException''] []"

definition InvalidStateError :: pyexc where
  "InvalidStateError =
     mk_exc [''InvalidStateError'', ''Error'', ''Exception'', ''BaseException''] []"

lemmas exc_defs = mk_exc_def ValueError_def RuntimeError_def TypeError_def KeyError_def
  AssertionError_def TimeoutError_def ConnectionError_def CancelledError_def
  InvalidStateError_def

declare exc_defs [py_simps] isinstance_exc_def [py_simps] except_matches_def [py_simps]

lemma is_Exception_simps [simp]:
  "is_Exception (ValueError m)" "is_Exception (RuntimeError m)" "is_Exception (TypeError m)"
  "is_Exception (KeyError m)" "is_Exception (AssertionError m)" "is_Exception TimeoutError"
  "is_Exception (ConnectionError m)" "\<not> is_Exception CancelledError"
  "is_Exception InvalidStateError"
  by (simp_all add: py_simps)

text \<open>\<^verbatim>\<open>Inl\<close> is a raised exception, \<^verbatim>\<open>Inr\<close> a returned value.\<close>

type_synonym 'a result = "pyexc + 'a"

fun bind_result :: "'a result \<Rightarrow> ('a \<Rightarrow> 'b result) \<Rightarrow> 'b result" where
  "bind_result (Inl e) f = Inl e"
| "bind_result (Inr x) f = f x"

lemma bind_result_Inr_iff:
  "bind_result r f = Inr y \<longleftrightarrow> (\<exists>x. r = Inr x \<and> f x = Inr y)"
  by (cases r) auto

lemma bind_result_Inl_iff:
  "bind_result r f = Inl e \<longleftrightarrow> r = Inl e \<or> (\<exists>x. r = Inr x \<and> f x = Inl e)"
  by (cases r) auto

text \<open>A future: pending, or done with a value or an exception (a cancellation is one of them).\<close>

datatype 'r fut = Pending | Resolved "'r result"

fun future_result :: "'r fut \<Rightarrow> 'r result option" where
  "future_result Pending = None"
| "future_result (Resolved r) = Some r"

text \<open>Setting the result of a future unless it is done already.\<close>

definition resolve :: "'r result \<Rightarrow> 'r fut \<Rightarrow> 'r fut" where
  "resolve r f = (case f of Pending \<Rightarrow> Resolved r | Resolved x \<Rightarrow> Resolved x)"

lemma resolve_simps [simp]: "resolve r Pending = Resolved r" "resolve r (Resolved x) = Resolved x"
  by (simp_all add: resolve_def)

lemma resolve_Resolved_iff:
  "resolve r f = Resolved x \<longleftrightarrow> f = Resolved x \<or> f = Pending \<and> x = r"
  by (cases f) auto

lemma resolve_not_Pending [simp]: "resolve r f \<noteq> Pending"
  by (cases f) auto

text \<open>Folding a fallible operation over a list stops at the first exception.\<close>

fun fold_result :: "('a \<Rightarrow> 's \<Rightarrow> 's result) \<Rightarrow> 'a list \<Rightarrow> 's \<Rightarrow> 's result" where
  "fold_result f [] s = Inr s"
| "fold_result f (x # xs) s = bind_result (f x s) (fold_result f xs)"

lemma fold_result_inv:
  assumes "fold_result f xs s = Inr s'" "I s"
    and "\<And>x s s'. x \<in> set xs \<Longrightarrow> I s \<Longrightarrow> f x s = Inr s' \<Longrightarrow> I s'"
  shows "I s'"
  using assms
proof (induction xs arbitrary: s)
  case Nil
  then show ?case by simp
next
  case (Cons x xs)
  then obtain s1 where s1: "f x s = Inr s1" "fold_result f xs s1 = Inr s'"
    by (auto simp: bind_result_Inr_iff)
  with Cons.prems have "I s1" by auto
  with s1(2) Cons.prems(3) show ?case by (auto intro: Cons.IH)
qed

section \<open>Options\<close>

text \<open>The first of two optional values that is present.\<close>

definition or_else :: "'a option \<Rightarrow> 'a option \<Rightarrow> 'a option" where
  "or_else a b = (case a of Some x \<Rightarrow> Some x | None \<Rightarrow> b)"

lemma or_else_simps [simp]:
  "or_else (Some x) b = Some x"
  "or_else None b = b"
  "or_else a None = a"
  by (simp_all add: or_else_def split: option.splits)

lemma or_else_assoc: "or_else (or_else a b) c = or_else a (or_else b c)"
  by (cases a) simp_all

lemma or_else_None_iff [simp]: "or_else a b = None \<longleftrightarrow> a = None \<and> b = None"
  by (cases a) simp_all

lemma if_not_None_or_else: "(if a \<noteq> None then a else b) = or_else a b"
  by (cases a) simp_all

section \<open>Strings\<close>

definition py_endswith :: "string \<Rightarrow> string \<Rightarrow> bool" where
  "py_endswith s suf \<longleftrightarrow> length suf \<le> length s \<and> drop (length s - length suf) s = suf"

definition py_startswith :: "string \<Rightarrow> string \<Rightarrow> bool" where
  "py_startswith s pre \<longleftrightarrow> take (length pre) s = pre"

definition py_strip :: "char \<Rightarrow> string \<Rightarrow> string" where
  "py_strip c s = rev (dropWhile (\<lambda>x. x = c) (rev (dropWhile (\<lambda>x. x = c) s)))"

text \<open>\<^verbatim>\<open>str.split(c)\<close> with an explicit separator: always at least one piece.\<close>

fun py_split :: "char \<Rightarrow> string \<Rightarrow> string list" where
  "py_split c [] = [[]]"
| "py_split c (x # xs) =
     (if x = c then [] # py_split c xs
      else case py_split c xs of [] \<Rightarrow> [[x]] | p # ps \<Rightarrow> (x # p) # ps)"

fun py_join :: "string \<Rightarrow> string list \<Rightarrow> string" where
  "py_join sep [] = []"
| "py_join sep [p] = p"
| "py_join sep (p # q # ps) = p @ sep @ py_join sep (q # ps)"

lemma py_endswith_iff: "py_endswith s suf \<longleftrightarrow> (\<exists>p. s = p @ suf)"
proof
  assume "py_endswith s suf"
  then have "s = take (length s - length suf) s @ suf"
    by (metis py_endswith_def append_take_drop_id)
  then show "\<exists>p. s = p @ suf" by blast
next
  assume "\<exists>p. s = p @ suf"
  then show "py_endswith s suf" by (auto simp: py_endswith_def)
qed

lemma py_endswith_refl [simp]: "py_endswith s s"
  by (simp add: py_endswith_def)

lemma py_endswith_trans: "py_endswith a b \<Longrightarrow> py_endswith b c \<Longrightarrow> py_endswith a c"
  by (auto simp: py_endswith_iff)

lemma py_endswith_append [simp]: "py_endswith (s @ t) t"
  by (auto simp: py_endswith_iff)

lemma py_endswith_single [simp]: "py_endswith s [c] \<longleftrightarrow> s \<noteq> [] \<and> last s = c"
  by (auto simp: py_endswith_iff) (metis append_butlast_last_id)

lemma py_split_nonempty [simp]: "py_split c s \<noteq> []"
  by (induction s) (auto split: list.splits)

lemma py_split_no_sep: "p \<in> set (py_split c s) \<Longrightarrow> c \<notin> set p"
proof (induction s arbitrary: p)
  case Nil
  then show ?case by simp
next
  case (Cons x xs)
  then show ?case by (cases "py_split c xs") (auto split: if_splits)
qed

lemma py_join_Cons: "ps \<noteq> [] \<Longrightarrow> py_join sep (p # ps) = p @ sep @ py_join sep ps"
  by (cases ps) auto

lemma py_join_Cons_Cons: "py_join sep ((x # p) # ps) = x # py_join sep (p # ps)"
  by (cases ps) auto

lemma py_join_split: "py_join [c] (py_split c s) = s"
proof (induction s)
  case Nil
  then show ?case by simp
next
  case (Cons x xs)
  show ?case
  proof (cases "x = c")
    case True
    with Cons.IH show ?thesis by (simp add: py_join_Cons)
  next
    case False
    obtain p ps where "py_split c xs = p # ps"
      using py_split_nonempty [of c xs] by (meson neq_Nil_conv)
    with False Cons.IH show ?thesis by (simp add: py_join_Cons_Cons)
  qed
qed

lemma dropWhile_hd: "xs = [] \<or> \<not> P (hd xs) \<Longrightarrow> dropWhile P xs = xs"
  by (cases xs) auto

lemma py_strip_idem:
  assumes "s = [] \<or> hd s \<noteq> c \<and> last s \<noteq> c"
  shows "py_strip c s = s"
proof -
  have "dropWhile (\<lambda>x. x = c) s = s" using assms by (auto intro: dropWhile_hd)
  moreover have "dropWhile (\<lambda>x. x = c) (rev s) = rev s"
    using assms by (auto intro: dropWhile_hd simp: hd_rev)
  ultimately show ?thesis by (simp add: py_strip_def)
qed

lemma py_strip_snoc [simp]: "py_strip c (s @ [c]) = py_strip c s"
proof (cases "\<exists>x \<in> set s. x \<noteq> c")
  case True
  then show ?thesis by (auto simp: py_strip_def dropWhile_append)
next
  case False
  then have "dropWhile (\<lambda>x. x = c) (s @ [c]) = []" "dropWhile (\<lambda>x. x = c) s = []"
    by auto
  then show ?thesis by (simp only: py_strip_def)
qed

lemma hd_dropWhile_neq: "dropWhile (\<lambda>x. x = c) s \<noteq> [] \<Longrightarrow> hd (dropWhile (\<lambda>x. x = c) s) \<noteq> c"
  by (drule hd_dropWhile) simp

lemma py_strip_strip [simp]: "py_strip c (py_strip c s) = py_strip c s"
proof (rule py_strip_idem)
  let ?f = "dropWhile (\<lambda>x. x = c)"
  have "last (py_strip c s) \<noteq> c" if "py_strip c s \<noteq> []"
    using that hd_dropWhile_neq [of c "rev (?f s)"] by (simp add: py_strip_def last_rev)
  moreover have "hd (py_strip c s) \<noteq> c" if ne: "py_strip c s \<noteq> []"
  proof -
    obtain p where p: "rev (?f s) = p @ ?f (rev (?f s))"
      by (metis takeWhile_dropWhile_id)
    then have "?f s = py_strip c s @ rev p" by (metis py_strip_def rev_append rev_rev_ident)
    moreover from this ne have "?f s \<noteq> []" by (metis append_is_Nil_conv)
    ultimately show ?thesis using ne hd_dropWhile_neq [of c s] by (metis hd_append2)
  qed
  ultimately show "py_strip c s = [] \<or> hd (py_strip c s) \<noteq> c \<and> last (py_strip c s) \<noteq> c" by blast
qed

section \<open>A keyed store: the interface of the zone tree and of the zones\<close>

text \<open>
  What a client of a keyed store relies on: a fresh store answers nothing, and an update
  is seen at its own key only. Storing \<^const>\<open>None\<close> removes the entry.
\<close>

locale keyed_store =
  fixes empty :: 's
    and lookup :: "'s \<Rightarrow> 'k \<Rightarrow> 'v option"
    and update :: "'k \<Rightarrow> 'v option \<Rightarrow> 's \<Rightarrow> 's"
  assumes lookup_empty: "lookup empty k = None"
    and lookup_update: "lookup (update k v s) k' = (if k' = k then v else lookup s k')"
begin

lemma lookup_update_same: "lookup (update k v s) k = v"
  by (simp add: lookup_update)

lemma lookup_update_other: "k' \<noteq> k \<Longrightarrow> lookup (update k v s) k' = lookup s k'"
  by (simp add: lookup_update)

lemma remove_then_absent: "lookup (update k None (update k (Some v) s)) k = None"
  by (simp add: lookup_update)

lemma lookup_bulk:
  "lookup (fold (\<lambda>(k, v). update k (Some v)) kvs s) k =
     (case map_of (rev kvs) k of Some v \<Rightarrow> Some v | None \<Rightarrow> lookup s k)"
proof (induction kvs arbitrary: s)
  case Nil
  then show ?case by simp
next
  case (Cons kv kvs)
  then show ?case
    by (cases kv) (auto simp: lookup_update map_add_def split: option.splits)
qed

lemma lookup_bulk_empty:
  "lookup (fold (\<lambda>(k, v). update k (Some v)) kvs empty) k = map_of (rev kvs) k"
  by (simp add: lookup_bulk lookup_empty split: option.splits)

end

text \<open>\<^verbatim>\<open>str.lower\<close> on ASCII letters.\<close>

definition lower_char :: "char \<Rightarrow> char" where
  "lower_char c =
     (if 65 \<le> (of_char c :: nat) \<and> (of_char c :: nat) \<le> 90 then char_of ((of_char c :: nat) + 32) else c)"

definition py_lower :: "string \<Rightarrow> string" where
  "py_lower = map lower_char"

section \<open>Transition systems and their invariants\<close>

text \<open>Runs of a relation: the states reachable from an initial state.\<close>

inductive reachable :: "('s \<Rightarrow> bool) \<Rightarrow> ('s \<Rightarrow> 's \<Rightarrow> bool) \<Rightarrow> 's \<Rightarrow> bool"
  for init :: "'s \<Rightarrow> bool" and step :: "'s \<Rightarrow> 's \<Rightarrow> bool" where
  reach_init: "init s \<Longrightarrow> reachable init step s"
| reach_step: "reachable init step s \<Longrightarrow> step s t \<Longrightarrow> reachable init step t"

locale invariant_system =
  fixes init :: "'s \<Rightarrow> bool"
    and step :: "'s \<Rightarrow> 's \<Rightarrow> bool"
    and inv :: "'s \<Rightarrow> bool"
  assumes init_inv: "init s \<Longrightarrow> inv s"
    and step_inv: "inv s \<Longrightarrow> step s t \<Longrightarrow> inv t"
begin

lemma reachable_inv: "reachable init step s \<Longrightarrow> inv s"
  by (induction rule: reachable.induct) (auto intro: init_inv step_inv)

lemma runs_inv: "step\<^sup>*\<^sup>* s t \<Longrightarrow> inv s \<Longrightarrow> inv t"
  by (induction rule: rtranclp_induct) (auto intro: step_inv)

end

section \<open>Refinement of an abstract specification\<close>

text \<open>
  A component is a set of operations, each of which gives a result and a new state. Running
  a sequence of them yields the results in order and the final state.
\<close>

fun run_ops :: "('op \<Rightarrow> 's \<Rightarrow> 'r \<times> 's) \<Rightarrow> 'op list \<Rightarrow> 's \<Rightarrow> 'r list \<times> 's" where
  "run_ops ex [] s = ([], s)"
| "run_ops ex (op # ops) s =
     (let (r, s1) = ex op s; (rs, s2) = run_ops ex ops s1 in (r # rs, s2))"

text \<open>
  The detailed operations refine the abstract ones when they agree, operation by operation,
  on the results and on the states seen through the abstraction function, on all states that
  satisfy the invariant. Then no sequence of operations can tell them apart.
\<close>

locale functional_refinement =
  fixes conc :: "'op \<Rightarrow> 's \<Rightarrow> 'r \<times> 's"
    and spec :: "'op \<Rightarrow> 'a \<Rightarrow> 'r \<times> 'a"
    and abs :: "'s \<Rightarrow> 'a"
    and inv :: "'s \<Rightarrow> bool"
  assumes refines: "inv s \<Longrightarrow> spec op (abs s) = apsnd abs (conc op s)"
    and keeps: "inv s \<Longrightarrow> inv (snd (conc op s))"
begin

lemma run_refines: "inv s \<Longrightarrow> run_ops spec ops (abs s) = apsnd abs (run_ops conc ops s)"
proof (induction ops arbitrary: s)
  case Nil
  then show ?case by simp
next
  case (Cons op ops)
  obtain r s1 where c: "conc op s = (r, s1)" by (cases "conc op s")
  with Cons.prems keeps [of s op] have "inv s1" by simp
  from Cons.IH [OF this] refines [OF Cons.prems, of op] c show ?case
    by (simp add: split_def Let_def)
qed

lemma run_keeps: "inv s \<Longrightarrow> inv (snd (run_ops conc ops s))"
proof (induction ops arbitrary: s)
  case Nil
  then show ?case by simp
next
  case (Cons op ops)
  then show ?case using keeps [of s op] by (simp add: split_def Let_def)
qed

end

section \<open>Lists\<close>

lemma sum_list_map_le:
  fixes f g :: "'a \<Rightarrow> nat"
  shows "(\<And>x. x \<in> set xs \<Longrightarrow> f x \<le> g x) \<Longrightarrow> (\<Sum>x\<leftarrow>xs. f x) \<le> (\<Sum>x\<leftarrow>xs. g x)"
  by (induction xs) (auto intro: add_mono)

lemma takeWhile_eq_filter_sorted:
  assumes "sorted_wrt (\<lambda>x y. P y \<longrightarrow> P x) xs"
  shows "takeWhile P xs = filter P xs"
  using assms
proof (induction xs)
  case Nil
  then show ?case by simp
next
  case (Cons x xs)
  then show ?case by (cases "P x") (auto simp: filter_empty_conv)
qed

text \<open>Replacing one element of a list in a sum over it.\<close>

lemma sum_list_map_update:
  fixes f :: "'a \<Rightarrow> 'b::comm_monoid_add"
  assumes "i < length xs"
  shows "(\<Sum>x\<leftarrow>xs[i := y]. f x) + f (xs ! i) = (\<Sum>x\<leftarrow>xs. f x) + f y"
  using assms
proof (induction xs arbitrary: i)
  case Nil
  then show ?case by simp
next
  case (Cons x xs)
  show ?case
  proof (cases i)
    case 0
    then show ?thesis by (simp add: add_ac)
  next
    case (Suc j)
    with Cons.IH [of j] Cons.prems show ?thesis by (simp add: add_ac)
  qed
qed

end
