(* ===== verification/DnsTree.thy ===== *)
theory DnsTree
  imports Prelude
begin

text \<open>
  The radix tree of \<^verbatim>\<open>aiomisc/service/dns/tree.py\<close>: nodes with a dictionary of children
  and an optional value, insertion, exact search and the longest-prefix search that the
  zone store uses. The abstraction of a tree is the partial map \<^verbatim>\<open>tree_search t\<close> from
  paths to values. The interface \<^verbatim>\<open>keyed_store\<close> is discharged here for the tree.
\<close>

section \<open>Nodes and operations\<close>

datatype ('k, 'v) RadixNode =
  RadixNode (children: "'k \<Rightarrow> ('k, 'v) RadixNode option") (node_value: "'v option")

definition new_node :: "('k, 'v) RadixNode" where
  "new_node = RadixNode (\<lambda>_. None) None"

text \<open>The tree is its root node; the loops over the key are the recursions below.\<close>

fun tree_insert :: "'k list \<Rightarrow> 'v option \<Rightarrow> ('k, 'v) RadixNode \<Rightarrow> ('k, 'v) RadixNode" where
  "tree_insert [] v (RadixNode ch _) = RadixNode ch v"
| "tree_insert (part # key) v (RadixNode ch w) =
     (let child = (case ch part of None \<Rightarrow> new_node | Some n \<Rightarrow> n)
      in RadixNode (ch(part \<mapsto> tree_insert key v child)) w)"

fun tree_search :: "('k, 'v) RadixNode \<Rightarrow> 'k list \<Rightarrow> 'v option" where
  "tree_search node [] = node_value node"
| "tree_search node (part # key) =
     (case children node part of None \<Rightarrow> None | Some n \<Rightarrow> tree_search n key)"

text \<open>
  The loop of \<^verbatim>\<open>find_prefix\<close> carries the current node, the labels walked so far and the
  value of the last node on the walk that has one.
\<close>

fun find_prefix_loop ::
  "('k, 'v) RadixNode \<Rightarrow> 'k list \<Rightarrow> 'v option \<Rightarrow> 'k list \<Rightarrow> 'k list \<times> 'v option" where
  "find_prefix_loop node longest_prefix val [] = (longest_prefix, val)"
| "find_prefix_loop node longest_prefix val (part # key) =
     (case children node part of
        Some n \<Rightarrow>
          find_prefix_loop n (longest_prefix @ [part])
            (if node_value n \<noteq> None then node_value n else val) key
      | None \<Rightarrow> (longest_prefix, val))"

definition find_prefix :: "('k, 'v) RadixNode \<Rightarrow> 'k list \<Rightarrow> ('k list \<times> 'v) option" where
  "find_prefix rt key =
     (case find_prefix_loop rt [] (node_value rt) key of
        (longest_prefix, None) \<Rightarrow> None
      | (longest_prefix, Some v) \<Rightarrow> Some (longest_prefix, v))"

section \<open>Reference notions\<close>

text \<open>How far a key can be walked in the tree.\<close>

fun walk_length :: "('k, 'v) RadixNode \<Rightarrow> 'k list \<Rightarrow> nat" where
  "walk_length node [] = 0"
| "walk_length node (part # key) =
     (case children node part of None \<Rightarrow> 0 | Some n \<Rightarrow> Suc (walk_length n key))"

text \<open>The value of the longest prefix of the key that is bound, by trying all lengths.\<close>

fun longest_bound :: "('k list \<Rightarrow> 'v option) \<Rightarrow> 'k list \<Rightarrow> nat \<Rightarrow> 'v option" where
  "longest_bound m key 0 = m []"
| "longest_bound m key (Suc n) =
     or_else (m (take (Suc n) key)) (longest_bound m key n)"

text \<open>A map with another value at the empty path: the value the loop starts from.\<close>

definition with_root :: "'v option \<Rightarrow> ('k list \<Rightarrow> 'v option) \<Rightarrow> 'k list \<Rightarrow> 'v option" where
  "with_root v m k = (if k = [] then v else m k)"

section \<open>Search and insertion\<close>

lemma tree_search_new_node [simp]: "tree_search new_node key = None"
  by (cases key) (simp_all add: new_node_def)

lemma tree_search_insert:
  "tree_search (tree_insert key v t) key' = (if key' = key then v else tree_search t key')"
proof (induction key v t arbitrary: key' rule: tree_insert.induct)
  case (1 v ch w)
  then show ?case by (cases key') auto
next
  case (2 part key v ch w)
  then show ?case by (cases key') (auto simp: Let_def split: option.splits)
qed

interpretation tree: keyed_store new_node tree_search tree_insert
  by unfold_locales (simp_all add: tree_search_insert)

lemma tree_search_beyond_walk:
  "walk_length t key < length key \<Longrightarrow> tree_search t key = None"
  by (induction t key rule: tree_search.induct) (auto split: option.splits)

lemma walk_length_le: "walk_length t key \<le> length key"
  by (induction t key rule: walk_length.induct) (auto split: option.splits)

lemma walk_length_take:
  "n \<le> length key \<Longrightarrow> walk_length t (take n key) = min n (walk_length t key)"
proof (induction t key arbitrary: n rule: walk_length.induct)
  case (1 node)
  then show ?case by simp
next
  case (2 node part key)
  then show ?case by (cases n) (auto split: option.splits)
qed

lemma tree_search_take_beyond:
  "walk_length t key < n \<Longrightarrow> n \<le> length key \<Longrightarrow> tree_search t (take n key) = None"
  by (rule tree_search_beyond_walk) (simp add: walk_length_take)

lemma bound_within_walk:
  "tree_search t (take n key) \<noteq> None \<Longrightarrow> n \<le> length key \<Longrightarrow> n \<le> walk_length t key"
  using tree_search_take_beyond by (metis not_le)

section \<open>Longest-prefix search\<close>

lemma find_prefix_loop_path:
  "fst (find_prefix_loop node pre val key) = pre @ take (walk_length node key) key"
  by (induction node pre val key rule: find_prefix_loop.induct) (auto split: option.splits)

lemma longest_bound_Cons:
  "longest_bound m (part # key) (Suc n) =
     or_else (longest_bound (\<lambda>k. m (part # k)) key n) (m [])"
proof (induction n)
  case 0
  then show ?case by simp
next
  case (Suc n)
  have "longest_bound m (part # key) (Suc (Suc n)) =
      or_else (m (part # take (Suc n) key)) (longest_bound m (part # key) (Suc n))"
    by simp
  with Suc show ?case by (simp only: or_else_assoc longest_bound.simps)
qed

lemma with_root_simps [simp]:
  "with_root v m [] = v"
  "with_root v m (x # k) = m (x # k)"
  by (simp_all add: with_root_def)

lemma longest_bound_default:
  "n \<le> length key \<Longrightarrow>
   longest_bound (with_root (or_else (m []) v) m) key n = or_else (longest_bound m key n) v"
proof (induction n)
  case 0
  then show ?case by simp
next
  case (Suc n)
  then have "with_root (or_else (m []) v) m (take (Suc n) key) = m (take (Suc n) key)"
    by (cases key) simp_all
  with Suc show ?case by (simp add: or_else_assoc)
qed

lemma find_prefix_loop_value:
  "snd (find_prefix_loop node pre v key) =
     longest_bound (with_root v (tree_search node)) key (walk_length node key)"
proof (induction node pre v key rule: find_prefix_loop.induct)
  case (1 node pre v)
  then show ?case by simp
next
  case (2 node pre v part key)
  show ?case
  proof (cases "children node part")
    case None
    then show ?thesis by simp
  next
    case (Some n)
    have "snd (find_prefix_loop node pre v (part # key)) =
        or_else (longest_bound (tree_search n) key (walk_length n key)) v"
      using 2 [OF Some] Some
        longest_bound_default [of "walk_length n key" key "tree_search n" v]
      by (simp only: find_prefix_loop.simps option.case if_not_None_or_else walk_length_le
          tree_search.simps)
    with Some show ?thesis
      by (simp add: longest_bound_Cons del: longest_bound.simps)
  qed
qed

lemma longest_bound_walk:
  "longest_bound (tree_search t) key (walk_length t key) =
   longest_bound (tree_search t) key (length key)"
proof -
  have "longest_bound (tree_search t) key n = longest_bound (tree_search t) key (walk_length t key)"
    if "walk_length t key \<le> n" "n \<le> length key" for n
    using that
  proof (induction n)
    case 0
    then show ?case by simp
  next
    case (Suc n)
    show ?case
    proof (cases "walk_length t key = Suc n")
      case True
      then show ?thesis by (simp only:)
    next
      case False
      with Suc.prems have "walk_length t key \<le> n" by simp
      moreover from this Suc.prems have "tree_search t (take (Suc n) key) = None"
        by (intro tree_search_take_beyond) simp_all
      ultimately show ?thesis using Suc.IH Suc.prems(2) by (metis Suc_leD longest_bound.simps(2) or_else_simps(2))
    qed
  qed
  from this [of "length key"] show ?thesis by (simp add: walk_length_le)
qed

lemma find_prefix_eq:
  "find_prefix t key =
     map_option (Pair (take (walk_length t key) key))
       (longest_bound (tree_search t) key (length key))"
proof -
  have "with_root (node_value t) (tree_search t) = tree_search t"
    by (auto simp: fun_eq_iff with_root_def)
  then have "find_prefix_loop t [] (node_value t) key =
      (take (walk_length t key) key, longest_bound (tree_search t) key (length key))"
    using find_prefix_loop_path [of t "[]" "node_value t" key]
      find_prefix_loop_value [of t "[]" "node_value t" key]
    by (simp add: longest_bound_walk prod_eq_iff)
  then show ?thesis by (simp add: find_prefix_def split: option.splits)
qed

lemma longest_bound_SomeD:
  "longest_bound m key n = Some v \<Longrightarrow>
   \<exists>k \<le> n. m (take k key) = Some v \<and> (\<forall>j. k < j \<and> j \<le> n \<longrightarrow> m (take j key) = None)"
proof (induction n)
  case 0
  then show ?case by auto
next
  case (Suc n)
  show ?case
  proof (cases "m (take (Suc n) key)")
    case None
    with Suc obtain k where k: "k \<le> n" "m (take k key) = Some v"
        "\<forall>j. k < j \<and> j \<le> n \<longrightarrow> m (take j key) = None"
      by auto
    have "\<forall>j. k < j \<and> j \<le> Suc n \<longrightarrow> m (take j key) = None"
      using k(3) None by (auto simp: le_Suc_eq)
    with k(1,2) show ?thesis by (intro exI [of _ k]) auto
  next
    case (Some u)
    with Suc.prems show ?thesis by (intro exI [of _ "Suc n"]) auto
  qed
qed

lemma longest_bound_None_iff:
  "longest_bound m key n = None \<longleftrightarrow> (\<forall>k \<le> n. m (take k key) = None)"
  by (induction n) (auto simp: le_Suc_eq split: option.splits)

text \<open>
  The path returned together with that value is the longest part of the key that can
  be walked in the tree, not the bound prefix: it is the key of the value exactly when the
  last node of the walk is bound.
\<close>

lemma find_prefix_path:
  assumes "find_prefix t key = Some (path, v)"
  shows "path = take (walk_length t key) key \<and>
         (tree_search t path = Some v \<or> tree_search t path = None)"
proof
  show path: "path = take (walk_length t key) key"
    using assms by (auto simp: find_prefix_eq)
  from assms have lb: "longest_bound (tree_search t) key (walk_length t key) = Some v"
    by (auto simp: find_prefix_eq longest_bound_walk)
  show "tree_search t path = Some v \<or> tree_search t path = None"
    using lb unfolding path by (cases "walk_length t key") (auto split: option.splits)
qed

section \<open>Properties\<close>

text \<open>
  C1. Insertion into the radix tree binds exactly its key: after inserting a value (or
  \<^const>\<open>None\<close>, which is how a zone is removed) under a key, a search for that key returns the
  value and a search for any other key returns what it returned before.
\<close>

theorem insert_search:
  "tree_search (tree_insert key v t) key' = (if key' = key then v else tree_search t key')"
  by (rule tree.lookup_update)

text \<open>
  C2. The longest-prefix search returns nothing exactly when no prefix of the key is bound,
  and otherwise the value of the longest bound prefix of the key.
\<close>

theorem find_prefix_longest:
  "case find_prefix t key of
     None \<Rightarrow> (\<forall>k \<le> length key. tree_search t (take k key) = None)
   | Some (path, v) \<Rightarrow>
       (\<exists>k \<le> length path. path = take (length path) key \<and> tree_search t (take k key) = Some v \<and>
          (\<forall>j \<le> length key. k < j \<longrightarrow> tree_search t (take j key) = None))"
proof (cases "longest_bound (tree_search t) key (length key)")
  case None
  then have "find_prefix t key = None" by (simp add: find_prefix_eq)
  with None show ?thesis by (simp add: longest_bound_None_iff)
next
  case (Some v)
  from longest_bound_SomeD [OF this] obtain k where
    k: "k \<le> length key" "tree_search t (take k key) = Some v"
      "\<forall>j. k < j \<and> j \<le> length key \<longrightarrow> tree_search t (take j key) = None"
    by blast
  have "k \<le> walk_length t key" using bound_within_walk [of t k key] k by simp
  with Some k show ?thesis
    by (auto simp: find_prefix_eq walk_length_le min_absorb2 intro!: exI [of _ k])
qed

theorem find_prefix_longest_witness:
  "let t = tree_insert ''xyz'' (Some True) (tree_insert ''x'' (Some False) new_node)
   in find_prefix t ''xyw'' = Some (''xy'', False) \<and>
      (\<exists>k \<le> 2. tree_search t (take k ''xyw'') = Some False)"
proof -
  let ?t = "tree_insert ''xyz'' (Some True) (tree_insert ''x'' (Some False) new_node)"
  have h: "find_prefix ?t ''xyw'' = Some (''xy'', False)"
    by code_simp
  have "\<exists>k \<le> 2. tree_search ?t (take k ''xyw'') = Some False"
    using find_prefix_longest [where t = ?t and key = "''xyw''"] unfolding h by (auto simp: numeral_2_eq_2)
  with h show ?thesis unfolding Let_def by blast
qed

end
