(* ===== verification/DnsRecords.thy ===== *)
theory DnsRecords
  imports Prelude
begin

text \<open>
  The record types of \<^verbatim>\<open>aiomisc/service/dns/records.py\<close>: the two enumerations with their
  protocol numbers, the frozen dataclass \<^verbatim>\<open>DNSRecord\<close> and the \<^verbatim>\<open>create\<close> class methods. The
  classes of the third-party package \<^verbatim>\<open>dnslib\<close> are parameters: the record data has an
  arbitrary type \<^verbatim>\<open>'rd\<close>, whose equality is HOL equality, and each \<^verbatim>\<open>create\<close> takes the
  constructor \<^verbatim>\<open>cls\<close> of its data class as an argument.
\<close>

section \<open>Enumerations\<close>

datatype RecordType =
  RT_A | RT_A6 | RT_AAAA | RT_AFSDB | RT_ANY | RT_APL | RT_AXFR | RT_CAA | RT_CDNSKEY |
  RT_CDS | RT_CERT | RT_CNAME | RT_CSYNC | RT_DHCID | RT_DLV | RT_DNAME | RT_DNSKEY | RT_DS |
  RT_EUI48 | RT_EUI64 | RT_HINFO | RT_HIP | RT_HIP_AC | RT_HTTPS | RT_IPSECKEY | RT_IXFR |
  RT_KEY | RT_KX | RT_LOC | RT_MX | RT_NAPTR | RT_NS | RT_NSEC | RT_NSEC3 | RT_NSEC3PARAM |
  RT_NULL | RT_OPENPGPKEY | RT_OPT | RT_PTR | RT_RP | RT_RRSIG | RT_SIG | RT_SOA | RT_SPF |
  RT_SRV | RT_SSHFP | RT_SVCB | RT_TA | RT_TKEY | RT_TLSA | RT_TSIG | RT_TXT | RT_URI |
  RT_ZONEMD

fun rtype_value :: "RecordType \<Rightarrow> int" where
  "rtype_value RT_A = 1"
| "rtype_value RT_A6 = 38"
| "rtype_value RT_AAAA = 28"
| "rtype_value RT_AFSDB = 18"
| "rtype_value RT_ANY = 255"
| "rtype_value RT_APL = 42"
| "rtype_value RT_AXFR = 252"
| "rtype_value RT_CAA = 257"
| "rtype_value RT_CDNSKEY = 60"
| "rtype_value RT_CDS = 59"
| "rtype_value RT_CERT = 37"
| "rtype_value RT_CNAME = 5"
| "rtype_value RT_CSYNC = 62"
| "rtype_value RT_DHCID = 49"
| "rtype_value RT_DLV = 32769"
| "rtype_value RT_DNAME = 39"
| "rtype_value RT_DNSKEY = 48"
| "rtype_value RT_DS = 43"
| "rtype_value RT_EUI48 = 108"
| "rtype_value RT_EUI64 = 109"
| "rtype_value RT_HINFO = 13"
| "rtype_value RT_HIP = 53"
| "rtype_value RT_HIP_AC = 55"
| "rtype_value RT_HTTPS = 65"
| "rtype_value RT_IPSECKEY = 45"
| "rtype_value RT_IXFR = 251"
| "rtype_value RT_KEY = 25"
| "rtype_value RT_KX = 36"
| "rtype_value RT_LOC = 29"
| "rtype_value RT_MX = 15"
| "rtype_value RT_NAPTR = 35"
| "rtype_value RT_NS = 2"
| "rtype_value RT_NSEC = 47"
| "rtype_value RT_NSEC3 = 50"
| "rtype_value RT_NSEC3PARAM = 51"
| "rtype_value RT_NULL = 10"
| "rtype_value RT_OPENPGPKEY = 61"
| "rtype_value RT_OPT = 41"
| "rtype_value RT_PTR = 12"
| "rtype_value RT_RP = 17"
| "rtype_value RT_RRSIG = 46"
| "rtype_value RT_SIG = 24"
| "rtype_value RT_SOA = 6"
| "rtype_value RT_SPF = 99"
| "rtype_value RT_SRV = 33"
| "rtype_value RT_SSHFP = 44"
| "rtype_value RT_SVCB = 64"
| "rtype_value RT_TA = 32768"
| "rtype_value RT_TKEY = 249"
| "rtype_value RT_TLSA = 52"
| "rtype_value RT_TSIG = 250"
| "rtype_value RT_TXT = 16"
| "rtype_value RT_URI = 256"
| "rtype_value RT_ZONEMD = 63"

definition record_types :: "RecordType list" where
  "record_types =
    [RT_A, RT_A6, RT_AAAA, RT_AFSDB, RT_ANY, RT_APL, RT_AXFR, RT_CAA, RT_CDNSKEY, RT_CDS,
     RT_CERT, RT_CNAME, RT_CSYNC, RT_DHCID, RT_DLV, RT_DNAME, RT_DNSKEY, RT_DS, RT_EUI48,
     RT_EUI64, RT_HINFO, RT_HIP, RT_HIP_AC, RT_HTTPS, RT_IPSECKEY, RT_IXFR, RT_KEY, RT_KX,
     RT_LOC, RT_MX, RT_NAPTR, RT_NS, RT_NSEC, RT_NSEC3, RT_NSEC3PARAM, RT_NULL, RT_OPENPGPKEY,
     RT_OPT, RT_PTR, RT_RP, RT_RRSIG, RT_SIG, RT_SOA, RT_SPF, RT_SRV, RT_SSHFP, RT_SVCB,
     RT_TA, RT_TKEY, RT_TLSA, RT_TSIG, RT_TXT, RT_URI, RT_ZONEMD]"

text \<open>\<^verbatim>\<open>RecordType(value)\<close>: the member with that number, or \<^verbatim>\<open>ValueError\<close>.\<close>

definition RecordType_of :: "int \<Rightarrow> RecordType result" where
  "RecordType_of v =
     (case filter (\<lambda>t. rtype_value t = v) record_types of
        [] \<Rightarrow> Inl (ValueError ''is not a valid RecordType'')
      | t # _ \<Rightarrow> Inr t)"

datatype DNSClass = DC_IN | DC_CS | DC_CH | DC_Hesiod | DC_NONE | DC_ASTERISK

fun dclass_value :: "DNSClass \<Rightarrow> int" where
  "dclass_value DC_IN = 1"
| "dclass_value DC_CS = 2"
| "dclass_value DC_CH = 3"
| "dclass_value DC_Hesiod = 4"
| "dclass_value DC_NONE = 254"
| "dclass_value DC_ASTERISK = 255"

section \<open>Records\<close>

record 'rd DNSRecord =
  rec_name :: string
  rec_type :: RecordType
  rec_data :: 'rd
  rec_cls :: DNSClass
  rec_ttl :: int

text \<open>The constructor with the defaults of the dataclass for the class and the ttl.\<close>

definition DNSRecord_of :: "string \<Rightarrow> RecordType \<Rightarrow> 'rd \<Rightarrow> int \<Rightarrow> 'rd DNSRecord" where
  "DNSRecord_of name ty data ttl =
     \<lparr>rec_name = name, rec_type = ty, rec_data = data, rec_cls = DC_IN, rec_ttl = ttl\<rparr>"

definition default_ttl :: int where
  "default_ttl = 3600"

text \<open>
  Equality and hash of the dataclass: all fields but \<^verbatim>\<open>ttl\<close>, which is declared with
  \<^verbatim>\<open>compare=False\<close>.
\<close>

definition rec_eq :: "'rd DNSRecord \<Rightarrow> 'rd DNSRecord \<Rightarrow> bool" where
  "rec_eq a b \<longleftrightarrow> rec_name a = rec_name b \<and> rec_type a = rec_type b \<and>
     rec_data a = rec_data b \<and> rec_cls a = rec_cls b"

text \<open>
  Hashes. \<^verbatim>\<open>RD.__hash__\<close> takes the attribute \<^verbatim>\<open>data\<close> of the dnslib object and \<^verbatim>\<open>RDLabel.__hash__\<close> its \<^verbatim>\<open>label\<close>;
  an object without that attribute, or with a value that cannot be hashed, makes them raise. The hash of
  the frozen dataclass is that of the tuple of the compared fields.
\<close>

definition RD_hash :: "('rd \<Rightarrow> 'd result) \<Rightarrow> ('d \<Rightarrow> int result) \<Rightarrow> 'rd \<Rightarrow> int result" where
  "RD_hash data hash rd = bind_result (data rd) hash"

definition RDLabel_hash :: "('rd \<Rightarrow> 'l result) \<Rightarrow> ('l \<Rightarrow> int result) \<Rightarrow> 'rd \<Rightarrow> int result" where
  "RDLabel_hash label hash rd = bind_result (label rd) hash"

definition rec_hash ::
  "(string \<times> RecordType \<times> int \<times> DNSClass \<Rightarrow> int) \<Rightarrow> ('rd \<Rightarrow> int result) \<Rightarrow> 'rd DNSRecord \<Rightarrow> int result" where
  "rec_hash tuple_hash rd_hash r =
     bind_result (rd_hash (rec_data r)) (\<lambda>h. Inr (tuple_hash (rec_name r, rec_type r, h, rec_cls r)))"

text \<open>The resource record handed to \<^verbatim>\<open>dnslib.RR\<close>: name, query type, class, ttl and data.\<close>

record 'rd RR =
  rr_rname :: string
  rr_rtype :: int
  rr_rclass :: DNSClass
  rr_ttl :: int
  rr_rdata :: 'rd

definition rr :: "'rd DNSRecord \<Rightarrow> int \<Rightarrow> 'rd RR" where
  "rr r query_type =
     \<lparr>rr_rname = rec_name r, rr_rtype = query_type, rr_rclass = rec_cls r,
      rr_ttl = rec_ttl r, rr_rdata = rec_data r\<rparr>"

section \<open>The create methods\<close>

text \<open>
  The four label records share \<^verbatim>\<open>RDLabel.create\<close>, which takes its record type from the class
  attribute \<^verbatim>\<open>__type__\<close>.
\<close>

definition RDLabel_create ::
  "RecordType \<Rightarrow> (string \<Rightarrow> 'rd) \<Rightarrow> string \<Rightarrow> string \<Rightarrow> int \<Rightarrow> 'rd DNSRecord" where
  "RDLabel_create ty cls name label ttl = DNSRecord_of name ty (cls label) ttl"

definition CNAME_create :: "(string \<Rightarrow> 'rd) \<Rightarrow> string \<Rightarrow> string \<Rightarrow> int \<Rightarrow> 'rd DNSRecord" where
  "CNAME_create = RDLabel_create RT_CNAME"

definition NS_create :: "(string \<Rightarrow> 'rd) \<Rightarrow> string \<Rightarrow> string \<Rightarrow> int \<Rightarrow> 'rd DNSRecord" where
  "NS_create = RDLabel_create RT_NS"

definition PTR_create :: "(string \<Rightarrow> 'rd) \<Rightarrow> string \<Rightarrow> string \<Rightarrow> int \<Rightarrow> 'rd DNSRecord" where
  "PTR_create = RDLabel_create RT_PTR"

definition DNAME_create :: "(string \<Rightarrow> 'rd) \<Rightarrow> string \<Rightarrow> string \<Rightarrow> int \<Rightarrow> 'rd DNSRecord" where
  "DNAME_create = RDLabel_create RT_DNAME"

definition A_create ::
  "(string \<Rightarrow> 'rd) \<Rightarrow> string \<Rightarrow> string \<Rightarrow> int \<Rightarrow> 'rd DNSRecord" where
  "A_create cls name ip ttl = DNSRecord_of name RT_A (cls ip) ttl"

definition AAAA_create ::
  "(string \<Rightarrow> 'rd) \<Rightarrow> string \<Rightarrow> string \<Rightarrow> int \<Rightarrow> 'rd DNSRecord" where
  "AAAA_create cls name ipv6 ttl = DNSRecord_of name RT_AAAA (cls ipv6) ttl"

definition MX_create ::
  "(string \<Rightarrow> int \<Rightarrow> 'rd) \<Rightarrow> string \<Rightarrow> string \<Rightarrow> int \<Rightarrow> int \<Rightarrow> 'rd DNSRecord" where
  "MX_create cls name exchange preference ttl = DNSRecord_of name RT_MX (cls exchange preference) ttl"

definition TXT_create ::
  "(string \<Rightarrow> 'rd) \<Rightarrow> string \<Rightarrow> string \<Rightarrow> int \<Rightarrow> 'rd DNSRecord" where
  "TXT_create cls name text ttl = DNSRecord_of name RT_TXT (cls text) ttl"

definition SOA_create ::
  "(string \<Rightarrow> string \<Rightarrow> int \<times> int \<times> int \<times> int \<times> int \<Rightarrow> 'rd) \<Rightarrow> string \<Rightarrow> string \<Rightarrow> string \<Rightarrow> int \<Rightarrow> int \<Rightarrow> int \<Rightarrow> int \<Rightarrow> int \<Rightarrow> int \<Rightarrow> 'rd DNSRecord" where
  "SOA_create cls name mname rname serial refresh retry expire minimum ttl = DNSRecord_of name RT_SOA (cls mname rname (serial, refresh, retry, expire, minimum)) ttl"

definition SRV_create ::
  "(int \<Rightarrow> int \<Rightarrow> int \<Rightarrow> string \<Rightarrow> 'rd) \<Rightarrow> string \<Rightarrow> int \<Rightarrow> int \<Rightarrow> int \<Rightarrow> string \<Rightarrow> int \<Rightarrow> 'rd DNSRecord" where
  "SRV_create cls name priority weight port target ttl = DNSRecord_of name RT_SRV (cls priority weight port target) ttl"

definition CAA_create ::
  "(int \<Rightarrow> string \<Rightarrow> string \<Rightarrow> 'rd) \<Rightarrow> string \<Rightarrow> int \<Rightarrow> string \<Rightarrow> string \<Rightarrow> int \<Rightarrow> 'rd DNSRecord" where
  "CAA_create cls name flags tag val ttl = DNSRecord_of name RT_CAA (cls flags tag val) ttl"

definition NAPTR_create ::
  "(int \<Rightarrow> int \<Rightarrow> string \<Rightarrow> string \<Rightarrow> string \<Rightarrow> string \<Rightarrow> 'rd) \<Rightarrow> string \<Rightarrow> int \<Rightarrow> int \<Rightarrow> string \<Rightarrow> string \<Rightarrow> string \<Rightarrow> string \<Rightarrow> int \<Rightarrow> 'rd DNSRecord" where
  "NAPTR_create cls name order preference flags service regexp replacement ttl = DNSRecord_of name RT_NAPTR (cls order preference flags service regexp replacement) ttl"

definition DS_create ::
  "(int \<Rightarrow> int \<Rightarrow> int \<Rightarrow> string \<Rightarrow> 'rd) \<Rightarrow> string \<Rightarrow> int \<Rightarrow> int \<Rightarrow> int \<Rightarrow> string \<Rightarrow> int \<Rightarrow> 'rd DNSRecord" where
  "DS_create cls name key_tag algorithm digest_type digest ttl = DNSRecord_of name RT_DS (cls key_tag algorithm digest_type digest) ttl"

definition DNSKEY_create ::
  "(int \<Rightarrow> int \<Rightarrow> int \<Rightarrow> string \<Rightarrow> 'rd) \<Rightarrow> string \<Rightarrow> int \<Rightarrow> int \<Rightarrow> int \<Rightarrow> string \<Rightarrow> int \<Rightarrow> 'rd DNSRecord" where
  "DNSKEY_create cls name flags protocol algorithm key ttl = DNSRecord_of name RT_DNSKEY (cls flags protocol algorithm key) ttl"

definition RRSIG_create ::
  "(int \<Rightarrow> int \<Rightarrow> int \<Rightarrow> int \<Rightarrow> int \<Rightarrow> int \<Rightarrow> int \<Rightarrow> string \<Rightarrow> string \<Rightarrow> 'rd) \<Rightarrow> string \<Rightarrow> int \<Rightarrow> int \<Rightarrow> int \<Rightarrow> int \<Rightarrow> int \<Rightarrow> int \<Rightarrow> int \<Rightarrow> string \<Rightarrow> string \<Rightarrow> int \<Rightarrow> 'rd DNSRecord" where
  "RRSIG_create cls name type_covered algorithm labels original_ttl expiration inception key_tag signer signature ttl = DNSRecord_of name RT_RRSIG (cls type_covered algorithm labels original_ttl expiration inception key_tag signer signature) ttl"

definition NSEC_create ::
  "(string \<Rightarrow> int list \<Rightarrow> 'rd) \<Rightarrow> string \<Rightarrow> string \<Rightarrow> int list \<Rightarrow> int \<Rightarrow> 'rd DNSRecord" where
  "NSEC_create cls name next_domain rrtypes ttl = DNSRecord_of name RT_NSEC (cls next_domain rrtypes) ttl"

definition HTTPS_create ::
  "(int \<Rightarrow> string \<Rightarrow> string list \<Rightarrow> 'rd) \<Rightarrow> string \<Rightarrow> int \<Rightarrow> string \<Rightarrow> string list \<Rightarrow> int \<Rightarrow> 'rd DNSRecord" where
  "HTTPS_create cls name priority target params ttl = DNSRecord_of name RT_HTTPS (cls priority target params) ttl"

definition LOC_create ::
  "(number \<Rightarrow> number \<Rightarrow> number \<Rightarrow> number \<Rightarrow> number \<Rightarrow> number \<Rightarrow> 'rd) \<Rightarrow> string \<Rightarrow> number \<Rightarrow> number \<Rightarrow> number \<Rightarrow> number \<Rightarrow> number \<Rightarrow> number \<Rightarrow> int \<Rightarrow> 'rd DNSRecord" where
  "LOC_create cls name latitude longitude altitude size' h_precision v_precision ttl = DNSRecord_of name RT_LOC (cls latitude longitude altitude size' h_precision v_precision) ttl"

definition RP_create ::
  "(string \<Rightarrow> string \<Rightarrow> 'rd) \<Rightarrow> string \<Rightarrow> string \<Rightarrow> string \<Rightarrow> int \<Rightarrow> 'rd DNSRecord" where
  "RP_create cls name mbox txt ttl = DNSRecord_of name RT_RP (cls mbox txt) ttl"

definition TLSA_create ::
  "(int \<Rightarrow> int \<Rightarrow> int \<Rightarrow> string \<Rightarrow> 'rd) \<Rightarrow> string \<Rightarrow> int \<Rightarrow> int \<Rightarrow> int \<Rightarrow> string \<Rightarrow> int \<Rightarrow> 'rd DNSRecord" where
  "TLSA_create cls name usage selector mtype cert ttl = DNSRecord_of name RT_TLSA (cls usage selector mtype cert) ttl"

definition SSHFP_create ::
  "(int \<Rightarrow> int \<Rightarrow> string \<Rightarrow> 'rd) \<Rightarrow> string \<Rightarrow> int \<Rightarrow> int \<Rightarrow> string \<Rightarrow> int \<Rightarrow> 'rd DNSRecord" where
  "SSHFP_create cls name algorithm fptype fingerprint ttl = DNSRecord_of name RT_SSHFP (cls algorithm fptype fingerprint) ttl"

lemmas create_defs = RDLabel_create_def CNAME_create_def NS_create_def PTR_create_def
  DNAME_create_def A_create_def AAAA_create_def MX_create_def TXT_create_def SOA_create_def
  SRV_create_def CAA_create_def NAPTR_create_def DS_create_def DNSKEY_create_def
  RRSIG_create_def NSEC_create_def HTTPS_create_def LOC_create_def RP_create_def
  TLSA_create_def SSHFP_create_def DNSRecord_of_def

section \<open>Lemmas\<close>

lemma record_types_complete [simp]: "t \<in> set record_types"
  by (cases t) (simp_all add: record_types_def)

lemma record_types_numbers_distinct: "distinct (map rtype_value record_types)"
  by (simp add: record_types_def)

lemma rtype_value_inject [simp]: "rtype_value a = rtype_value b \<longleftrightarrow> a = b"
  using record_types_numbers_distinct record_types_complete
  by (metis distinct_map inj_onD)

lemma RecordType_of_Inr_iff: "RecordType_of v = Inr t \<longleftrightarrow> v = rtype_value t"
proof
  assume "RecordType_of v = Inr t"
  then obtain ts where "filter (\<lambda>t. rtype_value t = v) record_types = t # ts"
    by (auto simp: RecordType_of_def split: list.splits)
  then have "t \<in> set (filter (\<lambda>t. rtype_value t = v) record_types)"
    by (metis list.set_intros(1))
  then show "v = rtype_value t" by simp
next
  assume v: "v = rtype_value t"
  then have "t \<in> set (filter (\<lambda>u. rtype_value u = v) record_types)" by simp
  then obtain u us where f: "filter (\<lambda>u. rtype_value u = v) record_types = u # us"
    by (cases "filter (\<lambda>u. rtype_value u = v) record_types") auto
  then have "u \<in> set (filter (\<lambda>u. rtype_value u = v) record_types)" by simp
  with v have "u = t" by simp
  with f show "RecordType_of v = Inr t" by (simp add: RecordType_of_def)
qed

lemma RecordType_of_value [simp]: "RecordType_of (rtype_value t) = Inr t"
  by (simp add: RecordType_of_Inr_iff)

lemma RecordType_of_Inl_iff:
  "(\<exists>e. RecordType_of v = Inl e) \<longleftrightarrow> v \<notin> range rtype_value"
  using RecordType_of_Inr_iff [of v] by (cases "RecordType_of v") auto

lemma rec_eq_refl [simp]: "rec_eq a a"
  by (simp add: rec_eq_def)

lemma rec_eq_sym: "rec_eq a b \<Longrightarrow> rec_eq b a"
  by (simp add: rec_eq_def)

lemma rec_eq_trans: "rec_eq a b \<Longrightarrow> rec_eq b c \<Longrightarrow> rec_eq a c"
  by (simp add: rec_eq_def)

text \<open>Equal records have equal hashes, or both raise.\<close>

lemma rec_hash_eq: "rec_eq a b \<Longrightarrow> rec_hash th rh a = rec_hash th rh b"
  by (simp add: rec_eq_def rec_hash_def)

end
