(* ===== verification/DnsZone.thy ===== *)
theory DnsZone
  imports DnsRecords
begin

text \<open>
  The zones of \<^verbatim>\<open>aiomisc/service/dns/zone.py\<close>. A zone maps a name and a record type to a
  Python set of records; that set compares its members with the equality of the dataclass,
  which ignores the ttl, so it is a list without two equal members. A method that can
  raise returns its outcome and the object after the call.
\<close>

section \<open>Python sets of records\<close>

definition set_add :: "'rd DNSRecord \<Rightarrow> 'rd DNSRecord list \<Rightarrow> 'rd DNSRecord list" where
  "set_add r rs = (if \<exists>q \<in> set rs. rec_eq q r then rs else rs @ [r])"

definition set_discard :: "'rd DNSRecord \<Rightarrow> 'rd DNSRecord list \<Rightarrow> 'rd DNSRecord list" where
  "set_discard r rs = filter (\<lambda>q. \<not> rec_eq q r) rs"

section \<open>Zones\<close>

type_synonym 'rd records = "(string \<times> RecordType) \<Rightarrow> 'rd DNSRecord list option"

record 'rd DNSZone =
  zone_name :: string
  zone_records :: "'rd records"

definition with_dot :: "string \<Rightarrow> string" where
  "with_dot name = (if py_endswith name ''.'' then name else name @ ''.'')"

definition check_record :: "'rd DNSZone \<Rightarrow> 'rd DNSRecord \<Rightarrow> bool" where
  "check_record z r \<longleftrightarrow> py_endswith (rec_name r) (zone_name z)"

text \<open>\<^verbatim>\<open>self.records[key].add(record)\<close> on a \<^verbatim>\<open>defaultdict(set)\<close>.\<close>

definition records_add :: "'rd DNSRecord \<Rightarrow> 'rd records \<Rightarrow> 'rd records" where
  "records_add r m =
     (let key = (rec_name r, rec_type r)
      in m(key \<mapsto> set_add r (case m key of None \<Rightarrow> [] | Some rs \<Rightarrow> rs)))"

definition not_in_zone :: "'rd DNSZone \<Rightarrow> 'rd DNSRecord \<Rightarrow> pyexc" where
  "not_in_zone z r =
     ValueError (''Record '' @ rec_name r @ '' does not belong to zone '' @ zone_name z)"

definition add_record :: "'rd DNSZone \<Rightarrow> 'rd DNSRecord \<Rightarrow> unit result \<times> 'rd DNSZone" where
  "add_record z r =
     (if \<not> check_record z r then (Inl (not_in_zone z r), z)
      else (Inr (), z\<lparr>zone_records := records_add r (zone_records z)\<rparr>))"

text \<open>
  Adding to a Python set hashes the record. When the hash raises, the \<^verbatim>\<open>defaultdict\<close> has made the bucket
  already.
\<close>

definition hashing_add ::
  "('rd DNSRecord \<Rightarrow> int result) \<Rightarrow> 'rd DNSZone \<Rightarrow> 'rd DNSRecord \<Rightarrow> unit result \<times> 'rd DNSZone" where
  "hashing_add hash z r =
     (if \<not> check_record z r then (Inl (not_in_zone z r), z)
      else case hash r of
        Inl e \<Rightarrow>
          let key = (rec_name r, rec_type r)
          in (Inl e, z\<lparr>zone_records := (zone_records z)(key \<mapsto> case zone_records z key of None \<Rightarrow> [] | Some rs \<Rightarrow> rs)\<rparr>)
      | Inr _ \<Rightarrow> (Inr (), z\<lparr>zone_records := records_add r (zone_records z)\<rparr>))"

definition remove_record :: "'rd DNSZone \<Rightarrow> 'rd DNSRecord \<Rightarrow> 'rd DNSZone" where
  "remove_record z r =
     (let key = (rec_name r, rec_type r)
      in case zone_records z key of
           None \<Rightarrow> z
         | Some rs \<Rightarrow>
             (let rs' = set_discard r rs
              in if rs' \<noteq> [] then z\<lparr>zone_records := (zone_records z)(key \<mapsto> rs')\<rparr>
                 else z\<lparr>zone_records := (zone_records z)(key := None)\<rparr>))"

definition get_records :: "'rd DNSZone \<Rightarrow> string \<Rightarrow> RecordType \<Rightarrow> 'rd DNSRecord list" where
  "get_records z name ty =
     (case zone_records z (with_dot name, ty) of None \<Rightarrow> [] | Some rs \<Rightarrow> rs)"

text \<open>The loop of the constructor: the first record that does not belong raises.\<close>

fun add_records :: "'rd DNSZone \<Rightarrow> 'rd DNSRecord list \<Rightarrow> 'rd DNSZone result" where
  "add_records z [] = Inr z"
| "add_records z (r # rs) =
     (case add_record z r of (Inl e, _) \<Rightarrow> Inl e | (Inr _, z') \<Rightarrow> add_records z' rs)"

definition DNSZone_init :: "string \<Rightarrow> 'rd DNSRecord list \<Rightarrow> 'rd DNSZone result" where
  "DNSZone_init name rs =
     add_records \<lparr>zone_name = with_dot name, zone_records = (\<lambda>_. None)\<rparr> rs"

text \<open>\<^verbatim>\<open>replace\<close> builds the new dictionary first and assigns it at the end.\<close>

fun replace_loop ::
  "'rd DNSZone \<Rightarrow> 'rd DNSRecord list \<Rightarrow> 'rd records \<Rightarrow> 'rd records result" where
  "replace_loop z [] new_records = Inr new_records"
| "replace_loop z (r # rs) new_records =
     (if \<not> check_record z r then Inl (not_in_zone z r)
      else replace_loop z rs (records_add r new_records))"

definition zone_replace ::
  "'rd DNSZone \<Rightarrow> 'rd DNSRecord list \<Rightarrow> unit result \<times> 'rd DNSZone" where
  "zone_replace z rs =
     (case replace_loop z rs (\<lambda>_. None) of
        Inl e \<Rightarrow> (Inl e, z)
      | Inr new_records \<Rightarrow> (Inr (), z\<lparr>zone_records := new_records\<rparr>))"

section \<open>The invariant\<close>

definition no_equal_records :: "'rd DNSRecord list \<Rightarrow> bool" where
  "no_equal_records rs = sorted_wrt (\<lambda>a b. \<not> rec_eq a b) rs"

text \<open>
  Every bucket is a set of records of its own name and type that belong to the zone, and
  the name of the zone is absolute.
\<close>

definition records_ok :: "string \<Rightarrow> 'rd records \<Rightarrow> bool" where
  "records_ok zn m \<longleftrightarrow>
     (\<forall>n ty rs. m (n, ty) = Some rs \<longrightarrow>
        rs \<noteq> [] \<and> no_equal_records rs \<and>
        (\<forall>r \<in> set rs. rec_name r = n \<and> rec_type r = ty \<and> py_endswith n zn))"

definition zone_ok :: "'rd DNSZone \<Rightarrow> bool" where
  "zone_ok z \<longleftrightarrow> py_endswith (zone_name z) ''.'' \<and> records_ok (zone_name z) (zone_records z)"

text \<open>The content of a zone up to the equality of records.\<close>

definition records_has :: "'rd records \<Rightarrow> 'rd DNSRecord \<Rightarrow> bool" where
  "records_has m r \<longleftrightarrow>
     (case m (rec_name r, rec_type r) of None \<Rightarrow> False | Some rs \<Rightarrow> \<exists>q \<in> set rs. rec_eq q r)"

definition zone_has :: "'rd DNSZone \<Rightarrow> 'rd DNSRecord \<Rightarrow> bool" where
  "zone_has z r = records_has (zone_records z) r"

text \<open>The life of a zone: it is constructed and then changed by any sequence of calls.\<close>

definition zone_new :: "'rd DNSZone \<Rightarrow> bool" where
  "zone_new z \<longleftrightarrow> (\<exists>name rs. DNSZone_init name rs = Inr z)"

inductive zone_step :: "'rd DNSZone \<Rightarrow> 'rd DNSZone \<Rightarrow> bool" where
  zs_add: "add_record z r = (res, z') \<Longrightarrow> zone_step z z'"
| zs_remove: "zone_step z (remove_record z r)"
| zs_replace: "zone_replace z rs = (res, z') \<Longrightarrow> zone_step z z'"

section \<open>Lemmas\<close>

lemma with_dot_ends [simp]: "py_endswith (with_dot n) ''.''"
  by (auto simp: with_dot_def)

lemma with_dot_id [simp]: "py_endswith n ''.'' \<Longrightarrow> with_dot n = n"
  by (simp add: with_dot_def)

lemma with_dot_idem [simp]: "with_dot (with_dot n) = with_dot n"
  by (simp add: with_dot_def)

lemma no_equal_set_add: "no_equal_records rs \<Longrightarrow> no_equal_records (set_add r rs)"
  by (auto simp: no_equal_records_def set_add_def sorted_wrt_append)

lemma no_equal_discard: "no_equal_records rs \<Longrightarrow> no_equal_records (set_discard r rs)"
  by (simp add: no_equal_records_def set_discard_def sorted_wrt_filter)

lemma set_add_mem: "q \<in> set (set_add r rs) \<Longrightarrow> q = r \<or> q \<in> set rs"
  by (auto simp: set_add_def split: if_splits)

lemma set_add_has: "(\<exists>q \<in> set (set_add r rs). rec_eq q s) \<longleftrightarrow> rec_eq r s \<or> (\<exists>q \<in> set rs. rec_eq q s)"
  by (auto simp: set_add_def intro: rec_eq_trans rec_eq_sym)

lemma set_add_ne [simp]: "set_add r rs \<noteq> []"
  by (auto simp: set_add_def)

lemma set_discard_has:
  "(\<exists>q \<in> set (set_discard r rs). rec_eq q s) \<longleftrightarrow> \<not> rec_eq r s \<and> (\<exists>q \<in> set rs. rec_eq q s)"
  unfolding set_discard_def by (auto dest: rec_eq_sym rec_eq_trans) (metis rec_eq_sym rec_eq_trans)

lemma rec_eq_key: "rec_eq a b \<Longrightarrow> rec_name a = rec_name b \<and> rec_type a = rec_type b"
  by (simp add: rec_eq_def)

lemma records_ok_add:
  assumes "records_ok zn m" "py_endswith (rec_name r) zn"
  shows "records_ok zn (records_add r m)"
  using assms
  by (auto simp: records_ok_def records_add_def Let_def no_equal_set_add
      no_equal_records_def [of "[]"] split: if_splits option.splits
      dest!: set_add_mem)

lemma records_ok_empty [simp]: "records_ok zn (\<lambda>_. None)"
  by (simp add: records_ok_def)

lemma records_ok_upd:
  assumes "records_ok zn m" "m k = Some rs" "set rs' \<subseteq> set rs" "no_equal_records rs'" "rs' \<noteq> []"
  shows "records_ok zn (m(k \<mapsto> rs'))"
  using assms by (cases k) (auto simp: records_ok_def)

lemma records_ok_del: "records_ok zn m \<Longrightarrow> records_ok zn (m(k := None))"
  by (cases k) (auto simp: records_ok_def)

lemma add_record_ok: "zone_ok z \<Longrightarrow> add_record z r = (res, z') \<Longrightarrow> zone_ok z'"
  by (auto simp: add_record_def zone_ok_def check_record_def records_ok_add split: if_splits)

lemma add_records_ok: "zone_ok z \<Longrightarrow> add_records z rs = Inr z' \<Longrightarrow> zone_ok z'"
proof (induction z rs rule: add_records.induct)
  case (1 z)
  then show ?case by simp
next
  case (2 z r rs)
  then show ?case by (auto split: prod.splits sum.splits dest: add_record_ok)
qed

lemma add_records_name: "add_records z rs = Inr z' \<Longrightarrow> zone_name z' = zone_name z"
  by (induction z rs rule: add_records.induct)
    (auto simp: add_record_def split: prod.splits sum.splits if_splits)

lemma empty_zone_ok: "zone_ok \<lparr>zone_name = with_dot name, zone_records = (\<lambda>_. None)\<rparr>"
  by (simp add: zone_ok_def records_ok_def del: py_endswith_single)

lemma DNSZone_init_ok: "DNSZone_init name rs = Inr z \<Longrightarrow> zone_ok z \<and> zone_name z = with_dot name"
  unfolding DNSZone_init_def
  using add_records_ok [OF empty_zone_ok] add_records_name by fastforce

lemma remove_record_ok: "zone_ok z \<Longrightarrow> zone_ok (remove_record z r)"
proof -
  assume ok: "zone_ok z"
  show ?thesis
  proof (cases "zone_records z (rec_name r, rec_type r)")
    case None
    with ok show ?thesis by (simp add: remove_record_def)
  next
    case (Some rs)
    with ok have "no_equal_records rs" by (auto simp: zone_ok_def records_ok_def)
    then have ne: "no_equal_records (set_discard r rs)" by (rule no_equal_discard)
    have sub: "set (set_discard r rs) \<subseteq> set rs" by (auto simp: set_discard_def)
    show ?thesis
      using ok Some sub ne
      by (auto simp: remove_record_def Let_def zone_ok_def records_ok_del
          intro!: records_ok_upd [where rs = rs])
  qed
qed

lemma zone_step_name: "zone_step z z' \<Longrightarrow> zone_name z' = zone_name z"
  by (auto elim!: zone_step.cases simp: add_record_def remove_record_def zone_replace_def Let_def
      split: if_splits option.splits sum.splits)

lemma replace_loop_ok:
  "replace_loop z rs m = Inr m' \<Longrightarrow> records_ok (zone_name z) m \<Longrightarrow> records_ok (zone_name z) m'"
proof (induction z rs m rule: replace_loop.induct)
  case (1 z m)
  then show ?case by simp
next
  case (2 z r rs m)
  then show ?case by (auto simp: check_record_def records_ok_add split: if_splits)
qed

lemma zone_replace_ok: "zone_ok z \<Longrightarrow> zone_replace z rs = (res, z') \<Longrightarrow> zone_ok z'"
  by (auto simp: zone_replace_def zone_ok_def records_ok_empty
      split: sum.splits dest!: replace_loop_ok)

lemma replace_loop_Inr_iff:
  "(\<exists>m'. replace_loop z rs m = Inr m') \<longleftrightarrow> (\<forall>r \<in> set rs. check_record z r)"
  by (induction z rs m rule: replace_loop.induct) auto

lemma replace_loop_error: "replace_loop z rs m = Inl e \<Longrightarrow> \<exists>s. e = ValueError s"
  by (induction z rs m rule: replace_loop.induct) (auto simp: not_in_zone_def split: if_splits)

lemma records_has_add: "records_has (records_add r m) s \<longleftrightarrow> rec_eq r s \<or> records_has m s"
  by (auto simp: records_has_def records_add_def Let_def set_add_has dest: rec_eq_key
      split: option.splits)

lemma replace_loop_has:
  "replace_loop z rs m = Inr m' \<Longrightarrow>
   records_has m' s \<longleftrightarrow> records_has m s \<or> (\<exists>r \<in> set rs. rec_eq r s)"
proof (induction z rs m rule: replace_loop.induct)
  case (1 z m)
  then show ?case by simp
next
  case (2 z r rs m)
  then show ?case by (auto simp: records_has_add split: if_splits)
qed


lemma records_has_del:
  assumes "m (rec_name r, rec_type r) = Some rs"
  shows "records_has (m((rec_name r, rec_type r) :=
           (if set_discard r rs = [] then None else Some (set_discard r rs)))) s
         \<longleftrightarrow> records_has m s \<and> \<not> rec_eq r s"
proof (cases "(rec_name s, rec_type s) = (rec_name r, rec_type r)")
  case True
  then show ?thesis
    using assms set_discard_has [of r rs s] by (auto simp: records_has_def)
next
  case False
  then have "\<not> rec_eq r s" by (auto simp: rec_eq_def)
  with False show ?thesis by (auto simp: records_has_def)
qed

lemma remove_record_has: "zone_has (remove_record z r) s \<longleftrightarrow> zone_has z s \<and> \<not> rec_eq r s"
proof (cases "zone_records z (rec_name r, rec_type r)")
  case None
  then have "\<not> (zone_has z s \<and> rec_eq r s)"
    by (auto simp: zone_has_def records_has_def rec_eq_def)
  with None show ?thesis by (auto simp: remove_record_def)
next
  case (Some rs)
  from records_has_del [of "zone_records z" r rs s, OF Some] show ?thesis
    using Some by (auto simp: remove_record_def zone_has_def Let_def split: if_splits)
qed

lemma add_record_has:
  "zone_has (snd (add_record z r)) s \<longleftrightarrow> zone_has z s \<or> (check_record z r \<and> rec_eq r s)"
  by (auto simp: add_record_def zone_has_def records_has_add)

interpretation zone: invariant_system zone_new zone_step zone_ok
proof unfold_locales
  fix z :: "'a DNSZone"
  assume "zone_new z"
  then show "zone_ok z" by (auto simp: zone_new_def dest: DNSZone_init_ok)
next
  fix z z' :: "'a DNSZone"
  assume "zone_ok z" "zone_step z z'"
  then show "zone_ok z'"
    by (auto elim!: zone_step.cases intro: add_record_ok remove_record_ok zone_replace_ok)
qed

lemma zone_ok_stored:
  assumes "zone_ok z" "zone_has z r"
  shows "py_endswith (rec_name r) ''.''"
proof -
  from assms(2) obtain rs q where rs: "zone_records z (rec_name r, rec_type r) = Some rs"
    "q \<in> set rs" by (auto simp: zone_has_def records_has_def split: option.splits)
  with assms(1) have "py_endswith (rec_name r) (zone_name z)"
    unfolding zone_ok_def records_ok_def by blast
  with assms(1) show ?thesis unfolding zone_ok_def by (blast intro: py_endswith_trans)
qed

lemma get_records_has:
  assumes "py_endswith (rec_name r) ''.''"
  shows "zone_has z r \<longleftrightarrow> (\<exists>q \<in> set (get_records z (rec_name r) (rec_type r)). rec_eq q r)"
  unfolding get_records_def with_dot_id [OF assms]
  by (auto simp: zone_has_def records_has_def split: option.splits)

lemma get_records_member:
  assumes "zone_ok z" "r \<in> set (get_records z name ty)"
  shows "rec_name r = with_dot name \<and> rec_type r = ty \<and> check_record z r"
proof -
  from assms(2) obtain rs where "zone_records z (with_dot name, ty) = Some rs" "r \<in> set rs"
    by (cases "zone_records z (with_dot name, ty)") (auto simp: get_records_def)
  with assms(1) have "rec_name r = with_dot name \<and> rec_type r = ty \<and>
      py_endswith (with_dot name) (zone_name z)"
    unfolding zone_ok_def records_ok_def by blast
  then show ?thesis by (simp add: check_record_def)
qed

section \<open>Properties\<close>

text \<open>
  C3. Whatever sequence of additions, removals and replacements of records that can be hashed a zone
  goes through after its construction, with calls that raise included, every bucket of the zone holds a
  non-empty set of records of exactly its name and type, no two of them equal, and every
  record name ends with the absolute name of the zone.
\<close>

theorem zone_well_formed:
  "reachable zone_new zone_step z \<Longrightarrow> zone_ok z"
  by (rule zone.reachable_inv)

text \<open>A zone with a record, after a record that does not belong to it was refused.\<close>

theorem zone_well_formed_witness:
  "\<exists>z z' :: nat DNSZone. DNSZone_init ''a'' [A_create length ''x.a.'' ''ip'' 60] = Inr z \<and>
     add_record z (A_create length ''x.b.'' ''ip'' 60) = (Inl (ValueError ''Record x.b. does not belong to zone a.''), z') \<and>
     zone_records z' (''x.a.'', RT_A) = Some [A_create length ''x.a.'' ''ip'' 60] \<and> zone_ok z'"
proof -
  let ?r = "A_create length ''x.a.'' ''ip'' 60"
  let ?z = "\<lparr>zone_name = ''a.'', zone_records = [(''x.a.'', RT_A) \<mapsto> [?r]]\<rparr> :: nat DNSZone"
  have z: "DNSZone_init ''a'' [?r] = Inr ?z"
    by (simp add: DNSZone_init_def with_dot_def add_record_def check_record_def py_endswith_def
        records_add_def set_add_def create_defs Let_def)
  then have "reachable zone_new zone_step ?z" unfolding zone_new_def by (intro reach_init) blast
  moreover have add: "add_record ?z (A_create length ''x.b.'' ''ip'' 60) =
      (Inl (ValueError ''Record x.b. does not belong to zone a.''), ?z)"
    by (simp add: add_record_def check_record_def py_endswith_def not_in_zone_def create_defs)
  ultimately have "zone_ok ?z" by (intro zone_well_formed) (rule reach_step, assumption, rule zs_add)
  with z add show ?thesis by (intro exI [of _ ?z]) simp
qed

text \<open>
  A zone behaves as a set of records up to their equality: adding a record that belongs
  to the zone inserts exactly that record, adding any other record changes nothing, and
  removing a record removes exactly it.
\<close>

theorem zone_content:
  "zone_has (snd (add_record z r)) s = (zone_has z s \<or> (check_record z r \<and> rec_eq r s)) \<and>
   zone_has (remove_record z r) s = (zone_has z s \<and> \<not> rec_eq r s) \<and>
   (fst (add_record z r) = Inr ()) = check_record z r"
  by (simp add: add_record_has remove_record_has) (simp add: add_record_def)

text \<open>
  In every reachable zone \<^verbatim>\<open>get_records\<close> returns only records of the requested name
  (made absolute) and type, without duplicates, and it finds every record of the zone
  under the record's own name and type.
\<close>

theorem get_records_sound_complete:
  assumes "reachable zone_new zone_step z"
  shows "no_equal_records (get_records z name ty) \<and>
    (\<forall>r. r \<in> set (get_records z name ty) \<longrightarrow>
       rec_name r = with_dot name \<and> rec_type r = ty \<and> check_record z r) \<and>
    (zone_has z r \<longrightarrow> (\<exists>q \<in> set (get_records z (rec_name r) (rec_type r)). rec_eq q r))"
proof -
  have ok: "zone_ok z" using assms by (rule zone.reachable_inv)
  have dup: "no_equal_records (get_records z name ty)"
    using ok by (auto simp: get_records_def zone_ok_def records_ok_def no_equal_records_def [of "[]"]
        split: option.splits)
  have sound: "rec_name r = with_dot name \<and> rec_type r = ty \<and> check_record z r"
    if "r \<in> set (get_records z name ty)" for r
    using that get_records_member [OF ok] by blast
  have complete: "zone_has z r \<longrightarrow> (\<exists>q \<in> set (get_records z (rec_name r) (rec_type r)). rec_eq q r)"
    using get_records_has [of r z] zone_ok_stored [OF ok] by blast
  from dup sound complete show ?thesis by blast
qed

theorem get_records_sound_complete_witness:
  "\<exists>z :: nat DNSZone. DNSZone_init ''a'' [A_create length ''x.a.'' ''ip'' 60] = Inr z \<and>
     get_records z ''x.a'' RT_A = [A_create length ''x.a.'' ''ip'' 60] \<and>
     no_equal_records (get_records z ''x.a'' RT_A)"
proof -
  let ?r = "A_create length ''x.a.'' ''ip'' 60"
  let ?z = "\<lparr>zone_name = ''a.'', zone_records = [(''x.a.'', RT_A) \<mapsto> [?r]]\<rparr> :: nat DNSZone"
  have z: "DNSZone_init ''a'' [?r] = Inr ?z"
    by (simp add: DNSZone_init_def with_dot_def add_record_def check_record_def py_endswith_def
        records_add_def set_add_def create_defs Let_def)
  then have "zone_new ?z" unfolding zone_new_def by blast
  then have "reachable zone_new zone_step ?z" by (rule reach_init)
  from get_records_sound_complete [OF this, of "''x.a''" RT_A] z show ?thesis
    by (intro exI [of _ ?z]) (simp add: get_records_def with_dot_def)
qed

text \<open>
  \<^verbatim>\<open>DNSZone.replace\<close> is atomic: when every given record belongs to the zone the call
  returns and the zone then holds exactly the given records; otherwise it raises
  \<^verbatim>\<open>ValueError\<close> and the zone is the same as before.
\<close>

theorem zone_replace_atomic:
  "(if \<forall>r \<in> set rs. check_record z r
    then fst (zone_replace z rs) = Inr () \<and> zone_name (snd (zone_replace z rs)) = zone_name z \<and>
         (\<forall>s. zone_has (snd (zone_replace z rs)) s = (\<exists>r \<in> set rs. rec_eq r s))
    else (\<exists>m. fst (zone_replace z rs) = Inl (ValueError m)) \<and> snd (zone_replace z rs) = z)"
proof (cases "replace_loop z rs (\<lambda>_. None)")
  case (Inl e)
  then have bad: "\<not> (\<forall>r \<in> set rs. check_record z r)"
    using replace_loop_Inr_iff [of z rs "\<lambda>_. None"] by auto
  from Inl have "\<exists>s. e = ValueError s" by (rule replace_loop_error)
  with Inl bad show ?thesis by (auto simp: zone_replace_def)
next
  case (Inr m)
  then have good: "\<forall>r \<in> set rs. check_record z r"
    using replace_loop_Inr_iff [of z rs "\<lambda>_. None"] by auto
  have "records_has m s = (\<exists>r \<in> set rs. rec_eq r s)" for s
    using replace_loop_has [OF Inr, of s] by (simp add: records_has_def)
  with Inr good show ?thesis by (simp add: zone_replace_def zone_has_def)
qed

theorem zone_replace_atomic_witness:
  "fst (zone_replace \<lparr>zone_name = ''a.'', zone_records = (\<lambda>_. None)\<rparr>
      [A_create length ''x.a.'' ''ip'' 60]) = Inr ()"
  using zone_replace_atomic [of "[A_create length ''x.a.'' ''ip'' 60]"
      "\<lparr>zone_name = ''a.'', zone_records = (\<lambda>_. None)\<rparr>"]
  by (simp add: check_record_def py_endswith_def create_defs split: if_splits)

text \<open>
  The membership test compares characters and not labels: a name of an unrelated domain
  that merely ends with the same characters is accepted.
\<close>

lemma check_record_ignores_labels:
  "check_record \<lparr>zone_name = ''example.com.'', zone_records = (\<lambda>_. None)\<rparr>
     (A_create length ''notexample.com.'' ''ip'' 60)"
  by (simp add: check_record_def py_endswith_def create_defs)

text \<open>
  Records that can be hashed are added as above. A record whose hash raises is not added, and the zone
  answers as before, but an empty bucket may be left under its key.
\<close>

theorem unhashable_record:
  "(\<forall>h. hash r = Inr h \<longrightarrow> hashing_add hash z r = add_record z r) \<and>
   (\<forall>e. hash r = Inl e \<longrightarrow> check_record z r \<longrightarrow>
      fst (hashing_add hash z r) = Inl e \<and>
      (\<forall>name ty. get_records (snd (hashing_add hash z r)) name ty = get_records z name ty) \<and>
      (zone_records z (rec_name r, rec_type r) = None \<longrightarrow>
         zone_records (snd (hashing_add hash z r)) (rec_name r, rec_type r) = Some [] \<and>
         \<not> zone_ok (snd (hashing_add hash z r))))"
  by (auto simp: hashing_add_def add_record_def get_records_def zone_ok_def records_ok_def Let_def
      split: option.splits)

end
