(* ===== verification/DnsStore.thy ===== *)
theory DnsStore
  imports DnsTree DnsZone
begin

text \<open>
  The zone store of \<^verbatim>\<open>aiomisc/service/dns/store.py\<close>: zones in the radix tree under the
  reversed labels of their names, and the query that walks the tree. The store uses the
  tree only through its keyed-store interface, except for the longest-prefix search of
  \<^verbatim>\<open>query\<close>. A zone can still be changed by whoever holds it after it was added, which is a
  step of the store's transition system.
\<close>

section \<open>Operations\<close>

record 'rd DNSStore =
  zones :: "(string, 'rd DNSZone) RadixNode"

definition DNSStore_init :: "'rd DNSStore" where
  "DNSStore_init = \<lparr>zones = new_node\<rparr>"

definition get_reverse_tuple :: "string \<Rightarrow> string list" where
  "get_reverse_tuple zn = rev (py_split CHR ''.'' (py_strip CHR ''.'' zn))"

definition add_zone :: "'rd DNSStore \<Rightarrow> 'rd DNSZone \<Rightarrow> unit result \<times> 'rd DNSStore" where
  "add_zone s z =
     (let zone_tuple = get_reverse_tuple (zone_name z)
      in if tree_search (zones s) zone_tuple \<noteq> None
         then (Inl (ValueError (''Zone '' @ zone_name z @ '' already exists.'')), s)
         else (Inr (), s\<lparr>zones := tree_insert zone_tuple (Some z) (zones s)\<rparr>))"

definition remove_zone :: "'rd DNSStore \<Rightarrow> string \<Rightarrow> unit result \<times> 'rd DNSStore" where
  "remove_zone s zn =
     (let zone_tuple = get_reverse_tuple zn
      in if tree_search (zones s) zone_tuple = None
         then (Inl (ValueError (''Zone '' @ zn @ '' does not exist.'')), s)
         else (Inr (), s\<lparr>zones := tree_insert zone_tuple None (zones s)\<rparr>))"

definition get_zone :: "'rd DNSStore \<Rightarrow> string \<Rightarrow> 'rd DNSZone option" where
  "get_zone s zn = tree_search (zones s) (get_reverse_tuple zn)"

definition get_zone_for_name :: "'rd DNSStore \<Rightarrow> string \<Rightarrow> string list option" where
  "get_zone_for_name s name =
     (case find_prefix (zones s) (get_reverse_tuple name) of
        None \<Rightarrow> None
      | Some (path, _) \<Rightarrow> Some path)"

text \<open>An empty tuple is falsy, so it counts as no zone, as \<^const>\<open>None\<close> does.\<close>

definition query :: "'rd DNSStore \<Rightarrow> string \<Rightarrow> RecordType \<Rightarrow> 'rd DNSRecord list" where
  "query s name ty =
     (let name = with_dot name
      in case get_zone_for_name s name of
           None \<Rightarrow> []
         | Some zone_tuple \<Rightarrow>
             if zone_tuple = [] then []
             else case tree_search (zones s) zone_tuple of
                    None \<Rightarrow> []
                  | Some z \<Rightarrow> get_records z name ty)"

text \<open>The loop of \<^verbatim>\<open>replace\<close> over the items of the mapping, in its order.\<close>

fun replace_zones ::
  "(string \<times> 'rd DNSRecord list) list \<Rightarrow> (string, 'rd DNSZone) RadixNode \<Rightarrow>
   (string, 'rd DNSZone) RadixNode result" where
  "replace_zones [] new_zones = Inr new_zones"
| "replace_zones ((zn, rs) # zs) new_zones =
     (case DNSZone_init zn rs of
        Inl e \<Rightarrow> Inl e
      | Inr z \<Rightarrow> replace_zones zs
          (tree_insert (get_reverse_tuple (zone_name z)) (Some z) new_zones))"

definition store_replace ::
  "'rd DNSStore \<Rightarrow> (string \<times> 'rd DNSRecord list) list \<Rightarrow> unit result \<times> 'rd DNSStore" where
  "store_replace s zones_data =
     (case replace_zones zones_data new_node of
        Inl e \<Rightarrow> (Inl e, s)
      | Inr new_zones \<Rightarrow> (Inr (), s\<lparr>zones := new_zones\<rparr>))"

section \<open>The invariant\<close>

text \<open>Every zone is stored under the reversed labels of its own name and is well formed.\<close>

definition store_ok :: "'rd DNSStore \<Rightarrow> bool" where
  "store_ok s \<longleftrightarrow>
     (\<forall>k z. tree_search (zones s) k = Some z \<longrightarrow>
        k = get_reverse_tuple (zone_name z) \<and> zone_ok z)"

definition store_new :: "'rd DNSStore \<Rightarrow> bool" where
  "store_new s \<longleftrightarrow> s = DNSStore_init"

inductive store_step :: "'rd DNSStore \<Rightarrow> 'rd DNSStore \<Rightarrow> bool" where
  ss_add: "zone_ok z \<Longrightarrow> add_zone s z = (res, s') \<Longrightarrow> store_step s s'"
| ss_remove: "remove_zone s zn = (res, s') \<Longrightarrow> store_step s s'"
| ss_replace: "store_replace s zs = (res, s') \<Longrightarrow> store_step s s'"
| ss_zone: "tree_search (zones s) k = Some z \<Longrightarrow> zone_step z z' \<Longrightarrow>
     store_step s (s\<lparr>zones := tree_insert k (Some z') (zones s)\<rparr>)"

section \<open>Lemmas\<close>

lemma get_reverse_tuple_ne [simp]: "get_reverse_tuple zn \<noteq> []"
  by (simp add: get_reverse_tuple_def)

lemma get_reverse_tuple_dot [simp]: "get_reverse_tuple (with_dot zn) = get_reverse_tuple zn"
  by (simp add: get_reverse_tuple_def with_dot_def)

lemma store_ok_insert:
  assumes "store_ok s" "zone_ok z" "k = get_reverse_tuple (zone_name z)"
  shows "store_ok (s\<lparr>zones := tree_insert k (Some z) (zones s)\<rparr>)"
  using assms by (auto simp: store_ok_def tree.lookup_update split: if_splits)

lemma replace_zones_ok:
  "replace_zones zs t = Inr t' \<Longrightarrow> store_ok (s\<lparr>zones := t\<rparr>) \<Longrightarrow> store_ok (s\<lparr>zones := t'\<rparr>)"
proof (induction zs t rule: replace_zones.induct)
  case (1 t)
  then show ?case by simp
next
  case (2 zn rs zs t)
  then obtain z where z: "DNSZone_init zn rs = Inr z"
    and rest: "replace_zones zs (tree_insert (get_reverse_tuple (zone_name z)) (Some z) t) = Inr t'"
    by (auto split: sum.splits)
  from DNSZone_init_ok [OF z] 2(3)
  have "store_ok (s\<lparr>zones := tree_insert (get_reverse_tuple (zone_name z)) (Some z) t\<rparr>)"
    using store_ok_insert [of "s\<lparr>zones := t\<rparr>" z] by simp
  with 2(1) [OF z rest] show ?case by simp
qed

lemma store_ok_new: "store_ok (s\<lparr>zones := new_node\<rparr>)"
  by (simp add: store_ok_def)

interpretation store: invariant_system store_new store_step store_ok
proof unfold_locales
  fix s :: "'a DNSStore"
  assume "store_new s"
  then show "store_ok s" by (simp add: store_new_def DNSStore_init_def store_ok_def)
next
  fix s s' :: "'a DNSStore"
  assume ok: "store_ok s" and "store_step s s'"
  from this(2) show "store_ok s'"
  proof cases
    case (ss_add z res)
    with ok show ?thesis
      by (auto simp: add_zone_def Let_def store_ok_insert split: if_splits)
  next
    case (ss_remove zn res)
    with ok show ?thesis
      by (auto simp: remove_zone_def Let_def store_ok_def tree.lookup_update split: if_splits)
  next
    case (ss_replace zs res)
    with ok show ?thesis
      by (auto simp: store_replace_def split: sum.splits intro: replace_zones_ok store_ok_new)
  next
    case (ss_zone k z z')
    with ok have "zone_ok z" "k = get_reverse_tuple (zone_name z)" by (auto simp: store_ok_def)
    with ss_zone ok show ?thesis
      by (simp add: store_ok_insert zone_step_name zone.step_inv)
  qed
qed

lemma reachable_store_init: "reachable store_new store_step DNSStore_init"
  by (rule reach_init) (simp add: store_new_def)

lemma reachable_add_zone:
  assumes "reachable store_new store_step s" "zone_ok z"
  shows "reachable store_new store_step (snd (add_zone s z))"
  using assms(1) ss_add [OF assms(2) surjective_pairing] by (rule reach_step)

lemma replace_zones_search:
  "replace_zones zs t = Inr t' \<Longrightarrow>
   tree_search t' k =
     or_else
       (map_of (rev (map (\<lambda>(zn, rs). (get_reverse_tuple zn, projr (DNSZone_init zn rs))) zs)) k)
       (tree_search t k)"
proof (induction zs t rule: replace_zones.induct)
  case (1 t)
  then show ?case by simp
next
  case (2 zn rs zs t)
  then obtain z where z: "DNSZone_init zn rs = Inr z"
    and rest: "replace_zones zs (tree_insert (get_reverse_tuple (zone_name z)) (Some z) t) = Inr t'"
    by (auto split: sum.splits)
  from DNSZone_init_ok [OF z] have "get_reverse_tuple (zone_name z) = get_reverse_tuple zn"
    by simp
  with 2(1) [OF z rest] z show ?case
    by (simp add: tree.lookup_update map_add_def or_else_def split: option.splits)
qed

lemma replace_zones_error:
  "(\<exists>t'. replace_zones zs t = Inr t') \<longleftrightarrow> (\<forall>(zn, rs) \<in> set zs. \<exists>z. DNSZone_init zn rs = Inr z)"
  by (induction zs t rule: replace_zones.induct) (auto split: sum.splits)

lemma query_eq:
  "query s name ty =
     (let labels = get_reverse_tuple name;
          node = take (walk_length (zones s) labels) labels
      in if node = [] \<or> longest_bound (tree_search (zones s)) labels (length labels) = None then []
         else case tree_search (zones s) node of None \<Rightarrow> [] | Some z \<Rightarrow> get_records z (with_dot name) ty)"
  by (auto simp: query_def get_zone_for_name_def find_prefix_eq Let_def split: option.splits)

lemma query_member:
  assumes "store_ok s" "r \<in> set (query s name ty)"
  shows "\<exists>z. tree_search (zones s) (get_reverse_tuple (zone_name z)) = Some z \<and> zone_ok z \<and>
     take (length (get_reverse_tuple (zone_name z))) (get_reverse_tuple name) =
       get_reverse_tuple (zone_name z) \<and>
     r \<in> set (get_records z (with_dot name) ty)"
proof -
  let ?labels = "get_reverse_tuple name"
  let ?node = "take (walk_length (zones s) ?labels) ?labels"
  from assms(2) obtain z where z: "tree_search (zones s) ?node = Some z"
    "r \<in> set (get_records z (with_dot name) ty)"
    by (cases "tree_search (zones s) ?node") (auto simp: query_eq Let_def split: if_splits)
  from z(1) assms(1) have "?node = get_reverse_tuple (zone_name z)" "zone_ok z"
    by (auto simp: store_ok_def)
  moreover from this(1) have
    "length (get_reverse_tuple (zone_name z)) = walk_length (zones s) ?labels"
    by (metis length_take min_absorb2 walk_length_le)
  ultimately show ?thesis using z by metis
qed

lemma query_deepest:
  assumes "tree_search (zones s) k = Some z" "k \<noteq> []"
    and "take (length k) (get_reverse_tuple name) = k"
    and "walk_length (zones s) (get_reverse_tuple name) = length k"
  shows "query s name ty = get_records z (with_dot name) ty"
proof -
  let ?labels = "get_reverse_tuple name"
  have "longest_bound (tree_search (zones s)) ?labels (length ?labels) \<noteq> None"
    using assms(1,3) by (metis longest_bound_None_iff assms(4) walk_length_le option.distinct(1))
  with assms show ?thesis by (auto simp: query_eq Let_def)
qed

section \<open>Properties\<close>

lemma query_origin:
  assumes "store_ok s" "r \<in> set (query s name ty)"
  shows "rec_name r = with_dot name \<and> rec_type r = ty \<and>
    (\<exists>z. get_zone s (zone_name z) = Some z \<and> check_record z r \<and> zone_has z r \<and>
       take (length (get_reverse_tuple (zone_name z))) (get_reverse_tuple name) =
         get_reverse_tuple (zone_name z))"
proof -
  from query_member [OF assms] obtain z where
    z: "tree_search (zones s) (get_reverse_tuple (zone_name z)) = Some z" "zone_ok z"
      "take (length (get_reverse_tuple (zone_name z))) (get_reverse_tuple name) =
         get_reverse_tuple (zone_name z)"
      "r \<in> set (get_records z (with_dot name) ty)" by blast
  from get_records_member [OF z(2,4)] have
    m: "rec_name r = with_dot name" "rec_type r = ty" "check_record z r" by simp_all
  moreover have "zone_has z r"
    using get_records_has [of r z] z(4) m(1,2) by (metis rec_eq_refl with_dot_ends)
  ultimately show ?thesis using z by (auto simp: get_zone_def)
qed

text \<open>
  The key of a zone loses nothing but the dots at the ends of the name: joining the
  labels back gives the stripped name, so two names have the same key exactly when they are
  equal up to leading and trailing dots.
\<close>

lemma reverse_tuple_roundtrip:
  "py_join ''.'' (rev (get_reverse_tuple zn)) = py_strip CHR ''.'' zn \<and>
   (get_reverse_tuple zn = get_reverse_tuple zn') =
     (py_strip CHR ''.'' zn = py_strip CHR ''.'' zn')"
proof -
  have rt: "py_join ''.'' (rev (get_reverse_tuple zn)) = py_strip CHR ''.'' zn" for zn
    by (simp add: get_reverse_tuple_def py_join_split)
  show ?thesis using rt [of zn] rt [of zn'] by (metis get_reverse_tuple_def)
qed

section \<open>The abstract store\<close>

text \<open>
  What the store promises: a dictionary from names without their surrounding dots to zones.
  The calls of its users are the values of \<open>store_op\<close>, the outcome of a call an exception or
  what it returns (the zone or \<^const>\<open>None\<close>; the other operations return \<^const>\<open>None\<close>).
\<close>

datatype 'rd store_op =
  CallAdd "'rd DNSZone"
| CallRemove string
| CallGet string
| CallReplace "(string \<times> 'rd DNSRecord list) list"

abbreviation bare_name :: "string \<Rightarrow> string" where
  "bare_name \<equiv> py_strip CHR ''.''"

type_synonym 'rd zone_dict = "string \<rightharpoonup> 'rd DNSZone"

definition returns_none :: "unit result \<times> 's \<Rightarrow> 'z option result \<times> 's" where
  "returns_none rs = (case rs of (Inl e, s) \<Rightarrow> (Inl e, s) | (Inr _, s) \<Rightarrow> (Inr None, s))"

fun store_exec ::
  "'rd store_op \<Rightarrow> 'rd DNSStore \<Rightarrow> 'rd DNSZone option result \<times> 'rd DNSStore" where
  "store_exec (CallAdd z) s = returns_none (add_zone s z)"
| "store_exec (CallRemove zn) s = returns_none (remove_zone s zn)"
| "store_exec (CallGet zn) s = (Inr (get_zone s zn), s)"
| "store_exec (CallReplace zs) s = returns_none (store_replace s zs)"

text \<open>The dictionary a mapping describes, or the first exception of its zones.\<close>

fun dict_of :: "(string \<times> 'rd DNSRecord list) list \<Rightarrow> 'rd zone_dict \<Rightarrow> 'rd zone_dict result" where
  "dict_of [] m = Inr m"
| "dict_of ((zn, rs) # zs) m =
     bind_result (DNSZone_init zn rs) (\<lambda>z. dict_of zs (m(bare_name zn \<mapsto> z)))"

fun dict_exec ::
  "'rd store_op \<Rightarrow> 'rd zone_dict \<Rightarrow> 'rd DNSZone option result \<times> 'rd zone_dict" where
  "dict_exec (CallAdd z) m =
     (if bare_name (zone_name z) \<in> dom m
      then (Inl (ValueError (''Zone '' @ zone_name z @ '' already exists.'')), m)
      else (Inr None, m(bare_name (zone_name z) \<mapsto> z)))"
| "dict_exec (CallRemove zn) m =
     (if bare_name zn \<in> dom m then (Inr None, m(bare_name zn := None))
      else (Inl (ValueError (''Zone '' @ zn @ '' does not exist.'')), m))"
| "dict_exec (CallGet zn) m = (Inr (m (bare_name zn)), m)"
| "dict_exec (CallReplace zs) m =
     (case dict_of zs Map.empty of Inl e \<Rightarrow> (Inl e, m) | Inr m' \<Rightarrow> (Inr None, m'))"

definition tree_dict :: "(string, 'rd DNSZone) RadixNode \<Rightarrow> 'rd zone_dict" where
  "tree_dict t = (\<lambda>n. if bare_name n = n then tree_search t (get_reverse_tuple n) else None)"

definition store_dict :: "'rd DNSStore \<Rightarrow> 'rd zone_dict" where
  "store_dict s = tree_dict (zones s)"

lemma get_reverse_tuple_bare [simp]: "get_reverse_tuple (bare_name zn) = get_reverse_tuple zn"
  by (simp add: get_reverse_tuple_def)

lemma tree_dict_bare [simp]: "tree_dict t (bare_name zn) = tree_search t (get_reverse_tuple zn)"
  by (simp add: tree_dict_def)

lemma tree_dict_new [simp]: "tree_dict new_node = Map.empty"
  by (rule ext) (simp add: tree_dict_def tree.lookup_empty)

lemma store_dict_init [simp]: "store_dict DNSStore_init = Map.empty"
  by (simp add: store_dict_def DNSStore_init_def)

lemma tree_dict_insert:
  "tree_dict (tree_insert (get_reverse_tuple zn) v t) = (tree_dict t)(bare_name zn := v)"
proof (rule ext)
  fix n
  show "tree_dict (tree_insert (get_reverse_tuple zn) v t) n =
      ((tree_dict t)(bare_name zn := v)) n"
    using reverse_tuple_roundtrip [of n zn] by (auto simp: tree_dict_def tree.lookup_update)
qed

lemma replace_zones_dict:
  "dict_of zs (tree_dict t) =
     (case replace_zones zs t of Inl e \<Rightarrow> Inl e | Inr t' \<Rightarrow> Inr (tree_dict t'))"
proof (induction zs t rule: replace_zones.induct)
  case (1 t)
  then show ?case by simp
next
  case (2 zn rs zs t)
  show ?case
  proof (cases "DNSZone_init zn rs")
    case (Inl e)
    then show ?thesis by simp
  next
    case (Inr z)
    from DNSZone_init_ok [OF Inr] have "get_reverse_tuple (zone_name z) = get_reverse_tuple zn"
      by simp
    with 2 [OF Inr] Inr show ?thesis by (simp add: tree_dict_insert del: fun_upd_apply)
  qed
qed

lemma store_exec_refines: "dict_exec op (store_dict s) = apsnd store_dict (store_exec op s)"
proof (cases op)
  case (CallAdd z)
  then show ?thesis
    by (auto simp: add_zone_def returns_none_def store_dict_def tree_dict_insert Let_def dom_def)
next
  case (CallRemove zn)
  then show ?thesis
    by (auto simp: remove_zone_def returns_none_def store_dict_def tree_dict_insert Let_def dom_def)
next
  case (CallGet zn)
  then show ?thesis by (simp add: get_zone_def store_dict_def)
next
  case (CallReplace zs)
  then show ?thesis
    using replace_zones_dict [of zs new_node]
    by (auto simp: store_replace_def returns_none_def store_dict_def split: sum.splits)
qed

interpretation dict: functional_refinement store_exec dict_exec store_dict "\<lambda>_. True"
  by unfold_locales (simp_all add: store_exec_refines)

text \<open>
  C6. The store on the radix tree implements a dictionary of zones: whatever sequence of
  \<^verbatim>\<open>add_zone\<close>, \<^verbatim>\<open>remove_zone\<close>, \<^verbatim>\<open>get_zone\<close> and \<^verbatim>\<open>replace\<close> is called on a new store, every call
  returns or raises exactly what it does on a plain dictionary whose keys are the names without
  surrounding dots, and the final store answers as the final dictionary.
\<close>

theorem store_refines_dict:
  "fst (run_ops store_exec ops DNSStore_init) = fst (run_ops dict_exec ops Map.empty) \<and>
   get_zone (snd (run_ops store_exec ops DNSStore_init)) n =
     snd (run_ops dict_exec ops Map.empty) (bare_name n)"
proof -
  from dict.run_refines [of ops DNSStore_init]
  have "run_ops dict_exec ops Map.empty =
      apsnd store_dict (run_ops store_exec ops DNSStore_init)" by simp
  then show ?thesis by (simp add: get_zone_def store_dict_def)
qed

section \<open>Properties of the queries and of replace\<close>

text \<open>
  C7. In every reachable store an answer to a query comes from the right place: each
  returned record has the queried name (made absolute) and type, belongs to a zone that is
  in the store under its own name, and the labels of that zone end the queried name.
\<close>

theorem query_sound:
  assumes "reachable store_new store_step s" "r \<in> set (query s name ty)"
  shows "rec_name r = with_dot name \<and> rec_type r = ty \<and>
    (\<exists>z. get_zone s (zone_name z) = Some z \<and> check_record z r \<and> zone_has z r \<and>
       take (length (get_reverse_tuple (zone_name z))) (get_reverse_tuple name) =
         get_reverse_tuple (zone_name z))"
  using query_origin [OF store.reachable_inv [OF assms(1)] assms(2)] .

theorem query_sound_witness:
  "\<exists>s :: nat DNSStore. \<exists>r. query s ''x.a'' RT_A = [r] \<and> rec_name r = ''x.a.''"
proof -
  let ?r = "A_create length ''x.a.'' ''ip'' 60"
  let ?z = "\<lparr>zone_name = ''a.'', zone_records = [(''x.a.'', RT_A) \<mapsto> [?r]]\<rparr> :: nat DNSZone"
  let ?s = "snd (add_zone DNSStore_init ?z)"
  have "DNSZone_init ''a'' [?r] = Inr ?z"
    by (simp add: DNSZone_init_def with_dot_def add_record_def check_record_def py_endswith_def
        records_add_def set_add_def create_defs Let_def)
  then have "zone_ok ?z" using DNSZone_init_ok by blast
  then have reach: "reachable store_new store_step ?s"
    by (rule reachable_add_zone [OF reachable_store_init])
  have q: "query ?s ''x.a'' RT_A = [?r]"
    by (simp add: query_def get_zone_for_name_def find_prefix_def add_zone_def DNSStore_init_def
        new_node_def get_reverse_tuple_def py_strip_def with_dot_def get_records_def Let_def)
  then have "?r \<in> set (query ?s ''x.a'' RT_A)" by simp
  from query_sound [OF reach this] q show ?thesis by (auto simp: with_dot_def intro!: exI [of _ ?s])
qed

text \<open>
  A query reaches the zone that is responsible for the name whenever that zone is the
  deepest node of the tree on the way to the name: the answer is then exactly what
  \<^verbatim>\<open>get_records\<close> of that zone returns.
\<close>

theorem query_complete:
  assumes "get_zone s zn = Some z"
    and "take (length (get_reverse_tuple zn)) (get_reverse_tuple name) = get_reverse_tuple zn"
    and "walk_length (zones s) (get_reverse_tuple name) = length (get_reverse_tuple zn)"
  shows "query s name ty = get_records z (with_dot name) ty"
  using assms query_deepest [of s "get_reverse_tuple zn" z name ty] by (simp add: get_zone_def)

theorem query_complete_witness:
  "let z = \<lparr>zone_name = ''a.'', zone_records = (\<lambda>_. None)\<rparr> :: nat DNSZone
   in query (snd (add_zone DNSStore_init z)) ''x.a'' RT_A = get_records z ''x.a.'' RT_A"
proof -
  let ?z = "\<lparr>zone_name = ''a.'', zone_records = (\<lambda>_. None)\<rparr> :: nat DNSZone"
  let ?s = "snd (add_zone DNSStore_init ?z)"
  have "get_zone ?s ''a.'' = Some ?z"
    by (simp add: get_zone_def add_zone_def DNSStore_init_def Let_def tree.lookup_update)
  moreover have "take (length (get_reverse_tuple ''a.'')) (get_reverse_tuple ''x.a'') =
      get_reverse_tuple ''a.''"
    by (simp add: get_reverse_tuple_def py_strip_def)
  moreover have "walk_length (zones ?s) (get_reverse_tuple ''x.a'') = length (get_reverse_tuple ''a.'')"
    by (simp add: add_zone_def DNSStore_init_def new_node_def get_reverse_tuple_def py_strip_def Let_def)
  ultimately have "query ?s ''x.a'' RT_A = get_records ?z (with_dot ''x.a'') RT_A"
    by (rule query_complete)
  then show ?thesis by (simp add: with_dot_def)
qed

text \<open>
  The responsible zone can be missed: with the zones \<^verbatim>\<open>a.\<close> and \<^verbatim>\<open>z.b.a.\<close> in the store
  there is a node for \<^verbatim>\<open>b.a\<close> that is no zone, and a query for a name below it that is not
  below \<^verbatim>\<open>z.b.a\<close> returns nothing although the zone \<^verbatim>\<open>a.\<close> has the record.
\<close>

theorem query_misses_enclosing_zone:
  "\<exists>(s :: nat DNSStore) z r. reachable store_new store_step s \<and>
     get_zone s ''a.'' = Some z \<and> r \<in> set (get_records z ''x.b.a.'' RT_A) \<and>
     query s ''x.b.a.'' RT_A = []"
proof -
  let ?r = "A_create length ''x.b.a.'' ''ip'' 60"
  let ?z = "\<lparr>zone_name = ''a.'', zone_records = [(''x.b.a.'', RT_A) \<mapsto> [?r]]\<rparr> :: nat DNSZone"
  let ?y = "\<lparr>zone_name = ''z.b.a.'', zone_records = (\<lambda>_. None)\<rparr> :: nat DNSZone"
  let ?s1 = "snd (add_zone DNSStore_init ?z)"
  let ?s = "snd (add_zone ?s1 ?y)"
  have "DNSZone_init ''a'' [?r] = Inr ?z" "DNSZone_init ''z.b.a'' [] = Inr ?y"
    by (simp_all add: DNSZone_init_def with_dot_def add_record_def check_record_def py_endswith_def
        records_add_def set_add_def create_defs Let_def)
  then have ok: "zone_ok ?z" "zone_ok ?y" using DNSZone_init_ok by blast+
  have reach: "reachable store_new store_step ?s"
    by (intro reachable_add_zone reachable_store_init ok)
  have g: "get_zone ?s ''a.'' = Some ?z"
    by (simp add: get_zone_def add_zone_def DNSStore_init_def Let_def new_node_def
        get_reverse_tuple_def py_strip_def)
  have q: "query ?s ''x.b.a.'' RT_A = []"
    by (simp add: query_def get_zone_for_name_def find_prefix_def add_zone_def DNSStore_init_def
        new_node_def get_reverse_tuple_def py_strip_def with_dot_def Let_def)
  have "?r \<in> set (get_records ?z ''x.b.a.'' RT_A)" by (simp add: get_records_def with_dot_def)
  with reach g q show ?thesis by blast
qed

text \<open>
  \<^verbatim>\<open>DNSStore.replace\<close> is atomic: when every zone of the mapping can be built, the call
  returns and a lookup finds exactly the new zones, the last one where two names have the
  same labels; when one of them raises, the call raises and the store is the same as before.
\<close>

theorem store_replace_atomic:
  "(if \<forall>(zn, rs) \<in> set zs. \<exists>z. DNSZone_init zn rs = Inr z
    then fst (store_replace s zs) = Inr () \<and>
         (\<forall>n. get_zone (snd (store_replace s zs)) n =
            map_of (rev (map (\<lambda>(zn, rs). (get_reverse_tuple zn, projr (DNSZone_init zn rs))) zs))
              (get_reverse_tuple n))
    else (\<exists>e. fst (store_replace s zs) = Inl e) \<and> snd (store_replace s zs) = s)"
proof (cases "replace_zones zs (new_node :: (string, 'a DNSZone) RadixNode)")
  case (Inl e)
  then have "\<not> (\<forall>(zn, rs) \<in> set zs. \<exists>z. DNSZone_init zn rs = Inr z)"
    using replace_zones_error [of zs new_node] by auto
  with Inl show ?thesis by (simp add: store_replace_def)
next
  case (Inr t)
  then have "\<forall>(zn, rs) \<in> set zs. \<exists>z. DNSZone_init zn rs = Inr z"
    using replace_zones_error [of zs new_node] by auto
  moreover have "get_zone (snd (store_replace s zs)) n =
      map_of (rev (map (\<lambda>(zn, rs). (get_reverse_tuple zn, projr (DNSZone_init zn rs))) zs))
        (get_reverse_tuple n)" for n
    using replace_zones_search [OF Inr, of "get_reverse_tuple n"] Inr
    by (simp add: store_replace_def get_zone_def)
  ultimately show ?thesis using Inr by (simp add: store_replace_def)
qed

theorem store_replace_atomic_witness:
  "fst (store_replace (DNSStore_init :: nat DNSStore) [(''a'', [])]) = Inr ()"
proof -
  have "\<forall>(zn, rs) \<in> set [(''a'', [] :: nat DNSRecord list)]. \<exists>z. DNSZone_init zn rs = Inr z"
    by (simp add: DNSZone_init_def)
  with store_replace_atomic [of "[(''a'', [] :: nat DNSRecord list)]" DNSStore_init] show ?thesis
    by (simp split: if_splits)
qed

end
