(* ===== verification/Streams.thy ===== *)
theory Streams
  imports Prelude "HOL-Library.Word"
begin

text \<open>
  Bytes and byte streams as the network components use them: the unsigned big-endian
  integers of the \<^verbatim>\<open>struct\<close> module (\<^verbatim>\<open>!H\<close> and \<^verbatim>\<open>!L\<close>) and the reading side of a stream, whose
  bytes arrive in chunks. \<^verbatim>\<open>readexactly\<close> and \<^verbatim>\<open>read\<close> are those of
  \<^verbatim>\<open>asyncio.StreamReader\<close>; a reader without pending chunks is at the end of its input.
\<close>

section \<open>Big-endian integers\<close>

type_synonym byte = "8 word"
type_synonym bytes = "byte list"

definition struct_error :: pyexc where
  "struct_error = mk_exc [''struct.error'', ''Exception'', ''BaseException''] []"

text \<open>The low \<^verbatim>\<open>k\<close> bytes of a number, most significant first.\<close>

fun be_bytes :: "nat \<Rightarrow> nat \<Rightarrow> bytes" where
  "be_bytes 0 n = []"
| "be_bytes (Suc k) n = be_bytes k (n div 256) @ [word_of_nat (n mod 256)]"

definition be_value :: "bytes \<Rightarrow> nat" where
  "be_value bs = foldl (\<lambda>acc b. acc * 256 + unat b) 0 bs"

text \<open>\<^verbatim>\<open>Struct.pack\<close> of one unsigned field of \<^verbatim>\<open>k\<close> bytes: a number that does not fit raises.\<close>

definition struct_pack :: "nat \<Rightarrow> nat \<Rightarrow> bytes result" where
  "struct_pack k n = (if n < 256 ^ k then Inr (be_bytes k n) else Inl struct_error)"

definition struct_unpack :: "nat \<Rightarrow> bytes \<Rightarrow> nat result" where
  "struct_unpack k bs = (if length bs = k then Inr (be_value bs) else Inl struct_error)"

lemma be_bytes_length [simp]: "length (be_bytes k n) = k"
  by (induction k n rule: be_bytes.induct) auto

lemma be_value_snoc [simp]: "be_value (bs @ [b]) = be_value bs * 256 + unat b"
  by (simp add: be_value_def)

lemma be_value_Nil [simp]: "be_value [] = 0"
  by (simp add: be_value_def)

lemma unat_byte: "n < 256 \<Longrightarrow> unat (word_of_nat n :: byte) = n"
  by (simp add: unat_of_nat)

lemma be_value_be_bytes: "n < 256 ^ k \<Longrightarrow> be_value (be_bytes k n) = n"
proof (induction k n rule: be_bytes.induct)
  case (1 n)
  then show ?case by simp
next
  case (2 k n)
  have "n div 256 < 256 ^ k" using 2(2) by (simp add: less_mult_imp_div_less mult.commute)
  with 2(1) show ?case by (simp add: unat_byte)
qed

lemma struct_roundtrip:
  "struct_pack k n = Inr bs \<Longrightarrow> length bs = k \<and> struct_unpack k bs = Inr n"
  by (auto simp: struct_pack_def struct_unpack_def be_value_be_bytes split: if_splits)

lemma be_value_bound: "be_value bs < 256 ^ length bs"
proof (induction bs rule: rev_induct)
  case Nil
  then show ?case by simp
next
  case (snoc b bs)
  have "unat b < 2 ^ 8" using unsigned_less [of b] by simp
  with snoc show ?case by simp
qed

section \<open>Readers\<close>

record reader =
  rd_buf :: bytes
  rd_chunks :: "bytes list"

definition IncompleteReadError :: pyexc where
  "IncompleteReadError =
     mk_exc [''IncompleteReadError'', ''EOFError'', ''Exception'', ''BaseException''] []"

text \<open>Wait for chunks until the buffer holds \<^verbatim>\<open>n\<close> bytes; at the end of the input, raise.\<close>

fun readexactly_loop :: "nat \<Rightarrow> bytes \<Rightarrow> bytes list \<Rightarrow> bytes result \<times> reader" where
  "readexactly_loop n buf [] =
     (if n \<le> length buf then (Inr (take n buf), \<lparr>rd_buf = drop n buf, rd_chunks = []\<rparr>)
      else (Inl IncompleteReadError, \<lparr>rd_buf = [], rd_chunks = []\<rparr>))"
| "readexactly_loop n buf (c # cs) =
     (if n \<le> length buf then (Inr (take n buf), \<lparr>rd_buf = drop n buf, rd_chunks = c # cs\<rparr>)
      else readexactly_loop n (buf @ c) cs)"

definition readexactly :: "nat \<Rightarrow> reader \<Rightarrow> bytes result \<times> reader" where
  "readexactly n r = readexactly_loop n (rd_buf r) (rd_chunks r)"

text \<open>
  \<^verbatim>\<open>read(n)\<close> waits only while the buffer is empty, and then returns what is there, at most
  \<^verbatim>\<open>n\<close> bytes; it returns no bytes at the end of the input.
\<close>

fun read_loop :: "nat \<Rightarrow> bytes list \<Rightarrow> bytes \<times> reader" where
  "read_loop n [] = ([], \<lparr>rd_buf = [], rd_chunks = []\<rparr>)"
| "read_loop n (c # cs) =
     (if c = [] then read_loop n cs else (take n c, \<lparr>rd_buf = drop n c, rd_chunks = cs\<rparr>))"

definition read :: "nat \<Rightarrow> reader \<Rightarrow> bytes \<times> reader" where
  "read n r =
     (if n = 0 then ([], r)
      else if rd_buf r = [] then read_loop n (rd_chunks r)
      else (take n (rd_buf r), r\<lparr>rd_buf := drop n (rd_buf r)\<rparr>))"

text \<open>All bytes a reader will still deliver.\<close>

definition rd_bytes :: "reader \<Rightarrow> bytes" where
  "rd_bytes r = rd_buf r @ concat (rd_chunks r)"

lemma readexactly_loop_spec:
  "readexactly_loop n buf cs = (res, r) \<Longrightarrow>
   (if n \<le> length (buf @ concat cs)
    then res = Inr (take n (buf @ concat cs)) \<and> rd_bytes r = drop n (buf @ concat cs)
    else res = Inl IncompleteReadError \<and> rd_bytes r = [])"
proof (induction n buf cs rule: readexactly_loop.induct)
  case (1 n buf)
  then show ?case by (auto simp: rd_bytes_def split: if_splits)
next
  case (2 n buf c cs)
  then show ?case by (auto simp: rd_bytes_def split: if_splits)
qed

lemma readexactly_spec:
  assumes "readexactly n r = (res, r')"
  shows "if n \<le> length (rd_bytes r)
    then res = Inr (take n (rd_bytes r)) \<and> rd_bytes r' = drop n (rd_bytes r)
    else res = Inl IncompleteReadError \<and> rd_bytes r' = []"
  using readexactly_loop_spec [OF assms [unfolded readexactly_def]]
  unfolding rd_bytes_def [of r, symmetric] .

lemma readexactly_InrD:
  assumes "readexactly n r = (Inr bs, r')"
  shows "n \<le> length (rd_bytes r) \<and> bs = take n (rd_bytes r) \<and> rd_bytes r' = drop n (rd_bytes r)"
  using readexactly_spec [OF assms] by (simp split: if_splits)

lemma readexactly_append:
  assumes "rd_bytes r = bs @ rest" "length bs = n"
  shows "\<exists>r'. readexactly n r = (Inr bs, r') \<and> rd_bytes r' = rest"
proof -
  obtain res r' where "readexactly n r = (res, r')" by (cases "readexactly n r")
  with readexactly_spec [OF this] assms show ?thesis by auto
qed

lemma readexactly_short:
  assumes "length (rd_bytes r) < n"
  shows "fst (readexactly n r) = Inl IncompleteReadError"
proof -
  obtain res r' where "readexactly n r = (res, r')" by (cases "readexactly n r")
  with readexactly_spec [OF this] assms show ?thesis by simp
qed

lemma read_loop_spec: "read_loop n cs = (bs, r) \<Longrightarrow> bs @ rd_bytes r = concat cs \<and> length bs \<le> n"
  by (induction n cs rule: read_loop.induct) (auto simp: rd_bytes_def split: if_splits)

lemma read_spec: "read n r = (bs, r') \<Longrightarrow> bs @ rd_bytes r' = rd_bytes r \<and> length bs \<le> n"
  by (auto simp: read_def rd_bytes_def split: if_splits dest: read_loop_spec)

lemma read_length_le: "read n r = (bs, r') \<Longrightarrow> length (rd_bytes r') \<le> length (rd_bytes r)"
  by (metis read_spec length_append le_add2)

text \<open>When the whole input is already buffered, \<^verbatim>\<open>read\<close> is as exact as \<^verbatim>\<open>readexactly\<close>.\<close>

definition all_buffered :: "reader \<Rightarrow> bool" where
  "all_buffered r \<longleftrightarrow> concat (rd_chunks r) = []"

lemma readexactly_all_buffered:
  assumes "readexactly n r = (Inr bs, r')" "all_buffered r"
  shows "all_buffered r'"
proof -
  have "readexactly_loop n buf cs = (Inr bs, r') \<Longrightarrow> concat cs = [] \<Longrightarrow> concat (rd_chunks r') = []"
    for buf cs
    by (induction n buf cs rule: readexactly_loop.induct) (auto split: if_splits)
  with assms show ?thesis by (auto simp: readexactly_def all_buffered_def)
qed

lemma read_loop_empty: "concat cs = [] \<Longrightarrow> read_loop n cs = ([], \<lparr>rd_buf = [], rd_chunks = []\<rparr>)"
  by (induction n cs rule: read_loop.induct) auto

lemma read_all_buffered:
  assumes "all_buffered r" "rd_bytes r = bs @ rest" "length bs = n"
  shows "\<exists>r'. read n r = (bs, r') \<and> rd_bytes r' = rest \<and> all_buffered r'"
proof (cases "n = 0")
  case True
  with assms show ?thesis by (simp add: read_def)
next
  case False
  have "concat (rd_chunks r) = []" using assms(1) unfolding all_buffered_def .
  then have buf: "rd_buf r = bs @ rest"
    using assms(2) unfolding rd_bytes_def by (simp del: concat_eq_Nil_conv)
  moreover have "bs \<noteq> []" using False assms(3) by auto
  ultimately have "read n r = (bs, r\<lparr>rd_buf := rest\<rparr>)"
    using False assms(3) by (simp add: read_def)
  with assms(1) show ?thesis by (simp add: rd_bytes_def all_buffered_def del: concat_eq_Nil_conv)
qed

end
