(* ===== verification/DnsService.thy ===== *)
theory DnsService
  imports DnsStore Streams
begin

text \<open>
  The DNS servers of \<^verbatim>\<open>aiomisc/service/dns/service.py\<close>: building the reply to one request, the
  UDP datagram handler and the TCP connection loop with its two-byte length prefix.

  The package \<^verbatim>\<open>dnslib\<close> is a parameter: the record \<^verbatim>\<open>dnslib\<close> holds the operations the code
  calls on it. A reply is the list of edits the code makes to \<^verbatim>\<open>record.reply()\<close>; packing gives
  the wire format of the question's reply with these edits. Logging is left out, and the
  peer of a TCP connection is one that keeps reading, so that \<^verbatim>\<open>drain\<close> returns.
\<close>

section \<open>The interface of dnslib\<close>

datatype rcode = NXDOMAIN | SERVFAIL

record 'rd reply =
  rep_answers :: "'rd RR list"
  rep_ar :: "nat list"
  rep_rcode :: "rcode option"
  rep_tc :: bool

record ('q, 'rd) dnslib =
  dns_parse :: "bytes \<Rightarrow> 'q result"
  dns_qname :: "'q \<Rightarrow> string"
  dns_qtype :: "'q \<Rightarrow> int"
  dns_ar :: "'q \<Rightarrow> (int \<times> nat) list"
  dns_OPT :: int
  dns_pack :: "'q \<Rightarrow> 'rd reply \<Rightarrow> bytes result"

text \<open>\<^verbatim>\<open>record.reply()\<close>, not edited yet.\<close>

definition new_reply :: "'rd reply" where
  "new_reply = \<lparr>rep_answers = [], rep_ar = [], rep_rcode = None, rep_tc = False\<rparr>"

section \<open>One request\<close>

text \<open>The loop over the additional records \<^verbatim>\<open>(rtype, edns_len)\<close>.\<close>

fun get_edns_max_size :: "int \<Rightarrow> (int \<times> nat) list \<Rightarrow> nat option" where
  "get_edns_max_size opt [] = None"
| "get_edns_max_size opt ((rtype, edns_len) # ar) =
     (if rtype \<noteq> opt then get_edns_max_size opt ar else Some edns_len)"

definition add_ar :: "nat \<Rightarrow> 'rd reply \<Rightarrow> 'rd reply" where
  "add_ar n rep = rep\<lparr>rep_ar := rep_ar rep @ [n]\<rparr>"

definition add_answer :: "'rd RR \<Rightarrow> 'rd reply \<Rightarrow> 'rd reply" where
  "add_answer a rep = rep\<lparr>rep_answers := rep_answers rep @ [a]\<rparr>"

text \<open>The slice \<^verbatim>\<open>body[:n]\<close>, where \<^verbatim>\<open>n\<close> may be \<^const>\<open>None\<close>.\<close>

definition slice_to :: "nat option \<Rightarrow> bytes \<Rightarrow> bytes" where
  "slice_to n bs = (case n of None \<Rightarrow> bs | Some k \<Rightarrow> take k bs)"

definition edns_of :: "('q, 'rd) dnslib \<Rightarrow> 'q \<Rightarrow> nat option" where
  "edns_of lib q = get_edns_max_size (dns_OPT lib) (dns_ar lib q)"

text \<open>The edits of the reply, up to the first \<^verbatim>\<open>pack\<close>.\<close>

definition fill_reply :: "('q, 'rd) dnslib \<Rightarrow> 'rd DNSStore \<Rightarrow> 'q \<Rightarrow> 'rd reply result" where
  "fill_reply lib store q =
     (let reply = (case edns_of lib q of None \<Rightarrow> new_reply | Some n \<Rightarrow> add_ar n new_reply)
      in bind_result (RecordType_of (dns_qtype lib q)) (\<lambda>ty.
           let records = query store (dns_qname lib q) ty;
               reply = fold (\<lambda>r. add_answer (rr r (dns_qtype lib q))) records reply
           in Inr (if records = [] then reply\<lparr>rep_rcode := Some NXDOMAIN\<rparr> else reply)))"

text \<open>The body of the \<^verbatim>\<open>try\<close> block.\<close>

definition try_request ::
  "('q, 'rd) dnslib \<Rightarrow> 'rd DNSStore \<Rightarrow> 'q \<Rightarrow> bool \<Rightarrow> bytes result" where
  "try_request lib store q should_truncate =
     bind_result (fill_reply lib store q) (\<lambda>reply.
     bind_result (dns_pack lib q reply) (\<lambda>body.
     bind_result
       (if length body > 512 then dns_pack lib q (reply\<lparr>rep_tc := True\<rparr>) else Inr body) (\<lambda>body.
     Inr (if should_truncate then slice_to (edns_of lib q) body else body))))"

definition servfail_reply :: "'rd reply" where
  "servfail_reply = new_reply\<lparr>rep_rcode := Some SERVFAIL\<rparr>"

definition handle_request ::
  "('q, 'rd) dnslib \<Rightarrow> 'rd DNSStore \<Rightarrow> bytes \<Rightarrow> bool \<Rightarrow> bytes result" where
  "handle_request lib store data should_truncate =
     bind_result (dns_parse lib data) (\<lambda>q.
       case try_request lib store q should_truncate of
         Inr body \<Rightarrow> Inr body
       | Inl e \<Rightarrow> if is_Exception e then dns_pack lib q servfail_reply else Inl e)"

section \<open>UDP\<close>

text \<open>The datagrams sent, with their destination.\<close>

definition handle_datagram ::
  "('q, 'rd) dnslib \<Rightarrow> 'rd DNSStore \<Rightarrow> bytes \<Rightarrow> 'addr \<Rightarrow> (bytes \<times> 'addr) result" where
  "handle_datagram lib store data addr =
     bind_result (handle_request lib store data True) (\<lambda>body. Inr (body, addr))"

section \<open>TCP\<close>

text \<open>The loop ends by an exception or with no more data; \<^verbatim>\<open>out\<close> is what has been written.\<close>

function tcp_loop ::
  "('q, 'rd) dnslib \<Rightarrow> 'rd DNSStore \<Rightarrow> reader \<Rightarrow> bytes \<Rightarrow> unit result \<times> bytes" where
  "tcp_loop lib store r out =
     (case readexactly 2 r of
        (Inl e, r') \<Rightarrow> (Inl e, out)
      | (Inr data, r') \<Rightarrow>
          if data = [] then (Inr (), out)
          else case struct_unpack 2 data of
            Inl e \<Rightarrow> (Inl e, out)
          | Inr len \<Rightarrow>
              case handle_request lib store (fst (read len r')) False of
                Inl e \<Rightarrow> (Inl e, out)
              | Inr body \<Rightarrow>
                  (case struct_pack 2 (length body) of
                     Inl e \<Rightarrow> (Inl e, out)
                   | Inr hdr \<Rightarrow> tcp_loop lib store (snd (read len r')) (out @ hdr @ body)))"
  by pat_completeness auto

termination tcp_loop
proof (relation "measure (\<lambda>(_, _, r, _). length (rd_bytes r))", goal_cases)
  case 1
  then show ?case by simp
next
  case (2 lib store r out res r' data len body hdr)
  then have "readexactly 2 r = (Inr data, r')" by simp
  then have "2 \<le> length (rd_bytes r) \<and> rd_bytes r' = drop 2 (rd_bytes r)"
    by (auto dest: readexactly_InrD)
  moreover have "length (rd_bytes (snd (read len r'))) \<le> length (rd_bytes r')"
    by (rule read_length_le [of len r' "fst (read len r')"]) simp
  ultimately show ?case by (simp, linarith)
qed

declare tcp_loop.simps [simp del]

record tcp_outcome =
  tcp_result :: "unit result"
  tcp_written :: bytes
  tcp_closed :: bool

definition tcp_handle_client ::
  "('q, 'rd) dnslib \<Rightarrow> 'rd DNSStore \<Rightarrow> reader \<Rightarrow> tcp_outcome" where
  "tcp_handle_client lib store r =
     (let (res, out) = tcp_loop lib store r []
      in \<lparr>tcp_result = (case res of
             Inl e \<Rightarrow> if isinstance_exc e ''IncompleteReadError'' then Inr () else Inl e
           | Inr u \<Rightarrow> Inr u),
          tcp_written = out, tcp_closed = True\<rparr>)"

text \<open>A message in the framing of DNS over TCP.\<close>

definition frame :: "bytes \<Rightarrow> bytes" where
  "frame bs = be_bytes 2 (length bs) @ bs"

section \<open>Lemmas\<close>

lemma get_edns_max_size_eq: "get_edns_max_size opt ar = map_of ar opt"
  by (induction opt ar rule: get_edns_max_size.induct) auto

lemma fold_add_answer:
  "fold (\<lambda>r. add_answer (f r)) rs rep = rep\<lparr>rep_answers := rep_answers rep @ map f rs\<rparr>"
  by (induction rs arbitrary: rep) (simp_all add: add_answer_def)

lemma fill_reply_Inr:
  assumes "fill_reply lib store q = Inr rep"
  obtains ty where "dns_qtype lib q = rtype_value ty"
    and "rep_answers rep =
      map (\<lambda>r. rr r (dns_qtype lib q)) (query store (dns_qname lib q) ty)"
    and "rep_rcode rep = (if rep_answers rep = [] then Some NXDOMAIN else None)"
    and "rep_ar rep = (case edns_of lib q of None \<Rightarrow> [] | Some n \<Rightarrow> [n])"
    and "\<not> rep_tc rep"
proof -
  from assms obtain ty where ty: "RecordType_of (dns_qtype lib q) = Inr ty"
    by (auto simp: fill_reply_def bind_result_Inr_iff)
  then have eq: "dns_qtype lib q = rtype_value ty" by (simp add: RecordType_of_Inr_iff)
  show thesis
  proof (rule that [OF eq])
    note [simp] = fill_reply_def new_reply_def add_ar_def fold_add_answer ty Let_def
    from assms show "rep_answers rep =
      map (\<lambda>r. rr r (dns_qtype lib q)) (query store (dns_qname lib q) ty)"
      by (auto split: option.splits if_splits)
    from assms show "rep_rcode rep = (if rep_answers rep = [] then Some NXDOMAIN else None)"
      by (auto split: option.splits if_splits)
    from assms show "rep_ar rep = (case edns_of lib q of None \<Rightarrow> [] | Some n \<Rightarrow> [n])"
      by (auto split: option.splits if_splits)
    from assms show "\<not> rep_tc rep"
      by (auto split: option.splits if_splits)
  qed
qed

lemma fill_reply_unknown:
  assumes "\<And>t. dns_qtype lib q \<noteq> rtype_value t"
  shows "\<exists>m. fill_reply lib store q = Inl (ValueError m)"
proof -
  have "RecordType_of (dns_qtype lib q) \<noteq> Inr t" for t
    using assms [of t] by (simp add: RecordType_of_Inr_iff)
  then obtain m where "RecordType_of (dns_qtype lib q) = Inl (ValueError m)"
    by (cases "RecordType_of (dns_qtype lib q)") (auto simp: RecordType_of_def split: list.splits)
  then show ?thesis by (auto simp: fill_reply_def Let_def)
qed


text \<open>
  A successful reply packs the filled reply, with the truncation bit set exactly when the
  reply without it is longer than 512 bytes.
\<close>

lemma try_request_Inr:
  assumes "try_request lib store q tr = Inr body"
  obtains rep plain packed where "fill_reply lib store q = Inr rep"
    "dns_pack lib q rep = Inr plain"
    "dns_pack lib q (rep\<lparr>rep_tc := 512 < length plain\<rparr>) = Inr packed"
    "body = (if tr then slice_to (edns_of lib q) packed else packed)"
proof -
  from assms obtain rep plain packed where r: "fill_reply lib store q = Inr rep"
    "dns_pack lib q rep = Inr plain"
    "(if length plain > 512 then dns_pack lib q (rep\<lparr>rep_tc := True\<rparr>) else Inr plain) = Inr packed"
    "body = (if tr then slice_to (edns_of lib q) packed else packed)"
    unfolding try_request_def bind_result_Inr_iff by auto
  from r(1) have "\<not> rep_tc rep" by (rule fill_reply_Inr)
  then have "rep\<lparr>rep_tc := False\<rparr> = rep" by simp
  with r(2,3) have "dns_pack lib q (rep\<lparr>rep_tc := 512 < length plain\<rparr>) = Inr packed"
    by (cases "512 < length plain") auto
  with r that show thesis by blast
qed

lemma handle_request_cases:
  assumes "handle_request lib store data tr = Inr body"
  obtains (answer) q where "dns_parse lib data = Inr q" "try_request lib store q tr = Inr body"
  | (failure) q e where "dns_parse lib data = Inr q" "try_request lib store q tr = Inl e"
      "is_Exception e" "dns_pack lib q servfail_reply = Inr body"
proof -
  from assms obtain q where q: "dns_parse lib data = Inr q"
    by (auto simp: handle_request_def bind_result_Inr_iff)
  show thesis
    using assms q that
    by (cases "try_request lib store q tr") (auto simp: handle_request_def split: if_splits)
qed

lemma tcp_loop_eof:
  "rd_bytes r = [] \<Longrightarrow> tcp_loop lib store r out = (Inl IncompleteReadError, out)"
  using readexactly_short [of r 2]
  by (cases "readexactly 2 r") (simp add: tcp_loop.simps)

lemma tcp_loop_frame:
  assumes "all_buffered r" "rd_bytes r = frame p @ rest" "length p < 65536"
    and "handle_request lib store p False = Inr body" "length body < 65536"
  shows "\<exists>r'. all_buffered r' \<and> rd_bytes r' = rest \<and>
    tcp_loop lib store r out = tcp_loop lib store r' (out @ frame body)"
proof -
  from assms(2) have "rd_bytes r = be_bytes 2 (length p) @ (p @ rest)" by (simp add: frame_def)
  from readexactly_append [OF this] obtain r1 where
    r1: "readexactly 2 r = (Inr (be_bytes 2 (length p)), r1)" "rd_bytes r1 = p @ rest" by auto
  have "all_buffered r1" using readexactly_all_buffered [OF r1(1) assms(1)] .
  from read_all_buffered [OF this r1(2) refl] obtain r2 where
    r2: "read (length p) r1 = (p, r2)" "rd_bytes r2 = rest" "all_buffered r2" by blast
  have hdr: "be_bytes 2 (length p) \<noteq> []"
    by (metis be_bytes_length list.size(3) zero_neq_numeral)
  have "struct_unpack 2 (be_bytes 2 (length p)) = Inr (length p)"
    using assms(3) by (simp add: struct_unpack_def be_value_be_bytes)
  moreover have "struct_pack 2 (length body) = Inr (be_bytes 2 (length body))"
    using assms(5) by (simp add: struct_pack_def)
  ultimately have "tcp_loop lib store r out = tcp_loop lib store r2 (out @ frame body)"
    using r1 r2 hdr assms(4) by (subst tcp_loop.simps) (simp add: frame_def)
  with r2 show ?thesis by blast
qed

lemma tcp_loop_frames:
  assumes "all_buffered r" "rd_bytes r = concat (map frame ps)"
    and "list_all2 (\<lambda>p b. handle_request lib store p False = Inr b) ps bodies"
    and "\<forall>p \<in> set (ps @ bodies). length p < 65536"
  shows "tcp_loop lib store r out = (Inl IncompleteReadError, out @ concat (map frame bodies))"
  using assms
proof (induction ps arbitrary: r out bodies)
  case Nil
  then show ?case by (simp add: tcp_loop_eof)
next
  case (Cons p ps)
  then obtain b bs where bodies: "bodies = b # bs" "handle_request lib store p False = Inr b"
    "list_all2 (\<lambda>p b. handle_request lib store p False = Inr b) ps bs"
    by (auto simp: list_all2_Cons1)
  have "rd_bytes r = frame p @ concat (map frame ps)" using Cons.prems(2) by simp
  from tcp_loop_frame [OF Cons.prems(1) this _ bodies(2), of out] Cons.prems(4) bodies(1)
  obtain r' where "all_buffered r'" "rd_bytes r' = concat (map frame ps)"
    "tcp_loop lib store r out = tcp_loop lib store r' (out @ frame b)" by auto
  with Cons.IH [of r' bs "out @ frame b"] Cons.prems(4) bodies show ?case by simp
qed

text \<open>
  The body of a request that arrives in two parts is cut: \<^verbatim>\<open>read\<close> returns the first part and
  the rest is taken for the next length prefix.
\<close>

lemma tcp_loop_split_body:
  assumes "length p < 65536" "a \<noteq> []" "length a < length p"
  shows "tcp_loop lib store \<lparr>rd_buf = be_bytes 2 (length p), rd_chunks = a # cs\<rparr> out =
    (case handle_request lib store a False of
       Inl e \<Rightarrow> (Inl e, out)
     | Inr body \<Rightarrow>
         (case struct_pack 2 (length body) of
            Inl e \<Rightarrow> (Inl e, out)
          | Inr hdr \<Rightarrow> tcp_loop lib store \<lparr>rd_buf = [], rd_chunks = cs\<rparr> (out @ hdr @ body)))"
proof -
  have hdr: "be_bytes 2 (length p) \<noteq> []"
    by (metis be_bytes_length list.size(3) zero_neq_numeral)
  have u: "struct_unpack 2 (be_bytes 2 (length p)) = Inr (length p)"
    using assms(1) by (simp add: struct_unpack_def be_value_be_bytes)
  have "length p \<noteq> 0" using assms by auto
  then have "read (length p) \<lparr>rd_buf = [], rd_chunks = a # cs\<rparr> = (a, \<lparr>rd_buf = [], rd_chunks = cs\<rparr>)"
    using assms by (simp add: read_def)
  with hdr u show ?thesis
    by (subst tcp_loop.simps) (simp add: readexactly_def split: sum.split)
qed

lemma slice_to_length: "length (slice_to (Some n) bs) \<le> n"
  by (simp add: slice_to_def)

section \<open>Properties\<close>

text \<open>A library instance: the question is the datagram, a reply is packed as its answers.\<close>

definition echo_dnslib :: "nat \<Rightarrow> (int \<times> nat) list \<Rightarrow> (bytes, nat) dnslib" where
  "echo_dnslib sz ar =
     \<lparr>dns_parse = (\<lambda>bs. if bs = [] then Inl (ValueError ''empty'') else Inr bs),
      dns_qname = (\<lambda>_. ''x.a.''), dns_qtype = (\<lambda>bs. uint (hd bs)), dns_ar = (\<lambda>_. ar),
      dns_OPT = 41,
      dns_pack = (\<lambda>q rep. Inr (case rep_rcode rep of
         Some SERVFAIL \<Rightarrow> [2] | Some NXDOMAIN \<Rightarrow> [3] | None \<Rightarrow> replicate sz 0))\<rparr>"

lemma query_empty_store [simp]: "query DNSStore_init name ty = []"
proof (cases "find_prefix (new_node :: (string, 'a DNSZone) RadixNode) (get_reverse_tuple (with_dot name))")
  case None
  then show ?thesis by (simp add: query_def get_zone_for_name_def DNSStore_init_def Let_def)
next
  case (Some p)
  then show ?thesis
    by (cases p) (simp add: query_def get_zone_for_name_def DNSStore_init_def Let_def)
qed

lemma echo_nxdomain: "handle_request (echo_dnslib sz []) DNSStore_init [1] tr = Inr [3]"
  using RecordType_of_value [of RT_A]
  by (simp add: echo_dnslib_def handle_request_def try_request_def fill_reply_def edns_of_def
      new_reply_def slice_to_def Let_def)

lemma echo_servfail: "handle_request (echo_dnslib sz []) DNSStore_init [0] tr = Inr [2]"
proof -
  have "dns_qtype (echo_dnslib sz []) [0] \<noteq> rtype_value t" for t
    by (cases t) (simp_all add: echo_dnslib_def)
  then obtain m where "fill_reply (echo_dnslib sz []) DNSStore_init [0] = Inl (ValueError m)"
    using fill_reply_unknown [of "echo_dnslib sz []" "[0]" DNSStore_init] by blast
  then have "try_request (echo_dnslib sz []) DNSStore_init [0] tr = Inl (ValueError m)"
    by (simp add: try_request_def)
  then have "handle_request (echo_dnslib sz []) DNSStore_init [0] tr =
      dns_pack (echo_dnslib sz []) [0] servfail_reply"
    by (simp add: handle_request_def) (simp add: echo_dnslib_def)
  then show ?thesis by (simp add: echo_dnslib_def servfail_reply_def)
qed



text \<open>
  The error paths of \<^verbatim>\<open>handle_request\<close>: an exception leaves it only when the data cannot
  be parsed, when even the SERVFAIL reply cannot be packed, or when the exception is not an
  \<^verbatim>\<open>Exception\<close>; and a question with a type number that is no \<^verbatim>\<open>RecordType\<close> is answered with
  SERVFAIL whatever the store holds.
\<close>

theorem handle_request_errors:
  "(handle_request lib store data tr = Inl e \<longrightarrow>
      dns_parse lib data = Inl e \<or>
      (\<exists>q. dns_parse lib data = Inr q \<and>
         (dns_pack lib q servfail_reply = Inl e \<or> \<not> is_Exception e))) \<and>
   (dns_parse lib data = Inr q \<and> dns_qtype lib q \<notin> range rtype_value \<longrightarrow>
      handle_request lib store data tr = dns_pack lib q servfail_reply)"
proof (intro conjI impI)
  assume "handle_request lib store data tr = Inl e"
  then show "dns_parse lib data = Inl e \<or>
      (\<exists>q. dns_parse lib data = Inr q \<and>
         (dns_pack lib q servfail_reply = Inl e \<or> \<not> is_Exception e))"
    by (cases "dns_parse lib data"; cases "try_request lib store (projr (dns_parse lib data)) tr")
      (auto simp: handle_request_def split: if_splits)
next
  assume a: "dns_parse lib data = Inr q \<and> dns_qtype lib q \<notin> range rtype_value"
  then obtain m where "fill_reply lib store q = Inl (ValueError m)"
    using fill_reply_unknown [of lib q store] by auto
  then have "try_request lib store q tr = Inl (ValueError m)" by (simp add: try_request_def)
  with a show "handle_request lib store data tr = dns_pack lib q servfail_reply"
    by (simp add: handle_request_def py_simps)
qed

theorem handle_request_errors_witness:
  "handle_request (echo_dnslib 9 []) DNSStore_init [0] True = Inr [2] \<and>
   handle_request (echo_dnslib 9 []) DNSStore_init [] True = Inl (ValueError ''empty'')"
proof -
  have "(0::int) \<notin> range rtype_value"
  proof
    assume "(0::int) \<in> range rtype_value"
    then obtain t where "0 = rtype_value t" by auto
    then show False by (cases t) simp_all
  qed
  with handle_request_errors [of "echo_dnslib 9 []" DNSStore_init "[0]" True _ "[0]"]
  show ?thesis by (simp add: echo_dnslib_def servfail_reply_def handle_request_def)
qed

text \<open>
  Datagrams: the reply goes to the sender, and when the question announces a buffer
  size by EDNS, a reply that is not SERVFAIL is at most that long; without EDNS the packed
  reply is sent at its full length, whatever it is.
\<close>

theorem handle_datagram_size:
  assumes "handle_datagram lib store data addr = Inr (body, dest)"
    and "dns_parse lib data = Inr q" "try_request lib store q True = Inr body'"
  shows "dest = addr \<and> body = body' \<and>
    (case edns_of lib q of
       Some n \<Rightarrow> length body \<le> n
     | None \<Rightarrow> try_request lib store q False = Inr body)"
proof -
  from assms have b: "dest = addr" "body = body'"
    by (auto simp: handle_datagram_def handle_request_def bind_result_Inr_iff)
  have "case edns_of lib q of Some n \<Rightarrow> length body \<le> n
     | None \<Rightarrow> try_request lib store q False = Inr body"
  proof (cases "edns_of lib q")
    case None
    with assms(3) b show ?thesis by (simp add: try_request_def slice_to_def)
  next
    case (Some n)
    from assms(3) obtain packed where "body' = slice_to (edns_of lib q) packed"
      by (rule try_request_Inr) simp
    with Some b show ?thesis by (simp add: slice_to_length)
  qed
  with b show ?thesis by simp
qed

theorem handle_datagram_size_witness:
  "\<exists>s. handle_datagram (echo_dnslib 9 [(41, 5)]) s [1] (7::nat) = Inr (replicate 5 0, 7) \<and>
     length (replicate 5 (0::byte)) \<le> 5"
proof -
  let ?r = "A_create length ''x.a.'' ''ip'' 60"
  let ?z = "\<lparr>zone_name = ''a.'', zone_records = [(''x.a.'', RT_A) \<mapsto> [?r]]\<rparr> :: nat DNSZone"
  let ?s = "snd (add_zone DNSStore_init ?z)"
  let ?lib = "echo_dnslib 9 [(41, 5)]"
  have q: "query ?s ''x.a.'' RT_A = [?r]"
    by (simp add: query_def add_zone_def DNSStore_init_def get_zone_for_name_def get_records_def
        find_prefix_def get_reverse_tuple_def py_strip_def with_dot_def new_node_def Let_def)
  have t: "try_request ?lib ?s [1] True = Inr (replicate 5 0)"
    using RecordType_of_value [of RT_A] q
    by (simp add: echo_dnslib_def try_request_def fill_reply_def edns_of_def new_reply_def
        add_ar_def add_answer_def slice_to_def Let_def)
  then have h: "handle_datagram ?lib ?s [1] (7::nat) = Inr (replicate 5 0, 7)"
    by (simp add: handle_datagram_def handle_request_def) (simp add: echo_dnslib_def)
  have p: "dns_parse ?lib [1] = Inr [1]" by (simp add: echo_dnslib_def)
  have "edns_of ?lib [1] = Some 5" by (simp add: edns_of_def echo_dnslib_def)
  with handle_datagram_size [OF h p t] have "length (replicate 5 (0::byte)) \<le> 5" by simp
  with h show ?thesis by (intro exI [of _ ?s] conjI)
qed

text \<open>
  C10. DNS over TCP: for a connection whose bytes are a sequence of framed requests, all
  buffered, where each request gets a reply that fits the length prefix, the server writes
  exactly the framed replies in the order of the requests and closes the connection
  without an error.
\<close>

theorem tcp_replies_in_order:
  assumes "all_buffered r" "rd_bytes r = concat (map frame ps)"
    and "list_all2 (\<lambda>p b. handle_request lib store p False = Inr b) ps bodies"
    and "\<forall>p \<in> set (ps @ bodies). length p < 65536"
  shows "tcp_handle_client lib store r =
    \<lparr>tcp_result = Inr (), tcp_written = concat (map frame bodies), tcp_closed = True\<rparr>"
  using tcp_loop_frames [OF assms, of "[]"]
  by (simp add: tcp_handle_client_def IncompleteReadError_def py_simps)

theorem tcp_replies_in_order_witness:
  "tcp_handle_client (echo_dnslib 9 []) DNSStore_init
     \<lparr>rd_buf = [0, 1, 1, 0, 1, 0], rd_chunks = []\<rparr> =
   \<lparr>tcp_result = Inr (), tcp_written = [0, 1, 3, 0, 1, 2], tcp_closed = True\<rparr>"
proof -
  have f: "frame [b] = [0, 1, b]" for b
    by (simp add: frame_def numeral_2_eq_2)
  show ?thesis
    using tcp_replies_in_order [of "\<lparr>rd_buf = [0, 1, 1, 0, 1, 0], rd_chunks = []\<rparr>" "[[1], [0]]"
        "echo_dnslib 9 []" DNSStore_init "[[3], [2]]"]
    by (simp add: echo_nxdomain echo_servfail all_buffered_def rd_bytes_def f)
qed

end
