(* ===== verification/CircuitBreaker.thy ===== *)
theory CircuitBreaker
  imports Prelude
begin

text \<open>
  The circuit breaker of \<^verbatim>\<open>aiomisc/circuit_breaker.py\<close>. The statistic is a bounded deque of
  buckets; a call keeps a reference to the counter of the bucket it was started in, which
  the deque may have dropped when the call ends, so counters live in a store under
  references. Entering and leaving the context are separate operations, and the step
  relation interleaves the calls of one event loop. Every reading of the clock is an
  argument of its own, because the clock advances between two readings.
\<close>

section \<open>State\<close>

datatype CircuitBreakerStates = PASSING | BROKEN | RECOVERING

record Counter =
  FAIL :: nat
  OK :: nat
  TOTAL :: nat

record CircuitBreakerStatistic =
  call_count :: nat
  call_passing :: nat
  call_broken :: nat
  call_recovering :: nat
  call_recovering_ok :: nat
  call_recovering_failed :: nat

record cb_config =
  error_ratio :: number
  response_time :: number
  cb_exceptions :: "string list"
  exception_inspector :: "(pyexc \<Rightarrow> bool result) option"
  passing_time :: number
  broken_time :: number
  recovery_time :: number

record CircuitBreaker = cb_config +
  cb_statistic :: "(int \<times> nat) list"
  cb_heap :: "nat \<Rightarrow> Counter"
  cb_next :: nat
  cb_state :: CircuitBreakerStates
  stuck_until :: number
  recovery_at :: number
  last_exception :: "pyexc option"
  cb_counters :: CircuitBreakerStatistic

definition new_Counter :: Counter where
  "new_Counter = \<lparr>FAIL = 0, OK = 0, TOTAL = 0\<rparr>"

definition new_counters :: CircuitBreakerStatistic where
  "new_counters =
     \<lparr>call_count = 0, call_passing = 0, call_broken = 0, call_recovering = 0,
      call_recovering_ok = 0, call_recovering_failed = 0\<rparr>"

definition BUCKET_COUNT :: nat where
  "BUCKET_COUNT = 10"

definition RECOVER_BROKEN_THRESHOLD :: number where
  "RECOVER_BROKEN_THRESHOLD = 1 / 2"

definition PASSING_BROKEN_THRESHOLD :: number where
  "PASSING_BROKEN_THRESHOLD = 1"

text \<open>\<^verbatim>\<open>value or default\<close>: \<^const>\<open>None\<close> and zero are falsy.\<close>

definition number_or :: "number option \<Rightarrow> number \<Rightarrow> number" where
  "number_or v d = (case v of None \<Rightarrow> d | Some x \<Rightarrow> if x = 0 then d else x)"

text \<open>
  The second test of the constructor is the chained comparison
  \<^verbatim>\<open>0.0 > error_ratio >= 1.0\<close>, that is, a conjunction.
\<close>

definition CircuitBreaker_init ::
  "number \<Rightarrow> number \<Rightarrow> string list \<Rightarrow> number option \<Rightarrow> number option \<Rightarrow> number option \<Rightarrow>
   (pyexc \<Rightarrow> bool result) option \<Rightarrow> CircuitBreaker result" where
  "CircuitBreaker_init er rt excs rec_t broken_t passing_t insp =
     (if rt \<le> 0 then Inl (ValueError ''Response time must be greater then zero'')
      else if 0 > er \<and> er \<ge> 1 then Inl (ValueError ''Error ratio must be between 0 and 1'')
      else Inr
        \<lparr>error_ratio = er, response_time = rt, cb_exceptions = excs, exception_inspector = insp,
         passing_time = number_or passing_t rt, broken_time = number_or broken_t rt,
         recovery_time = number_or rec_t rt,
         cb_statistic = [], cb_heap = (\<lambda>_. new_Counter), cb_next = 0, cb_state = PASSING,
         stuck_until = 0, recovery_at = 0, last_exception = None, cb_counters = new_counters\<rparr>)"

section \<open>Buckets\<close>

text \<open>Python's \<^verbatim>\<open>%\<close> on numbers and \<^verbatim>\<open>int\<close> of a number.\<close>

definition py_fmod :: "number \<Rightarrow> number \<Rightarrow> number" where
  "py_fmod x y = x - y * of_int \<lfloor>x / y\<rfloor>"

definition py_int :: "number \<Rightarrow> int" where
  "py_int x = (if 0 \<le> x then \<lfloor>x\<rfloor> else \<lceil>x\<rceil>)"

definition bucket :: "number \<Rightarrow> number \<Rightarrow> int" where
  "bucket rt now = (let ts = now * real BUCKET_COUNT in py_int (ts - py_fmod ts rt))"

text \<open>\<^verbatim>\<open>append\<close> to a deque with \<^verbatim>\<open>maxlen\<close>: the oldest elements fall out.\<close>

definition deque_append :: "nat \<Rightarrow> 'a \<Rightarrow> 'a list \<Rightarrow> 'a list" where
  "deque_append maxlen x xs = drop (length xs + 1 - maxlen) (xs @ [x])"

definition append_counter :: "int \<Rightarrow> CircuitBreaker \<Rightarrow> nat \<times> CircuitBreaker" where
  "append_counter current b =
     (cb_next b,
      b\<lparr>cb_statistic := deque_append BUCKET_COUNT (current, cb_next b) (cb_statistic b),
        cb_heap := (cb_heap b)(cb_next b := new_Counter), cb_next := Suc (cb_next b)\<rparr>)"

definition counter :: "number \<Rightarrow> CircuitBreaker \<Rightarrow> nat \<times> CircuitBreaker" where
  "counter now b =
     (let current = bucket (response_time b) now
      in if cb_statistic b = [] then append_counter current b
         else let (bkt, ref) = last (cb_statistic b)
              in if current \<noteq> bkt then append_counter current b else (ref, b))"

text \<open>The generator walks the deque from its newest bucket and stops at the first old one.\<close>

definition gen_statistic :: "number \<Rightarrow> CircuitBreaker \<Rightarrow> Counter list" where
  "gen_statistic now b =
     (let not_before =
        of_int (bucket (response_time b) now) - response_time b * real BUCKET_COUNT
      in map (\<lambda>(_, ref). cb_heap b ref)
           (takeWhile (\<lambda>(bkt, _). \<not> of_int bkt < not_before) (rev (cb_statistic b))))"

definition get_state_delay :: "number \<Rightarrow> CircuitBreaker \<Rightarrow> number" where
  "get_state_delay now b = max (stuck_until b - now) 0"

fun ratio_loop :: "number \<Rightarrow> Counter list \<Rightarrow> nat \<Rightarrow> nat \<Rightarrow> nat \<times> nat" where
  "ratio_loop er [] total_count upper_count = (total_count, upper_count)"
| "ratio_loop er (c # cs) total_count upper_count =
     (if TOTAL c = 0 then ratio_loop er cs (Suc total_count) upper_count
      else if real (FAIL c) / real (TOTAL c) \<ge> er
      then ratio_loop er cs (Suc total_count) (Suc upper_count)
      else ratio_loop er cs (Suc total_count) upper_count)"

definition recovery_ratio :: "number \<Rightarrow> CircuitBreaker \<Rightarrow> number" where
  "recovery_ratio now b =
     (let (total_count, upper_count) = ratio_loop (error_ratio b) (gen_statistic now b) 0 0
      in if total_count = 0 then 0 else real upper_count / real total_count)"

section \<open>The state machine\<close>

text \<open>\<^verbatim>\<open>now\<close> is read at the start, \<^verbatim>\<open>now'\<close> by the ratio.\<close>

definition break_circuit :: "number \<Rightarrow> CircuitBreaker \<Rightarrow> CircuitBreaker" where
  "break_circuit now b =
     b\<lparr>stuck_until := now + broken_time b, cb_state := BROKEN, cb_statistic := []\<rparr>"

definition compute_state :: "number \<Rightarrow> number \<Rightarrow> CircuitBreaker \<Rightarrow> CircuitBreaker" where
  "compute_state now now' b =
     (if now < stuck_until b then b
      else if cb_state b = BROKEN then b\<lparr>cb_state := RECOVERING, recovery_at := now\<rparr>
      else if cb_state b = PASSING \<and> length (cb_statistic b) < BUCKET_COUNT then b
      else let ratio = recovery_ratio now' b
           in if cb_state b = PASSING
              then (if ratio \<ge> PASSING_BROKEN_THRESHOLD then break_circuit now b else b)
              else if cb_state b \<noteq> RECOVERING then b
              else if ratio \<ge> RECOVER_BROKEN_THRESHOLD * error_ratio b
              then break_circuit now b
              else if now - recovery_at b \<ge> recovery_time b
              then b\<lparr>stuck_until := now + passing_time b, cb_state := PASSING\<rparr>
              else b)"

definition inspect_exception :: "pyexc \<Rightarrow> CircuitBreaker \<Rightarrow> nat result" where
  "inspect_exception e b =
     (case exception_inspector b of
        None \<Rightarrow> Inr 1
      | Some f \<Rightarrow> (case f e of
          Inr r \<Rightarrow> Inr (if r then 1 else 0)
        | Inl e' \<Rightarrow> if is_Exception e' then Inr 1 else Inl e'))"

definition count_call :: "(CircuitBreakerStatistic \<Rightarrow> CircuitBreakerStatistic) \<Rightarrow>
    CircuitBreaker \<Rightarrow> CircuitBreaker" where
  "count_call f b = b\<lparr>cb_counters := f (cb_counters b)\<rparr>"

text \<open>Entering the context either admits the call, with its counter, or raises \<^verbatim>\<open>CircuitBroken\<close>.\<close>

datatype entry = Entered nat | CircuitBroken "pyexc option"

definition on_recover :: "number \<Rightarrow> number \<Rightarrow> nat \<Rightarrow> CircuitBreaker \<Rightarrow> entry \<times> CircuitBreaker" where
  "on_recover now random ref b =
     (if \<not> random + 1 < 2 powr ((now - recovery_at b) / recovery_time b)
      then (CircuitBroken (last_exception b),
            count_call (\<lambda>c. c\<lparr>call_recovering_failed := call_recovering_failed c + 1\<rparr>) b)
      else (Entered ref,
            count_call (\<lambda>c. c\<lparr>call_recovering_ok := call_recovering_ok c + 1\<rparr>) b))"

text \<open>The four readings of the clock, and the random number.\<close>

record readings =
  t_counter :: number
  t_state :: number
  t_ratio :: number
  t_recover :: number
  rnd :: number

definition enter_context :: "readings \<Rightarrow> CircuitBreaker \<Rightarrow> entry \<times> CircuitBreaker" where
  "enter_context t b =
     (let (ref, b) = counter (t_counter t) b;
          b = compute_state (t_state t) (t_ratio t) b;
          b = count_call (\<lambda>c. c\<lparr>call_count := call_count c + 1\<rparr>) b
      in case cb_state b of
           PASSING \<Rightarrow>
             (Entered ref, count_call (\<lambda>c. c\<lparr>call_passing := call_passing c + 1\<rparr>) b)
         | BROKEN \<Rightarrow>
             (CircuitBroken (last_exception b),
              count_call (\<lambda>c. c\<lparr>call_broken := call_broken c + 1\<rparr>) b)
         | RECOVERING \<Rightarrow>
             on_recover (t_recover t) (rnd t) ref
               (count_call (\<lambda>c. c\<lparr>call_recovering := call_recovering c + 1\<rparr>) b))"

definition update_counter :: "nat \<Rightarrow> (Counter \<Rightarrow> Counter) \<Rightarrow> CircuitBreaker \<Rightarrow> CircuitBreaker" where
  "update_counter ref f b = b\<lparr>cb_heap := (cb_heap b)(ref := f (cb_heap b ref))\<rparr>"

text \<open>
  The rest of \<^verbatim>\<open>_on_passing\<close> after the \<^verbatim>\<open>yield\<close>, given the outcome of the body; the result is
  what leaves the \<^verbatim>\<open>with\<close> statement.
\<close>

definition exit_context :: "nat \<Rightarrow> 'a result \<Rightarrow> CircuitBreaker \<Rightarrow> 'a result \<times> CircuitBreaker" where
  "exit_context ref outcome b =
     (case outcome of
        Inr v \<Rightarrow>
          (Inr v, update_counter ref (\<lambda>c. c\<lparr>OK := OK c + 1, TOTAL := TOTAL c + 1\<rparr>)
             (b\<lparr>last_exception := None\<rparr>))
      | Inl e \<Rightarrow>
          if except_matches (cb_exceptions b) e
          then (case inspect_exception e b of
                  Inr k \<Rightarrow>
                    (Inl e, update_counter ref (\<lambda>c. c\<lparr>FAIL := FAIL c + k, TOTAL := TOTAL c + 1\<rparr>)
                       (b\<lparr>last_exception := Some e\<rparr>))
                | Inl e' \<Rightarrow>
                    (Inl e', update_counter ref (\<lambda>c. c\<lparr>TOTAL := TOTAL c + 1\<rparr>)
                       (b\<lparr>last_exception := Some e\<rparr>)))
          else (Inl e, update_counter ref (\<lambda>c. c\<lparr>TOTAL := TOTAL c + 1\<rparr>) b))"

datatype 'a cb_result = Returned 'a | Raised pyexc | Broken "pyexc option"

text \<open>\<^verbatim>\<open>call\<close> with a function that leaves the breaker alone; \<^verbatim>\<open>ran\<close> says whether it was called.\<close>

definition cb_call ::
  "readings \<Rightarrow> (unit \<Rightarrow> 'a result) \<Rightarrow> CircuitBreaker \<Rightarrow> 'a cb_result \<times> bool \<times> CircuitBreaker" where
  "cb_call t func b =
     (case enter_context t b of
        (CircuitBroken e, b') \<Rightarrow> (Broken e, False, b')
      | (Entered ref, b') \<Rightarrow>
          (case exit_context ref (func ()) b' of
             (Inr v, b'') \<Rightarrow> (Returned v, True, b'')
           | (Inl e, b'') \<Rightarrow> (Raised e, True, b'')))"

text \<open>The decorator builds one breaker; its wrappers are \<^verbatim>\<open>call\<close> and \<^verbatim>\<open>call_async\<close> of it.\<close>

definition cutout ::
  "number \<Rightarrow> number \<Rightarrow> string list \<Rightarrow> number option \<Rightarrow> number option \<Rightarrow> number option \<Rightarrow>
   (pyexc \<Rightarrow> bool result) option \<Rightarrow> CircuitBreaker result" where
  "cutout ratio rt excs = CircuitBreaker_init ratio rt excs"

section \<open>The calls of one event loop\<close>

text \<open>A breaker with the counters of the calls that are running and the latest clock reading.\<close>

record cb_system =
  sys_cb :: CircuitBreaker
  sys_active :: "nat list"
  sys_now :: number

definition cb_new :: "cb_system \<Rightarrow> bool" where
  "cb_new s \<longleftrightarrow> sys_active s = [] \<and>
     (\<exists>er rt excs rec_t broken_t passing_t insp.
        CircuitBreaker_init er rt excs rec_t broken_t passing_t insp = Inr (sys_cb s))"

definition readings_ok :: "number \<Rightarrow> readings \<Rightarrow> bool" where
  "readings_ok now t \<longleftrightarrow> now \<le> t_counter t \<and> t_counter t \<le> t_state t \<and> t_state t \<le> t_ratio t \<and>
     t_ratio t \<le> t_recover t \<and> 0 \<le> rnd t \<and> rnd t < 1"

inductive cb_step :: "cb_system \<Rightarrow> cb_system \<Rightarrow> bool" where
  cs_admit: "readings_ok (sys_now s) t \<Longrightarrow> enter_context t (sys_cb s) = (Entered ref, b) \<Longrightarrow>
     cb_step s \<lparr>sys_cb = b, sys_active = ref # sys_active s, sys_now = t_recover t\<rparr>"
| cs_reject: "readings_ok (sys_now s) t \<Longrightarrow>
     enter_context t (sys_cb s) = (CircuitBroken e, b) \<Longrightarrow>
     cb_step s \<lparr>sys_cb = b, sys_active = sys_active s, sys_now = t_recover t\<rparr>"
| cs_exit: "ref \<in> set (sys_active s) \<Longrightarrow>
     exit_context ref (outcome :: unit result) (sys_cb s) = (res, b) \<Longrightarrow>
     cb_step s \<lparr>sys_cb = b, sys_active = remove1 ref (sys_active s), sys_now = sys_now s\<rparr>"

section \<open>Invariants\<close>

definition counters_ok :: "CircuitBreaker \<Rightarrow> bool" where
  "counters_ok b \<longleftrightarrow> (\<forall>ref. FAIL (cb_heap b ref) + OK (cb_heap b ref) \<le> TOTAL (cb_heap b ref))"

definition calls_ok :: "CircuitBreaker \<Rightarrow> bool" where
  "calls_ok b \<longleftrightarrow>
     (let c = cb_counters b
      in call_count c = call_passing c + call_broken c + call_recovering c \<and>
         call_recovering c = call_recovering_ok c + call_recovering_failed c)"

definition buckets_ok :: "number \<Rightarrow> CircuitBreaker \<Rightarrow> bool" where
  "buckets_ok now b \<longleftrightarrow> 0 < response_time b \<and>
     length (cb_statistic b) \<le> BUCKET_COUNT \<and>
     sorted_wrt (<) (map fst (cb_statistic b)) \<and>
     (\<forall>k \<in> set (map fst (cb_statistic b)). k \<le> bucket (response_time b) now) \<and>
     (\<forall>ref \<in> set (map snd (cb_statistic b)). ref < cb_next b) \<and>
     distinct (map snd (cb_statistic b))"

definition cb_ok :: "cb_system \<Rightarrow> bool" where
  "cb_ok s \<longleftrightarrow> counters_ok (sys_cb s) \<and> calls_ok (sys_cb s) \<and> buckets_ok (sys_now s) (sys_cb s) \<and>
     (\<forall>ref \<in> set (sys_active s). ref < cb_next (sys_cb s))"

section \<open>Lemmas\<close>

lemma ratio_loop_eq:
  "ratio_loop er cs n u =
     (n + length cs,
      u + length (filter (\<lambda>c. TOTAL c \<noteq> 0 \<and> er \<le> real (FAIL c) / real (TOTAL c)) cs))"
  by (induction er cs n u rule: ratio_loop.induct) auto

lemma recovery_ratio_eq:
  "recovery_ratio now b =
     real (length (filter (\<lambda>c. TOTAL c \<noteq> 0 \<and> error_ratio b \<le> real (FAIL c) / real (TOTAL c))
       (gen_statistic now b))) / real (length (gen_statistic now b))"
  by (simp add: recovery_ratio_def ratio_loop_eq)

lemma recovery_ratio_bounds: "0 \<le> recovery_ratio now b \<and> recovery_ratio now b \<le> 1"
  by (auto simp: recovery_ratio_eq divide_le_eq_1 intro!: length_filter_le)

lemma py_int_mono: "x \<le> y \<Longrightarrow> py_int x \<le> py_int y"
proof (cases "x < 0 \<and> 0 \<le> y")
  case True
  then have "\<lceil>x\<rceil> \<le> 0" "0 \<le> \<lfloor>y\<rfloor>" by (simp_all add: ceiling_le_zero)
  then have "\<lceil>x\<rceil> \<le> \<lfloor>y\<rfloor>" by (rule order_trans)
  with True show ?thesis by (simp add: py_int_def)
qed (auto simp: py_int_def floor_mono ceiling_mono)

lemma bucket_mono: "0 < rt \<Longrightarrow> a \<le> b \<Longrightarrow> bucket rt a \<le> bucket rt b"
  unfolding bucket_def Let_def py_fmod_def
  by (rule py_int_mono) (simp add: mult_right_mono floor_mono divide_right_mono)

lemma deque_append_spec:
  "set (deque_append n x xs) \<subseteq> insert x (set xs)"
  "length (deque_append n x xs) \<le> n"
  "0 < n \<Longrightarrow> length xs < n \<Longrightarrow> deque_append n x xs = xs @ [x]"
  by (auto simp: deque_append_def dest: in_set_dropD)


text \<open>The fields an operation leaves alone.\<close>

lemma append_counter_fields [simp]:
  "response_time (snd (append_counter k b)) = response_time b"
  "cb_counters (snd (append_counter k b)) = cb_counters b"
  "cb_state (snd (append_counter k b)) = cb_state b"
  by (simp_all add: append_counter_def)

lemma count_call_fields [simp]:
  "cb_heap (count_call f b) = cb_heap b"
  "cb_statistic (count_call f b) = cb_statistic b"
  "cb_next (count_call f b) = cb_next b"
  "response_time (count_call f b) = response_time b"
  "cb_state (count_call f b) = cb_state b"
  "last_exception (count_call f b) = last_exception b"
  "stuck_until (count_call f b) = stuck_until b"
  "cb_counters (count_call f b) = f (cb_counters b)"
  by (simp_all add: count_call_def)

lemma compute_state_fields [simp]:
  "cb_heap (compute_state t t' b) = cb_heap b"
  "cb_next (compute_state t t' b) = cb_next b"
  "response_time (compute_state t t' b) = response_time b"
  "cb_counters (compute_state t t' b) = cb_counters b"
  "last_exception (compute_state t t' b) = last_exception b"
  by (simp_all add: compute_state_def break_circuit_def Let_def)

lemma compute_state_statistic:
  "cb_statistic (compute_state t t' b) = cb_statistic b \<or> cb_statistic (compute_state t t' b) = []"
  by (simp add: compute_state_def break_circuit_def Let_def)

lemma update_counter_fields [simp]:
  "cb_statistic (update_counter ref f b) = cb_statistic b"
  "cb_next (update_counter ref f b) = cb_next b"
  "response_time (update_counter ref f b) = response_time b"
  "cb_counters (update_counter ref f b) = cb_counters b"
  "cb_state (update_counter ref f b) = cb_state b"
  by (simp_all add: update_counter_def)

lemma exit_context_fields:
  assumes "exit_context ref outcome b = (res, b')"
  shows "cb_statistic b' = cb_statistic b" "cb_next b' = cb_next b"
    "response_time b' = response_time b" "cb_counters b' = cb_counters b" "cb_state b' = cb_state b"
  using assms by (auto simp: exit_context_def split: sum.splits if_splits)

lemma counter_fields:
  assumes "counter t b = (ref, b')"
  shows "response_time b' = response_time b" "cb_counters b' = cb_counters b"
    "cb_state b' = cb_state b" "cb_next b \<le> cb_next b'" "stuck_until b' = stuck_until b"
    "cb_exceptions b' = cb_exceptions b" "error_ratio b' = error_ratio b"
    "last_exception b' = last_exception b" "recovery_at b' = recovery_at b"
  using assms by (auto simp: counter_def append_counter_def Let_def split: prod.splits if_splits)

text \<open>Entering keeps the counters, and its bookkeeping adds up.\<close>

lemma enter_context_fields:
  assumes "enter_context t b = (en, b')" "counter (t_counter t) b = (ref, b1)"
  shows "cb_heap b' = cb_heap b1" "cb_next b' = cb_next b1" "response_time b' = response_time b"
    "cb_statistic b' = cb_statistic (compute_state (t_state t) (t_ratio t) b1)"
    "cb_state b' = cb_state (compute_state (t_state t) (t_ratio t) b1)"
    "en = Entered ref' \<Longrightarrow> ref' = ref"
  using assms counter_fields [OF assms(2)]
  by (auto simp: enter_context_def on_recover_def Let_def
      split: CircuitBreakerStates.splits if_splits)

lemma enter_context_calls_ok:
  assumes "enter_context t b = (en, b')" "calls_ok b"
  shows "calls_ok b'"
proof -
  obtain ref b1 where c: "counter (t_counter t) b = (ref, b1)" by (cases "counter (t_counter t) b")
  from assms counter_fields(2) [OF c] c show ?thesis
    by (auto simp: enter_context_def on_recover_def calls_ok_def Let_def
        split: CircuitBreakerStates.splits if_splits)
qed

lemma counter_counters_ok: "counters_ok b \<Longrightarrow> counters_ok (snd (counter t b))"
  by (auto simp: counters_ok_def counter_def append_counter_def new_Counter_def Let_def
      split: prod.splits)

lemma exit_context_counters_ok:
  assumes "exit_context ref outcome b = (res, b')" "counters_ok b"
  shows "counters_ok b'"
  using assms
  by (auto simp: exit_context_def inspect_exception_def update_counter_def counters_ok_def
      split: sum.splits if_splits option.splits) (fastforce intro: le_SucI)+

lemma sorted_wrt_drop: "sorted_wrt P xs \<Longrightarrow> sorted_wrt P (drop n xs)"
  by (metis append_take_drop_id sorted_wrt_append)

lemma buckets_ok_later: "buckets_ok now b \<Longrightarrow> now \<le> now' \<Longrightarrow> buckets_ok now' b"
  unfolding buckets_ok_def by (meson bucket_mono order_trans)

lemma append_counter_buckets_ok:
  assumes "buckets_ok now b" "\<forall>k \<in> set (map fst (cb_statistic b)). k < bucket (response_time b) now"
  shows "buckets_ok now (snd (append_counter (bucket (response_time b) now) b))"
proof -
  let ?k = "bucket (response_time b) now"
  let ?all = "cb_statistic b @ [(?k, cb_next b)]"
  define st where "st = drop (length (cb_statistic b) + 1 - BUCKET_COUNT) ?all"
  have st: "cb_statistic (snd (append_counter ?k b)) = st"
    by (simp add: append_counter_def deque_append_def st_def)
  have "sorted_wrt (<) (map fst ?all)" "distinct (map snd ?all)"
    using assms by (auto simp: buckets_ok_def sorted_wrt_append)
  then have "sorted_wrt (<) (map fst st)" "distinct (map snd st)"
    unfolding st_def drop_map [symmetric] by (blast intro: sorted_wrt_drop distinct_drop)+
  moreover have "set st \<subseteq> insert (?k, cb_next b) (set (cb_statistic b))"
    using set_drop_subset [of "length (cb_statistic b) + 1 - BUCKET_COUNT" ?all]
    by (auto simp: st_def)
  then have el: "x = (?k, cb_next b) \<or> x \<in> set (cb_statistic b)" if "x \<in> set st" for x
    using that by blast
  have "\<forall>k \<in> set (map fst st). k \<le> ?k" "\<forall>r \<in> set (map snd st). r < Suc (cb_next b)"
    using assms(1) by (auto simp: buckets_ok_def less_Suc_eq dest!: el)
  moreover have "length st \<le> BUCKET_COUNT" by (simp add: st_def)
  moreover have "cb_next (snd (append_counter ?k b)) = Suc (cb_next b)"
    by (simp add: append_counter_def)
  ultimately show ?thesis
    using assms(1) unfolding buckets_ok_def st append_counter_fields by simp
qed

lemma sorted_wrt_last: "sorted_wrt (<) xs \<Longrightarrow> x \<in> set xs \<Longrightarrow> x \<le> (last xs :: int)"
  by (induction xs) (auto dest: less_imp_le split: if_splits)

lemma counter_buckets_ok:
  assumes "buckets_ok now b" "counter now b = (ref, b')"
  shows "buckets_ok now b'"
proof (cases "cb_statistic b = [] \<or> fst (last (cb_statistic b)) \<noteq> bucket (response_time b) now")
  case True
  have "k < bucket (response_time b) now" if k: "k \<in> set (map fst (cb_statistic b))" for k
  proof -
    have "k \<le> last (map fst (cb_statistic b))"
      using sorted_wrt_last k assms(1) unfolding buckets_ok_def by blast
    moreover have "last (map fst (cb_statistic b)) = fst (last (cb_statistic b))"
      using k by (intro last_map) auto
    moreover have "fst (last (cb_statistic b)) \<le> bucket (response_time b) now"
      using k assms(1) unfolding buckets_ok_def by (cases "cb_statistic b") auto
    ultimately show ?thesis using True k by auto
  qed
  then have "buckets_ok now (snd (append_counter (bucket (response_time b) now) b))"
    by (intro append_counter_buckets_ok [OF assms(1)]) blast
  with True assms(2) show ?thesis
    by (auto simp: counter_def Let_def split: prod.splits if_splits)
next
  case False
  with assms show ?thesis by (auto simp: counter_def Let_def split: prod.splits)
qed

lemma counter_ref:
  assumes "buckets_ok now b" "counter now b = (ref, b')"
  shows "ref < cb_next b'"
proof (cases "cb_statistic b = [] \<or> fst (last (cb_statistic b)) \<noteq> bucket (response_time b) now")
  case True
  with assms(2) show ?thesis
    by (auto simp: counter_def append_counter_def Let_def split: prod.splits if_splits)
next
  case False
  then have "last (cb_statistic b) \<in> set (cb_statistic b)" by simp
  then have "snd (last (cb_statistic b)) < cb_next b" using assms(1) by (auto simp: buckets_ok_def)
  with False assms(2) show ?thesis by (auto simp: counter_def Let_def split: prod.splits)
qed

lemma compute_state_buckets_ok: "buckets_ok now b \<Longrightarrow> buckets_ok now (compute_state t t' b)"
  using compute_state_statistic [of t t' b] by (auto simp: buckets_ok_def)

text \<open>Entering keeps the whole invariant.\<close>

lemma enter_context_ok:
  assumes "cb_ok s" "readings_ok (sys_now s) t" "enter_context t (sys_cb s) = (en, b)"
  shows "counters_ok b \<and> calls_ok b \<and> buckets_ok (t_recover t) b \<and>
    cb_next (sys_cb s) \<le> cb_next b \<and> (\<forall>ref. en = Entered ref \<longrightarrow> ref < cb_next b)"
proof -
  let ?b = "sys_cb s"
  obtain ref b1 where c: "counter (t_counter t) ?b = (ref, b1)" by (cases "counter (t_counter t) ?b")
  have now: "buckets_ok (t_counter t) ?b"
    using assms(1,2) buckets_ok_later by (auto simp: cb_ok_def readings_ok_def)
  have late: "t_counter t \<le> t_recover t" using assms(2) by (simp add: readings_ok_def)
  note f = enter_context_fields [OF assms(3) c]
  have "counters_ok b1" using counter_counters_ok [of ?b "t_counter t"] assms(1) c
    by (simp add: cb_ok_def)
  then have "counters_ok b" by (simp add: counters_ok_def f)
  moreover have "calls_ok b"
    using enter_context_calls_ok [OF assms(3)] assms(1) by (simp add: cb_ok_def)
  moreover have "buckets_ok (t_recover t) b"
    using buckets_ok_later [OF compute_state_buckets_ok [OF counter_buckets_ok [OF now c]] late]
      counter_fields(1) [OF c] unfolding buckets_ok_def f by simp
  moreover have "cb_next ?b \<le> cb_next b" using counter_fields(4) [OF c] f by simp
  moreover have "\<forall>ref. en = Entered ref \<longrightarrow> ref < cb_next b"
    using counter_ref [OF now c] f by auto
  ultimately show ?thesis by blast
qed

lemma CircuitBreaker_init_fields:
  assumes "CircuitBreaker_init er rt excs rec_t broken_t passing_t insp = Inr b"
  shows "0 < rt" "error_ratio b = er" "response_time b = rt" "cb_exceptions b = excs"
    "cb_statistic b = []" "cb_heap b = (\<lambda>_. new_Counter)" "cb_next b = 0" "cb_state b = PASSING"
    "cb_counters b = new_counters" "stuck_until b = 0"
  using assms by (auto simp: CircuitBreaker_init_def split: if_splits)

interpretation breaker: invariant_system cb_new cb_step cb_ok
proof unfold_locales
  fix s
  assume "cb_new s"
  then show "cb_ok s"
    by (auto simp: cb_new_def cb_ok_def counters_ok_def calls_ok_def buckets_ok_def
        new_Counter_def new_counters_def CircuitBreaker_init_fields
        intro: CircuitBreaker_init_fields(1))
next
  fix s s'
  assume ok: "cb_ok s" and "cb_step s s'"
  from this(2) show "cb_ok s'"
  proof cases
    case (cs_admit t ref b)
    with enter_context_ok [OF ok cs_admit(2,3)] ok show ?thesis
      by (auto simp: cb_ok_def intro: less_le_trans)
  next
    case (cs_reject t e b)
    with enter_context_ok [OF ok cs_reject(2,3)] ok show ?thesis
      by (auto simp: cb_ok_def intro: less_le_trans)
  next
    case (cs_exit ref outcome res b)
    with exit_context_fields [OF cs_exit(3)] exit_context_counters_ok [OF cs_exit(3)] ok
    show ?thesis by (auto simp: cb_ok_def calls_ok_def buckets_ok_def dest: notin_set_remove1 [rotated])
  qed
qed

text \<open>The states an entry leads to.\<close>

lemma compute_state_cases:
  "cb_state (compute_state t t' b) =
     (if t < stuck_until b then cb_state b
      else case cb_state b of
        BROKEN \<Rightarrow> RECOVERING
      | PASSING \<Rightarrow>
          if BUCKET_COUNT \<le> length (cb_statistic b) \<and> 1 \<le> recovery_ratio t' b
          then BROKEN else PASSING
      | RECOVERING \<Rightarrow>
          if error_ratio b / 2 \<le> recovery_ratio t' b then BROKEN
          else if recovery_time b \<le> t - recovery_at b then PASSING else RECOVERING)"
  by (cases "cb_state b") (simp_all add: compute_state_def break_circuit_def Let_def
      PASSING_BROKEN_THRESHOLD_def RECOVER_BROKEN_THRESHOLD_def)

lemma compute_state_stuck:
  "cb_state b \<noteq> BROKEN \<Longrightarrow> cb_state (compute_state t t' b) = BROKEN \<Longrightarrow>
   stuck_until (compute_state t t' b) = t + broken_time b \<and> cb_statistic (compute_state t t' b) = []"
  by (auto simp: compute_state_def break_circuit_def Let_def split: if_splits)

text \<open>The ratio is one exactly when every bucket of the window has calls and too many failures.\<close>

lemma recovery_ratio_one:
  "1 \<le> recovery_ratio now b \<longleftrightarrow> gen_statistic now b \<noteq> [] \<and>
     (\<forall>c \<in> set (gen_statistic now b).
        TOTAL c \<noteq> 0 \<and> error_ratio b \<le> real (FAIL c) / real (TOTAL c))"
proof (cases "gen_statistic now b = []")
  case True
  then show ?thesis by (simp add: recovery_ratio_eq)
next
  case False
  let ?P = "\<lambda>c. TOTAL c \<noteq> 0 \<and> error_ratio b \<le> real (FAIL c) / real (TOTAL c)"
  have "1 \<le> recovery_ratio now b \<longleftrightarrow>
      length (gen_statistic now b) \<le> length (filter ?P (gen_statistic now b))"
    using False by (simp add: recovery_ratio_eq le_divide_eq)
  also have "\<dots> \<longleftrightarrow> (\<forall>c \<in> set (gen_statistic now b). ?P c)"
    by (metis (mono_tags, lifting) filter_True length_filter_le less_le_not_le length_filter_less
        order_refl)
  finally show ?thesis using False by simp
qed

lemma gen_statistic_no_failures:
  assumes "\<And>ref. FAIL (cb_heap b ref) = 0" "0 < error_ratio b"
  shows "\<not> 1 \<le> recovery_ratio now b"
proof
  assume "1 \<le> recovery_ratio now b"
  then obtain c where "c \<in> set (gen_statistic now b)"
    "error_ratio b \<le> real (FAIL c) / real (TOTAL c)"
    unfolding recovery_ratio_one by (meson list.set_sel(1))
  moreover from this(1) have "FAIL c = 0" using assms(1) by (auto simp: gen_statistic_def Let_def)
  ultimately show False using assms(2) by simp
qed

text \<open>A breaker that watches no exceptions: nothing is ever counted as a failure.\<close>

definition unwatched :: "cb_system \<Rightarrow> bool" where
  "unwatched s \<longleftrightarrow> cb_exceptions (sys_cb s) = [] \<and> 0 < error_ratio (sys_cb s) \<and>
     cb_state (sys_cb s) = PASSING \<and> (\<forall>ref. FAIL (cb_heap (sys_cb s) ref) = 0)"

definition unwatched_new :: "cb_system \<Rightarrow> bool" where
  "unwatched_new s \<longleftrightarrow> sys_active s = [] \<and>
     (\<exists>ratio rt rec_t broken_t passing_t insp. 0 < ratio \<and>
        cutout ratio rt [] rec_t broken_t passing_t insp = Inr (sys_cb s))"

lemma unwatched_enter:
  assumes "unwatched s" "enter_context t (sys_cb s) = (en, b)"
  shows "(\<exists>ref. en = Entered ref) \<and> cb_exceptions b = [] \<and> 0 < error_ratio b \<and> cb_state b = PASSING \<and>
    (\<forall>ref. FAIL (cb_heap b ref) = 0)"
proof -
  let ?b = "sys_cb s"
  obtain ref b1 where c: "counter (t_counter t) ?b = (ref, b1)" by (cases "counter (t_counter t) ?b")
  note f = counter_fields [OF c]
  have heap: "\<forall>ref. FAIL (cb_heap b1 ref) = 0"
    using c assms(1) by (auto simp: unwatched_def counter_def append_counter_def new_Counter_def
        Let_def split: prod.splits if_splits)
  have "0 < error_ratio b1" using f assms(1) by (simp add: unwatched_def)
  with heap have "\<not> 1 \<le> recovery_ratio now b1" for now
    using gen_statistic_no_failures by blast
  moreover have "cb_state b1 = PASSING" using f assms(1) by (simp add: unwatched_def)
  ultimately have "compute_state (t_state t) (t_ratio t) b1 = b1"
    by (simp add: compute_state_def Let_def PASSING_BROKEN_THRESHOLD_def)
  with assms c f heap \<open>cb_state b1 = PASSING\<close> show ?thesis
    by (auto simp: enter_context_def Let_def count_call_def unwatched_def)
qed

interpretation unwatched: invariant_system unwatched_new cb_step unwatched
proof unfold_locales
  fix s
  assume "unwatched_new s"
  then obtain ratio rt rec_t broken_t passing_t insp where
    i: "0 < ratio" "CircuitBreaker_init ratio rt [] rec_t broken_t passing_t insp = Inr (sys_cb s)"
    by (auto simp: unwatched_new_def cutout_def)
  show "unwatched s"
    using i(1) by (simp add: unwatched_def CircuitBreaker_init_fields [OF i(2)] new_Counter_def)
next
  fix s s'
  assume ok: "unwatched s" and "cb_step s s'"
  from this(2) show "unwatched s'"
  proof cases
    case (cs_admit t ref b)
    with unwatched_enter [OF ok cs_admit(3)] show ?thesis by (simp add: unwatched_def)
  next
    case (cs_reject t e b)
    with unwatched_enter [OF ok cs_reject(3)] show ?thesis by simp
  next
    case (cs_exit ref outcome res b)
    with ok show ?thesis
      by (auto simp: unwatched_def exit_context_def update_counter_def except_matches_def
          split: sum.splits)
  qed
qed

text \<open>A fresh breaker, and the system after one admitted call at a given time.\<close>

definition fresh_breaker :: CircuitBreaker where
  "fresh_breaker = projr (CircuitBreaker_init (1 / 2) 1 [''Exception''] None None None None)"

definition reading_at :: "number \<Rightarrow> readings" where
  "reading_at t = \<lparr>t_counter = t, t_state = t, t_ratio = t, t_recover = t, rnd = 0\<rparr>"

definition after_entry :: "number \<Rightarrow> cb_system" where
  "after_entry t =
     \<lparr>sys_cb = snd (enter_context (reading_at t) fresh_breaker), sys_active = [0], sys_now = t\<rparr>"

lemma after_entry_eval:
  "cb_statistic (sys_cb (after_entry t)) = [(bucket 1 t, 0)]"
  "fst (enter_context (reading_at t) fresh_breaker) = Entered 0"
  "bucket 1 1 = 10"
  by (simp_all add: after_entry_def fresh_breaker_def reading_at_def CircuitBreaker_init_def
      enter_context_def counter_def append_counter_def deque_append_def BUCKET_COUNT_def
      compute_state_def count_call_def number_or_def bucket_def py_fmod_def py_int_def Let_def)

lemma reachable_after_entry: "0 \<le> t \<Longrightarrow> reachable cb_new cb_step (after_entry t)"
proof -
  assume t: "0 \<le> t"
  let ?s = "\<lparr>sys_cb = fresh_breaker, sys_active = [], sys_now = 0\<rparr>"
  have "CircuitBreaker_init (1 / 2) 1 [''Exception''] None None None None = Inr fresh_breaker"
    by (simp add: fresh_breaker_def CircuitBreaker_init_def)
  then have "cb_new ?s" unfolding cb_new_def by (simp, blast)
  moreover have "enter_context (reading_at t) (sys_cb ?s) = (Entered 0, sys_cb (after_entry t))"
    using after_entry_eval(2) [of t]
    by (cases "enter_context (reading_at t) fresh_breaker") (simp add: after_entry_def)
  moreover have "readings_ok (sys_now ?s) (reading_at t)"
    using t by (simp add: readings_ok_def reading_at_def)
  ultimately have "cb_step ?s (after_entry t)"
    using cs_admit [of ?s "reading_at t" 0 "sys_cb (after_entry t)"]
    by (simp add: after_entry_def reading_at_def)
  with \<open>cb_new ?s\<close> show ?thesis by (blast intro: reachable.intros)
qed

section \<open>Properties\<close>

text \<open>
  C11. In every state that interleaved calls can reach, with a clock that does not go back:
  the statistic holds at most \<^verbatim>\<open>BUCKET_COUNT\<close> buckets with strictly increasing times, every
  counter has at most as many successes and failures as calls, the recovery ratio lies
  between 0 and 1, and every entry is counted once, by the state that decided about it.
\<close>

theorem breaker_invariant:
  assumes "reachable cb_new cb_step s"
  shows "length (cb_statistic (sys_cb s)) \<le> BUCKET_COUNT \<and>
    sorted_wrt (<) (map fst (cb_statistic (sys_cb s))) \<and>
    counters_ok (sys_cb s) \<and> calls_ok (sys_cb s) \<and>
    0 \<le> recovery_ratio now (sys_cb s) \<and> recovery_ratio now (sys_cb s) \<le> 1"
  using breaker.reachable_inv [OF assms] recovery_ratio_bounds
  by (simp add: cb_ok_def buckets_ok_def)

theorem breaker_invariant_witness:
  "length (cb_statistic (sys_cb (after_entry 1))) \<le> BUCKET_COUNT \<and>
   cb_statistic (sys_cb (after_entry 1)) = [(10, 0)] \<and> calls_ok (sys_cb (after_entry 1))"
  using breaker_invariant [OF reachable_after_entry [of 1]] by (simp add: after_entry_eval)

text \<open>
  C12. The window of the statistic: in every reachable state the generator, which stops at
  the first bucket that is too old, yields exactly the counters of the buckets that are not
  older than one response time, newest first.
\<close>

theorem gen_statistic_window:
  assumes "reachable cb_new cb_step s"
  shows "gen_statistic now (sys_cb s) =
    map (\<lambda>(_, ref). cb_heap (sys_cb s) ref)
      (filter (\<lambda>(bkt, _). of_int (bucket (response_time (sys_cb s)) now) -
           response_time (sys_cb s) * real BUCKET_COUNT \<le> of_int bkt)
         (rev (cb_statistic (sys_cb s))))"
proof -
  let ?b = "sys_cb s"
  let ?nb = "of_int (bucket (response_time ?b) now) - response_time ?b * real BUCKET_COUNT"
  have "sorted_wrt (<) (map fst (cb_statistic ?b))"
    using breaker.reachable_inv [OF assms] by (simp add: cb_ok_def buckets_ok_def)
  then have "sorted_wrt (\<lambda>x y. (case y of (bkt, _) \<Rightarrow> \<not> of_int bkt < ?nb) \<longrightarrow>
      (case x of (bkt, _) \<Rightarrow> \<not> of_int bkt < ?nb)) (rev (cb_statistic ?b))"
    unfolding sorted_wrt_rev sorted_wrt_map by (rule sorted_wrt_mono_rel [rotated]) auto
  from takeWhile_eq_filter_sorted [OF this] show ?thesis
    by (simp add: gen_statistic_def Let_def not_less case_prod_unfold)
qed

theorem gen_statistic_window_witness:
  "gen_statistic 1 (sys_cb (after_entry 1)) = [cb_heap (sys_cb (after_entry 1)) 0]"
proof -
  obtain ref b1 where c: "counter (t_counter (reading_at 1)) fresh_breaker = (ref, b1)"
    by (cases "counter (t_counter (reading_at 1)) fresh_breaker")
  obtain en b2 where e: "enter_context (reading_at 1) fresh_breaker = (en, b2)"
    by (cases "enter_context (reading_at 1) fresh_breaker")
  have "response_time (sys_cb (after_entry 1)) = 1"
    using enter_context_fields(3) [OF e c] e
    by (simp add: after_entry_def) (simp add: fresh_breaker_def CircuitBreaker_init_def)
  then show ?thesis
    using gen_statistic_window [OF reachable_after_entry [of 1], of 1]
    by (simp add: after_entry_eval)
qed

text \<open>
  The state machine of one entry (the state after the entry, as a function of the state
  the counter left): nothing changes before \<^verbatim>\<open>stuck_until\<close>; afterwards a broken circuit starts
  recovering; a passing one breaks exactly when the statistic is full and every bucket of a
  non-empty window has calls and at least the configured ratio of failures; a recovering
  one breaks at half that threshold and passes again after the recovery time. A broken
  circuit never calls the function, and breaking holds for the broken time.
\<close>

theorem entry_transitions:
  assumes "counter (t_counter t) b = (ref, b1)" "enter_context t b = (en, b2)"
  shows "cb_state b2 =
      (if t_state t < stuck_until b then cb_state b
       else case cb_state b of
         BROKEN \<Rightarrow> RECOVERING
       | PASSING \<Rightarrow>
           if BUCKET_COUNT \<le> length (cb_statistic b1) \<and> gen_statistic (t_ratio t) b1 \<noteq> [] \<and>
              (\<forall>c \<in> set (gen_statistic (t_ratio t) b1).
                 TOTAL c \<noteq> 0 \<and> error_ratio b \<le> real (FAIL c) / real (TOTAL c))
           then BROKEN else PASSING
       | RECOVERING \<Rightarrow>
           if error_ratio b / 2 \<le> recovery_ratio (t_ratio t) b1 then BROKEN
           else if recovery_time b \<le> t_state t - recovery_at b then PASSING else RECOVERING) \<and>
    (cb_state b2 = BROKEN \<longrightarrow> en = CircuitBroken (last_exception b) \<and>
       (cb_state b \<noteq> BROKEN \<longrightarrow> stuck_until b2 = t_state t + broken_time b)) \<and>
    (cb_state b2 = PASSING \<longrightarrow> en = Entered ref)"
proof -
  note f = counter_fields [OF assms(1)]
  have cfg: "recovery_time b1 = recovery_time b" "broken_time b1 = broken_time b"
    using assms(1)
    by (auto simp: counter_def append_counter_def Let_def split: prod.splits if_splits)
  note st = enter_context_fields(5) [OF assms(2,1)]
  have "cb_state b2 = BROKEN \<longrightarrow> en = CircuitBroken (last_exception b) \<and>
      stuck_until b2 = stuck_until (compute_state (t_state t) (t_ratio t) b1)"
    using assms f st by (auto simp: enter_context_def Let_def)
  moreover have "cb_state b2 = PASSING \<longrightarrow> en = Entered ref"
    using assms st by (auto simp: enter_context_def Let_def)
  ultimately show ?thesis
    using compute_state_cases [of "t_state t" "t_ratio t" b1] st f cfg
      compute_state_stuck [of b1 "t_state t" "t_ratio t"]
    by (cases "cb_state b") (auto simp: recovery_ratio_one)
qed

theorem entry_transitions_witness:
  "\<exists>b en b2. cb_state b = BROKEN \<and> enter_context (reading_at 1) b = (en, b2) \<and>
     cb_state b2 = BROKEN \<and> en = CircuitBroken None"
proof -
  let ?b = "fresh_breaker\<lparr>cb_state := BROKEN, stuck_until := 2\<rparr>"
  obtain ref b1 where c: "counter (t_counter (reading_at 1)) ?b = (ref, b1)"
    by (cases "counter (t_counter (reading_at 1)) ?b")
  obtain en b2 where e: "enter_context (reading_at 1) ?b = (en, b2)"
    by (cases "enter_context (reading_at 1) ?b")
  have "last_exception ?b = None" by (simp add: fresh_breaker_def CircuitBreaker_init_def)
  with entry_transitions [OF c e] e show ?thesis
    by (intro exI [of _ ?b] exI [of _ en] exI [of _ b2]) (simp add: reading_at_def)
qed

text \<open>
  Admission while recovering: at the moment the recovery starts no call is admitted,
  from one recovery time on every call is, whatever the random number is, and with the same
  random number a call that is admitted at some time is admitted at every later time.
\<close>

theorem recovering_admission:
  assumes "0 < recovery_time b" "0 \<le> random" "random < 1" "now \<le> now'"
  shows "(now = recovery_at b \<longrightarrow> fst (on_recover now random ref b) = CircuitBroken (last_exception b)) \<and>
    (recovery_at b + recovery_time b \<le> now \<longrightarrow> fst (on_recover now random ref b) = Entered ref) \<and>
    (fst (on_recover now random ref b) = Entered ref \<longrightarrow>
       fst (on_recover now' random ref b) = Entered ref)"
proof -
  have mono: "(now - recovery_at b) / recovery_time b \<le> (now' - recovery_at b) / recovery_time b"
    using assms by (simp add: divide_right_mono)
  have "2 powr 1 \<le> 2 powr ((now - recovery_at b) / recovery_time b)"
    if "recovery_at b + recovery_time b \<le> now"
    using that assms(1) by (intro powr_mono) (simp_all add: le_divide_eq)
  moreover have "2 powr ((now - recovery_at b) / recovery_time b) \<le>
      2 powr ((now' - recovery_at b) / recovery_time b)"
    using mono by (intro powr_mono) simp_all
  then have "random + 1 < 2 powr ((now - recovery_at b) / recovery_time b) \<Longrightarrow>
      random + 1 < 2 powr ((now' - recovery_at b) / recovery_time b)"
    by (rule less_le_trans [rotated])
  ultimately show ?thesis using assms by (auto simp: on_recover_def)
qed

theorem recovering_admission_witness:
  "fst (on_recover 0 0 7 fresh_breaker) = CircuitBroken (last_exception fresh_breaker) \<and>
   fst (on_recover 1 (1 / 2) 7 fresh_breaker) = Entered 7"
proof -
  have f: "recovery_time fresh_breaker = 1" "recovery_at fresh_breaker = 0"
    by (simp_all add: fresh_breaker_def CircuitBreaker_init_def number_or_def)
  show ?thesis
    using recovering_admission [of fresh_breaker 0 0 0 7]
      recovering_admission [of fresh_breaker "1 / 2" 1 1 7] by (simp add: f)
qed

text \<open>
  The decorator \<^verbatim>\<open>cutout(ratio, response_time)\<close> without exception classes watches nothing:
  whatever the calls raise, with a positive ratio every reachable state is passing, and
  every call is admitted.
\<close>

theorem cutout_without_exceptions:
  assumes "reachable unwatched_new cb_step s"
  shows "cb_state (sys_cb s) = PASSING \<and> (\<exists>ref. fst (enter_context t (sys_cb s)) = Entered ref)"
proof -
  have u: "unwatched s" using assms by (rule unwatched.reachable_inv)
  then have "cb_state (sys_cb s) = PASSING" by (simp add: unwatched_def)
  moreover have "\<exists>ref. fst (enter_context t (sys_cb s)) = Entered ref"
    using unwatched_enter [OF u, of t] by (cases "enter_context t (sys_cb s)") auto
  ultimately show ?thesis by blast
qed

theorem cutout_without_exceptions_witness:
  "\<exists>b. cutout (1 / 2) 1 [] None None None None = Inr b \<and> cb_state b = PASSING"
proof -
  obtain b where b: "cutout (1 / 2) 1 [] None None None None = Inr b"
    by (simp add: cutout_def CircuitBreaker_init_def)
  then have "unwatched_new \<lparr>sys_cb = b, sys_active = [], sys_now = 0\<rparr>"
    unfolding unwatched_new_def
    by (simp, intro exI [of _ "1 / 2"] exI [of _ 1] exI [of _ None] conjI) simp_all
  from cutout_without_exceptions [OF reach_init [of unwatched_new, where step = cb_step, OF this]] b
  show ?thesis by auto
qed

end
