(* ===== verification/Backoff.thy ===== *)
theory Backoff
  imports Prelude
begin

text \<open>
  Retries with time limits, \<^verbatim>\<open>aiomisc/backoff.py\<close>, and the decorator of \<^verbatim>\<open>aiomisc/timeout.py\<close>.

  The wrapped coroutine function is an environment: for the n-th call, the time it takes
  (\<^const>\<open>None\<close> when it never ends) and its outcome. Time is a field of the state. A coroutine
  that is cancelled ends at once, and when a result and a time limit fall on the same
  instant the limit wins. The retry loop may run forever, so it has fuel, one unit per
  attempt; \<^const>\<open>None\<close> means that the fuel did not suffice.
\<close>

section \<open>State\<close>

record BackoffStatistic =
  bs_done :: nat
  bs_attempts :: nat
  bs_cancels :: nat
  bs_errors :: nat
  bs_sum_time :: number

record Backoff =
  attempt_timeout :: "number option"
  deadline :: "number option"
  pause :: number
  max_tries :: "int option"
  giveup :: "(pyexc \<Rightarrow> bool result) option"
  exceptions :: "string list"

definition new_BackoffStatistic :: BackoffStatistic where
  "new_BackoffStatistic =
     \<lparr>bs_done = 0, bs_attempts = 0, bs_cancels = 0, bs_errors = 0, bs_sum_time = 0\<rparr>"

definition Backoff_init ::
  "number option \<Rightarrow> number option \<Rightarrow> number \<Rightarrow> string list \<Rightarrow> int option \<Rightarrow>
   (pyexc \<Rightarrow> bool result) option \<Rightarrow> Backoff result" where
  "Backoff_init att_timeout dl ps excs tries gu =
     (if ps < 0 then Inl (ValueError ''pause must be positive'')
      else if (case att_timeout of None \<Rightarrow> False | Some t \<Rightarrow> t < 0)
      then Inl (ValueError ''attempt_timeout must be positive or None'')
      else if (case dl of None \<Rightarrow> False | Some t \<Rightarrow> t < 0)
      then Inl (ValueError ''deadline must be positive or None'')
      else if (case tries of None \<Rightarrow> False | Some n \<Rightarrow> n < 1)
      then Inl (ValueError ''max_retries must be >= 1 or None'')
      else Inr \<lparr>attempt_timeout = att_timeout, deadline = dl, pause = ps, max_tries = tries,
                giveup = gu, exceptions = excs @ [''TimeoutError'']\<rparr>)"

text \<open>\<^verbatim>\<open>exceptions or exc\<close>: the keyword wins when it is not empty.\<close>

definition asyncbackoff ::
  "number option \<Rightarrow> number option \<Rightarrow> number \<Rightarrow> string list \<Rightarrow> string list \<Rightarrow> int option \<Rightarrow>
   (pyexc \<Rightarrow> bool result) option \<Rightarrow> Backoff result" where
  "asyncbackoff att_timeout dl ps exc excs tries gu =
     Backoff_init att_timeout dl ps (if excs \<noteq> [] then excs else exc) tries gu"

definition asyncretry ::
  "int option \<Rightarrow> string list \<Rightarrow> number \<Rightarrow> (pyexc \<Rightarrow> bool result) option \<Rightarrow> Backoff result" where
  "asyncretry tries excs ps gu = asyncbackoff None None ps [] excs tries gu"

record BackoffExecution =
  x_now :: number
  x_last_exception :: "pyexc option"
  x_total_tries :: nat
  x_statistic :: BackoffStatistic

definition prepare :: "number \<Rightarrow> BackoffStatistic \<Rightarrow> BackoffExecution" where
  "prepare now st =
     \<lparr>x_now = now, x_last_exception = None, x_total_tries = 0, x_statistic = st\<rparr>"

section \<open>Waiting\<close>

type_synonym 'a attempt = "number option \<times> 'a result"

text \<open>\<^verbatim>\<open>asyncio.wait_for\<close>: the time and the outcome of waiting for a coroutine with a timeout.\<close>

definition wait_for :: "number option \<Rightarrow> 'a attempt \<Rightarrow> 'a attempt" where
  "wait_for t att =
     (case t of
        None \<Rightarrow> att
      | Some t \<Rightarrow>
          (case fst att of
             Some d \<Rightarrow> if d < t then att else (Some t, Inl TimeoutError)
           | None \<Rightarrow> (Some t, Inl TimeoutError)))"

text \<open>The decorator of \<^verbatim>\<open>aiomisc/timeout.py\<close>.\<close>

definition timeout :: "number \<Rightarrow> bool \<Rightarrow> (('arg \<Rightarrow> 'a attempt) \<Rightarrow> 'arg \<Rightarrow> 'a attempt) result" where
  "timeout v is_coroutine_function =
     (if \<not> is_coroutine_function then Inl (TypeError ''Function is not a coroutine function'')
      else Inr (\<lambda>func args. wait_for (Some v) (func args)))"

text \<open>Waiting until a time, unless the limit comes first.\<close>

datatype wait = At number | Stopped number | Never

definition wait_until :: "number option \<Rightarrow> number \<Rightarrow> number option \<Rightarrow> wait" where
  "wait_until limit now dur =
     (case (limit, dur) of
        (None, None) \<Rightarrow> Never
      | (None, Some d) \<Rightarrow> At (now + d)
      | (Some l, None) \<Rightarrow> Stopped l
      | (Some l, Some d) \<Rightarrow> if now + d < l then At (now + d) else Stopped l)"

section \<open>The retry loop\<close>

definition bump :: "(BackoffStatistic \<Rightarrow> BackoffStatistic) \<Rightarrow> BackoffExecution \<Rightarrow> BackoffExecution" where
  "bump f x = x\<lparr>x_statistic := f (x_statistic x)\<rparr>"

text \<open>The head of an iteration, and its \<^verbatim>\<open>finally\<close> clause.\<close>

definition begin_attempt :: "BackoffExecution \<Rightarrow> BackoffExecution" where
  "begin_attempt x =
     (bump (\<lambda>s. s\<lparr>bs_attempts := bs_attempts s + 1\<rparr>) x)\<lparr>x_total_tries := x_total_tries x + 1\<rparr>"

definition finish_attempt :: "number \<Rightarrow> number \<Rightarrow> BackoffExecution \<Rightarrow> BackoffExecution" where
  "finish_attempt start now x =
     (bump (\<lambda>s. s\<lparr>bs_sum_time := bs_sum_time s + (now - start), bs_done := bs_done s + 1\<rparr>) x)
       \<lparr>x_now := now\<rparr>"

definition tries_exhausted :: "Backoff \<Rightarrow> BackoffExecution \<Rightarrow> bool" where
  "tries_exhausted bo x =
     (case max_tries bo of None \<Rightarrow> False | Some n \<Rightarrow> int (x_total_tries x) \<ge> n)"

definition call_giveup :: "Backoff \<Rightarrow> pyexc \<Rightarrow> bool result" where
  "call_giveup bo e = (case giveup bo of None \<Rightarrow> Inr False | Some g \<Rightarrow> g e)"

datatype 'a run_outcome = Finished "'a result" | Interrupted | Hangs

text \<open>
  \<^verbatim>\<open>run()\<close>. The limit is the time at which the task is cancelled, by the deadline or by its
  caller; the cancellation reaches either the attempt or the pause.
\<close>

fun run_loop ::
  "nat \<Rightarrow> Backoff \<Rightarrow> (nat \<Rightarrow> 'a attempt) \<Rightarrow> number option \<Rightarrow> BackoffExecution \<Rightarrow>
   ('a run_outcome \<times> BackoffExecution) option" where
  "run_loop 0 bo f limit x = None"
| "run_loop (Suc fuel) bo f limit x0 =
     (let x = begin_attempt x0;
          start = x_now x;
          (dur, outcome) = wait_for (attempt_timeout bo) (f (x_total_tries x))
      in case wait_until limit start dur of
           Never \<Rightarrow> Some (Hangs, x)
         | Stopped l \<Rightarrow>
             Some (Interrupted,
               finish_attempt start l (bump (\<lambda>s. s\<lparr>bs_cancels := bs_cancels s + 1\<rparr>) x))
         | At t \<Rightarrow>
             (case outcome of
                Inr v \<Rightarrow> Some (Finished (Inr v), finish_attempt start t x)
              | Inl e \<Rightarrow>
                  if isinstance_exc e ''CancelledError''
                  then Some (Finished (Inl e),
                    finish_attempt start t (bump (\<lambda>s. s\<lparr>bs_cancels := bs_cancels s + 1\<rparr>) x))
                  else if except_matches (exceptions bo) e
                  then
                    let x = (bump (\<lambda>s. s\<lparr>bs_errors := bs_errors s + 1\<rparr>) x)\<lparr>x_last_exception := Some e\<rparr>
                    in if tries_exhausted bo x
                       then Some (Finished (Inl e), finish_attempt start t x)
                       else (case call_giveup bo e of
                               Inl e' \<Rightarrow> Some (Finished (Inl e'), finish_attempt start t x)
                             | Inr True \<Rightarrow> Some (Finished (Inl e), finish_attempt start t x)
                             | Inr False \<Rightarrow>
                                 (case wait_until limit t (Some (pause bo)) of
                                    At t' \<Rightarrow>
                                      run_loop fuel bo f limit (finish_attempt start t' x)
                                  | Stopped l \<Rightarrow> Some (Interrupted, finish_attempt start l x)
                                  | Never \<Rightarrow> Some (Hangs, x)))
                  else if is_Exception e
                  then Some (Finished (Inl e),
                    finish_attempt start t (x\<lparr>x_last_exception := Some e\<rparr>))
                  else Some (Finished (Inl e), finish_attempt start t x)))"

text \<open>The outer \<^verbatim>\<open>except Exception\<close>: the last exception of an attempt replaces the raised one.\<close>

definition reraise_last :: "BackoffExecution \<Rightarrow> 'a result \<Rightarrow> 'a result" where
  "reraise_last x r =
     (case r of
        Inr v \<Rightarrow> Inr v
      | Inl e \<Rightarrow>
          if is_Exception e
          then (case x_last_exception x of Some e' \<Rightarrow> Inl e' | None \<Rightarrow> Inl e)
          else Inl e)"

definition min_limit :: "number option \<Rightarrow> number option \<Rightarrow> number option" where
  "min_limit a b = (case (a, b) of
     (None, _) \<Rightarrow> b | (_, None) \<Rightarrow> a | (Some x, Some y) \<Rightarrow> Some (min x y))"

text \<open>
  \<^verbatim>\<open>execute\<close>, where the caller may be cancelled at a later time \<^verbatim>\<open>cancel_at\<close>. The result is
  \<^const>\<open>None\<close> when the call never returns. A coroutine under a deadline of zero is not started.
\<close>

definition execute ::
  "nat \<Rightarrow> Backoff \<Rightarrow> (nat \<Rightarrow> 'a attempt) \<Rightarrow> number option \<Rightarrow> BackoffExecution \<Rightarrow>
   ('a result option \<times> BackoffExecution) option" where
  "execute fuel bo f cancel_at x =
     (if (case deadline bo of None \<Rightarrow> False | Some d \<Rightarrow> d \<le> 0)
      then Some (Some (reraise_last x (Inl TimeoutError)), x)
      else
        let deadline_at = map_option (\<lambda>d. x_now x + d) (deadline bo)
        in case run_loop fuel bo f (min_limit deadline_at cancel_at) x of
             None \<Rightarrow> None
           | Some (Hangs, x') \<Rightarrow> Some (None, x')
           | Some (Finished r, x') \<Rightarrow> Some (Some (reraise_last x' r), x')
           | Some (Interrupted, x') \<Rightarrow>
               if cancel_at \<noteq> None \<and> min_limit deadline_at cancel_at = cancel_at
               then Some (Some (Inl CancelledError), x')
               else Some (Some (reraise_last x' (Inl TimeoutError)), x'))"

text \<open>\<^verbatim>\<open>Backoff.execute\<close>: every call has an execution of its own, on the shared statistic.\<close>

definition Backoff_execute ::
  "nat \<Rightarrow> Backoff \<Rightarrow> (nat \<Rightarrow> 'a attempt) \<Rightarrow> number option \<Rightarrow> number \<Rightarrow> BackoffStatistic \<Rightarrow>
   ('a result option \<times> BackoffExecution) option" where
  "Backoff_execute fuel bo f cancel_at now st = execute fuel bo f cancel_at (prepare now st)"

text \<open>
  \<^verbatim>\<open>Backoff.__call__\<close>: the decorator, for coroutine functions only. The wrapper gives every call its
  arguments; all of them share the statistic.
\<close>

definition Backoff_call ::
  "bool \<Rightarrow> Backoff \<Rightarrow> ('args \<Rightarrow> nat \<Rightarrow> 'a attempt) \<Rightarrow>
   (nat \<Rightarrow> 'args \<Rightarrow> number option \<Rightarrow> number \<Rightarrow> BackoffStatistic \<Rightarrow>
    ('a result option \<times> BackoffExecution) option) result" where
  "Backoff_call is_coroutine_function bo func =
     (if \<not> is_coroutine_function then Inl (TypeError ''Function must be a coroutine function'')
      else Inr (\<lambda>fuel args. Backoff_execute fuel bo (func args)))"

text \<open>Calls of a decorated function one after the other, each at its time.\<close>

fun decorated_calls ::
  "('args \<Rightarrow> number option \<Rightarrow> number \<Rightarrow> BackoffStatistic \<Rightarrow> ('a result option \<times> BackoffExecution) option) \<Rightarrow>
   ('args \<times> number) list \<Rightarrow> BackoffStatistic \<Rightarrow> ('a result option list \<times> BackoffStatistic) option" where
  "decorated_calls wrapper [] st = Some ([], st)"
| "decorated_calls wrapper ((args, now) # calls) st =
     (case wrapper args None now st of
        None \<Rightarrow> None
      | Some (r, x) \<Rightarrow> map_option (apfst ((#) r)) (decorated_calls wrapper calls (x_statistic x)))"

section \<open>Lemmas\<close>

lemmas attempt_defs = begin_attempt_def finish_attempt_def bump_def

text \<open>What an iteration that is followed by another one leaves.\<close>

definition retried :: "number \<Rightarrow> pyexc \<Rightarrow> BackoffExecution \<Rightarrow> BackoffExecution" where
  "retried t e x =
     finish_attempt (x_now x) t
       ((bump (\<lambda>s. s\<lparr>bs_errors := bs_errors s + 1\<rparr>) (begin_attempt x))\<lparr>x_last_exception := Some e\<rparr>)"

lemma retried_fields [simp]:
  "x_total_tries (retried t e x) = Suc (x_total_tries x)" "x_now (retried t e x) = t"
  by (simp_all add: retried_def attempt_defs)

text \<open>The exceptions after which the loop goes on, when tries are left.\<close>

definition retriable :: "Backoff \<Rightarrow> pyexc \<Rightarrow> bool" where
  "retriable bo e \<longleftrightarrow> \<not> isinstance_exc e ''CancelledError'' \<and> except_matches (exceptions bo) e \<and>
     call_giveup bo e = Inr False"

lemma wait_until_At: "wait_until limit now dur = At t \<Longrightarrow> limit = Some l \<Longrightarrow> t < l"
  by (auto simp: wait_until_def split: option.splits if_splits)

lemma wait_until_Stopped: "wait_until limit now dur = Stopped l \<Longrightarrow> limit = Some l"
  by (auto simp: wait_until_def split: option.splits if_splits)

text \<open>One iteration: it ends the loop, or it is a retry.\<close>

lemma run_loop_step:
  assumes "run_loop (Suc fuel) bo f limit x = Some (out, x')"
  obtains (last_iteration) "run_loop (Suc 0) bo f limit x = Some (out, x')"
  | (retry) t e where "retriable bo e" "\<not> tries_exhausted bo (begin_attempt x)"
      "\<forall>l. limit = Some l \<longrightarrow> t < l"
      "run_loop fuel bo f limit (retried t e x) = Some (out, x')"
proof -
  obtain dur outcome where
    w: "wait_for (attempt_timeout bo) (f (x_total_tries (begin_attempt x))) = (dur, outcome)"
    by (cases "wait_for (attempt_timeout bo) (f (x_total_tries (begin_attempt x)))")
  have start: "x_now (begin_attempt x) = x_now x" by (simp add: attempt_defs)
  have ex: "tries_exhausted bo
      ((bump g (begin_attempt x))\<lparr>x_last_exception := l\<rparr>) = tries_exhausted bo (begin_attempt x)" for g l
    by (simp add: tries_exhausted_def attempt_defs split: option.splits)
  show thesis
  proof (cases "\<exists>t e t'. wait_until limit (x_now x) dur = At t \<and> outcome = Inl e \<and> retriable bo e \<and>
      \<not> tries_exhausted bo (begin_attempt x) \<and> wait_until limit t (Some (pause bo)) = At t'")
    case True
    then obtain t e t' where c: "wait_until limit (x_now x) dur = At t" "outcome = Inl e"
      "retriable bo e" "\<not> tries_exhausted bo (begin_attempt x)"
      "wait_until limit t (Some (pause bo)) = At t'" by blast
    have "run_loop fuel bo f limit (retried t' e x) = Some (out, x')"
      using assms c w start ex by (simp add: retriable_def retried_def)
    with c(3,4,5) show thesis by (intro retry) (auto dest: wait_until_At)
  next
    case False
    have "run_loop (Suc fuel) bo f limit x = run_loop (Suc 0) bo f limit x"
      using False w start ex
      by (auto simp: retriable_def Let_def split: wait.splits sum.splits bool.splits)
    with assms show thesis by (intro last_iteration) simp
  qed
qed

text \<open>The books of a number of attempts.\<close>

definition accounts :: "nat \<Rightarrow> BackoffExecution \<Rightarrow> BackoffExecution \<Rightarrow> bool" where
  "accounts n x x' \<longleftrightarrow>
     x_total_tries x' = x_total_tries x + n \<and>
     bs_attempts (x_statistic x') = bs_attempts (x_statistic x) + n \<and>
     bs_done (x_statistic x') = bs_done (x_statistic x) + n \<and>
     bs_errors (x_statistic x') + bs_cancels (x_statistic x') \<le>
       bs_errors (x_statistic x) + bs_cancels (x_statistic x) + n \<and>
     bs_sum_time (x_statistic x') - bs_sum_time (x_statistic x) = x_now x' - x_now x"

lemma accounts_trans: "accounts m x y \<Longrightarrow> accounts n y z \<Longrightarrow> accounts (m + n) x z"
  by (simp add: accounts_def)

lemma accounts_retried: "accounts 1 x (retried t e x)"
  by (simp add: accounts_def retried_def attempt_defs)

lemma accounts_last:
  assumes "run_loop (Suc 0) bo f limit x = Some (out, x')" "out \<noteq> Hangs"
  shows "accounts 1 x x'"
  using assms
  by (auto simp: accounts_def attempt_defs Let_def
      split: prod.splits wait.splits sum.splits if_splits bool.splits)

lemma run_loop_accounts:
  assumes "run_loop fuel bo f limit x = Some (out, x')" "out \<noteq> Hangs"
  shows "\<exists>n. 1 \<le> n \<and> n \<le> fuel \<and> accounts n x x'"
  using assms(1)
proof (induction fuel arbitrary: x)
  case 0
  then show ?case by simp
next
  case (Suc fuel)
  from Suc.prems show ?case
  proof (cases rule: run_loop_step)
    case last_iteration
    from accounts_last [OF this assms(2)] show ?thesis by force
  next
    case (retry t e)
    from Suc.IH [OF retry(4)] obtain n where "1 \<le> n" "n \<le> fuel" "accounts n (retried t e x) x'"
      by blast
    with accounts_trans [OF accounts_retried [of x t e]] show ?thesis
      by (intro exI [of _ "1 + n"]) auto
  qed
qed

text \<open>No attempt after the last try.\<close>

lemma run_loop_tries:
  assumes "run_loop fuel bo f limit x = Some (out, x')" "max_tries bo = Some m"
    and "int (x_total_tries x) < m"
  shows "int (x_total_tries x') \<le> m"
  using assms
proof (induction fuel arbitrary: x)
  case 0
  then show ?case by simp
next
  case (Suc fuel)
  from Suc.prems(1) show ?case
  proof (cases rule: run_loop_step)
    case last_iteration
    have "x_total_tries x' = x_total_tries x + 1"
      using last_iteration
      by (auto simp: attempt_defs Let_def
          split: prod.splits wait.splits sum.splits if_splits bool.splits)
    with Suc.prems(3) show ?thesis by simp
  next
    case (retry t e)
    have "x_total_tries (retried t e x) = x_total_tries (begin_attempt x)"
      by (simp add: retried_def attempt_defs)
    with retry(2) Suc.prems(2) have "int (x_total_tries (retried t e x)) < m"
      by (simp add: tries_exhausted_def)
    with Suc.IH retry(4) Suc.prems(2) show ?thesis by blast
  qed
qed

text \<open>With a bound on the tries, that much fuel is enough.\<close>

lemma run_loop_fuel:
  assumes "max_tries bo = Some m" "m \<le> int (x_total_tries x + fuel)" "0 < fuel"
  shows "\<exists>r. run_loop fuel bo f limit x = Some r"
  using assms
proof (induction fuel arbitrary: x)
  case 0
  then show ?case by simp
next
  case (Suc fuel)
  show ?case
  proof (cases "tries_exhausted bo (begin_attempt x)")
    case True
    then have "tries_exhausted bo ((bump g (begin_attempt x))\<lparr>x_last_exception := l\<rparr>)" for g l
      by (simp add: tries_exhausted_def attempt_defs split: option.splits)
    then show ?thesis
      by (auto simp: Let_def split: prod.splits wait.splits sum.splits bool.splits)
  next
    case False
    with Suc.prems(1,2) have "0 < fuel" by (auto simp: tries_exhausted_def attempt_defs)
    have "m \<le> int (x_total_tries (finish_attempt s t' ((bump g (begin_attempt x))\<lparr>x_last_exception := l\<rparr>)) + fuel)"
      for s t' g l
      using Suc.prems(2) by (simp add: attempt_defs)
    from Suc.IH [OF Suc.prems(1) this \<open>0 < fuel\<close>] show ?thesis
      by (auto simp: Let_def split: prod.splits wait.splits sum.splits bool.splits)
  qed
qed

lemma run_loop_limit:
  assumes "run_loop fuel bo f (Some l) x = Some (out, x')" "x_now x \<le> l"
  shows "x_now x' \<le> l \<and> out \<noteq> Hangs \<and> (out = Interrupted \<longrightarrow> x_now x' = l)"
  using assms
proof (induction fuel arbitrary: x)
  case 0
  then show ?case by simp
next
  case (Suc fuel)
  from Suc.prems(1) show ?case
  proof (cases rule: run_loop_step)
    case last_iteration
    then show ?thesis
      using Suc.prems(2)
      by (auto simp: attempt_defs Let_def wait_until_def less_imp_le
          split: prod.splits wait.splits sum.splits if_splits bool.splits option.splits)
  next
    case (retry t e)
    have "x_now (retried t e x) = t" by (simp add: retried_def attempt_defs)
    with retry(3) Suc.IH [OF retry(4)] show ?thesis by simp
  qed
qed

text \<open>Under a limit the pauses use up the time, so the loop ends.\<close>

lemma run_loop_limit_fuel:
  assumes "\<forall>i d. fst (wait_for (attempt_timeout bo) (f i)) = Some d \<longrightarrow> 0 \<le> d" "0 < pause bo"
    and "l \<le> x_now x + pause bo * real fuel"
  shows "\<exists>r. run_loop (Suc fuel) bo f (Some l) x = Some r"
  using assms(3)
proof (induction fuel arbitrary: x)
  case 0
  obtain dur out where w: "wait_for (attempt_timeout bo) (f (x_total_tries (begin_attempt x))) = (dur, out)"
    by fastforce
  have "0 \<le> d" if "dur = Some d" for d using assms(1) w that by (metis fst_conv)
  then have "wait_until (Some l) (x_now x) dur = Stopped l"
    using 0 by (cases dur) (fastforce simp: wait_until_def)+
  moreover have "x_now (begin_attempt x) = x_now x" by (simp add: attempt_defs)
  ultimately show ?case using w by (simp add: Let_def)
next
  case (Suc fuel)
  obtain dur out where w: "wait_for (attempt_timeout bo) (f (x_total_tries (begin_attempt x))) = (dur, out)"
    by fastforce
  have ends: "\<exists>r. run_loop (Suc fuel) bo f (Some l) (finish_attempt s t' y) = Some r"
    if "wait_until (Some l) (x_now x) dur = At t" "wait_until (Some l) t (Some (pause bo)) = At t'" for t t' s y
  proof -
    have "0 \<le> d" if "dur = Some d" for d using assms(1) w that by (metis fst_conv)
    then have "x_now x + pause bo \<le> t'"
      using that by (cases dur) (auto simp: wait_until_def split: if_splits)
    then show ?thesis using Suc.prems by (intro Suc.IH) (simp add: attempt_defs algebra_simps)
  qed
  have "x_now (begin_attempt x) = x_now x" by (simp add: attempt_defs)
  with w ends show ?case
    by (subst run_loop.simps) (auto simp: Let_def simp del: run_loop.simps
        split: wait.splits sum.splits bool.splits)
qed

text \<open>Attempt \<^verbatim>\<open>k\<close> with this outcome is the last one.\<close>

definition conclusive :: "Backoff \<Rightarrow> nat \<Rightarrow> 'a result \<Rightarrow> bool" where
  "conclusive bo k r =
     (case r of
        Inr v \<Rightarrow> True
      | Inl e \<Rightarrow>
          if isinstance_exc e ''CancelledError'' then \<not> is_Exception e
          else except_matches (exceptions bo) e \<longrightarrow>
            max_tries bo = Some (int k) \<or> call_giveup bo e = Inr True)"

lemma run_loop_conclusive:
  assumes "wait_for (attempt_timeout bo) (f (Suc (x_total_tries x))) = (Some d, r)"
    and "conclusive bo (Suc (x_total_tries x)) r"
  shows "\<exists>x'. run_loop (Suc fuel) bo f None x = Some (Finished r, x') \<and>
    reraise_last x' r = r \<and> x_total_tries x' = Suc (x_total_tries x) \<and> x_now x' = x_now x + d"
proof -
  have w: "wait_until None now (Some d) = At (now + d)" for now by (simp add: wait_until_def)
  have m: "tries_exhausted bo (x'\<lparr>x_last_exception := l\<rparr>)"
    if "max_tries bo = Some (int (Suc (x_total_tries x)))" "x_total_tries x' = Suc (x_total_tries x)"
    for x' l using that by (simp add: tries_exhausted_def)
  have t: "x_total_tries (begin_attempt x) = Suc (x_total_tries x)"
    "x_now (begin_attempt x) = x_now x"
    "x_total_tries (bump g x') = x_total_tries x'" for g x'
    by (simp_all add: attempt_defs)
  show ?thesis
  proof (cases r)
    case (Inr v)
    with assms(1) t w show ?thesis
      by (auto simp: reraise_last_def finish_attempt_def Let_def)
  next
    case (Inl e)
    with assms t w m show ?thesis
      by (auto simp: reraise_last_def finish_attempt_def bump_def conclusive_def Let_def
          split: if_splits)
  qed
qed

lemma run_loop_retry:
  assumes "wait_for (attempt_timeout bo) (f (Suc (x_total_tries x))) = (Some d, Inl e)"
    and "retriable bo e" "\<forall>m. max_tries bo = Some m \<longrightarrow> int (Suc (x_total_tries x)) < m"
  shows "run_loop (Suc fuel) bo f None x =
    run_loop fuel bo f None (retried (x_now x + d + pause bo) e x)"
proof -
  have "\<not> tries_exhausted bo ((bump g (begin_attempt x))\<lparr>x_last_exception := l\<rparr>)" for g l
    using assms(3) by (auto simp: tries_exhausted_def attempt_defs split: option.splits)
  moreover have "x_total_tries (begin_attempt x) = Suc (x_total_tries x)"
    "x_now (begin_attempt x) = x_now x" by (simp_all add: attempt_defs)
  ultimately show ?thesis
    using assms(1,2) by (simp add: retriable_def retried_def wait_until_def Let_def)
qed

text \<open>The time of a number of attempts, with the pauses after each of them.\<close>

definition retry_time :: "Backoff \<Rightarrow> (nat \<Rightarrow> 'a attempt) \<Rightarrow> nat \<Rightarrow> nat \<Rightarrow> number" where
  "retry_time bo f i n =
     (\<Sum>j\<leftarrow>[i..<i + n]. the (fst (wait_for (attempt_timeout bo) (f (Suc j)))) + pause bo)"

lemma run_loop_result:
  assumes "\<forall>j < n. \<exists>d e. wait_for (attempt_timeout bo) (f (Suc (x_total_tries x + j))) = (Some d, Inl e) \<and>
      retriable bo e"
    and "\<forall>m. max_tries bo = Some m \<longrightarrow> int (Suc (x_total_tries x + n)) \<le> m"
    and "wait_for (attempt_timeout bo) (f (Suc (x_total_tries x + n))) = (Some d, r)"
    and "conclusive bo (Suc (x_total_tries x + n)) r" "n < fuel"
  shows "\<exists>x'. run_loop fuel bo f None x = Some (Finished r, x') \<and> reraise_last x' r = r \<and>
    x_total_tries x' = Suc (x_total_tries x + n) \<and>
    x_now x' = x_now x + retry_time bo f (x_total_tries x) n + d"
  using assms
proof (induction n arbitrary: x fuel)
  case 0
  then obtain fuel' where "fuel = Suc fuel'" by (cases fuel) auto
  with 0 run_loop_conclusive [of bo f x d r fuel'] show ?case by (simp add: retry_time_def)
next
  case (Suc n)
  then obtain fuel' where fuel: "fuel = Suc fuel'" by (cases fuel) auto
  from Suc.prems(1) have "\<exists>d e. wait_for (attempt_timeout bo) (f (Suc (x_total_tries x + 0))) =
      (Some d, Inl e) \<and> retriable bo e" by blast
  then obtain d0 e where first: "wait_for (attempt_timeout bo) (f (Suc (x_total_tries x))) =
      (Some d0, Inl e)" "retriable bo e" by auto
  let ?x = "retried (x_now x + d0 + pause bo) e x"
  have "\<forall>m. max_tries bo = Some m \<longrightarrow> int (Suc (x_total_tries x)) < m" using Suc.prems(2) by auto
  from run_loop_retry [of bo f x d0 e fuel', OF first this] fuel
  have "run_loop fuel bo f None x = run_loop fuel' bo f None ?x" by simp
  moreover have "\<forall>j < n. \<exists>d e. wait_for (attempt_timeout bo) (f (Suc (x_total_tries ?x + j))) =
      (Some d, Inl e) \<and> retriable bo e" using Suc.prems(1) by auto
  moreover have "retry_time bo f (x_total_tries x) (Suc n) =
      d0 + pause bo + retry_time bo f (x_total_tries ?x) n"
    using first(1) by (simp add: retry_time_def upt_conv_Cons del: upt_Suc)
  ultimately show ?case
    using Suc.IH [of ?x fuel'] Suc.prems(2-5) fuel
    by (simp add: add.assoc del: run_loop.simps)
qed

section \<open>Properties\<close>

text \<open>
  C14. A bound on the tries bounds the work: with \<^verbatim>\<open>max_tries\<close> the call needs no more
  iterations than that, so it comes to an end (or hangs inside an attempt that has no time
  limit), and the function is called at most \<^verbatim>\<open>max_tries\<close> times.
\<close>

theorem backoff_max_tries:
  assumes "Backoff_init att dl ps excs (Some m) gu = Inr bo"
  shows "\<exists>r x'. Backoff_execute (nat m) bo f cancel_at now st = Some (r, x') \<and>
    int (x_total_tries x') \<le> m"
proof -
  have bo: "max_tries bo = Some m" "1 \<le> m"
    using assms by (auto simp: Backoff_init_def split: if_splits)
  let ?x = "prepare now st" and ?l = "min_limit (map_option (\<lambda>d. now + d) (deadline bo)) cancel_at"
  have tries: "x_total_tries ?x = 0" by (simp add: prepare_def)
  then obtain out x' where r: "run_loop (nat m) bo f ?l ?x = Some (out, x')"
    using run_loop_fuel [of bo m ?x "nat m" f ?l] bo by auto
  moreover have "int (x_total_tries x') \<le> m"
    using run_loop_tries [OF r bo(1)] bo(2) tries by simp
  ultimately show ?thesis
    using bo(2) tries
    by (auto simp: Backoff_execute_def execute_def prepare_def Let_def
        split: run_outcome.splits option.splits)
qed

theorem backoff_max_tries_witness:
  "\<exists>bo. Backoff_init None None 1 [''ValueError''] (Some 3) None = Inr bo \<and>
     (\<exists>r x'. Backoff_execute 3 bo (\<lambda>_. (Some 1, Inl (ValueError ''x''))) None 0 new_BackoffStatistic =
        Some (r :: nat result option, x') \<and> int (x_total_tries x') \<le> 3)"
proof -
  obtain bo where bo: "Backoff_init None None 1 [''ValueError''] (Some 3) None = Inr bo"
    by (simp add: Backoff_init_def)
  from backoff_max_tries [OF this, of "\<lambda>_. (Some 1, Inl (ValueError ''x''))"] bo
  show ?thesis by simp
qed

text \<open>A call under a deadline is the loop under a limit, and it does not hang.\<close>

lemma execute_limited:
  assumes "deadline bo = Some d" "0 < d" "cancel_at = None \<or> cancel_at = Some c \<and> now \<le> c"
  obtains l where "now \<le> l" "l \<le> now + d"
    "\<And>fuel. map_option snd (Backoff_execute fuel bo f cancel_at now st) =
       map_option snd (run_loop fuel bo f (Some l) (prepare now st))"
    "\<And>fuel r x'. Backoff_execute fuel bo f cancel_at now st = Some (r, x') \<Longrightarrow>
       r \<noteq> None \<and> (\<exists>out. out \<noteq> Hangs \<and> run_loop fuel bo f (Some l) (prepare now st) = Some (out, x'))"
proof -
  obtain l where l: "min_limit (Some (now + d)) cancel_at = Some l" "now \<le> l" "l \<le> now + d"
    using assms(2,3) by (auto simp: min_limit_def)
  have hangs: "out \<noteq> Hangs" if "run_loop fuel bo f (Some l) (prepare now st) = Some (out, x')" for fuel out x'
    using run_loop_limit [OF that] l(2) by (simp add: prepare_def)
  have "map_option snd (Backoff_execute fuel bo f cancel_at now st) =
      map_option snd (run_loop fuel bo f (Some l) (prepare now st))" for fuel
    using assms(1,2) l(1)
    by (auto simp: Backoff_execute_def execute_def prepare_def Let_def split: option.splits run_outcome.splits)
  moreover have "r \<noteq> None \<and> (\<exists>out. out \<noteq> Hangs \<and> run_loop fuel bo f (Some l) (prepare now st) = Some (out, x'))"
    if "Backoff_execute fuel bo f cancel_at now st = Some (r, x')" for fuel r x'
    using that assms(1,2) l(1) hangs [of fuel]
    by (auto simp: Backoff_execute_def execute_def prepare_def Let_def
        split: option.splits run_outcome.splits if_splits)
  ultimately show thesis using l(2,3) that by blast
qed

lemma execute_accounts:
  assumes "deadline bo = Some d" "0 < d" "cancel_at = None \<or> cancel_at = Some c \<and> now \<le> c"
    and "Backoff_execute fuel bo f cancel_at now st = Some (r, x')"
  shows "r \<noteq> None \<and> x_now x' \<le> now + d \<and> (\<exists>n. 1 \<le> n \<and> n \<le> fuel \<and> accounts n (prepare now st) x')"
proof -
  obtain l out where l: "now \<le> l" "l \<le> now + d" "r \<noteq> None" "out \<noteq> Hangs"
    and run: "run_loop fuel bo f (Some l) (prepare now st) = Some (out, x')"
    by (rule execute_limited [OF assms(1-3), of f st]) (use assms(4) in blast)
  have "x_now x' \<le> l" using run_loop_limit [OF run] l(1) by (simp add: prepare_def)
  with l run_loop_accounts [OF run l(4)] show ?thesis by auto
qed



text \<open>
  The books of a decorated function: with a deadline and a bound on the tries all its calls return, the
  attempts of \<open>k\<close> calls are at most \<open>k\<close> times the bound, and all of them are counted as done.
\<close>

lemma execute_tries:
  assumes "Backoff_init att dl ps excs (Some m) gu = Inr bo"
  shows "\<exists>r x'. Backoff_execute (nat m) bo f cancel_at now st = Some (r, x')"
proof -
  have bo: "max_tries bo = Some m" "1 \<le> m"
    using assms by (auto simp: Backoff_init_def split: if_splits)
  obtain out where "run_loop (nat m) bo f (min_limit (map_option (\<lambda>d. now + d) (deadline bo)) cancel_at)
      (prepare now st) = Some out"
    using run_loop_fuel [of bo m "prepare now st" "nat m" f] bo by (force simp: prepare_def)
  then show ?thesis
    by (cases out; cases "fst out")
      (auto simp: Backoff_execute_def execute_def prepare_def Let_def split: option.splits)
qed

theorem decorated_books:
  assumes "Backoff_init att (Some d) ps excs (Some m) gu = Inr bo" "0 < d"
    and "Backoff_call True bo func = Inr wrapper"
  shows "\<exists>rs st'. decorated_calls (wrapper (nat m)) calls st = Some (rs, st') \<and>
    length rs = length calls \<and> None \<notin> set rs \<and>
    (\<exists>n. bs_attempts st' = bs_attempts st + n \<and> bs_done st' = bs_done st + n \<and> n \<le> length calls * nat m)"
proof (induction calls arbitrary: st)
  case Nil
  then show ?case by simp
next
  case (Cons call calls)
  obtain args now where call: "call = (args, now)" by fastforce
  have w: "wrapper (nat m) args None now st = Backoff_execute (nat m) bo (func args) None now st"
    using assms(3) by (auto simp: Backoff_call_def)
  have dl: "deadline bo = Some d" using assms(1) by (auto simp: Backoff_init_def split: if_splits)
  obtain r x where x: "Backoff_execute (nat m) bo (func args) None now st = Some (r, x)"
    using execute_tries [OF assms(1)] by blast
  from execute_accounts [OF dl assms(2) _ x] obtain n where n: "n \<le> nat m" "r \<noteq> None"
    "accounts n (prepare now st) x" by blast
  from Cons.IH [of "x_statistic x"] obtain rs st' k where
    "decorated_calls (wrapper (nat m)) calls (x_statistic x) = Some (rs, st')" "length rs = length calls"
    "None \<notin> set rs" "bs_attempts st' = bs_attempts (x_statistic x) + k"
    "bs_done st' = bs_done (x_statistic x) + k" "k \<le> length calls * nat m" by blast
  with n x w call show ?case
    by (auto simp: accounts_def prepare_def intro!: exI [of _ "n + k"])
qed

text \<open>
  C16. What the call returns, without a deadline: when the first \<^verbatim>\<open>n\<close> attempts raise exceptions
  to retry on and the next one is conclusive (it returns, raises something else, is given up
  or is the last permitted one), the result of the call is exactly the result of that
  attempt, after \<^verbatim>\<open>n + 1\<close> tries and after the time of the attempts and the pauses.
\<close>

theorem backoff_result:
  assumes "deadline bo = None"
    and "\<forall>j < n. \<exists>d e. wait_for (attempt_timeout bo) (f (Suc j)) = (Some d, Inl e) \<and> retriable bo e"
    and "\<forall>m. max_tries bo = Some m \<longrightarrow> int (Suc n) \<le> m"
    and "wait_for (attempt_timeout bo) (f (Suc n)) = (Some d, r)"
    and "conclusive bo (Suc n) r" "n < fuel"
  shows "\<exists>x'. Backoff_execute fuel bo f None now st = Some (Some r, x') \<and>
    x_total_tries x' = Suc n \<and> x_now x' = now + retry_time bo f 0 n + d"
proof -
  have t: "x_total_tries (prepare now st) = 0" "x_now (prepare now st) = now"
    by (simp_all add: prepare_def)
  obtain x' where "run_loop fuel bo f None (prepare now st) = Some (Finished r, x')"
    "reraise_last x' r = r" "x_total_tries x' = Suc n" "x_now x' = now + retry_time bo f 0 n + d"
    using run_loop_result [of n bo f "prepare now st" d r fuel] assms(2-6) t by auto
  with assms(1) show ?thesis by (simp add: Backoff_execute_def execute_def min_limit_def)
qed

theorem backoff_result_witness:
  "\<exists>x'. Backoff_execute 5 \<lparr>attempt_timeout = Some 2, deadline = None, pause = 1, max_tries = Some 3,
       giveup = None, exceptions = [''TimeoutError'']\<rparr>
       (\<lambda>i. if i < 3 then (None, Inr 0) else (Some 1, Inr (7::nat))) None 0 new_BackoffStatistic =
     Some (Some (Inr 7), x') \<and> x_total_tries x' = 3 \<and> x_now x' = 7"
proof -
  let ?bo = "\<lparr>attempt_timeout = Some 2, deadline = None, pause = 1, max_tries = Some 3,
    giveup = None, exceptions = [''TimeoutError'']\<rparr>"
  let ?f = "\<lambda>i. if i < 3 then (None, Inr 0) else (Some 1, Inr (7::nat))"
  have w: "wait_for (Some 2) (?f (Suc j)) = (Some 2, Inl TimeoutError)" if "j < 2" for j
    using that by (simp add: wait_for_def)
  have "retriable ?bo TimeoutError" by (simp add: retriable_def call_giveup_def py_simps)
  moreover have "retry_time ?bo ?f 0 2 = 6"
    using w [of 0] w [of 1] by (simp add: retry_time_def numeral_2_eq_2 upt_rec)
  ultimately show ?thesis
    using backoff_result [of ?bo 2 ?f 1 "Inr 7" 5 0 new_BackoffStatistic] w
    by (simp add: conclusive_def) (simp add: wait_for_def)
qed

end
