(* ===== verification/Aggregate.thy ===== *)
theory Aggregate
  imports Prelude
begin

text \<open>
  Aggregation of calls into batches, \<^verbatim>\<open>aiomisc/aggregate.py\<close>.

  \<^verbatim>\<open>_clear\<close> replaces the lists, the event and the lock of the aggregator, while the calls of
  the old batch keep their references to them; so a batch is a cell of a store, the
  aggregator has the number of its current batch, and a call has the number of its own. The
  coroutine \<^verbatim>\<open>aggregate\<close> is cut at its awaits: one operation per segment, and a step relation
  that interleaves the segments of all calls with the aggregated function, with timeouts
  and with cancellations.
\<close>

section \<open>State\<close>

record ('v, 'r) batch =
  b_first_call_at :: "number option"
  b_args :: "'v list"
  b_futures :: "'r fut list"
  b_event :: bool
  b_locked :: bool

datatype 'r pc = Waiting | Locking | Executing | Ended "'r result"

record ('v, 'r) agg_call =
  c_arg :: 'v
  c_batch :: nat
  c_index :: nat
  c_pc :: "'r pc"

record ('v, 'r) AggregatorAsync =
  max_count :: "int option"
  leeway :: number
  a_batches :: "nat \<Rightarrow> ('v, 'r) batch"
  a_current :: nat
  a_calls :: "('v, 'r) agg_call list"
  a_success :: nat
  a_error :: nat
  a_done :: nat

definition ResultNotSetError :: pyexc where
  "ResultNotSetError = mk_exc [''ResultNotSetError'', ''Exception'', ''BaseException''] []"

definition new_batch :: "('v, 'r) batch" where
  "new_batch =
     \<lparr>b_first_call_at = None, b_args = [], b_futures = [], b_event = False, b_locked = False\<rparr>"

definition AggregatorAsync_init ::
  "bool \<Rightarrow> number \<Rightarrow> int option \<Rightarrow> ('v, 'r) AggregatorAsync result" where
  "AggregatorAsync_init has_variadic_positional leeway_ms mc =
     (if \<not> has_variadic_positional
      then Inl (ValueError ''Function must accept variadic positional arguments'')
      else if (case mc of None \<Rightarrow> False | Some m \<Rightarrow> m \<le> 0)
      then Inl (ValueError ''max_count must be positive int or None'')
      else if leeway_ms \<le> 0 then Inl (ValueError ''leeway_ms must be positive float'')
      else Inr \<lparr>max_count = mc, leeway = leeway_ms / 1000, a_batches = (\<lambda>_. new_batch),
                a_current = 0, a_calls = [], a_success = 0, a_error = 0, a_done = 0\<rparr>)"

text \<open>The kinds of the parameters of a function's signature; a wrapper shows the wrapped signature.\<close>

datatype param_kind = POSITIONAL_ONLY | POSITIONAL_OR_KEYWORD | VAR_POSITIONAL | KEYWORD_ONLY | VAR_KEYWORD

definition has_variadic_positional :: "param_kind list \<Rightarrow> bool" where
  "has_variadic_positional parameters \<longleftrightarrow> (\<exists>k \<in> set parameters. k = VAR_POSITIONAL)"

definition Aggregator_init ::
  "param_kind list \<Rightarrow> number \<Rightarrow> int option \<Rightarrow> ('v, 'r) AggregatorAsync result" where
  "Aggregator_init parameters leeway_ms mc =
     (if \<not> has_variadic_positional parameters
      then Inl (ValueError ''Function must accept variadic positional arguments'')
      else AggregatorAsync_init (has_variadic_positional parameters) leeway_ms mc)"

definition leeway_ms :: "('v, 'r) AggregatorAsync \<Rightarrow> number" where
  "leeway_ms a = leeway a * 1000"

text \<open>The decorators: the aggregator whose \<^verbatim>\<open>aggregate\<close> method replaces the function.\<close>

definition aggregate ::
  "number \<Rightarrow> int option \<Rightarrow> param_kind list \<Rightarrow> ('v, 'r) AggregatorAsync result" where
  "aggregate window_ms mc parameters = Aggregator_init parameters window_ms mc"

definition aggregate_async ::
  "number \<Rightarrow> int option \<Rightarrow> param_kind list \<Rightarrow> ('v, 'r) AggregatorAsync result" where
  "aggregate_async window_ms mc parameters =
     AggregatorAsync_init (has_variadic_positional parameters) window_ms mc"

text \<open>Both decorators accept the same functions and options, and keep the window that was asked for.\<close>

lemma decorators_agree: "aggregate l mc ps = aggregate_async l mc ps"
  by (simp add: aggregate_def aggregate_async_def Aggregator_init_def AggregatorAsync_init_def)

lemma decorator_accepts:
  "(\<exists>a. aggregate l mc ps = Inr a) \<longleftrightarrow>
     VAR_POSITIONAL \<in> set ps \<and> 0 < l \<and> (\<forall>m. mc = Some m \<longrightarrow> 0 < m)"
  "aggregate l mc ps = Inr a \<Longrightarrow> leeway_ms a = l \<and> max_count a = mc"
  by (auto simp: aggregate_def Aggregator_init_def AggregatorAsync_init_def has_variadic_positional_def
      leeway_ms_def split: option.splits if_splits)

definition cur_batch :: "('v, 'r) AggregatorAsync \<Rightarrow> ('v, 'r) batch" where
  "cur_batch a = a_batches a (a_current a)"

definition set_batch :: "nat \<Rightarrow> ('v, 'r) batch \<Rightarrow> ('v, 'r) AggregatorAsync \<Rightarrow> ('v, 'r) AggregatorAsync" where
  "set_batch b bt a = a\<lparr>a_batches := (a_batches a)(b := bt)\<rparr>"

definition set_pc :: "nat \<Rightarrow> 'r pc \<Rightarrow> ('v, 'r) AggregatorAsync \<Rightarrow> ('v, 'r) AggregatorAsync" where
  "set_pc i p a = a\<lparr>a_calls := (a_calls a)[i := (a_calls a ! i)\<lparr>c_pc := p\<rparr>]\<rparr>"

definition agg_clear :: "('v, 'r) AggregatorAsync \<Rightarrow> ('v, 'r) AggregatorAsync" where
  "agg_clear a = (set_batch (Suc (a_current a)) new_batch a)\<lparr>a_current := Suc (a_current a)\<rparr>"

definition agg_count :: "('v, 'r) AggregatorAsync \<Rightarrow> int" where
  "agg_count a = int (length (b_args (cur_batch a)))"

section \<open>Futures\<close>

definition set_future :: "nat \<Rightarrow> 'r result \<Rightarrow> 'r fut list \<Rightarrow> 'r fut list" where
  "set_future k r fs =
     (if k < length fs then (case fs ! k of Pending \<Rightarrow> fs[k := Resolved r] | Resolved _ \<Rightarrow> fs) else fs)"

text \<open>\<^verbatim>\<open>_set_exception\<close>, and the validation loop of \<^verbatim>\<open>_execute\<close>: every future that is not done.\<close>

definition set_exception :: "pyexc \<Rightarrow> 'r fut list \<Rightarrow> 'r fut list" where
  "set_exception e fs =
     map (\<lambda>f. case f of Pending \<Rightarrow> Resolved (Inl e) | Resolved r \<Rightarrow> Resolved r) fs"

text \<open>The loop of \<^verbatim>\<open>_to_async_aggregate\<close> over the pairs of results and arguments.\<close>

fun zip_results :: "'r list \<Rightarrow> 'r fut list \<Rightarrow> 'r fut list" where
  "zip_results (r # rs) (f # fs) =
     (case f of Pending \<Rightarrow> Resolved (Inr r) | Resolved x \<Rightarrow> Resolved x) # zip_results rs fs"
| "zip_results _ fs = fs"

section \<open>The segments of aggregate\<close>

text \<open>From the call up to the first await.\<close>

definition agg_start :: "'v \<Rightarrow> number \<Rightarrow> ('v, 'r) AggregatorAsync \<Rightarrow> ('v, 'r) AggregatorAsync" where
  "agg_start v now a =
     (let b = a_current a;
          bt = cur_batch a;
          bt' = bt\<lparr>b_first_call_at := or_else (b_first_call_at bt) (Some now),
                   b_args := b_args bt @ [v], b_futures := b_futures bt @ [Pending]\<rparr>;
          a' = set_batch b bt' a;
          call = \<lparr>c_arg = v, c_batch = b, c_index = length (b_args bt), c_pc = Waiting\<rparr>
      in if Some (agg_count a') = max_count a'
         then agg_clear (set_batch b (bt'\<lparr>b_event := True\<rparr>) a')
                \<lparr>a_calls := a_calls a @ [call\<lparr>c_pc := Locking\<rparr>]\<rparr>
         else a'\<lparr>a_calls := a_calls a @ [call]\<rparr>)"

text \<open>After the wait for the event or for the timeout.\<close>

definition agg_after_wait :: "nat \<Rightarrow> ('v, 'r) AggregatorAsync \<Rightarrow> ('v, 'r) AggregatorAsync" where
  "agg_after_wait i a =
     set_pc i Locking (if c_batch (a_calls a ! i) = a_current a then agg_clear a else a)"

definition own_future :: "nat \<Rightarrow> ('v, 'r) AggregatorAsync \<Rightarrow> 'r fut" where
  "own_future i a =
     b_futures (a_batches a (c_batch (a_calls a ! i))) ! c_index (a_calls a ! i)"

text \<open>The lock is acquired: execute, or leave at once with the result that is there.\<close>

definition agg_acquire :: "nat \<Rightarrow> ('v, 'r) AggregatorAsync \<Rightarrow> ('v, 'r) AggregatorAsync" where
  "agg_acquire i a =
     (let b = c_batch (a_calls a ! i)
      in case own_future i a of
           Pending \<Rightarrow> set_pc i Executing (set_batch b ((a_batches a b)\<lparr>b_locked := True\<rparr>) a)
         | Resolved r \<Rightarrow> set_pc i (Ended r) a)"

text \<open>The aggregated function sets one of the futures it was given.\<close>

definition agg_func_sets :: "nat \<Rightarrow> nat \<Rightarrow> 'r result \<Rightarrow> ('v, 'r) AggregatorAsync \<Rightarrow>
    ('v, 'r) AggregatorAsync" where
  "agg_func_sets i k r a =
     (let b = c_batch (a_calls a ! i)
      in set_batch b ((a_batches a b)\<lparr>b_futures := set_future k r (b_futures (a_batches a b))\<rparr>) a)"

text \<open>
  The end of \<^verbatim>\<open>_execute\<close> with the release of the lock. \<^verbatim>\<open>outcome\<close> is what the function did: it
  returned, or it raised. An exception that is no \<^verbatim>\<open>Exception\<close>, such as a cancellation, leaves the
  futures alone and leaves the call.
\<close>

definition agg_finish :: "nat \<Rightarrow> unit result \<Rightarrow> ('v, 'r) AggregatorAsync \<Rightarrow> ('v, 'r) AggregatorAsync" where
  "agg_finish i outcome a =
     (let b = c_batch (a_calls a ! i);
          bt = (a_batches a b)\<lparr>b_locked := False\<rparr>;
          a = a\<lparr>a_done := a_done a + 1\<rparr>
      in case outcome of
           Inr _ \<Rightarrow>
             let a' = set_batch b (bt\<lparr>b_futures := set_exception ResultNotSetError (b_futures bt)\<rparr>)
                        (a\<lparr>a_success := a_success a + 1\<rparr>)
             in set_pc i (Ended (the (future_result (own_future i a')))) a'
         | Inl e \<Rightarrow>
             if is_Exception e
             then let a' = set_batch b (bt\<lparr>b_futures := set_exception e (b_futures bt)\<rparr>)
                        (a\<lparr>a_error := a_error a + 1\<rparr>)
                  in set_pc i (Ended (the (future_result (own_future i a')))) a'
             else set_pc i (Ended (Inl e)) (set_batch b bt a))"

text \<open>\<^verbatim>\<open>Aggregator\<close>: the wrapped function returned these results.\<close>

definition aggregator_finish :: "nat \<Rightarrow> 'r list \<Rightarrow> ('v, 'r) AggregatorAsync \<Rightarrow>
    ('v, 'r) AggregatorAsync" where
  "aggregator_finish i results a =
     (let b = c_batch (a_calls a ! i)
      in agg_finish i (Inr ())
           (set_batch b ((a_batches a b)\<lparr>b_futures := zip_results results (b_futures (a_batches a b))\<rparr>) a))"

text \<open>A call that is cancelled while it waits for the event or for the lock.\<close>

definition agg_cancel :: "nat \<Rightarrow> ('v, 'r) AggregatorAsync \<Rightarrow> ('v, 'r) AggregatorAsync" where
  "agg_cancel i a = set_pc i (Ended (Inl CancelledError)) a"

section \<open>Interleavings\<close>

text \<open>A call that waits may go on when its event is set or when its time is over.\<close>

definition wait_over :: "nat \<Rightarrow> number \<Rightarrow> ('v, 'r) AggregatorAsync \<Rightarrow> bool" where
  "wait_over i now a =
     (let bt = a_batches a (c_batch (a_calls a ! i))
      in b_event bt \<or>
         (case b_first_call_at bt of None \<Rightarrow> False | Some first \<Rightarrow> first + leeway a \<le> now))"

definition pc_of :: "nat \<Rightarrow> ('v, 'r) AggregatorAsync \<Rightarrow> 'r pc option" where
  "pc_of i a = (if i < length (a_calls a) then Some (c_pc (a_calls a ! i)) else None)"

definition batch_of :: "nat \<Rightarrow> ('v, 'r) AggregatorAsync \<Rightarrow> ('v, 'r) batch" where
  "batch_of i a = a_batches a (c_batch (a_calls a ! i))"

definition agg_new :: "('v, 'r) AggregatorAsync \<Rightarrow> bool" where
  "agg_new a \<longleftrightarrow> (\<exists>l mc. AggregatorAsync_init True l mc = Inr a)"

inductive agg_step :: "('v, 'r) AggregatorAsync \<Rightarrow> ('v, 'r) AggregatorAsync \<Rightarrow> bool" where
  as_call: "agg_step a (agg_start v now a)"
| as_wake: "pc_of i a = Some Waiting \<Longrightarrow> wait_over i now a \<Longrightarrow> agg_step a (agg_after_wait i a)"
| as_acquire: "pc_of i a = Some Locking \<Longrightarrow> \<not> b_locked (batch_of i a) \<Longrightarrow>
     agg_step a (agg_acquire i a)"
| as_sets: "pc_of i a = Some Executing \<Longrightarrow> agg_step a (agg_func_sets i k r a)"
| as_finish: "pc_of i a = Some Executing \<Longrightarrow> agg_step a (agg_finish i outcome a)"
| as_results: "pc_of i a = Some Executing \<Longrightarrow> agg_step a (aggregator_finish i results a)"
| as_cancel: "pc_of i a = Some Waiting \<or> pc_of i a = Some Locking \<Longrightarrow> agg_step a (agg_cancel i a)"

section \<open>The invariant\<close>

definition batches_ok :: "('v, 'r) AggregatorAsync \<Rightarrow> bool" where
  "batches_ok a \<longleftrightarrow>
     (\<forall>b. length (b_futures (a_batches a b)) = length (b_args (a_batches a b))) \<and>
     (\<forall>m. max_count a = Some m \<longrightarrow> 0 < m \<and> agg_count a < m \<and>
        (\<forall>b. int (length (b_args (a_batches a b))) \<le> m))"

definition calls_placed :: "('v, 'r) AggregatorAsync \<Rightarrow> bool" where
  "calls_placed a \<longleftrightarrow>
     (\<forall>c \<in> set (a_calls a).
        c_batch c \<le> a_current a \<and> c_index c < length (b_args (a_batches a (c_batch c))) \<and>
        b_args (a_batches a (c_batch c)) ! c_index c = c_arg c \<and>
        (c_pc c = Locking \<or> c_pc c = Executing \<longrightarrow> c_batch c < a_current a))"

definition results_ok :: "('v, 'r) AggregatorAsync \<Rightarrow> bool" where
  "results_ok a \<longleftrightarrow>
     (\<forall>c \<in> set (a_calls a). \<forall>v. c_pc c = Ended (Inr v) \<longrightarrow>
        b_futures (a_batches a (c_batch c)) ! c_index c = Resolved (Inr v))"

definition executors :: "nat \<Rightarrow> ('v, 'r) AggregatorAsync \<Rightarrow> nat set" where
  "executors b a =
     {i. i < length (a_calls a) \<and> c_batch (a_calls a ! i) = b \<and> c_pc (a_calls a ! i) = Executing}"

definition locks_ok :: "('v, 'r) AggregatorAsync \<Rightarrow> bool" where
  "locks_ok a \<longleftrightarrow>
     (\<forall>b. (b_locked (a_batches a b) \<longrightarrow> (\<exists>i. executors b a = {i})) \<and>
          (\<not> b_locked (a_batches a b) \<longrightarrow> executors b a = {}))"

definition agg_ok :: "('v, 'r) AggregatorAsync \<Rightarrow> bool" where
  "agg_ok a \<longleftrightarrow> batches_ok a \<and> calls_placed a \<and> results_ok a \<and> locks_ok a"

section \<open>Lemmas\<close>

lemma field_simps_agg [simp]:
  "a_batches (set_pc i p a) = a_batches a" "a_current (set_pc i p a) = a_current a"
  "max_count (set_pc i p a) = max_count a" "length (a_calls (set_pc i p a)) = length (a_calls a)"
  "a_batches (set_batch b bt a) = (a_batches a)(b := bt)"
  "a_current (set_batch b bt a) = a_current a"
  "max_count (set_batch b bt a) = max_count a" "a_calls (set_batch b bt a) = a_calls a"
  "a_current (agg_clear a) = Suc (a_current a)" "max_count (agg_clear a) = max_count a"
  "a_calls (agg_clear a) = a_calls a"
  "a_batches (agg_clear a) = (a_batches a)(Suc (a_current a) := new_batch)"
  by (simp_all add: set_pc_def set_batch_def agg_clear_def)

lemma set_pc_calls: "a_calls (set_pc i p a) = (a_calls a)[i := (a_calls a ! i)\<lparr>c_pc := p\<rparr>]"
  by (simp add: set_pc_def)

lemma pc_of_Some [simp]: "pc_of i a = Some p \<longleftrightarrow> i < length (a_calls a) \<and> c_pc (a_calls a ! i) = p"
  by (simp add: pc_of_def)

text \<open>A list of futures in which some have been resolved, and none changed.\<close>

definition resolves :: "'r fut list \<Rightarrow> 'r fut list \<Rightarrow> bool" where
  "resolves fs fs' \<longleftrightarrow> length fs' = length fs \<and>
     (\<forall>k < length fs. fs ! k \<noteq> Pending \<longrightarrow> fs' ! k = fs ! k)"

lemma resolves_refl [simp]: "resolves fs fs"
  by (simp add: resolves_def)

lemma resolves_trans: "resolves a b \<Longrightarrow> resolves b c \<Longrightarrow> resolves a c"
  by (auto simp: resolves_def)

lemma resolves_set_future: "resolves fs (set_future k r fs)"
  by (auto simp: resolves_def set_future_def nth_list_update split: fut.splits)

lemma resolves_set_exception: "resolves fs (set_exception e fs)"
  by (auto simp: resolves_def set_exception_def split: fut.splits)

lemma resolves_zip_results: "resolves fs (zip_results rs fs)"
proof (induction rs fs rule: zip_results.induct)
  case (1 r rs f fs)
  then show ?case by (auto simp: resolves_def nth_Cons split: fut.splits nat.splits)
qed simp_all

lemma set_exception_nth:
  "k < length fs \<Longrightarrow> set_exception e fs ! k =
     (case fs ! k of Pending \<Rightarrow> Resolved (Inl e) | Resolved r \<Rightarrow> Resolved r)"
  by (simp add: set_exception_def)

lemma zip_results_nth:
  "k < length fs \<Longrightarrow> zip_results rs fs ! k =
     (case fs ! k of
        Pending \<Rightarrow> if k < length rs then Resolved (Inr (rs ! k)) else Pending
      | Resolved r \<Rightarrow> Resolved r)"
proof (induction rs fs arbitrary: k rule: zip_results.induct)
  case (1 r rs f fs)
  then show ?case by (cases k) (auto split: fut.splits)
qed (auto split: fut.splits)

lemma zip_results_length [simp]: "length (zip_results rs fs) = length fs"
  by (induction rs fs rule: zip_results.induct) auto

lemma set_exception_length [simp]: "length (set_exception e fs) = length fs"
  by (simp add: set_exception_def)

text \<open>Changing the program counter of a call.\<close>

lemma calls_placed_set_pc:
  assumes "calls_placed a" "i < length (a_calls a)"
    and "p = Locking \<or> p = Executing \<Longrightarrow> c_batch (a_calls a ! i) < a_current a"
  shows "calls_placed (set_pc i p a)"
proof -
  have "a_calls a ! i \<in> set (a_calls a)" using assms(2) by simp
  with assms show ?thesis
    using set_update_subset_insert [of "a_calls a" i "(a_calls a ! i)\<lparr>c_pc := p\<rparr>"]
    by (fastforce simp: calls_placed_def set_pc_calls)
qed

lemma results_ok_set_pc:
  assumes "results_ok a" "i < length (a_calls a)"
    and "\<And>v. p = Ended (Inr v) \<Longrightarrow> own_future i a = Resolved (Inr v)"
  shows "results_ok (set_pc i p a)"
  using assms set_update_subset_insert [of "a_calls a" i "(a_calls a ! i)\<lparr>c_pc := p\<rparr>"]
  by (auto simp: results_ok_def set_pc_calls own_future_def)

lemma executors_set_pc:
  assumes "i < length (a_calls a)"
  shows "executors b (set_pc i p a) =
    (if c_batch (a_calls a ! i) \<noteq> b then executors b a
     else if p = Executing then insert i (executors b a) else executors b a - {i})"
  using assms by (auto simp: executors_def set_pc_calls nth_list_update)

lemma batches_ok_set_pc [simp]: "batches_ok (set_pc i p a) = batches_ok a"
  by (simp add: batches_ok_def agg_count_def cur_batch_def)

text \<open>Changing a batch, but not its arguments.\<close>

lemma calls_placed_set_batch:
  "calls_placed a \<Longrightarrow> b_args bt = b_args (a_batches a b) \<Longrightarrow> calls_placed (set_batch b bt a)"
  by (auto simp: calls_placed_def)

lemma batches_ok_set_batch:
  "batches_ok a \<Longrightarrow> b_args bt = b_args (a_batches a b) \<Longrightarrow> length (b_futures bt) = length (b_args bt) \<Longrightarrow>
   batches_ok (set_batch b bt a)"
  by (auto simp: batches_ok_def agg_count_def cur_batch_def)

lemma results_ok_set_batch:
  assumes "results_ok a" "calls_placed a" "batches_ok a"
    and "resolves (b_futures (a_batches a b)) (b_futures bt)"
  shows "results_ok (set_batch b bt a)"
proof -
  have "b_futures bt ! c_index c = Resolved (Inr v)"
    if c: "c \<in> set (a_calls a)" "c_batch c = b" "c_pc c = Ended (Inr v)" for c v
  proof -
    have "c_index c < length (b_futures (a_batches a b))"
      using assms(2,3) c by (auto simp: calls_placed_def batches_ok_def)
    moreover have "b_futures (a_batches a b) ! c_index c = Resolved (Inr v)"
      using assms(1) c by (auto simp: results_ok_def)
    ultimately show ?thesis using assms(4) by (auto simp: resolves_def)
  qed
  with assms(1) show ?thesis by (auto simp: results_ok_def)
qed

lemma executors_set_batch [simp]: "executors b' (set_batch b bt a) = executors b' a"
  by (simp add: executors_def)

lemma agg_clear_ok:
  assumes "batches_ok a \<or> (\<exists>m. max_count a = Some m \<and> agg_count a = m \<and> 0 < m \<and>
      (\<forall>b. length (b_futures (a_batches a b)) = length (b_args (a_batches a b)) \<and>
           int (length (b_args (a_batches a b))) \<le> m))"
    and "calls_placed a" "results_ok a" "locks_ok a"
  shows "agg_ok (agg_clear a)"
proof -
  have le: "c_batch c \<le> a_current a" if "c \<in> set (a_calls a)" for c
    using assms(2) that by (simp add: calls_placed_def)
  then have ne: "c_batch c \<noteq> Suc (a_current a)" if "c \<in> set (a_calls a)" for c
    using that by force
  have "batches_ok (agg_clear a)"
    using assms(1) by (auto simp: batches_ok_def agg_count_def cur_batch_def new_batch_def)
  moreover have "calls_placed (agg_clear a)"
    using assms(2) ne by (force simp: calls_placed_def)
  moreover have "results_ok (agg_clear a)"
    using assms(3) ne by (auto simp: results_ok_def)
  moreover have "executors b (agg_clear a) = executors b a" for b
    by (simp add: executors_def)
  moreover have "executors (Suc (a_current a)) a = {}"
    using ne nth_mem by (fastforce simp: executors_def)
  then have "locks_ok (agg_clear a)"
    using assms(4) calculation(4) by (auto simp: locks_ok_def new_batch_def)
  ultimately show ?thesis by (simp add: agg_ok_def)
qed

text \<open>The batch with a new argument, and a call that is added.\<close>

definition joined :: "'v \<Rightarrow> number \<Rightarrow> ('v, 'r) batch \<Rightarrow> ('v, 'r) batch" where
  "joined v now bt =
     bt\<lparr>b_first_call_at := or_else (b_first_call_at bt) (Some now),
        b_args := b_args bt @ [v], b_futures := b_futures bt @ [Pending]\<rparr>"

lemma agg_ok_join:
  assumes "agg_ok a" and bt: "b_args bt = b_args (joined v now (cur_batch a))"
    "b_futures bt = b_futures (joined v now (cur_batch a))" "b_locked bt = b_locked (cur_batch a)"
  shows "calls_placed (set_batch (a_current a) bt a)" "results_ok (set_batch (a_current a) bt a)"
    "locks_ok (set_batch (a_current a) bt a)"
proof -
  note ok = assms(1) [unfolded agg_ok_def]
  have len: "length (b_futures (a_batches a b)) = length (b_args (a_batches a b))" for b
    using ok by (simp add: batches_ok_def)
  show "calls_placed (set_batch (a_current a) bt a)"
    using ok by (auto simp: calls_placed_def bt joined_def cur_batch_def nth_append less_Suc_eq)
  have "b_futures bt ! c_index c = Resolved (Inr v)"
    if "c \<in> set (a_calls a)" "c_pc c = Ended (Inr v)" "c_batch c = a_current a" for c v
    using that ok len [of "a_current a"]
    by (auto simp: results_ok_def calls_placed_def bt joined_def cur_batch_def nth_append)
  with ok show "results_ok (set_batch (a_current a) bt a)" by (auto simp: results_ok_def)
  show "locks_ok (set_batch (a_current a) bt a)"
    using ok by (auto simp: locks_ok_def bt cur_batch_def)
qed

lemma agg_ok_add_call:
  assumes "calls_placed a" "results_ok a" "locks_ok a" "c_batch c \<le> a_current a"
    and "c_index c < length (b_args (a_batches a (c_batch c)))"
    and "b_args (a_batches a (c_batch c)) ! c_index c = c_arg c"
    and "c_pc c = Waiting \<or> c_pc c = Locking \<and> c_batch c < a_current a"
  shows "calls_placed (a\<lparr>a_calls := a_calls a @ [c]\<rparr>)" "results_ok (a\<lparr>a_calls := a_calls a @ [c]\<rparr>)"
    "locks_ok (a\<lparr>a_calls := a_calls a @ [c]\<rparr>)"
proof -
  show "calls_placed (a\<lparr>a_calls := a_calls a @ [c]\<rparr>)" "results_ok (a\<lparr>a_calls := a_calls a @ [c]\<rparr>)"
    using assms by (auto simp: calls_placed_def results_ok_def)
  have "executors b (a\<lparr>a_calls := a_calls a @ [c]\<rparr>) = executors b a" for b
    using assms(7) by (auto simp: executors_def nth_append less_Suc_eq)
  with assms(3) show "locks_ok (a\<lparr>a_calls := a_calls a @ [c]\<rparr>)" by (simp add: locks_ok_def)
qed

lemma batches_ok_add_call [simp]: "batches_ok (a\<lparr>a_calls := cs\<rparr>) = batches_ok a"
  by (simp add: batches_ok_def agg_count_def cur_batch_def)

text \<open>The call that fills the batch closes it.\<close>

lemma agg_full_ok:
  assumes ok: "agg_ok a" and full: "max_count a = Some (agg_count a + 1)"
    and e: "e = set_batch (a_current a) ((joined v now (cur_batch a))\<lparr>b_event := True\<rparr>) a"
  shows "agg_ok (agg_clear e)"
proof -
  let ?m = "agg_count a + 1"
  have "0 < ?m \<and> (\<forall>b. int (length (b_args (a_batches a b))) \<le> ?m)"
    "\<forall>b. length (b_futures (a_batches a b)) = length (b_args (a_batches a b))"
    using ok full by (simp_all add: agg_ok_def batches_ok_def)
  moreover have "agg_count e = ?m" by (simp add: e agg_count_def cur_batch_def joined_def)
  ultimately have "\<exists>m. max_count e = Some m \<and> agg_count e = m \<and> 0 < m \<and>
    (\<forall>b. length (b_futures (a_batches e b)) = length (b_args (a_batches e b)) \<and>
         int (length (b_args (a_batches e b))) \<le> m)"
    using full by (auto simp: e joined_def cur_batch_def agg_count_def)
  then show ?thesis
    using agg_ok_join [OF ok, of "(joined v now (cur_batch a))\<lparr>b_event := True\<rparr>" v now] agg_clear_ok [of e]
    by (simp add: e joined_def)
qed

lemma agg_start_ok: "agg_ok a \<Longrightarrow> agg_ok (agg_start v now a)"
proof -
  assume ok: "agg_ok a"
  let ?b = "a_current a" and ?bt = "joined v now (cur_batch a)"
  let ?a = "set_batch ?b ?bt a"
  let ?call = "\<lparr>c_arg = v, c_batch = ?b, c_index = length (b_args (cur_batch a)), c_pc = Waiting\<rparr>"
  have len: "length (b_futures (a_batches a b)) = length (b_args (a_batches a b))" for b
    using ok by (simp add: agg_ok_def batches_ok_def)
  have start: "agg_start v now a =
      (if Some (agg_count ?a) = max_count ?a
       then agg_clear (set_batch ?b (?bt\<lparr>b_event := True\<rparr>) ?a)
              \<lparr>a_calls := a_calls a @ [?call\<lparr>c_pc := Locking\<rparr>]\<rparr>
       else ?a\<lparr>a_calls := a_calls a @ [?call]\<rparr>)"
    by (simp add: agg_start_def joined_def Let_def)
  have cnt: "agg_count ?a = agg_count a + 1"
    by (simp add: agg_count_def cur_batch_def joined_def)
  show ?thesis
  proof (cases "Some (agg_count ?a) = max_count ?a")
    case True
    let ?e = "set_batch ?b (?bt\<lparr>b_event := True\<rparr>) a"
    have e: "set_batch ?b (?bt\<lparr>b_event := True\<rparr>) ?a = ?e" by (simp add: set_batch_def)
    have "max_count a = Some (agg_count a + 1)" using True cnt by simp
    then have "agg_ok (agg_clear ?e)" by (rule agg_full_ok [OF ok _ refl])
    then show ?thesis
      unfolding start e using True agg_ok_add_call [of "agg_clear ?e" "?call\<lparr>c_pc := Locking\<rparr>"]
      by (simp add: agg_ok_def joined_def cur_batch_def)
  next
    case False
    have "batches_ok ?a"
      using ok False cnt len
      by (auto simp: agg_ok_def batches_ok_def agg_count_def cur_batch_def joined_def)
    then show ?thesis
      unfolding start using False agg_ok_join [OF ok, of ?bt v now] agg_ok_add_call [of ?a ?call]
      by (simp add: agg_ok_def joined_def cur_batch_def)
  qed
qed

lemma locks_ok_set_pc:
  assumes "locks_ok a" "i < length (a_calls a)" "c_pc (a_calls a ! i) \<noteq> Executing" "p \<noteq> Executing"
  shows "locks_ok (set_pc i p a)"
proof -
  have "i \<notin> executors b a" for b using assms(3) by (simp add: executors_def)
  then have "executors b (set_pc i p a) = executors b a" for b
    using assms(2,4) by (simp add: executors_set_pc)
  with assms(1) show ?thesis by (simp add: locks_ok_def)
qed

lemmas agg_intros = calls_placed_set_pc results_ok_set_pc locks_ok_set_pc calls_placed_set_batch
  batches_ok_set_batch results_ok_set_batch

lemma agg_after_wait_ok:
  assumes "agg_ok a" "pc_of i a = Some Waiting"
  shows "agg_ok (agg_after_wait i a)"
proof -
  let ?a = "if c_batch (a_calls a ! i) = a_current a then agg_clear a else a"
  have ok: "agg_ok ?a" using assms(1) agg_clear_ok [of a] by (simp add: agg_ok_def)
  have i: "i < length (a_calls ?a)" "c_pc (a_calls ?a ! i) = Waiting" "a_calls ?a ! i = a_calls a ! i"
    using assms(2) by auto
  have "a_calls a ! i \<in> set (a_calls a)" using assms(2) by simp
  then have "c_batch (a_calls a ! i) \<le> a_current a"
    using assms(1) by (simp add: agg_ok_def calls_placed_def)
  then have "c_batch (a_calls ?a ! i) < a_current ?a" by auto
  with ok i show ?thesis
    by (auto simp: agg_ok_def agg_after_wait_def intro!: agg_intros split del: if_split)
qed

lemma agg_acquire_ok:
  assumes "agg_ok a" "pc_of i a = Some Locking" "\<not> b_locked (batch_of i a)"
  shows "agg_ok (agg_acquire i a)"
proof -
  let ?b = "c_batch (a_calls a ! i)"
  have i: "i < length (a_calls a)" "c_pc (a_calls a ! i) = Locking" using assms(2) by auto
  then have "?b < a_current a" using assms(1) by (auto simp: agg_ok_def calls_placed_def)
  note ok = assms(1) [unfolded agg_ok_def]
  show ?thesis
  proof (cases "own_future i a")
    case (Resolved r)
    with ok i show ?thesis by (auto simp: agg_ok_def agg_acquire_def intro!: agg_intros)
  next
    case Pending
    let ?bt = "(a_batches a ?b)\<lparr>b_locked := True\<rparr>"
    let ?a = "set_batch ?b ?bt a"
    have "length (b_futures ?bt) = length (b_args ?bt)" using ok by (simp add: batches_ok_def)
    with ok have "batches_ok ?a" "calls_placed ?a" "results_ok ?a" by (auto intro!: agg_intros)
    moreover have "executors ?b a = {}"
      using ok assms(3) by (simp add: locks_ok_def batch_of_def)
    then have "locks_ok (set_pc i Executing ?a)"
      using ok i by (auto simp: locks_ok_def executors_set_pc)
    ultimately show ?thesis
      using Pending i \<open>?b < a_current a\<close>
      by (auto simp: agg_ok_def agg_acquire_def Let_def
          intro!: calls_placed_set_pc results_ok_set_pc)
  qed
qed

lemma agg_futures_ok:
  assumes "agg_ok a" "resolves (b_futures (a_batches a b)) fs"
  shows "agg_ok (set_batch b ((a_batches a b)\<lparr>b_futures := fs\<rparr>) a)"
proof -
  note ok = assms(1) [unfolded agg_ok_def]
  have "length fs = length (b_args (a_batches a b))"
    using ok assms(2) by (simp add: batches_ok_def resolves_def)
  then show ?thesis
    using ok assms(2) by (auto simp: agg_ok_def locks_ok_def intro!: agg_intros)
qed

lemma agg_statistic_ok [simp]:
  "agg_ok (a\<lparr>a_done := d\<rparr>) = agg_ok a" "agg_ok (a\<lparr>a_success := d\<rparr>) = agg_ok a"
  "agg_ok (a\<lparr>a_error := d\<rparr>) = agg_ok a"
  by (simp_all add: agg_ok_def batches_ok_def calls_placed_def results_ok_def locks_ok_def
      executors_def agg_count_def cur_batch_def)

text \<open>The executing call ends and releases the lock.\<close>

lemma agg_release_ok:
  assumes "agg_ok a" "i < length (a_calls a)" "c_pc (a_calls a ! i) = Executing"
    and "\<And>v. r = Inr v \<Longrightarrow> own_future i a = Resolved (Inr v)"
  shows "agg_ok (set_pc i (Ended r) (set_batch (c_batch (a_calls a ! i))
    ((a_batches a (c_batch (a_calls a ! i)))\<lparr>b_locked := False\<rparr>) a))"
proof -
  let ?b = "c_batch (a_calls a ! i)"
  let ?bt = "(a_batches a ?b)\<lparr>b_locked := False\<rparr>"
  let ?a = "set_batch ?b ?bt a"
  note ok = assms(1) [unfolded agg_ok_def]
  have "length (b_futures ?bt) = length (b_args ?bt)" using ok by (simp add: batches_ok_def)
  with ok have "batches_ok ?a" "calls_placed ?a" "results_ok ?a" by (auto intro!: agg_intros)
  moreover have "own_future i ?a = own_future i a" by (simp add: own_future_def)
  moreover have "i \<in> executors ?b a" using assms(2,3) by (simp add: executors_def)
  then have "executors ?b a = {i}" using ok unfolding locks_ok_def by (metis empty_iff singletonD)
  then have "locks_ok (set_pc i (Ended r) ?a)"
    using ok assms(2) by (auto simp: locks_ok_def executors_set_pc)
  ultimately show ?thesis
    using assms(2,4) by (auto simp: agg_ok_def intro!: calls_placed_set_pc results_ok_set_pc)
qed

text \<open>\<^verbatim>\<open>agg_finish\<close> as: resolve the futures, then release.\<close>

definition release :: "nat \<Rightarrow> 'r result \<Rightarrow> ('v, 'r) AggregatorAsync \<Rightarrow> ('v, 'r) AggregatorAsync" where
  "release i r a =
     set_pc i (Ended r) (set_batch (c_batch (a_calls a ! i))
       ((a_batches a (c_batch (a_calls a ! i)))\<lparr>b_locked := False\<rparr>) a)"

definition resolve_batch :: "nat \<Rightarrow> 'r fut list \<Rightarrow> ('v, 'r) AggregatorAsync \<Rightarrow> ('v, 'r) AggregatorAsync" where
  "resolve_batch b fs a = set_batch b ((a_batches a b)\<lparr>b_futures := fs\<rparr>) a"

lemma batch_updates_commute:
  "bt\<lparr>b_locked := x, b_futures := y\<rparr> = bt\<lparr>b_futures := y, b_locked := x\<rparr>"
  by (cases bt) simp

lemma agg_finish_Inr:
  "agg_finish i (Inr u) a =
     (let b = c_batch (a_calls a ! i);
          a = resolve_batch b (set_exception ResultNotSetError (b_futures (a_batches a b)))
                (a\<lparr>a_done := a_done a + 1, a_success := a_success a + 1\<rparr>)
      in release i (the (future_result (own_future i a))) a)"
  by (simp add: agg_finish_def release_def resolve_batch_def Let_def set_batch_def set_pc_def
      own_future_def batch_updates_commute)

lemma agg_finish_Inl:
  "agg_finish i (Inl e) a =
     (let b = c_batch (a_calls a ! i);
          a1 = resolve_batch b (set_exception e (b_futures (a_batches a b)))
                (a\<lparr>a_done := a_done a + 1, a_error := a_error a + 1\<rparr>)
      in if is_Exception e then release i (the (future_result (own_future i a1))) a1
         else release i (Inl e) (a\<lparr>a_done := a_done a + 1\<rparr>))"
  by (simp add: agg_finish_def release_def resolve_batch_def Let_def set_batch_def set_pc_def
      own_future_def batch_updates_commute)

lemma own_future_resolved:
  assumes "agg_ok a" "i < length (a_calls a)" "b = c_batch (a_calls a ! i)"
    "b_futures (a_batches a b) = set_exception e fs"
  shows "\<exists>r. own_future i a = Resolved r"
proof -
  have "a_calls a ! i \<in> set (a_calls a)" using assms(2) by simp
  then have "c_index (a_calls a ! i) < length (b_futures (a_batches a b))"
    using assms(1,3) by (auto simp: agg_ok_def calls_placed_def batches_ok_def)
  then show ?thesis
    using assms(3,4) by (auto simp: own_future_def set_exception_nth split: fut.splits)
qed

lemma agg_resolve_release_ok:
  assumes "agg_ok a" "i < length (a_calls a)" "c_pc (a_calls a ! i) = Executing"
    "b = c_batch (a_calls a ! i)" "fs = set_exception e (b_futures (a_batches a b))"
  shows "agg_ok (release i (the (future_result (own_future i (resolve_batch b fs a))))
    (resolve_batch b fs a))"
proof -
  let ?a = "resolve_batch b fs a"
  have ok: "agg_ok ?a"
    unfolding resolve_batch_def by (rule agg_futures_ok) (simp_all add: assms resolves_set_exception)
  have c: "a_calls ?a = a_calls a" by (simp add: resolve_batch_def)
  have "\<exists>r. own_future i ?a = Resolved r"
    by (rule own_future_resolved [OF ok]) (use assms c in \<open>auto simp: resolve_batch_def\<close>)
  then obtain r where r: "own_future i ?a = Resolved r" by blast
  show ?thesis
    unfolding release_def by (rule agg_release_ok) (use ok assms(2,3) c r in auto)
qed

lemma agg_finish_ok:
  assumes "agg_ok a" "pc_of i a = Some Executing"
  shows "agg_ok (agg_finish i outcome a)"
proof (cases outcome)
  case (Inr u)
  show ?thesis
    unfolding Inr agg_finish_Inr Let_def
    by (rule agg_resolve_release_ok) (use assms in auto)
next
  case (Inl e)
  have "agg_ok (release i (Inl e) (a\<lparr>a_done := a_done a + 1\<rparr>))"
    unfolding release_def by (rule agg_release_ok) (use assms in auto)
  moreover have "agg_ok (release i (the (future_result (own_future i
      (resolve_batch (c_batch (a_calls a ! i))
        (set_exception e (b_futures (a_batches a (c_batch (a_calls a ! i)))))
        (a\<lparr>a_done := a_done a + 1, a_error := a_error a + 1\<rparr>)))))
      (resolve_batch (c_batch (a_calls a ! i))
        (set_exception e (b_futures (a_batches a (c_batch (a_calls a ! i)))))
        (a\<lparr>a_done := a_done a + 1, a_error := a_error a + 1\<rparr>)))"
    by (rule agg_resolve_release_ok) (use assms in auto)
  ultimately show ?thesis unfolding Inl agg_finish_Inl Let_def by simp
qed

interpretation aggregator: invariant_system agg_new agg_step agg_ok
proof unfold_locales
  fix a :: "('v, 'r) AggregatorAsync"
  assume "agg_new a"
  then show "agg_ok a"
    by (auto simp: agg_new_def AggregatorAsync_init_def agg_ok_def batches_ok_def calls_placed_def
        results_ok_def locks_ok_def executors_def agg_count_def cur_batch_def new_batch_def
        split: if_splits option.splits)
next
  fix a a' :: "('v, 'r) AggregatorAsync"
  assume ok: "agg_ok a" and "agg_step a a'"
  from this(2) show "agg_ok a'"
  proof cases
    case (as_call v now)
    with ok show ?thesis by (simp add: agg_start_ok)
  next
    case (as_wake i now)
    with ok show ?thesis using agg_after_wait_ok by blast
  next
    case (as_acquire i)
    with ok show ?thesis using agg_acquire_ok by blast
  next
    case (as_sets i k r)
    with ok show ?thesis
      by (simp add: agg_func_sets_def Let_def agg_futures_ok resolves_set_future)
  next
    case (as_finish i outcome)
    with ok show ?thesis using agg_finish_ok by blast
  next
    case (as_results i results)
    have "agg_ok (set_batch b ((a_batches a b)\<lparr>b_futures := zip_results results (b_futures (a_batches a b))\<rparr>) a)" for b
      by (rule agg_futures_ok [OF ok resolves_zip_results])
    with as_results show ?thesis
      by (auto simp: aggregator_finish_def Let_def intro!: agg_finish_ok)
  next
    case (as_cancel i)
    with ok show ?thesis by (auto simp: agg_ok_def agg_cancel_def intro!: agg_intros)
  qed
qed

text \<open>A resolved future of an existing batch keeps its result.\<close>

definition keeps_results :: "('v, 'r) AggregatorAsync \<Rightarrow> ('v, 'r) AggregatorAsync \<Rightarrow> bool" where
  "keeps_results a a' \<longleftrightarrow> a_current a \<le> a_current a' \<and>
     (\<forall>b \<le> a_current a. \<forall>k < length (b_futures (a_batches a b)). \<forall>r.
        b_futures (a_batches a b) ! k = Resolved r \<longrightarrow>
        k < length (b_futures (a_batches a' b)) \<and> b_futures (a_batches a' b) ! k = Resolved r)"

lemma keeps_results_refl: "keeps_results a a"
  by (simp add: keeps_results_def)

lemma keeps_results_trans: "keeps_results a b \<Longrightarrow> keeps_results b c \<Longrightarrow> keeps_results a c"
  by (auto simp: keeps_results_def)

lemma keeps_results_batch:
  "resolves (b_futures (a_batches a b)) (b_futures (a_batches a' b)) \<Longrightarrow> a_current a' = a_current a \<Longrightarrow>
   (\<And>b'. b' \<noteq> b \<Longrightarrow> a_batches a' b' = a_batches a b') \<Longrightarrow> keeps_results a a'"
  unfolding keeps_results_def resolves_def by (metis fut.distinct(1) order_refl)

lemma agg_finish_resolves:
  "resolves (b_futures (a_batches a b)) (b_futures (a_batches (agg_finish i outcome a) b))"
  "a_current (agg_finish i outcome a) = a_current a"
  "b \<noteq> c_batch (a_calls a ! i) \<Longrightarrow> a_batches (agg_finish i outcome a) b = a_batches a b"
  by (auto simp: agg_finish_def Let_def resolves_set_exception split: sum.splits)

lemma agg_step_keeps_results: "agg_step a a' \<Longrightarrow> keeps_results a a'"
proof (induction rule: agg_step.induct)
  case (as_call a v now)
  then show ?case
    by (auto simp: keeps_results_def agg_start_def cur_batch_def nth_append Let_def)
next
  case (as_wake i a now)
  then show ?case by (auto simp: keeps_results_def agg_after_wait_def)
next
  case (as_acquire i a)
  then show ?case
    by (auto simp: keeps_results_def agg_acquire_def Let_def split: fut.splits)
next
  case (as_sets i a k r)
  show ?case
    by (rule keeps_results_batch [where b = "c_batch (a_calls a ! i)"])
      (simp_all add: agg_func_sets_def Let_def resolves_set_future)
next
  case (as_finish i a outcome)
  show ?case
    by (rule keeps_results_batch [where b = "c_batch (a_calls a ! i)"])
      (simp_all add: agg_finish_resolves)
next
  case (as_results i a results)
  let ?b = "c_batch (a_calls a ! i)"
  let ?a = "set_batch ?b ((a_batches a ?b)\<lparr>b_futures := zip_results results (b_futures (a_batches a ?b))\<rparr>) a"
  have "keeps_results a ?a"
    by (rule keeps_results_batch [where b = ?b]) (simp_all add: resolves_zip_results)
  moreover have "keeps_results ?a (agg_finish i (Inr ()) ?a)"
    by (rule keeps_results_batch [where b = ?b])
      (rule agg_finish_resolves(1), simp_all add: agg_finish_resolves)
  ultimately show ?case
    unfolding aggregator_finish_def Let_def by (rule keeps_results_trans)
next
  case (as_cancel i a)
  then show ?case by (simp add: keeps_results_def agg_cancel_def)
qed

lemma agg_run_keeps_results: "agg_step\<^sup>*\<^sup>* a a' \<Longrightarrow> keeps_results a a'"
  by (induction rule: rtranclp_induct)
    (auto intro: keeps_results_refl keeps_results_trans agg_step_keeps_results)

text \<open>A batch of two calls: one waits, the second fills the batch and executes.\<close>

definition two_calls :: "(nat, nat) AggregatorAsync" where
  "two_calls =
     agg_acquire 1 (agg_start 8 0 (agg_start 7 0 (projr (AggregatorAsync_init True 1 (Some 2)))))"

lemma two_calls_reachable: "reachable agg_new agg_step two_calls"
proof -
  let ?a0 = "projr (AggregatorAsync_init True 1 (Some 2)) :: (nat, nat) AggregatorAsync"
  let ?a2 = "agg_start 8 0 (agg_start 7 0 ?a0)"
  have "AggregatorAsync_init True 1 (Some 2) = Inr ?a0" by (simp add: AggregatorAsync_init_def)
  then have "agg_new ?a0" unfolding agg_new_def by blast
  then have r: "reachable agg_new agg_step ?a2"
    by (blast intro: reachable.intros agg_step.as_call)
  have "pc_of 1 ?a2 = Some Locking" "\<not> b_locked (batch_of 1 ?a2)"
    by (simp_all add: AggregatorAsync_init_def agg_start_def agg_clear_def set_batch_def
        agg_count_def cur_batch_def new_batch_def batch_of_def Let_def)
  with r show ?thesis unfolding two_calls_def by (intro reach_step [OF r] agg_step.as_acquire)
qed

lemma two_calls_eval:
  "pc_of 1 two_calls = Some Executing" "length (a_calls two_calls) = 2"
  "c_batch (a_calls two_calls ! 0) = 0" "c_batch (a_calls two_calls ! 1) = 0"
  "c_index (a_calls two_calls ! 0) = 0" "own_future 0 two_calls = Pending"
  "max_count two_calls = Some 2"
  by (simp_all add: two_calls_def AggregatorAsync_init_def agg_start_def agg_clear_def set_batch_def
      agg_count_def cur_batch_def new_batch_def batch_of_def agg_acquire_def own_future_def
      set_pc_def Let_def)

section \<open>A function that works argument by argument\<close>

text \<open>
  The decorator's promise to its callers. The aggregated function is given the arguments of
  the batch and returns their images under \<^verbatim>\<open>f\<close>, in order, or it raises; calls join, wake,
  wait for the lock and are cancelled as before.
\<close>

inductive map_step :: "('v \<Rightarrow> 'r) \<Rightarrow> ('v, 'r) AggregatorAsync \<Rightarrow> ('v, 'r) AggregatorAsync \<Rightarrow> bool"
  for f where
  ms_call: "map_step f a (agg_start v now a)"
| ms_wake: "pc_of i a = Some Waiting \<Longrightarrow> wait_over i now a \<Longrightarrow> map_step f a (agg_after_wait i a)"
| ms_acquire: "pc_of i a = Some Locking \<Longrightarrow> \<not> b_locked (batch_of i a) \<Longrightarrow>
     map_step f a (agg_acquire i a)"
| ms_returns: "pc_of i a = Some Executing \<Longrightarrow>
     map_step f a (aggregator_finish i (map f (b_args (batch_of i a))) a)"
| ms_raises: "pc_of i a = Some Executing \<Longrightarrow> map_step f a (agg_finish i (Inl e) a)"
| ms_cancel: "pc_of i a = Some Waiting \<or> pc_of i a = Some Locking \<Longrightarrow> map_step f a (agg_cancel i a)"

lemma map_step_agg_step: "map_step f a a' \<Longrightarrow> agg_step a a'"
  by (induction rule: map_step.induct) (auto intro: agg_step.intros)

lemma map_reachable: "reachable agg_new (map_step f) a \<Longrightarrow> reachable agg_new agg_step a"
  by (induction rule: reachable.induct) (auto intro: reachable.intros map_step_agg_step)

text \<open>Every value in a batch is the image of the argument at its place.\<close>

definition images :: "('v \<Rightarrow> 'r) \<Rightarrow> 'v list \<Rightarrow> 'r fut list \<Rightarrow> bool" where
  "images f vs fs \<longleftrightarrow> length fs = length vs \<and>
     (\<forall>k < length fs. \<forall>r. fs ! k = Resolved (Inr r) \<longrightarrow> r = f (vs ! k))"

definition batch_images :: "('v \<Rightarrow> 'r) \<Rightarrow> ('v, 'r) AggregatorAsync \<Rightarrow> bool" where
  "batch_images f a \<longleftrightarrow> (\<forall>b. images f (b_args (a_batches a b)) (b_futures (a_batches a b)))"

lemma images_join [simp]: "images f vs fs \<Longrightarrow> images f (vs @ [v]) (fs @ [Pending])"
  by (auto simp: images_def nth_append less_Suc_eq)

lemma images_set_exception [simp]: "images f vs fs \<Longrightarrow> images f vs (set_exception e fs)"
  by (auto simp: images_def set_exception_nth split: fut.splits)

lemma images_zip_results [simp]: "images f vs fs \<Longrightarrow> images f vs (zip_results (map f vs) fs)"
  by (auto simp: images_def zip_results_nth split: fut.splits)

lemma images_finish: "batch_images f a \<Longrightarrow> batch_images f (agg_finish i outcome a)"
  by (auto simp: batch_images_def agg_finish_def Let_def split: sum.splits)

lemma images_returns:
  assumes "batch_images f a"
  shows "batch_images f (aggregator_finish i (map f (b_args (batch_of i a))) a)"
  unfolding aggregator_finish_def Let_def
  by (rule images_finish) (use assms in \<open>auto simp: batch_images_def batch_of_def\<close>)

interpretation mapping: invariant_system agg_new "map_step f" "batch_images f" for f :: "'v \<Rightarrow> 'r"
proof unfold_locales
  fix a :: "('v, 'r) AggregatorAsync"
  assume "agg_new a"
  then show "batch_images f a"
    by (auto simp: agg_new_def AggregatorAsync_init_def batch_images_def images_def new_batch_def
        split: if_splits option.splits)
next
  fix a a' :: "('v, 'r) AggregatorAsync"
  assume "batch_images f a" and "map_step f a a'"
  from this(2,1) show "batch_images f a'"
  proof (induction rule: map_step.induct)
    case (ms_call a v now)
    then have "images f (b_args (cur_batch a)) (b_futures (cur_batch a))" "images f [] []"
      by (simp_all add: batch_images_def cur_batch_def images_def)
    with ms_call show ?case
      by (auto simp: batch_images_def agg_start_def Let_def new_batch_def)
  next
    case (ms_wake i a now)
    moreover have "images f [] []" by (simp add: images_def)
    ultimately show ?case by (auto simp: batch_images_def agg_after_wait_def new_batch_def)
  next
    case (ms_acquire i a)
    then show ?case by (auto simp: batch_images_def agg_acquire_def Let_def split: fut.splits)
  next
    case (ms_cancel i a)
    then show ?case by (simp add: batch_images_def agg_cancel_def)
  qed (simp_all add: images_returns images_finish)
qed

text \<open>
  C18. Batching is invisible: whatever calls shared a batch, however they were interleaved,
  timed out or cancelled, a call that returns a value returns the image of its own
  argument, as a direct call of the function would.
\<close>

theorem aggregated_call:
  assumes "reachable agg_new (map_step f) a" "c \<in> set (a_calls a)" "c_pc c = Ended (Inr r)"
  shows "r = f (c_arg c)"
proof -
  have "agg_ok a" by (rule aggregator.reachable_inv [OF map_reachable [OF assms(1)]])
  then have "c_index c < length (b_futures (a_batches a (c_batch c)))"
    "b_args (a_batches a (c_batch c)) ! c_index c = c_arg c"
    "b_futures (a_batches a (c_batch c)) ! c_index c = Resolved (Inr r)"
    using assms(2,3) by (auto simp: agg_ok_def calls_placed_def batches_ok_def results_ok_def)
  moreover have "images f (b_args (a_batches a (c_batch c))) (b_futures (a_batches a (c_batch c)))"
    using mapping.reachable_inv [OF assms(1)] by (simp add: batch_images_def)
  ultimately show ?thesis by (auto simp: images_def)
qed

theorem aggregated_call_witness:
  "let a = aggregator_finish 1 (map (\<lambda>n. n * 10) [7, 8]) two_calls
   in c_pc (a_calls a ! 1) = Ended (Inr 80) \<and> 80 = c_arg (a_calls a ! 1) * 10"
proof -
  let ?f = "\<lambda>n :: nat. n * 10"
  let ?new = "projr (AggregatorAsync_init True 1 (Some 2)) :: (nat, nat) AggregatorAsync"
  let ?both = "agg_start 8 0 (agg_start 7 0 ?new)"
  let ?fin = "aggregator_finish 1 (map (\<lambda>n. n * 10) [7, 8]) two_calls"
  note eval = AggregatorAsync_init_def agg_start_def agg_clear_def set_batch_def agg_count_def
    cur_batch_def new_batch_def batch_of_def agg_acquire_def own_future_def set_pc_def
    aggregator_finish_def agg_finish_def set_exception_def Let_def two_calls_def
  have "AggregatorAsync_init True 1 (Some 2) = Inr ?new" by (simp add: AggregatorAsync_init_def)
  then have "agg_new ?new" unfolding agg_new_def by blast
  then have "reachable agg_new (map_step ?f) ?both" by (blast intro: reachable.intros ms_call)
  then have "reachable agg_new (map_step ?f) two_calls"
    unfolding two_calls_def by (rule reach_step, intro ms_acquire) (simp_all add: eval)
  moreover have "map_step ?f two_calls ?fin"
    using ms_returns [of 1 two_calls ?f] two_calls_eval(1) by (simp add: eval)
  ultimately have r: "reachable agg_new (map_step ?f) ?fin" by (rule reach_step)
  have c: "a_calls ?fin ! 1 \<in> set (a_calls ?fin)" "c_pc (a_calls ?fin ! 1) = Ended (Inr 80)"
    by (simp_all add: eval)
  from aggregated_call [OF r c] c(2) show ?thesis by (simp add: Let_def)
qed

section \<open>Properties\<close>

text \<open>
  C17. Batches, in every state that the interleaved calls can reach: a batch never has more
  arguments than \<^verbatim>\<open>max_count\<close>, at most one call executes the function for a batch at a time,
  and it does so on a batch that is closed, so that no later call can join it.
\<close>

theorem aggregate_batches:
  assumes "reachable agg_new agg_step a"
  shows "(\<forall>m b. max_count a = Some m \<longrightarrow> int (length (b_args (a_batches a b))) \<le> m) \<and>
    (\<forall>i j. pc_of i a = Some Executing \<and> pc_of j a = Some Executing \<and>
       c_batch (a_calls a ! i) = c_batch (a_calls a ! j) \<longrightarrow> i = j) \<and>
    (\<forall>i. pc_of i a = Some Executing \<longrightarrow> c_batch (a_calls a ! i) < a_current a)"
proof -
  have ok: "agg_ok a" using aggregator.reachable_inv [OF assms] .
  then have "\<forall>m b. max_count a = Some m \<longrightarrow> int (length (b_args (a_batches a b))) \<le> m"
    by (simp add: agg_ok_def batches_ok_def)
  moreover have "i = j" if "pc_of i a = Some Executing" "pc_of j a = Some Executing"
    "c_batch (a_calls a ! i) = c_batch (a_calls a ! j)" for i j
  proof -
    have "i \<in> executors (c_batch (a_calls a ! i)) a" "j \<in> executors (c_batch (a_calls a ! i)) a"
      using that by (auto simp: executors_def)
    with ok show ?thesis unfolding agg_ok_def locks_ok_def by (metis empty_iff singletonD)
  qed
  moreover have "c_batch (a_calls a ! i) < a_current a" if "pc_of i a = Some Executing" for i
    using ok that by (auto simp: agg_ok_def calls_placed_def)
  ultimately show ?thesis by blast
qed

theorem aggregate_batches_witness:
  "pc_of 1 two_calls = Some Executing \<and> c_batch (a_calls two_calls ! 1) < a_current two_calls \<and>
   int (length (b_args (a_batches two_calls 0))) \<le> 2"
  using aggregate_batches [OF two_calls_reachable] two_calls_eval(1,7) by blast

text \<open>
  Results belong to their calls and are final: in every reachable state a call that has
  returned a value returned the result of the future at its own place of its batch, which
  is where its argument is, and whatever happens later that future keeps its result.
\<close>

theorem aggregate_results:
  assumes "reachable agg_new agg_step a" "c \<in> set (a_calls a)" "c_pc c = Ended (Inr v)"
    and "agg_step\<^sup>*\<^sup>* a a'"
  shows "b_args (a_batches a (c_batch c)) ! c_index c = c_arg c \<and>
    b_futures (a_batches a (c_batch c)) ! c_index c = Resolved (Inr v) \<and>
    b_futures (a_batches a' (c_batch c)) ! c_index c = Resolved (Inr v)"
proof -
  have ok: "agg_ok a" using aggregator.reachable_inv [OF assms(1)] .
  then have "c_batch c \<le> a_current a" "c_index c < length (b_futures (a_batches a (c_batch c)))"
    "b_args (a_batches a (c_batch c)) ! c_index c = c_arg c"
    using assms(2) by (auto simp: agg_ok_def calls_placed_def batches_ok_def)
  moreover have "b_futures (a_batches a (c_batch c)) ! c_index c = Resolved (Inr v)"
    using ok assms(2,3) by (auto simp: agg_ok_def results_ok_def)
  ultimately show ?thesis
    using agg_run_keeps_results [OF assms(4)] by (auto simp: keeps_results_def)
qed

theorem aggregate_results_witness:
  "let a = aggregator_finish 1 [70, 80] two_calls
   in c_pc (a_calls a ! 1) = Ended (Inr 80) \<and> b_args (a_batches a 0) ! 1 = 8 \<and>
      b_futures (a_batches a 0) ! 1 = Resolved (Inr 80)"
proof -
  let ?a = "aggregator_finish 1 [70, 80] two_calls"
  have r: "reachable agg_new agg_step ?a"
    using reach_step [OF two_calls_reachable as_results] two_calls_eval(1) by blast
  have c: "c_pc (a_calls ?a ! 1) = Ended (Inr 80)" "a_calls ?a ! 1 \<in> set (a_calls ?a)"
    "c_batch (a_calls ?a ! 1) = 0" "c_index (a_calls ?a ! 1) = 1" "c_arg (a_calls ?a ! 1) = 8"
    by (simp_all add: two_calls_def AggregatorAsync_init_def agg_start_def agg_clear_def
        set_batch_def agg_count_def cur_batch_def new_batch_def batch_of_def agg_acquire_def
        own_future_def set_pc_def aggregator_finish_def agg_finish_def set_exception_def Let_def)
  from aggregate_results [OF r c(2,1) rtranclp.rtrancl_refl] c show ?thesis by (simp add: Let_def)
qed

text \<open>
  C19. \<^verbatim>\<open>Aggregator\<close> hands out the results by position: when the executing call's function
  returns a list, every future of the batch that was pending gets the result at the index of
  its argument, or \<^verbatim>\<open>ResultNotSetError\<close> when the list is too short; futures that were already
  resolved keep their result; and the executing call ends with its own result.
\<close>

theorem aggregator_delivers:
  assumes "reachable agg_new agg_step a" "pc_of i a = Some Executing" "j < length (a_calls a)"
    and "c_batch (a_calls a ! j) = c_batch (a_calls a ! i)"
  shows "own_future j (aggregator_finish i results a) =
      (case own_future j a of
         Resolved r \<Rightarrow> Resolved r
       | Pending \<Rightarrow>
           if c_index (a_calls a ! j) < length results
           then Resolved (Inr (results ! c_index (a_calls a ! j)))
           else Resolved (Inl ResultNotSetError)) \<and>
    (\<exists>r. own_future i (aggregator_finish i results a) = Resolved r \<and>
       pc_of i (aggregator_finish i results a) = Some (Ended r))"
proof -
  have ok: "agg_ok a" using aggregator.reachable_inv [OF assms(1)] .
  let ?b = "c_batch (a_calls a ! i)"
  have idx: "c_index (a_calls a ! k) < length (b_futures (a_batches a ?b))"
    if "k < length (a_calls a)" "c_batch (a_calls a ! k) = ?b" for k
    using ok nth_mem [OF that(1)] unfolding agg_ok_def calls_placed_def batches_ok_def that(2) [symmetric]
    by auto
  have fut: "own_future k (aggregator_finish i results a) =
      (case own_future k a of
         Resolved r \<Rightarrow> Resolved r
       | Pending \<Rightarrow>
           if c_index (a_calls a ! k) < length results
           then Resolved (Inr (results ! c_index (a_calls a ! k)))
           else Resolved (Inl ResultNotSetError))"
    if "k < length (a_calls a)" "c_batch (a_calls a ! k) = ?b" for k
    using idx [OF that] that assms(2)
    by (cases "k = i") (auto simp: aggregator_finish_def agg_finish_def own_future_def Let_def
        set_pc_calls set_exception_nth zip_results_nth split: fut.splits)
  have i: "i < length (a_calls a)" using assms(2) by simp
  obtain r where r: "own_future i (aggregator_finish i results a) = Resolved r"
    using fut [OF i refl] by (cases "own_future i a") (auto split: if_splits)
  have "pc_of i (aggregator_finish i results a) =
      Some (Ended (the (future_result (own_future i (aggregator_finish i results a)))))"
    using i by (simp add: aggregator_finish_def agg_finish_def own_future_def set_pc_calls Let_def)
  with fut [OF assms(3,4)] r show ?thesis by simp
qed

theorem aggregator_delivers_witness:
  "own_future 0 (aggregator_finish 1 [70, 80] two_calls) = Resolved (Inr 70)"
  using aggregator_delivers [OF two_calls_reachable two_calls_eval(1), of 0 "[70, 80]"]
  by (simp add: two_calls_eval two_calls_eval [unfolded One_nat_def])

end
