(* ===== verification/Pool.thy ===== *)
theory Pool
  imports Prelude "HOL-Library.Multiset"
begin

text \<open>
  The instance pool of \<^verbatim>\<open>aiomisc/pool.py\<close>. The tasks that acquire an instance are cut at their
  awaits: creating, waiting for the queue, checking, holding. Nobody ever waits for the
  semaphore, because it is acquired only when it is not locked. Instances come from
  \<^verbatim>\<open>_create_instance\<close>, which returns a new object for each call.
\<close>

section \<open>State\<close>

text \<open>
  What a task that called \<^verbatim>\<open>acquire\<close> is doing. A task that failed or was cancelled while it
  created an instance keeps its permit (\<^verbatim>\<open>LostPermit\<close>), one that was cancelled while it checked
  an instance keeps that instance (\<^verbatim>\<open>LostInstance\<close>).
\<close>

datatype 'i task = Creating | Getting | Checking 'i | Holding 'i | Finished | LostPermit
  | LostInstance 'i

record 'i PoolBase =
  p_semaphore :: nat
  p_len :: int
  p_recycle :: "number option"
  p_instances :: "'i list"
  p_recycle_bin :: "'i list"
  p_used :: "'i list"
  p_recycle_times :: "'i \<rightharpoonup> number"
  p_destroyed :: "'i list"
  p_tasks :: "'i task list"
  p_recycler :: bool

definition PoolBase_init :: "nat \<Rightarrow> number option \<Rightarrow> 'i PoolBase result" where
  "PoolBase_init maxsize recycle =
     (if recycle = None \<or> (\<exists>r. recycle = Some r \<and> r > 0)
      then Inr \<lparr>p_semaphore = maxsize, p_len = 0, p_recycle = recycle, p_instances = [],
                p_recycle_bin = [], p_used = [], p_recycle_times = Map.empty, p_destroyed = [],
                p_tasks = [], p_recycler = True\<rparr>
      else Inl (AssertionError ''recycle should be positive number or None''))"

definition set_task :: "nat \<Rightarrow> 'i task \<Rightarrow> 'i PoolBase \<Rightarrow> 'i PoolBase" where
  "set_task t st p = p\<lparr>p_tasks := (p_tasks p)[t := st]\<rparr>"

section \<open>Operations\<close>

definition recycle_instance :: "'i \<Rightarrow> 'i PoolBase \<Rightarrow> 'i PoolBase" where
  "recycle_instance i p =
     p\<lparr>p_len := p_len p - 1, p_semaphore := p_semaphore p + 1,
       p_recycle_times := (p_recycle_times p)(i := None),
       p_used := removeAll i (p_used p), p_recycle_bin := p_recycle_bin p @ [i]\<rparr>"

text \<open>\<^verbatim>\<open>__acquire\<close> up to its first await.\<close>

definition begin_acquire :: "nat \<Rightarrow> 'i PoolBase \<Rightarrow> 'i PoolBase" where
  "begin_acquire t p =
     (if p_semaphore p = 0 then set_task t Getting p
      else set_task t Creating (p\<lparr>p_semaphore := p_semaphore p - 1\<rparr>))"

text \<open>The rest of \<^verbatim>\<open>__create_new_instance\<close>, when the instance is there.\<close>

definition instance_created :: "nat \<Rightarrow> 'i \<Rightarrow> number \<Rightarrow> number \<Rightarrow> 'i PoolBase \<Rightarrow> 'i PoolBase" where
  "instance_created t i now random p =
     (let p = p\<lparr>p_len := p_len p + 1\<rparr>;
          p = (case p_recycle p of
                 None \<Rightarrow> p
               | Some r \<Rightarrow>
                   p\<lparr>p_recycle_times := (p_recycle_times p)(i \<mapsto>
                       (case p_recycle_times p i of Some x \<Rightarrow> x | None \<Rightarrow> now) + r * (1 + random))\<rparr>)
      in set_task t Getting (p\<lparr>p_instances := p_instances p @ [i]\<rparr>))"

definition instance_taken :: "nat \<Rightarrow> 'i PoolBase \<Rightarrow> 'i PoolBase" where
  "instance_taken t p =
     set_task t (Checking (hd (p_instances p))) (p\<lparr>p_instances := tl (p_instances p)\<rparr>)"

text \<open>The result of \<^verbatim>\<open>_check_instance\<close>: a verdict, or an exception, which is only logged.\<close>

definition instance_checked :: "nat \<Rightarrow> 'i \<Rightarrow> bool result \<Rightarrow> 'i PoolBase \<Rightarrow> 'i PoolBase" where
  "instance_checked t i verdict p =
     (case verdict of
        Inr True \<Rightarrow> set_task t (Holding i) (p\<lparr>p_used := List.insert i (p_used p)\<rparr>)
      | Inr False \<Rightarrow> begin_acquire t (recycle_instance i p)
      | Inl e \<Rightarrow>
          if is_Exception e
          then let p = recycle_instance i p
               in set_task t (Holding i) (p\<lparr>p_used := List.insert i (p_used p)\<rparr>)
          else set_task t (LostInstance i) p)"

text \<open>
  \<^verbatim>\<open>__release\<close>, where the clock is read at most twice: as the default of a missing recycle
  time, which is then stored, and for the comparison.
\<close>

definition release :: "nat \<Rightarrow> 'i \<Rightarrow> number \<Rightarrow> number \<Rightarrow> 'i PoolBase \<Rightarrow> 'i PoolBase" where
  "release t i now now' p =
     (let p = set_task t Finished (p\<lparr>p_used := removeAll i (p_used p)\<rparr>)
      in case p_recycle p of
           None \<Rightarrow> p\<lparr>p_instances := p_instances p @ [i]\<rparr>
         | Some _ \<Rightarrow>
             let time = (case p_recycle_times p i of Some x \<Rightarrow> x | None \<Rightarrow> now);
                 p = p\<lparr>p_recycle_times := (p_recycle_times p)(i \<mapsto> time)\<rparr>
             in if time < now' then recycle_instance i p
                else p\<lparr>p_instances := p_instances p @ [i]\<rparr>)"

text \<open>One iteration of the recycler; an exception of \<^verbatim>\<open>_destroy_instance\<close> is only logged.\<close>

definition recycler_step :: "'i PoolBase \<Rightarrow> 'i PoolBase" where
  "recycler_step p =
     p\<lparr>p_recycle_bin := tl (p_recycle_bin p), p_destroyed := p_destroyed p @ [hd (p_recycle_bin p)]\<rparr>"

text \<open>\<^verbatim>\<open>close\<close>, when all instances are destroyed within the timeout.\<close>

definition pool_close :: "'i PoolBase \<Rightarrow> 'i PoolBase" where
  "pool_close p =
     p\<lparr>p_used := [], p_instances := [], p_destroyed := p_destroyed p @ p_used p @ p_instances p,
       p_recycler := False\<rparr>"

text \<open>The context manager of \<^verbatim>\<open>acquire()\<close> refuses to be entered twice.\<close>

definition ContextManager_aenter :: "'i option \<Rightarrow> 'i \<Rightarrow> 'i option result" where
  "ContextManager_aenter cm acquired =
     (case cm of
        Some _ \<Rightarrow> Inl (RuntimeError ''Reuse of context manager is not acceptable'')
      | None \<Rightarrow> Inr (Some acquired))"

section \<open>Interleavings\<close>

definition pool_new :: "nat \<Rightarrow> 'i PoolBase \<Rightarrow> bool" where
  "pool_new maxsize p \<longleftrightarrow> (\<exists>recycle. PoolBase_init maxsize recycle = Inr p)"

fun task_bag :: "'i task \<Rightarrow> 'i multiset" where
  "task_bag (Checking i) = {#i#}"
| "task_bag (Holding i) = {#i#}"
| "task_bag (LostInstance i) = {#i#}"
| "task_bag _ = {#}"

definition live :: "'i PoolBase \<Rightarrow> 'i multiset" where
  "live p = mset (p_instances p) + (\<Sum>t\<leftarrow>p_tasks p. task_bag t)"

definition known :: "'i PoolBase \<Rightarrow> 'i \<Rightarrow> bool" where
  "known p i \<longleftrightarrow> i \<in># live p \<or> i \<in> set (p_recycle_bin p) \<or> i \<in> set (p_destroyed p)"

text \<open>
  The steps of a pool before it is closed. \<^verbatim>\<open>faulty\<close> says whether \<^verbatim>\<open>_check_instance\<close> may raise an
  \<^verbatim>\<open>Exception\<close>; failures of the creation and cancellations are always possible.
\<close>

inductive pool_step :: "bool \<Rightarrow> 'i PoolBase \<Rightarrow> 'i PoolBase \<Rightarrow> bool" for faulty :: bool where
  ps_call: "pool_step faulty p (begin_acquire (length (p_tasks p)) (p\<lparr>p_tasks := p_tasks p @ [Finished]\<rparr>))"
| ps_created: "t < length (p_tasks p) \<Longrightarrow> p_tasks p ! t = Creating \<Longrightarrow> \<not> known p i \<Longrightarrow>
     pool_step faulty p (instance_created t i now random p)"
| ps_not_created: "t < length (p_tasks p) \<Longrightarrow> p_tasks p ! t = Creating \<Longrightarrow>
     pool_step faulty p (set_task t LostPermit p)"
| ps_taken: "t < length (p_tasks p) \<Longrightarrow> p_tasks p ! t = Getting \<Longrightarrow> p_instances p \<noteq> [] \<Longrightarrow>
     pool_step faulty p (instance_taken t p)"
| ps_cancelled: "t < length (p_tasks p) \<Longrightarrow> p_tasks p ! t = Getting \<Longrightarrow>
     pool_step faulty p (set_task t Finished p)"
| ps_checked: "t < length (p_tasks p) \<Longrightarrow> p_tasks p ! t = Checking i \<Longrightarrow>
     (\<forall>e. verdict = Inl e \<longrightarrow> faulty \<or> \<not> is_Exception e) \<Longrightarrow>
     pool_step faulty p (instance_checked t i verdict p)"
| ps_release: "t < length (p_tasks p) \<Longrightarrow> p_tasks p ! t = Holding i \<Longrightarrow>
     pool_step faulty p (release t i now now' p)"
| ps_recycler: "p_recycle_bin p \<noteq> [] \<Longrightarrow> pool_step faulty p (recycler_step p)"

section \<open>Invariants\<close>

fun permits :: "'i task \<Rightarrow> int" where
  "permits Creating = 1"
| "permits LostPermit = 1"
| "permits _ = 0"

text \<open>Every permit is in the semaphore, with a task, or stands for a counted instance.\<close>

definition permits_ok :: "nat \<Rightarrow> 'i PoolBase \<Rightarrow> bool" where
  "permits_ok maxsize p \<longleftrightarrow>
     int (p_semaphore p) + (\<Sum>t\<leftarrow>p_tasks p. permits t) + p_len p = int maxsize"

text \<open>Every counted instance is in one place.\<close>

definition instances_ok :: "'i PoolBase \<Rightarrow> bool" where
  "instances_ok p \<longleftrightarrow> p_len p = int (size (live p)) \<and> (\<forall>i. count (live p) i \<le> 1) \<and>
     (\<forall>i \<in># live p. i \<notin> set (p_recycle_bin p) \<and> i \<notin> set (p_destroyed p))"

definition pool_ok :: "nat \<Rightarrow> 'i PoolBase \<Rightarrow> bool" where
  "pool_ok maxsize p \<longleftrightarrow> permits_ok maxsize p \<and> instances_ok p"

section \<open>Lemmas\<close>

lemma set_task_fields [simp]:
  "p_tasks (set_task t st p) = (p_tasks p)[t := st]" "p_instances (set_task t st p) = p_instances p"
  "p_len (set_task t st p) = p_len p" "p_semaphore (set_task t st p) = p_semaphore p"
  "p_recycle_bin (set_task t st p) = p_recycle_bin p" "p_destroyed (set_task t st p) = p_destroyed p"
  "p_recycle (set_task t st p) = p_recycle p"
  by (simp_all add: set_task_def)

lemma permits_set_task:
  assumes "t < length (p_tasks p)"
  shows "(\<Sum>x\<leftarrow>(p_tasks p)[t := st]. permits x) =
    (\<Sum>x\<leftarrow>p_tasks p. permits x) + permits st - permits (p_tasks p ! t)"
  using sum_list_map_update [OF assms, of permits st] by simp

lemma live_set_task:
  assumes "t < length (p_tasks p)"
  shows "live (set_task t st p) + task_bag (p_tasks p ! t) = live p + task_bag st"
  using sum_list_map_update [OF assms, of task_bag st] by (simp add: live_def add_ac)

lemma live_updates [simp]:
  "live (p\<lparr>p_semaphore := n\<rparr>) = live p" "live (p\<lparr>p_len := l\<rparr>) = live p"
  "live (p\<lparr>p_used := u\<rparr>) = live p" "live (p\<lparr>p_recycle_times := r\<rparr>) = live p"
  "live (p\<lparr>p_recycle_bin := b\<rparr>) = live p" "live (p\<lparr>p_destroyed := d\<rparr>) = live p"
  by (simp_all add: live_def)

lemma live_queue:
  "live (p\<lparr>p_instances := p_instances p @ [i]\<rparr>) = add_mset i (live p)"
  "p_instances p = i # rest \<Longrightarrow> live p = add_mset i (live (p\<lparr>p_instances := rest\<rparr>))"
  by (simp_all add: live_def)

lemma recycle_instance_fields [simp]:
  "p_tasks (recycle_instance i p) = p_tasks p" "live (recycle_instance i p) = live p"
  "p_len (recycle_instance i p) = p_len p - 1" "p_instances (recycle_instance i p) = p_instances p"
  "p_semaphore (recycle_instance i p) = Suc (p_semaphore p)"
  "p_recycle_bin (recycle_instance i p) = p_recycle_bin p @ [i]"
  "p_destroyed (recycle_instance i p) = p_destroyed p"
  by (simp_all add: recycle_instance_def live_def)

lemma begin_acquire_spec:
  assumes "t < length (p_tasks p)" "permits (p_tasks p ! t) = 0"
  shows "int (p_semaphore (begin_acquire t p)) + (\<Sum>x\<leftarrow>p_tasks (begin_acquire t p). permits x) =
      int (p_semaphore p) + (\<Sum>x\<leftarrow>p_tasks p. permits x)"
    "live (begin_acquire t p) + task_bag (p_tasks p ! t) = live p"
    "p_len (begin_acquire t p) = p_len p" "p_recycle_bin (begin_acquire t p) = p_recycle_bin p"
    "p_destroyed (begin_acquire t p) = p_destroyed p"
  using assms live_set_task [OF assms(1), of Getting]
    live_set_task [of t "p\<lparr>p_semaphore := p_semaphore p - 1\<rparr>" Creating]
  by (auto simp: begin_acquire_def permits_set_task)

lemma permits_step:
  assumes "permits_ok m p" "pool_step faulty p p'"
  shows "permits_ok m p'"
  using assms(2)
proof cases
  case ps_call
  let ?p = "p\<lparr>p_tasks := p_tasks p @ [Finished]\<rparr>"
  have "(\<Sum>x\<leftarrow>p_tasks ?p. permits x) = (\<Sum>x\<leftarrow>p_tasks p. permits x)" by simp
  with ps_call assms(1) begin_acquire_spec [of "length (p_tasks p)" ?p] show ?thesis
    by (simp add: permits_ok_def nth_append)
next
  case (ps_created t i now random)
  with assms(1) show ?thesis
    by (auto simp: permits_ok_def instance_created_def Let_def permits_set_task
        split: option.splits)
next
  case (ps_checked t i verdict)
  then have p: "permits (p_tasks p ! t) = 0" by simp
  have "permits_ok m (begin_acquire t (recycle_instance i p))"
    using assms(1) begin_acquire_spec [of t "recycle_instance i p"] ps_checked(2) p
    by (simp add: permits_ok_def)
  with ps_checked p assms(1) show ?thesis
    by (auto simp: instance_checked_def permits_ok_def permits_set_task Let_def
        split: sum.splits bool.splits)
next
  case (ps_release t i now now')
  then have p: "permits (p_tasks p ! t) = 0" by simp
  have "(\<Sum>x\<leftarrow>(p_tasks p)[t := Finished]. permits x) = (\<Sum>x\<leftarrow>p_tasks p. permits x)"
    using permits_set_task [OF ps_release(2), of Finished] p by simp
  with ps_release assms(1) show ?thesis
    by (auto simp: permits_ok_def release_def Let_def split: option.splits)
qed (use assms(1) in \<open>auto simp: permits_ok_def permits_set_task instance_taken_def
      recycler_step_def\<close>)

text \<open>One instance less, to the recycle bin; or one more, that was not there.\<close>

lemma instances_ok_recycle:
  assumes "instances_ok p" "live p = add_mset i (live p')" "p_len p' = p_len p - 1"
    "set (p_recycle_bin p') = insert i (set (p_recycle_bin p))" "p_destroyed p' = p_destroyed p"
  shows "instances_ok p'"
proof -
  have "count (live p) i \<le> 1" using assms(1) unfolding instances_ok_def by blast
  then have "count (add_mset i (live p')) i \<le> 1" using assms(2) by simp
  then have "i \<notin># live p'" by (simp add: count_eq_zero_iff)
  moreover have "count (live p') j \<le> 1" for j
  proof -
    have "count (live p') j \<le> count (live p) j" using assms(2) by simp
    moreover have "count (live p) j \<le> 1" using assms(1) by (simp add: instances_ok_def)
    ultimately show ?thesis by simp
  qed
  ultimately show ?thesis using assms unfolding instances_ok_def by auto
qed

lemma instances_ok_add:
  assumes "instances_ok p" "live p' = add_mset i (live p)" "\<not> known p i" "p_len p' = p_len p + 1"
    "p_recycle_bin p' = p_recycle_bin p" "p_destroyed p' = p_destroyed p"
  shows "instances_ok p'"
  using assms by (auto simp: instances_ok_def known_def not_in_iff)

lemma instances_ok_same:
  assumes "instances_ok p" "live p' = live p" "p_len p' = p_len p"
    "set (p_recycle_bin p') \<union> set (p_destroyed p') = set (p_recycle_bin p) \<union> set (p_destroyed p)"
  shows "instances_ok p'"
  using assms by (auto simp: instances_ok_def)

lemma instances_checked:
  assumes ok: "instances_ok p" and t: "t < length (p_tasks p)" "p_tasks p ! t = Checking i"
    and v: "\<forall>e. verdict = Inl e \<longrightarrow> \<not> is_Exception e"
  shows "instances_ok (instance_checked t i verdict p)"
proof (cases verdict)
  case (Inl e)
  have "live (set_task t (LostInstance i) p) = live p"
    using live_set_task [OF t(1), of "LostInstance i"] t(2) by simp
  with Inl v show ?thesis
    by (intro instances_ok_same [OF ok]) (simp_all add: instance_checked_def)
next
  case (Inr v)
  have "live (begin_acquire t (recycle_instance i p)) + {#i#} = live p"
    using begin_acquire_spec(2) [of t "recycle_instance i p"] t by simp
  then have "instances_ok (begin_acquire t (recycle_instance i p))"
    using begin_acquire_spec [of t "recycle_instance i p"] t
    by (intro instances_ok_recycle [OF ok]) simp_all
  moreover have "live (set_task t (Holding i) (p\<lparr>p_used := u\<rparr>)) = live p" for u
    using live_set_task [of t "p\<lparr>p_used := u\<rparr>" "Holding i"] t by simp
  ultimately show ?thesis
    using Inr by (cases v) (auto simp: instance_checked_def intro: instances_ok_same [OF ok])
qed

lemma instances_release:
  assumes ok: "instances_ok p" and t: "t < length (p_tasks p)" "p_tasks p ! t = Holding i"
  shows "instances_ok (release t i now now' p)"
proof -
  let ?p = "set_task t Finished (p\<lparr>p_used := removeAll i (p_used p)\<rparr>)"
  have l: "add_mset i (live ?p) = live p"
    using live_set_task [of t "p\<lparr>p_used := removeAll i (p_used p)\<rparr>" Finished] t by simp
  have kept_it: "instances_ok (?p\<lparr>p_recycle_times := r, p_instances := p_instances p @ [i]\<rparr>)" for r
    by (rule instances_ok_same [OF ok]) (use l in \<open>simp_all add: live_def\<close>)
  have kept_plain: "instances_ok (?p\<lparr>p_instances := p_instances p @ [i]\<rparr>)"
    by (rule instances_ok_same [OF ok]) (use l in \<open>simp_all add: live_def\<close>)
  have gone: "instances_ok (recycle_instance i (?p\<lparr>p_recycle_times := r\<rparr>))" for r
    by (rule instances_ok_recycle [OF ok]) (use l in simp_all)
  from kept_it kept_plain gone show ?thesis
    by (auto simp: release_def Let_def split: option.splits)
qed

lemma instances_step:
  assumes ok: "instances_ok p" and "pool_step False p p'"
  shows "instances_ok p'"
  using assms(2)
proof cases
  case ps_call
  let ?p = "p\<lparr>p_tasks := p_tasks p @ [Finished]\<rparr>"
  have "live ?p = live p" by (simp add: live_def)
  with ps_call begin_acquire_spec [of "length (p_tasks p)" ?p] show ?thesis
    by (intro instances_ok_same [OF ok]) (simp_all add: nth_append)
next
  case (ps_created t i now random)
  have "live p' = add_mset i (live p)"
    using live_set_task [OF ps_created(2), of Getting] ps_created(1,3)
    by (auto simp: instance_created_def Let_def live_def split: option.splits)
  with ps_created show ?thesis
    by (intro instances_ok_add [OF ok]) (auto simp: instance_created_def Let_def split: option.splits)
next
  case (ps_not_created t)
  with live_set_task [OF ps_not_created(2), of LostPermit] show ?thesis
    by (intro instances_ok_same [OF ok]) simp_all
next
  case (ps_taken t)
  then obtain i rest where q: "p_instances p = i # rest" by (cases "p_instances p") auto
  have "live p' = live p"
    using live_set_task [of t "p\<lparr>p_instances := rest\<rparr>" "Checking i"] ps_taken live_queue(2) [OF q] q
    by (simp add: instance_taken_def)
  with ps_taken q show ?thesis
    by (intro instances_ok_same [OF ok]) (simp_all add: instance_taken_def)
next
  case (ps_cancelled t)
  with live_set_task [OF ps_cancelled(2), of Finished] show ?thesis
    by (intro instances_ok_same [OF ok]) simp_all
next
  case (ps_checked t i verdict)
  with instances_checked [OF ok] show ?thesis by simp
next
  case (ps_release t i now now')
  with instances_release [OF ok] show ?thesis by simp
next
  case ps_recycler
  then obtain i rest where "p_recycle_bin p = i # rest" by (cases "p_recycle_bin p") auto
  with ps_recycler show ?thesis
    by (intro instances_ok_same [OF ok]) (auto simp: recycler_step_def)
qed

interpretation pool_permits: invariant_system "pool_new m" "pool_step faulty" "permits_ok m"
  for m :: nat and faulty :: bool
proof unfold_locales
  fix p :: "'i PoolBase"
  assume "pool_new m p"
  then show "permits_ok m p"
    by (auto simp: pool_new_def PoolBase_init_def permits_ok_def split: if_splits)
qed (rule permits_step)

interpretation pool: invariant_system "pool_new m" "pool_step False" "pool_ok m"
  for m :: nat
proof unfold_locales
  fix p :: "'i PoolBase"
  assume "pool_new m p"
  then show "pool_ok m p"
    by (auto simp: pool_new_def PoolBase_init_def pool_ok_def permits_ok_def instances_ok_def
        live_def split: if_splits)
next
  fix p p' :: "'i PoolBase"
  assume "pool_ok m p" "pool_step False p p'"
  then show "pool_ok m p'" by (auto simp: pool_ok_def intro: permits_step instances_step)
qed

lemma task_bag_subset: "t < length ts \<Longrightarrow> task_bag (ts ! t) \<subseteq># (\<Sum>x\<leftarrow>ts. task_bag x)"
  using sum_list_map_update [of t ts task_bag Finished] by (metis add.right_neutral mset_subset_eq_add_right task_bag.simps(6))

lemma held_once:
  assumes "\<forall>i. count (live p) i \<le> 1" "t < length (p_tasks p)" "t' < length (p_tasks p)"
    and "task_bag (p_tasks p ! t) = {#i#}" "task_bag (p_tasks p ! t') = {#i#}"
  shows "t = t'"
proof (rule ccontr)
  assume "t \<noteq> t'"
  let ?ts = "(p_tasks p)[t := Finished]"
  have "{#i#} \<subseteq># (\<Sum>x\<leftarrow>?ts. task_bag x)"
    using task_bag_subset [of t' ?ts] assms(3,5) \<open>t \<noteq> t'\<close> by simp
  then have "1 \<le> count (\<Sum>x\<leftarrow>?ts. task_bag x) i"
    by (metis count_greater_eq_one_iff mset_subset_eqD union_single_eq_member add.left_neutral)
  moreover have "(\<Sum>x\<leftarrow>p_tasks p. task_bag x) = (\<Sum>x\<leftarrow>?ts. task_bag x) + {#i#}"
    using sum_list_map_update [OF assms(2), of task_bag Finished] assms(4) by simp
  then have "count (live p) i =
      count (mset (p_instances p)) i + count (\<Sum>x\<leftarrow>?ts. task_bag x) i + 1"
    by (simp add: live_def)
  ultimately have "2 \<le> count (live p) i" by linarith
  moreover have "count (live p) i \<le> 1" using assms(1) by blast
  ultimately show False by simp
qed

lemma permits_nonneg: "0 \<le> (\<Sum>t\<leftarrow>ts. permits t)"
proof (induction ts)
  case (Cons t ts)
  then show ?case by (cases t) auto
qed simp

text \<open>One task that holds the instance 10 of a pool of two.\<close>

definition pool_of :: "nat \<Rightarrow> nat PoolBase" where
  "pool_of m = projr (PoolBase_init m None)"

definition after_create :: "nat \<Rightarrow> nat PoolBase" where
  "after_create m =
     instance_taken 0 (instance_created 0 10 0 0
       (begin_acquire 0 ((pool_of m)\<lparr>p_tasks := [Finished]\<rparr>)))"

lemmas pool_eval = after_create_def pool_of_def PoolBase_init_def begin_acquire_def
  instance_created_def instance_taken_def instance_checked_def recycle_instance_def
  recycler_step_def set_task_def known_def live_def

lemma reachable_after_create:
  assumes "0 < m"
  shows "reachable (pool_new m) (pool_step faulty) (after_create m)"
proof -
  have new: "pool_new m (pool_of m)" by (auto simp: pool_new_def pool_of_def PoolBase_init_def)
  let ?p1 = "begin_acquire 0 ((pool_of m)\<lparr>p_tasks := [Finished]\<rparr>)"
  let ?p2 = "instance_created 0 10 0 0 ?p1"
  have "pool_step faulty (pool_of m) ?p1"
    using ps_call [of faulty "pool_of m"] by (simp add: pool_of_def PoolBase_init_def)
  moreover have "pool_step faulty ?p1 ?p2"
    by (rule ps_created) (use assms in \<open>simp_all add: pool_eval\<close>)
  moreover have "pool_step faulty ?p2 (instance_taken 0 ?p2)"
    by (rule ps_taken) (use assms in \<open>simp_all add: pool_eval\<close>)
  ultimately show ?thesis
    unfolding after_create_def by (blast intro: reachable.intros new)
qed

section \<open>Properties\<close>





text \<open>
  C22. A check that raises breaks both guarantees: the instance is recycled, and yet handed
  out. A pool of one instance reaches a state in which two tasks hold instances at the same
  time, one of them an instance that has already been destroyed.
\<close>

theorem pool_check_exception:
  "\<exists>p :: nat PoolBase. reachable (pool_new 1) (pool_step True) p \<and>
     p_tasks p = [Holding 10, Holding 11] \<and> p_destroyed p = [10] \<and> p_len p = 1"
proof -
  let ?step = "pool_step True"
  let ?p4 = "instance_checked 0 10 (Inl (ValueError ''x'')) (after_create 1)"
  let ?p5 = "recycler_step ?p4"
  let ?p6 = "begin_acquire (length (p_tasks ?p5)) (?p5\<lparr>p_tasks := p_tasks ?p5 @ [Finished]\<rparr>)"
  let ?p7 = "instance_created 1 11 0 0 ?p6"
  let ?p8 = "instance_taken 1 ?p7"
  let ?p9 = "instance_checked 1 11 (Inr True) ?p8"
  have "reachable (pool_new 1) ?step (after_create 1)" by (rule reachable_after_create) simp
  moreover have "?step (after_create 1) ?p4" by (rule ps_checked) (simp_all add: pool_eval)
  ultimately have "reachable (pool_new 1) ?step ?p4" by (rule reach_step)
  moreover have "?step ?p4 ?p5" by (rule ps_recycler) (simp add: pool_eval)
  ultimately have "reachable (pool_new 1) ?step ?p5" by (rule reach_step)
  then have "reachable (pool_new 1) ?step ?p6" by (rule reach_step) (rule ps_call)
  moreover have "?step ?p6 ?p7" by (rule ps_created) (simp_all add: pool_eval)
  ultimately have "reachable (pool_new 1) ?step ?p7" by (rule reach_step)
  moreover have "?step ?p7 ?p8" by (rule ps_taken) (simp_all add: pool_eval)
  ultimately have "reachable (pool_new 1) ?step ?p8" by (rule reach_step)
  moreover have "?step ?p8 ?p9" by (rule ps_checked) (simp_all add: pool_eval)
  ultimately have "reachable (pool_new 1) ?step ?p9" by (rule reach_step)
  moreover have "p_tasks ?p9 = [Holding 10, Holding 11]" "p_destroyed ?p9 = [10]" "p_len ?p9 = 1"
    by (simp_all add: pool_eval)
  ultimately show ?thesis by blast
qed

end
