(* ===== verification/WorkerProtocol.thy ===== *)
theory WorkerProtocol
  imports Streams
begin

text \<open>
  The packet protocol between the worker pool and its processes,
  \<^verbatim>\<open>aiomisc_worker/protocol.py\<close>: a four-byte length and a pickled payload. The three readers
  (a blocking socket, a buffered file and an asyncio stream) implement one interface, the
  locale \<^verbatim>\<open>exact_reader\<close>, for which receiving is proved once. \<^verbatim>\<open>pickle\<close> is a pair of parameters.
\<close>

section \<open>Packet types\<close>

datatype PacketTypes = REQUEST | EXCEPTION | RESULT | CANCELLED | AUTH | AUTH_FAIL | AUTH_OK
  | BAD_INITIALIZER | BAD_PACKET

fun packet_value :: "PacketTypes \<Rightarrow> int" where
  "packet_value REQUEST = 0"
| "packet_value EXCEPTION = 1"
| "packet_value RESULT = 2"
| "packet_value CANCELLED = 3"
| "packet_value AUTH = 50"
| "packet_value AUTH_FAIL = 58"
| "packet_value AUTH_OK = 59"
| "packet_value BAD_INITIALIZER = 60"
| "packet_value BAD_PACKET = 254"

section \<open>Packing\<close>

definition PACKET_HEADER_size :: nat where
  "PACKET_HEADER_size = 4"

definition pack :: "('p \<Rightarrow> bytes) \<Rightarrow> 'p \<Rightarrow> bytes result" where
  "pack dumps payload =
     (let data = dumps payload
      in bind_result (struct_pack PACKET_HEADER_size (length data)) (\<lambda>header. Inr (header @ data)))"

text \<open>\<^verbatim>\<open>send\<close> on a file or a stream writer: everything is written.\<close>

definition send :: "('p \<Rightarrow> bytes) \<Rightarrow> 'p \<Rightarrow> bytes \<Rightarrow> bytes result" where
  "send dumps payload out = bind_result (pack dumps payload) (\<lambda>data. Inr (out @ data))"

text \<open>\<^verbatim>\<open>send\<close> on a socket: the kernel takes the first \<^verbatim>\<open>accepted\<close> bytes and the rest is not sent.\<close>

definition sock_send :: "nat \<Rightarrow> ('p \<Rightarrow> bytes) \<Rightarrow> 'p \<Rightarrow> bytes \<Rightarrow> bytes result" where
  "sock_send accepted dumps payload out =
     bind_result (pack dumps payload) (\<lambda>data. Inr (out @ take accepted data))"

section \<open>Reading\<close>

text \<open>\<^verbatim>\<open>sock.recv(n)\<close> behaves as \<^verbatim>\<open>read\<close> of a stream: at most \<^verbatim>\<open>n\<close> bytes, none at the end.\<close>

function sock_read_loop :: "nat \<Rightarrow> bytes \<Rightarrow> reader \<Rightarrow> bytes result \<times> reader" where
  "sock_read_loop sz acc r =
     (if length acc < sz
      then (case read (sz - length acc) r of
              (chunk, r') \<Rightarrow>
                if chunk = [] then (Inl (ConnectionError ''Remote did not send any data''), r')
                else sock_read_loop sz (acc @ chunk) r')
      else (Inr acc, r))"
  by pat_completeness auto

termination sock_read_loop
  by (relation "measure (\<lambda>(sz, acc, _). sz - length acc)") (auto simp: diff_less_mono2)

declare sock_read_loop.simps [simp del]

definition sock_read :: "nat \<Rightarrow> reader \<Rightarrow> bytes result \<times> reader" where
  "sock_read sz r = sock_read_loop sz [] r"

text \<open>A buffered file blocks until it has \<^verbatim>\<open>sz\<close> bytes or the input ends.\<close>

definition file_read :: "nat \<Rightarrow> reader \<Rightarrow> bytes result \<times> reader" where
  "file_read sz r =
     (Inr (take sz (rd_bytes r)), \<lparr>rd_buf = drop sz (rd_bytes r), rd_chunks = []\<rparr>)"

text \<open>\<^verbatim>\<open>receive\<close>, over any of the readers.\<close>

definition receive ::
  "(nat \<Rightarrow> reader \<Rightarrow> bytes result \<times> reader) \<Rightarrow> (bytes \<Rightarrow> 'p result) \<Rightarrow> reader \<Rightarrow> 'p result \<times> reader" where
  "receive rd loads r =
     (case rd PACKET_HEADER_size r of
        (Inl e, r1) \<Rightarrow> (Inl e, r1)
      | (Inr header, r1) \<Rightarrow>
          (case struct_unpack PACKET_HEADER_size header of
             Inl e \<Rightarrow> (Inl e, r1)
           | Inr payload_size \<Rightarrow>
               (case rd payload_size r1 of
                  (Inl e, r2) \<Rightarrow> (Inl e, r2)
                | (Inr payload_bytes, r2) \<Rightarrow> (loads payload_bytes, r2))))"

fun receive_all ::
  "(nat \<Rightarrow> reader \<Rightarrow> bytes result \<times> reader) \<Rightarrow> (bytes \<Rightarrow> 'p result) \<Rightarrow> nat \<Rightarrow> reader \<Rightarrow> 'p list result" where
  "receive_all rd loads 0 r = Inr []"
| "receive_all rd loads (Suc n) r =
     (case receive rd loads r of
        (Inl e, _) \<Rightarrow> Inl e
      | (Inr p, r') \<Rightarrow> bind_result (receive_all rd loads n r') (\<lambda>ps. Inr (p # ps)))"

fun send_all :: "('p \<Rightarrow> bytes) \<Rightarrow> 'p list \<Rightarrow> bytes \<Rightarrow> bytes result" where
  "send_all dumps [] out = Inr out"
| "send_all dumps (p # ps) out = bind_result (send dumps p out) (send_all dumps ps)"

section \<open>The interface of the readers\<close>

locale exact_reader =
  fixes rd :: "nat \<Rightarrow> reader \<Rightarrow> bytes result \<times> reader"
  assumes rd_exact: "rd_bytes r = bs @ rest \<Longrightarrow> length bs = n \<Longrightarrow>
    \<exists>r'. rd n r = (Inr bs, r') \<and> rd_bytes r' = rest"
begin

lemma receive_packet:
  assumes "pack dumps p = Inr packet" "loads (dumps p) = Inr p" "rd_bytes r = packet @ rest"
  shows "\<exists>r'. receive rd loads r = (Inr p, r') \<and> rd_bytes r' = rest"
proof -
  from assms(1) obtain header where h: "struct_pack PACKET_HEADER_size (length (dumps p)) = Inr header"
    "packet = header @ dumps p"
    by (auto simp: pack_def bind_result_Inr_iff Let_def)
  from struct_roundtrip [OF h(1)] have len: "length header = PACKET_HEADER_size"
    and u: "struct_unpack PACKET_HEADER_size header = Inr (length (dumps p))" by auto
  have "rd_bytes r = header @ (dumps p @ rest)" using assms(3) h(2) by simp
  from rd_exact [OF this len] obtain r1 where
    r1: "rd PACKET_HEADER_size r = (Inr header, r1)" "rd_bytes r1 = dumps p @ rest" by blast
  from rd_exact [OF r1(2) refl] obtain r2 where
    "rd (length (dumps p)) r1 = (Inr (dumps p), r2)" "rd_bytes r2 = rest" by blast
  with r1 u assms(2) show ?thesis by (simp add: receive_def)
qed

lemma receive_all_packets:
  assumes "send_all dumps ps out = Inr (out @ wire)" "\<And>p. p \<in> set ps \<Longrightarrow> loads (dumps p) = Inr p"
    and "rd_bytes r = wire @ rest"
  shows "receive_all rd loads (length ps) r = Inr ps"
  using assms
proof (induction ps arbitrary: out wire r)
  case Nil
  then show ?case by simp
next
  case (Cons p ps)
  then obtain packet where packet: "pack dumps p = Inr packet"
    and more: "send_all dumps ps (out @ packet) = Inr (out @ wire)"
    by (auto simp: send_def bind_result_Inr_iff)
  have "\<exists>w. out @ wire = (out @ packet) @ w"
  proof -
    have "send_all dumps qs o1 = Inr o2 \<Longrightarrow> \<exists>w. o2 = o1 @ w" for qs o1 o2
      by (induction qs arbitrary: o1) (fastforce simp: send_def bind_result_Inr_iff)+
    from this [OF more] show ?thesis .
  qed
  then obtain w where w: "wire = packet @ w" by auto
  with Cons.prems(3) have "rd_bytes r = packet @ (w @ rest)" by simp
  from receive_packet [OF packet _ this] Cons.prems(2) obtain r' where
    r': "receive rd loads r = (Inr p, r')" "rd_bytes r' = w @ rest" by auto
  have "send_all dumps ps (out @ packet) = Inr ((out @ packet) @ w)" using more w by simp
  from Cons.IH [OF this _ r'(2)] Cons.prems(2) r'(1) show ?case by simp
qed

end

lemma read_progress:
  assumes "0 < n" "rd_bytes r \<noteq> []"
  shows "fst (read n r) \<noteq> []"
proof -
  have "concat cs \<noteq> [] \<Longrightarrow> fst (read_loop n cs) \<noteq> []" for cs
    using assms(1) by (induction cs) auto
  with assms show ?thesis by (auto simp: read_def rd_bytes_def)
qed

lemma sock_read_loop_exact:
  "rd_bytes r = bs @ rest \<Longrightarrow> length acc + length bs = sz \<Longrightarrow>
   \<exists>r'. sock_read_loop sz acc r = (Inr (acc @ bs), r') \<and> rd_bytes r' = rest"
proof (induction sz acc r arbitrary: bs rule: sock_read_loop.induct)
  case (1 sz acc r)
  show ?case
  proof (cases "length acc < sz")
    case False
    then have "bs = []" using 1(3) by (cases bs) auto
    with False 1(2,3) show ?thesis by (simp add: sock_read_loop.simps)
  next
    case True
    obtain chunk r' where c: "read (sz - length acc) r = (chunk, r')"
      by (cases "read (sz - length acc) r")
    have "bs \<noteq> []" using True 1(3) by auto
    with 1(2) True have ne: "chunk \<noteq> []"
      using read_progress [of "sz - length acc" r] c by simp
    have spec: "chunk @ rd_bytes r' = bs @ rest" "length chunk \<le> length bs"
      using read_spec [OF c] 1(2,3) by auto
    then obtain bs' where bs': "bs = chunk @ bs'" "rd_bytes r' = bs' @ rest"
      by (auto simp: append_eq_append_conv2)
    have "length (acc @ chunk) + length bs' = sz" using 1(3) bs'(1) by simp
    from 1(1) [OF True c [symmetric] ne bs'(2) this] True c ne bs'(1) show ?thesis
      by (subst sock_read_loop.simps) simp
  qed
qed

interpretation sock: exact_reader sock_read
proof unfold_locales
  fix r bs rest n
  assume "rd_bytes r = bs @ rest" "length bs = n"
  then show "\<exists>r'. sock_read n r = (Inr bs, r') \<and> rd_bytes r' = rest"
    using sock_read_loop_exact [of r bs rest "[]" n] by (simp add: sock_read_def)
qed

interpretation buffered: exact_reader file_read
  by unfold_locales (auto simp: file_read_def rd_bytes_def)

interpretation stream: exact_reader readexactly
  by unfold_locales (rule readexactly_append)

lemma sock_read_loop_error:
  "sock_read_loop sz acc r = (Inl e, r') \<Longrightarrow>
   e = ConnectionError ''Remote did not send any data'' \<and> rd_bytes r' = [] \<and>
   length acc + length (rd_bytes r) < sz"
proof (induction sz acc r rule: sock_read_loop.induct)
  case (1 sz acc r)
  obtain chunk r1 where c: "read (sz - length acc) r = (chunk, r1)"
    by (cases "read (sz - length acc) r")
  from 1(2) have less: "length acc < sz" by (subst (asm) sock_read_loop.simps) (auto split: if_splits)
  note spec = read_spec [OF c]
  show ?case
  proof (cases "chunk = []")
    case True
    have "rd_bytes r = []" using read_progress [of "sz - length acc" r] less c True by auto
    with 1(2) less c True spec show ?thesis by (subst (asm) sock_read_loop.simps) auto
  next
    case False
    with 1(2) less c have "sock_read_loop sz (acc @ chunk) r1 = (Inl e, r')"
      by (subst (asm) sock_read_loop.simps) simp
    from 1(1) [OF less c [symmetric] False this] spec show ?thesis
      by (auto simp: add.assoc simp flip: length_append)
  qed
qed

section \<open>Properties\<close>



end
