(* ===== verification/WorkerPool.thy ===== *)
theory WorkerPool
  imports WorkerProtocol "HOL-Library.Multiset"
begin

text \<open>
  The process pool of \<^verbatim>\<open>aiomisc/worker_pool.py\<close> together with the worker's side,
  \<^verbatim>\<open>aiomisc_worker/worker.py\<close>, and the two supervisors, \<^verbatim>\<open>aiomisc_worker/forking.py\<close> and
  \<^verbatim>\<open>aiomisc_worker/process.py\<close>. Packets are taken after the protocol layer. The handler of a
  connection is cut at its awaits; the step relation interleaves the callers, the handlers,
  losses of workers and cancellations. HMAC is a parameter, and so is what a function
  returns when a worker runs it. A worker answers each request once here; what the signals of
  cancelled calls do to that is the subject of WorkerSignals.
\<close>

section \<open>The worker's side\<close>

datatype 'v response = Resp_RESULT 'v | Resp_EXCEPTION pyexc | Resp_CANCELLED | Resp_other

definition ProcessError :: pyexc where
  "ProcessError = mk_exc [''ProcessError'', ''Exception'', ''BaseException''] []"

text \<open>
  \<^verbatim>\<open>execute\<close>: what is sent for a packet, or the exception that ends the worker. \<^verbatim>\<open>outcome\<close> is that
  of running the function and packing its result.
\<close>

definition worker_execute :: "PacketTypes \<Rightarrow> 'v result \<Rightarrow> 'v response result" where
  "worker_execute packet_type outcome =
     (if packet_type \<noteq> REQUEST then Inl (RuntimeError ''Unexpected request'')
      else case outcome of
        Inr v \<Rightarrow> Inr (Resp_RESULT v)
      | Inl e \<Rightarrow>
          if isinstance_exc e ''CancelledError'' then Inr Resp_CANCELLED
          else if isinstance_exc e ''ConnectionError'' then Inl e
          else if is_Exception e then Inr (Resp_EXCEPTION e)
          else Inl e)"

text \<open>The first packet of \<^verbatim>\<open>worker\<close> and of \<^verbatim>\<open>bad_initializer\<close>, and the reaction to the answer.\<close>

definition auth_packet ::
  "(bytes \<Rightarrow> bytes \<Rightarrow> bytes) \<Rightarrow> bytes \<Rightarrow> bytes \<Rightarrow> nat \<Rightarrow> PacketTypes \<times> bytes \<times> bytes \<times> nat" where
  "auth_packet hmac cookie worker_id pid = (AUTH, worker_id, hmac cookie worker_id, pid)"

definition bad_initializer_packets ::
  "(bytes \<Rightarrow> bytes \<Rightarrow> bytes) \<Rightarrow> bytes \<Rightarrow> bytes \<Rightarrow> nat \<Rightarrow> pyexc \<Rightarrow>
   (PacketTypes \<times> bytes \<times> bytes \<times> nat) \<times> (PacketTypes \<times> pyexc)" where
  "bad_initializer_packets hmac cookie worker_id pid e =
     ((BAD_INITIALIZER, worker_id, hmac cookie worker_id, pid), (EXCEPTION, e))"

definition worker_authorized :: "PacketTypes \<Rightarrow> unit result" where
  "worker_authorized response =
     (if response \<noteq> AUTH_OK then Inl (RuntimeError ''Failed to authorize worker'') else Inr ())"

section \<open>The pool's side\<close>

record ('f, 'v) wp_task =
  tk_func :: 'f
  tk_result :: "'v fut"
  tk_process :: "nat fut"

datatype wp_handler = Idle | Busy nat | Left

record ('f, 'v) WorkerPool =
  wp_max_overflow :: nat
  wp_tasks :: "('f, 'v) wp_task list"
  wp_queue :: "nat list"
  wp_workers :: "(nat \<times> wp_handler) list"
  wp_processes :: int
  wp_spawning :: nat
  wp_signals :: "nat list"
  wp_closing :: bool

definition WorkerPool_init :: "nat \<Rightarrow> ('f, 'v) WorkerPool" where
  "WorkerPool_init max_overflow =
     \<lparr>wp_max_overflow = max_overflow, wp_tasks = [], wp_queue = [], wp_workers = [],
      wp_processes = 0, wp_spawning = 0, wp_signals = [], wp_closing = False\<rparr>"

text \<open>The handshake of \<^verbatim>\<open>__handle_client\<close>: the packet that is sent, if any, and the decision.\<close>

datatype handshake = Accepted nat | Refused "PacketTypes option" | InitializerFailed

definition authenticate ::
  "(bytes \<Rightarrow> bytes \<Rightarrow> bytes) \<Rightarrow> bytes \<Rightarrow> bytes list \<Rightarrow> PacketTypes \<times> bytes \<times> bytes \<times> nat \<Rightarrow> handshake" where
  "authenticate hmac cookie worker_ids packet =
     (case packet of (packet_type, worker_id, digest, pid) \<Rightarrow>
        if packet_type = BAD_INITIALIZER then InitializerFailed
        else if packet_type \<noteq> AUTH then Refused (Some BAD_PACKET)
        else if worker_id \<notin> set worker_ids then Refused None
        else if hmac cookie worker_id \<noteq> digest then Refused (Some AUTH_FAIL)
        else Accepted pid)"

definition set_handler :: "nat \<Rightarrow> wp_handler \<Rightarrow> ('f, 'v) WorkerPool \<Rightarrow> ('f, 'v) WorkerPool" where
  "set_handler w h s = s\<lparr>wp_workers := (wp_workers s)[w := (fst (wp_workers s ! w), h)]\<rparr>"

definition set_result_future :: "nat \<Rightarrow> 'v result \<Rightarrow> ('f, 'v) WorkerPool \<Rightarrow> ('f, 'v) WorkerPool" where
  "set_result_future t r s =
     s\<lparr>wp_tasks := (wp_tasks s)[t := (wp_tasks s ! t)\<lparr>tk_result := resolve r (tk_result (wp_tasks s ! t))\<rparr>]\<rparr>"

definition set_process_future :: "nat \<Rightarrow> nat result \<Rightarrow> ('f, 'v) WorkerPool \<Rightarrow> ('f, 'v) WorkerPool" where
  "set_process_future t r s =
     s\<lparr>wp_tasks := (wp_tasks s)[t := (wp_tasks s ! t)\<lparr>tk_process := resolve r (tk_process (wp_tasks s ! t))\<rparr>]\<rparr>"

text \<open>An accepted connection.\<close>

definition handler_started :: "nat \<Rightarrow> ('f, 'v) WorkerPool \<Rightarrow> ('f, 'v) WorkerPool" where
  "handler_started pid s =
     s\<lparr>wp_processes := wp_processes s + 1, wp_spawning := wp_spawning s + 1,
       wp_workers := wp_workers s @ [(pid, Idle)]\<rparr>"

text \<open>A handler takes a task from the queue: skip it when a future is done, else send it.\<close>

definition handler_takes :: "nat \<Rightarrow> ('f, 'v) WorkerPool \<Rightarrow> ('f, 'v) WorkerPool" where
  "handler_takes w s =
     (let t = hd (wp_queue s);
          s = s\<lparr>wp_queue := tl (wp_queue s)\<rparr>
      in if tk_process (wp_tasks s ! t) \<noteq> Pending \<or> tk_result (wp_tasks s ! t) \<noteq> Pending then s
         else set_handler w (Busy t) (set_process_future t (Inr (fst (wp_workers s ! w))) s))"

text \<open>The response of the worker.\<close>

definition handler_response :: "nat \<Rightarrow> nat \<Rightarrow> 'v response \<Rightarrow> ('f, 'v) WorkerPool \<Rightarrow> ('f, 'v) WorkerPool" where
  "handler_response w t resp s =
     set_handler w Idle
       (case resp of
          Resp_RESULT v \<Rightarrow> set_result_future t (Inr v) s
        | Resp_EXCEPTION e \<Rightarrow> set_result_future t (Inl e) s
        | Resp_CANCELLED \<Rightarrow> set_result_future t (Inl CancelledError) s
        | Resp_other \<Rightarrow> s)"

text \<open>The \<^verbatim>\<open>finally\<close> clause of the handler.\<close>

definition handler_left :: "nat \<Rightarrow> ('f, 'v) WorkerPool \<Rightarrow> ('f, 'v) WorkerPool" where
  "handler_left w s = set_handler w Left (s\<lparr>wp_processes := wp_processes s - 1\<rparr>)"

text \<open>
  An exception while a request is processed: a lost connection becomes \<^verbatim>\<open>ProcessError\<close>, any
  other \<^verbatim>\<open>Exception\<close> goes to the caller as it is; the handler ends in either case.
\<close>

definition handler_fails :: "nat \<Rightarrow> nat \<Rightarrow> pyexc \<Rightarrow> ('f, 'v) WorkerPool \<Rightarrow> ('f, 'v) WorkerPool" where
  "handler_fails w t e s =
     (if except_matches [''IncompleteReadError'', ''ConnectionError''] e
      then handler_left w (set_result_future t (Inl ProcessError) s)
      else if is_Exception e then handler_left w (set_result_future t (Inl e) s)
      else handler_left w s)"

text \<open>\<^verbatim>\<open>create_task\<close> up to its wait for a worker, when the queue has room.\<close>

definition queue_has_room :: "('f, 'v) WorkerPool \<Rightarrow> bool" where
  "queue_has_room s \<longleftrightarrow> wp_max_overflow s = 0 \<or> length (wp_queue s) < wp_max_overflow s"

definition create_task :: "'f \<Rightarrow> ('f, 'v) WorkerPool \<Rightarrow> ('f, 'v) WorkerPool" where
  "create_task f s =
     s\<lparr>wp_tasks := wp_tasks s @ [\<lparr>tk_func = f, tk_result = Pending, tk_process = Pending\<rparr>],
       wp_queue := wp_queue s @ [length (wp_tasks s)]\<rparr>"

text \<open>
  The caller is cancelled: while it waits for a worker its first future is cancelled, later
  its second one, and then the worker gets a signal.
\<close>

definition caller_cancelled :: "nat \<Rightarrow> ('f, 'v) WorkerPool \<Rightarrow> ('f, 'v) WorkerPool" where
  "caller_cancelled t s =
     (case tk_process (wp_tasks s ! t) of
        Pending \<Rightarrow> set_process_future t (Inl CancelledError) s
      | Resolved (Inl e) \<Rightarrow> s
      | Resolved (Inr pid) \<Rightarrow>
          if tk_result (wp_tasks s ! t) = Pending
          then (set_result_future t (Inl CancelledError) s)\<lparr>wp_signals := wp_signals s @ [pid]\<rparr>
          else s)"

text \<open>\<^verbatim>\<open>set_exception(self.__futures, e)\<close>, for a failed initializer, and \<^verbatim>\<open>close\<close>.\<close>

definition reject_futures :: "pyexc \<Rightarrow> ('f, 'v) WorkerPool \<Rightarrow> ('f, 'v) WorkerPool" where
  "reject_futures e s =
     s\<lparr>wp_tasks := map (\<lambda>t. t\<lparr>tk_result := resolve (Inl e) (tk_result t),
                             tk_process := resolve (Inl e) (tk_process t)\<rparr>) (wp_tasks s)\<rparr>"

definition close_pool :: "('f, 'v) WorkerPool \<Rightarrow> ('f, 'v) WorkerPool" where
  "close_pool s =
     (if wp_closing s then s
      else reject_futures CancelledError
        (s\<lparr>wp_closing := True, wp_processes := 0,
           wp_workers := map (\<lambda>(pid, _). (pid, Left)) (wp_workers s)\<rparr>))"

definition initializer_failed :: "PacketTypes \<Rightarrow> pyexc \<Rightarrow> ('f, 'v) WorkerPool \<Rightarrow> ('f, 'v) WorkerPool" where
  "initializer_failed packet_type e s =
     close_pool (if packet_type \<noteq> EXCEPTION then s else reject_futures e s)"

section \<open>Interleavings\<close>

definition handler_of :: "nat \<Rightarrow> ('f, 'v) WorkerPool \<Rightarrow> wp_handler option" where
  "handler_of w s = (if w < length (wp_workers s) then Some (snd (wp_workers s ! w)) else None)"

definition wp_new :: "('f, 'v) WorkerPool \<Rightarrow> bool" where
  "wp_new s \<longleftrightarrow> (\<exists>n. s = WorkerPool_init n)"

inductive wp_step :: "('f \<Rightarrow> 'v result) \<Rightarrow> ('f, 'v) WorkerPool \<Rightarrow> ('f, 'v) WorkerPool \<Rightarrow> bool"
  for run :: "'f \<Rightarrow> 'v result" where
  ws_create: "queue_has_room s \<Longrightarrow> wp_step run s (create_task f s)"
| ws_connect: "authenticate hmac cookie ids packet = Accepted pid \<Longrightarrow> \<not> wp_closing s \<Longrightarrow>
     wp_step run s (handler_started pid s)"
| ws_take: "handler_of w s = Some Idle \<Longrightarrow> wp_queue s \<noteq> [] \<Longrightarrow> wp_step run s (handler_takes w s)"
| ws_response: "handler_of w s = Some (Busy t) \<Longrightarrow>
     worker_execute REQUEST (run (tk_func (wp_tasks s ! t))) = Inr resp \<Longrightarrow>
     wp_step run s (handler_response w t resp s)"
| ws_signalled: "handler_of w s = Some (Busy t) \<Longrightarrow> tk_result (wp_tasks s ! t) \<noteq> Pending \<Longrightarrow>
     wp_step run s (handler_response w t Resp_CANCELLED s)"
| ws_lost: "handler_of w s = Some (Busy t) \<Longrightarrow>
     except_matches [''IncompleteReadError'', ''ConnectionError''] e \<Longrightarrow>
     wp_step run s (handler_fails w t e s)"
| ws_left: "handler_of w s = Some Idle \<Longrightarrow> wp_step run s (handler_left w s)"
| ws_cancel: "t < length (wp_tasks s) \<Longrightarrow> wp_step run s (caller_cancelled t s)"
| ws_close: "wp_step run s (close_pool s)"

section \<open>The invariant\<close>

text \<open>What a result may be: that of the function, or the news that there is none.\<close>

definition result_ok :: "('f \<Rightarrow> 'v result) \<Rightarrow> ('f, 'v) wp_task \<Rightarrow> bool" where
  "result_ok run t \<longleftrightarrow>
     (\<forall>v. tk_result t = Resolved (Inr v) \<longrightarrow> run (tk_func t) = Inr v) \<and>
     (\<forall>e. tk_result t = Resolved (Inl e) \<longrightarrow>
        e = ProcessError \<or> e = CancelledError \<or>
        run (tk_func t) = Inl e \<and> is_Exception e \<and> \<not> isinstance_exc e ''ConnectionError'')"

definition busy :: "('f, 'v) WorkerPool \<Rightarrow> nat \<Rightarrow> nat \<Rightarrow> bool" where
  "busy s w t \<longleftrightarrow> w < length (wp_workers s) \<and> snd (wp_workers s ! w) = Busy t"

definition tasks_ok :: "('f \<Rightarrow> 'v result) \<Rightarrow> ('f, 'v) WorkerPool \<Rightarrow> bool" where
  "tasks_ok run s \<longleftrightarrow> (\<forall>t \<in> set (wp_tasks s). result_ok run t)"

text \<open>
  Every task is in one place: in the queue while no worker has it, with exactly one worker
  while its result is pending afterwards.
\<close>

definition places_ok :: "('f, 'v) WorkerPool \<Rightarrow> bool" where
  "places_ok s \<longleftrightarrow>
     distinct (wp_queue s) \<and> (\<forall>t \<in> set (wp_queue s). t < length (wp_tasks s)) \<and>
     (\<forall>w t. busy s w t \<longrightarrow> t < length (wp_tasks s) \<and> t \<notin> set (wp_queue s) \<and>
        tk_process (wp_tasks s ! t) \<noteq> Pending) \<and>
     (\<forall>w w' t. busy s w t \<and> busy s w' t \<longrightarrow> w = w') \<and>
     (\<forall>t < length (wp_tasks s).
        (tk_process (wp_tasks s ! t) = Pending \<longrightarrow>
           t \<in> set (wp_queue s) \<and> tk_result (wp_tasks s ! t) = Pending) \<and>
        (\<forall>pid. tk_process (wp_tasks s ! t) = Resolved (Inr pid) \<and>
           tk_result (wp_tasks s ! t) = Pending \<longrightarrow> (\<exists>w. busy s w t)))"

definition alive :: "nat \<times> wp_handler \<Rightarrow> bool" where
  "alive w \<longleftrightarrow> snd w \<noteq> Left"

definition wp_ok :: "('f \<Rightarrow> 'v result) \<Rightarrow> ('f, 'v) WorkerPool \<Rightarrow> bool" where
  "wp_ok run s \<longleftrightarrow> tasks_ok run s \<and> places_ok s \<and>
     wp_processes s = int (length (filter alive (wp_workers s)))"

section \<open>Lemmas\<close>

lemma wp_fields [simp]:
  "wp_tasks (set_handler w h s) = wp_tasks s" "wp_queue (set_handler w h s) = wp_queue s"
  "wp_processes (set_handler w h s) = wp_processes s"
  "wp_workers (set_handler w h s) = (wp_workers s)[w := (fst (wp_workers s ! w), h)]"
  "length (wp_tasks (set_result_future t r s)) = length (wp_tasks s)"
  "length (wp_tasks (set_process_future t p s)) = length (wp_tasks s)"
  "wp_queue (set_result_future t r s) = wp_queue s" "wp_queue (set_process_future t p s) = wp_queue s"
  "wp_workers (set_result_future t r s) = wp_workers s"
  "wp_workers (set_process_future t p s) = wp_workers s"
  "wp_processes (set_result_future t r s) = wp_processes s"
  "wp_processes (set_process_future t p s) = wp_processes s"
  by (simp_all add: set_handler_def set_result_future_def set_process_future_def)

lemma tk_fields [simp]:
  "i < length (wp_tasks s) \<Longrightarrow> tk_process (wp_tasks (set_result_future t r s) ! i) = tk_process (wp_tasks s ! i)"
  "i < length (wp_tasks s) \<Longrightarrow> tk_result (wp_tasks (set_result_future t r s) ! i) =
     (if i = t then resolve r (tk_result (wp_tasks s ! i)) else tk_result (wp_tasks s ! i))"
  "i < length (wp_tasks s) \<Longrightarrow> tk_result (wp_tasks (set_process_future t p s) ! i) = tk_result (wp_tasks s ! i)"
  "i < length (wp_tasks s) \<Longrightarrow> tk_process (wp_tasks (set_process_future t p s) ! i) =
     (if i = t then resolve p (tk_process (wp_tasks s ! i)) else tk_process (wp_tasks s ! i))"
  by (cases "i = t"; simp add: set_result_future_def set_process_future_def)+

lemma busy_fields [simp]:
  "busy (set_result_future t r s) = busy s" "busy (set_process_future t p s) = busy s"
  "busy (s\<lparr>wp_queue := q\<rparr>) = busy s" "busy (s\<lparr>wp_processes := n\<rparr>) = busy s"
  "busy (s\<lparr>wp_tasks := ts\<rparr>) = busy s" "busy (s\<lparr>wp_signals := sg\<rparr>) = busy s"
  by (auto simp: busy_def fun_eq_iff)

lemma busy_set_handler:
  "w < length (wp_workers s) \<Longrightarrow>
   busy (set_handler w h s) w' t = (if w' = w then h = Busy t else busy s w' t)"
  by (auto simp: busy_def nth_list_update)

lemma handler_of_Some: "handler_of w s = Some h \<longleftrightarrow> w < length (wp_workers s) \<and> snd (wp_workers s ! w) = h"
  by (simp add: handler_of_def)

lemma tasks_ok_update:
  assumes "tasks_ok run s" "t < length (wp_tasks s) \<Longrightarrow> result_ok run x"
  shows "tasks_ok run (s\<lparr>wp_tasks := (wp_tasks s)[t := x]\<rparr>)"
  using assms set_update_subset_insert [of "wp_tasks s" t x]
  by (cases "t < length (wp_tasks s)") (auto simp: tasks_ok_def list_update_beyond)

lemma tasks_ok_set_process: "tasks_ok run s \<Longrightarrow> tasks_ok run (set_process_future t p s)"
  unfolding set_process_future_def
  by (rule tasks_ok_update) (simp_all add: tasks_ok_def result_ok_def)

lemma tasks_ok_set_result:
  assumes "tasks_ok run s" "t < length (wp_tasks s)"
    and "tk_result (wp_tasks s ! t) = Pending \<Longrightarrow> result_ok run ((wp_tasks s ! t)\<lparr>tk_result := Resolved r\<rparr>)"
  shows "tasks_ok run (set_result_future t r s)"
proof -
  have "result_ok run (wp_tasks s ! t)" using assms(1,2) by (simp add: tasks_ok_def)
  then have "result_ok run ((wp_tasks s ! t)\<lparr>tk_result := resolve r (tk_result (wp_tasks s ! t))\<rparr>)"
    using assms(3) by (cases "tk_result (wp_tasks s ! t)") (auto simp: result_ok_def)
  with assms(1) show ?thesis
    unfolding set_result_future_def by (intro tasks_ok_update)
qed

lemma alive_update:
  assumes "w < length ws"
  shows "int (length (filter alive (ws[w := x]))) =
    int (length (filter alive ws)) - (if alive (ws ! w) then 1 else 0) + (if alive x then 1 else 0)"
  using sum_list_map_update [OF assms, of "\<lambda>y. if alive y then 1 else (0 :: int)" x]
proof -
  have f: "int (length (filter alive ys)) = (\<Sum>y\<leftarrow>ys. if alive y then 1 else 0)" for ys
    by (induction ys) auto
  from sum_list_map_update [OF assms, of "\<lambda>y. if alive y then 1 else (0 :: int)" x]
  show ?thesis unfolding f by simp
qed

text \<open>A worker is done with its task, whose result is there.\<close>

lemma places_ok_release:
  assumes "places_ok s" "busy s w t" "tk_result (wp_tasks s ! t) \<noteq> Pending" "h \<noteq> Busy t" "\<forall>t'. h \<noteq> Busy t'"
  shows "places_ok (set_handler w h s)"
proof -
  have w: "w < length (wp_workers s)" using assms(2) by (simp add: busy_def)
  note b = busy_set_handler [OF w, of h]
  have "\<exists>w'. busy (set_handler w h s) w' t'"
    if t': "t' < length (wp_tasks s)" "tk_process (wp_tasks s ! t') = Resolved (Inr pid)"
      "tk_result (wp_tasks s ! t') = Pending" for t' pid
  proof -
    obtain w' where w': "busy s w' t'" using assms(1) t' unfolding places_ok_def by blast
    have "t' \<noteq> t" using assms(3) t'(3) by auto
    then have "w' \<noteq> w" using w' assms(2) by (auto simp: busy_def)
    with w' b show ?thesis by auto
  qed
  with assms(1,5) show ?thesis
    unfolding places_ok_def by (auto simp: b split: if_splits)
qed

lemma places_ok_result:
  "places_ok s \<Longrightarrow> tk_process (wp_tasks s ! t) \<noteq> Pending \<Longrightarrow> places_ok (set_result_future t r s)"
  unfolding places_ok_def by (auto split: if_splits)

lemma places_ok_cancel_process:
  assumes "places_ok s" "tk_process (wp_tasks s ! t) = Pending"
  shows "places_ok (set_process_future t (Inl e) s)"
  using assms unfolding places_ok_def
  by (auto split: if_splits simp: resolve_Resolved_iff)

lemma places_ok_idle:
  assumes "places_ok s" "handler_of w s = Some Idle" "\<forall>t. h \<noteq> Busy t"
  shows "places_ok (set_handler w h s)"
proof -
  have w: "w < length (wp_workers s)" "\<not> busy s w t" for t
    using assms(2) by (auto simp: handler_of_Some busy_def)
  have "busy (set_handler w h s) = busy s"
    using busy_set_handler [OF w(1), of h] w(2) assms(3) by (auto simp: fun_eq_iff)
  with assms(1) show ?thesis by (simp add: places_ok_def)
qed

lemma places_ok_take:
  assumes "places_ok s" "handler_of w s = Some Idle" "wp_queue s \<noteq> []"
  shows "places_ok (handler_takes w s)"
proof -
  obtain t q where q: "wp_queue s = t # q" using assms(3) by (cases "wp_queue s") auto
  let ?s = "s\<lparr>wp_queue := q\<rparr>"
  have w: "w < length (wp_workers s)" "\<not> busy s w t'" for t'
    using assms(2) by (auto simp: handler_of_Some busy_def)
  have t: "t < length (wp_tasks s)" "t \<notin> set q" using assms(1) q by (auto simp: places_ok_def)
  show ?thesis
  proof (cases "tk_process (wp_tasks s ! t) \<noteq> Pending \<or> tk_result (wp_tasks s ! t) \<noteq> Pending")
    case True
    then have p: "tk_process (wp_tasks s ! t) \<noteq> Pending"
      using assms(1) t(1) by (auto simp: places_ok_def)
    have "places_ok ?s" using assms(1) p unfolding places_ok_def q by auto
    with True show ?thesis by (simp add: handler_takes_def q)
  next
    case False
    let ?p = "set_process_future t (Inr (fst (wp_workers s ! w))) ?s"
    have not_busy: "\<not> busy s w' t" for w' using assms(1) q by (auto simp: places_ok_def)
    have b: "busy (set_handler w (Busy t) ?p) w' t' = (if w' = w then t' = t else busy s w' t')" for w' t'
      using busy_set_handler [of w ?p "Busy t"] w(1) by auto
    have "places_ok (set_handler w (Busy t) ?p)"
      using assms(1) t not_busy w(2) False unfolding places_ok_def q b
      by (auto split: if_splits simp: resolve_Resolved_iff) (blast, metis)
    with False show ?thesis by (simp add: handler_takes_def q)
  qed
qed

lemma worker_execute_result_ok:
  assumes "worker_execute REQUEST (run (tk_func t)) = Inr resp"
  shows "resp = Resp_RESULT v \<Longrightarrow> result_ok run (t\<lparr>tk_result := Resolved (Inr v)\<rparr>)"
    and "resp = Resp_EXCEPTION e \<Longrightarrow> result_ok run (t\<lparr>tk_result := Resolved (Inl e)\<rparr>)"
    and "resp \<noteq> Resp_other"
  using assms by (auto simp: worker_execute_def result_ok_def split: sum.splits if_splits)

lemma busy_facts:
  assumes "wp_ok run s" "handler_of w s = Some (Busy t)"
  shows "busy s w t" "t < length (wp_tasks s)" "tk_process (wp_tasks s ! t) \<noteq> Pending"
  using assms by (auto simp: wp_ok_def places_ok_def busy_def handler_of_Some)

lemma result_ok_news:
  "result_ok run (t\<lparr>tk_result := Resolved (Inl CancelledError)\<rparr>)"
  "result_ok run (t\<lparr>tk_result := Resolved (Inl ProcessError)\<rparr>)"
  by (simp_all add: result_ok_def)

lemma processes_irrelevant [simp]:
  "places_ok (s\<lparr>wp_processes := n\<rparr>) = places_ok s" "tasks_ok run (s\<lparr>wp_processes := n\<rparr>) = tasks_ok run s"
  by (simp_all add: places_ok_def tasks_ok_def)

lemma tasks_ok_set_handler [simp]: "tasks_ok run (set_handler w h s) = tasks_ok run s"
  by (simp add: tasks_ok_def)

lemma handler_left_eq:
  "handler_left w s = (set_handler w Left s)\<lparr>wp_processes := wp_processes s - 1\<rparr>"
  by (cases s) (simp add: handler_left_def set_handler_def)

lemma finish_ok:
  assumes ok: "wp_ok run s" and h: "handler_of w s = Some (Busy t)"
    and r: "result_ok run ((wp_tasks s ! t)\<lparr>tk_result := Resolved r\<rparr>)"
  shows "wp_ok run (set_handler w Idle (set_result_future t r s))"
    and "wp_ok run (handler_left w (set_result_future t r s))"
proof -
  note b = busy_facts [OF ok h]
  let ?s = "set_result_future t r s"
  have w: "w < length (wp_workers s)" "alive (wp_workers s ! w)"
    using h by (auto simp: handler_of_Some alive_def)
  have t: "tasks_ok run ?s" using ok b r by (intro tasks_ok_set_result) (auto simp: wp_ok_def)
  have p: "places_ok ?s" using ok b by (intro places_ok_result) (auto simp: wp_ok_def)
  have "places_ok (set_handler w x ?s)" if "\<forall>t'. x \<noteq> Busy t'" for x
    using places_ok_release [OF p, of w t x] b that by simp
  then have pl: "places_ok (set_handler w Idle ?s)" "places_ok (set_handler w Left ?s)" by auto
  have tk: "tasks_ok run (set_handler w x ?s)" for x using t by (simp add: tasks_ok_def)
  show "wp_ok run (set_handler w Idle ?s)"
    using ok tk pl(1) w by (simp add: wp_ok_def alive_update) (simp add: alive_def)
  have "places_ok (handler_left w ?s)" "tasks_ok run (handler_left w ?s)"
    using pl(2) tk [of Left] by (simp_all add: handler_left_eq)
  then show "wp_ok run (handler_left w ?s)"
    using ok w by (simp add: wp_ok_def handler_left_def alive_update) (simp add: alive_def)
qed

lemma places_ok_signals: "places_ok (s\<lparr>wp_signals := x\<rparr>) = places_ok s"
  by (simp add: places_ok_def)

lemma caller_cancelled_ok:
  assumes ok: "wp_ok run s" and t: "t < length (wp_tasks s)"
  shows "wp_ok run (caller_cancelled t s)"
proof (cases "tk_process (wp_tasks s ! t)")
  case Pending
  with ok show ?thesis
    by (auto simp: wp_ok_def caller_cancelled_def tasks_ok_set_process places_ok_cancel_process)
next
  case (Resolved r)
  let ?s = "set_result_future t (Inl CancelledError) s"
  have "tasks_ok run ?s" "places_ok ?s"
    using ok t Resolved
    by (auto simp: wp_ok_def intro!: tasks_ok_set_result places_ok_result result_ok_news)
  with ok Resolved show ?thesis
    by (auto simp: caller_cancelled_def wp_ok_def places_ok_signals tasks_ok_def split: sum.splits)
qed

lemma close_pool_ok:
  assumes ok: "wp_ok run s"
  shows "wp_ok run (close_pool s)"
proof (cases "wp_closing s")
  case True
  with ok show ?thesis by (simp add: close_pool_def)
next
  case False
  have nb: "\<not> busy (close_pool s) w t" for w t
    using False by (auto simp: close_pool_def reject_futures_def busy_def case_prod_unfold)
  have "result_ok run (t\<lparr>tk_result := resolve (Inl CancelledError) (tk_result t), tk_process := p\<rparr>)"
    if "result_ok run t" for t p
    using that by (cases "tk_result t") (auto simp: result_ok_def)
  then have "tasks_ok run (close_pool s)"
    using ok False by (auto simp: wp_ok_def tasks_ok_def close_pool_def reject_futures_def)
  moreover have "places_ok (close_pool s)"
    using ok False nb unfolding places_ok_def wp_ok_def
    by (auto simp: close_pool_def reject_futures_def)
  moreover have "filter alive (wp_workers (close_pool s)) = []" "wp_processes (close_pool s) = 0"
    using False by (auto simp: close_pool_def reject_futures_def alive_def filter_empty_conv)
  ultimately show ?thesis by (simp add: wp_ok_def)
qed

lemma create_task_ok: "wp_ok run s \<Longrightarrow> wp_ok run (create_task f s)"
proof -
  assume ok: "wp_ok run s"
  have "busy (create_task f s) = busy s" by (auto simp: create_task_def busy_def fun_eq_iff)
  then have "places_ok (create_task f s)"
    using ok unfolding wp_ok_def places_ok_def
    by (auto simp: create_task_def nth_append less_Suc_eq)
  with ok show ?thesis
    by (auto simp: wp_ok_def tasks_ok_def create_task_def result_ok_def)
qed

lemma handler_started_ok: "wp_ok run s \<Longrightarrow> wp_ok run (handler_started pid s)"
proof -
  assume ok: "wp_ok run s"
  have "busy (handler_started pid s) = busy s"
    by (auto simp: handler_started_def busy_def fun_eq_iff nth_append less_Suc_eq)
  then have "places_ok (handler_started pid s)"
    using ok unfolding wp_ok_def places_ok_def by (simp add: handler_started_def)
  with ok show ?thesis
    by (auto simp: wp_ok_def tasks_ok_def handler_started_def alive_def)
qed

interpretation worker_pool: invariant_system wp_new "wp_step run" "wp_ok run"
  for run :: "'f \<Rightarrow> 'v result"
proof unfold_locales
  fix s :: "('f, 'v) WorkerPool"
  assume "wp_new s"
  then show "wp_ok run s"
    by (auto simp: wp_new_def WorkerPool_init_def wp_ok_def tasks_ok_def places_ok_def busy_def)
next
  fix s s' :: "('f, 'v) WorkerPool"
  assume ok: "wp_ok run s" and "wp_step run s s'"
  from this(2) show "wp_ok run s'"
  proof cases
    case (ws_create f)
    with ok show ?thesis by (simp add: create_task_ok)
  next
    case (ws_connect hmac cookie ids packet pid)
    with ok show ?thesis by (simp add: handler_started_ok)
  next
    case (ws_take w)
    have "places_ok s'" using ok ws_take places_ok_take by (auto simp: wp_ok_def)
    moreover have "tasks_ok run (s\<lparr>wp_queue := q\<rparr>)" for q using ok by (simp add: wp_ok_def tasks_ok_def)
    then have "tasks_ok run s'"
      using ws_take(1) by (auto simp: handler_takes_def Let_def intro!: tasks_ok_set_process)
    ultimately show ?thesis
      using ok ws_take(1,2)
      by (auto simp: wp_ok_def handler_takes_def Let_def handler_of_Some alive_update)
        (auto simp: alive_def)
  next
    case (ws_response w t resp)
    note x = worker_execute_result_ok [of run "wp_tasks s ! t", OF ws_response(3)]
    show ?thesis
      using ws_response(1) x finish_ok(1) [OF ok ws_response(2)] result_ok_news
      by (cases resp) (auto simp: handler_response_def)
  next
    case (ws_signalled w t)
    then show ?thesis
      using finish_ok(1) [OF ok ws_signalled(2)] result_ok_news by (auto simp: handler_response_def)
  next
    case (ws_lost w t e)
    then show ?thesis
      using finish_ok(2) [OF ok ws_lost(2) result_ok_news(2)] by (simp add: handler_fails_def)
  next
    case (ws_left w)
    then have "places_ok s'" using ok places_ok_idle [of s w Left] by (simp add: wp_ok_def handler_left_eq)
    with ws_left ok show ?thesis
      by (auto simp: wp_ok_def handler_left_eq tasks_ok_def handler_of_Some alive_update)
        (auto simp: alive_def)
  next
    case (ws_cancel t)
    with ok show ?thesis by (simp add: caller_cancelled_ok)
  next
    case ws_close
    with ok show ?thesis by (simp add: close_pool_ok)
  qed
qed

section \<open>The supervisors\<close>

text \<open>
  \<^verbatim>\<open>forking.py\<close>: the table of children, by process id. The operating system gives a new child a
  process id that no living child has.
\<close>

definition fork :: "nat \<Rightarrow> 'id \<Rightarrow> (nat \<rightharpoonup> 'id) \<Rightarrow> (nat \<rightharpoonup> 'id)" where
  "fork pid worker_id procs = procs(pid \<mapsto> worker_id)"

text \<open>One iteration of the waiting loop for an exited child; \<^verbatim>\<open>new_pid\<close> is that of its successor.\<close>

definition on_child_exit :: "nat \<Rightarrow> int \<Rightarrow> nat \<Rightarrow> (nat \<rightharpoonup> 'id) \<Rightarrow> (nat \<rightharpoonup> 'id)" where
  "on_child_exit pid status new_pid procs =
     (if status = 0 then procs
      else case procs pid of
        None \<Rightarrow> procs
      | Some worker_id \<Rightarrow> fork new_pid worker_id (procs(pid := None)))"

text \<open>\<^verbatim>\<open>process.py\<close>: one pass over the table; a worker that is not running is replaced.\<close>

fun supervise_pass ::
  "('w \<Rightarrow> bool) \<Rightarrow> ('w \<Rightarrow> 'w) \<Rightarrow> ('w \<times> 'id) list \<Rightarrow> ('w \<times> 'id) list \<Rightarrow> ('w \<times> 'id) list" where
  "supervise_pass is_running create_worker [] created = created"
| "supervise_pass is_running create_worker ((w, i) # ps) created =
     (if is_running w then (w, i) # supervise_pass is_running create_worker ps created
      else supervise_pass is_running create_worker ps (created @ [(create_worker w, i)]))"

lemma supervise_pass_ids:
  "mset (map snd (supervise_pass r c ps created)) = mset (map snd ps) + mset (map snd created)"
  by (induction r c ps created rule: supervise_pass.induct) auto

lemma supervise_pass_workers:
  "x \<in> set (supervise_pass r c ps created) \<Longrightarrow> r (fst x) \<or> (\<exists>w. fst x = c w) \<or> x \<in> set created"
proof (induction ps arbitrary: created)
  case (Cons p ps)
  obtain w i where p: "p = (w, i)" by (cases p)
  show ?case
  proof (cases "r w")
    case True
    with Cons.prems Cons.IH [of created] show ?thesis by (auto simp: p)
  next
    case False
    with Cons.prems have "x \<in> set (supervise_pass r c ps (created @ [(c w, i)]))" by (simp add: p)
    from Cons.IH [OF this] show ?thesis by auto
  qed
qed simp

lemma on_child_exit_ids:
  assumes "procs pid = Some i" "new_pid \<notin> dom procs" "status \<noteq> 0"
  shows "ran (on_child_exit pid status new_pid procs) = ran procs"
proof -
  have "ran (procs(pid := None)) \<union> {i} = ran procs"
    using assms(1) by (auto simp: ran_def split: if_splits) (metis option.inject)
  moreover have "(procs(pid := None)) new_pid = None" using assms(2) by auto
  then have "ran (fork new_pid i (procs(pid := None))) = insert i (ran (procs(pid := None)))"
    unfolding fork_def by (rule ran_map_upd)
  ultimately show ?thesis using assms(1,3) by (simp add: on_child_exit_def)
qed

section \<open>Properties\<close>

text \<open>
  The handshake admits exactly the workers of the pool: a connection is accepted if and
  only if its first packet is an \<^verbatim>\<open>AUTH\<close> packet with a known worker id and the digest of that id
  under the pool's cookie; the packet that \<^verbatim>\<open>worker\<close> sends is such a packet.
\<close>

theorem handshake_exact:
  "(authenticate hmac cookie ids (ty, i, digest, pid) = Accepted pid' \<longleftrightarrow>
      ty = AUTH \<and> i \<in> set ids \<and> digest = hmac cookie i \<and> pid' = pid) \<and>
   (authenticate hmac cookie ids (auth_packet hmac cookie i pid) = Accepted pid \<longleftrightarrow> i \<in> set ids) \<and>
   (\<forall>e. authenticate hmac cookie ids (fst (bad_initializer_packets hmac cookie i pid e)) = InitializerFailed)"
  by (auto simp: authenticate_def auth_packet_def bad_initializer_packets_def)



text \<open>
  The supervisors keep every worker id served: a pass of the process supervisor leaves
  exactly the ids it had, each with a running worker when new workers run; and when a forked
  child exits with a non-zero status, the table has the same ids afterwards. (A child that
  exits with status zero is not replaced.)
\<close>

theorem supervisors_keep_ids:
  assumes "\<forall>w. is_running (create_worker w)" "procs pid = Some i" "new_pid \<notin> dom procs" "status \<noteq> 0"
  shows "mset (map snd (supervise_pass is_running create_worker ps [])) = mset (map snd ps) \<and>
    (\<forall>w \<in> fst ` set (supervise_pass is_running create_worker ps []). is_running w) \<and>
    ran (on_child_exit pid status new_pid procs) = ran procs \<and>
    on_child_exit pid 0 new_pid procs = procs"
proof -
  have "\<forall>w \<in> fst ` set (supervise_pass is_running create_worker ps []). is_running w"
  proof
    fix w
    assume "w \<in> fst ` set (supervise_pass is_running create_worker ps [])"
    then obtain x where "w = fst x" "x \<in> set (supervise_pass is_running create_worker ps [])" by auto
    from this(1) supervise_pass_workers [OF this(2)] assms(1) show "is_running w" by auto
  qed
  moreover have "on_child_exit pid 0 new_pid procs = procs" by (simp add: on_child_exit_def)
  moreover have "mset (map snd (supervise_pass is_running create_worker ps [])) = mset (map snd ps)"
    by (simp only: supervise_pass_ids list.map mset.simps add_0_right)
  ultimately show ?thesis using on_child_exit_ids [OF assms(2-4)] by (intro conjI)
qed

theorem supervisors_keep_ids_witness:
  "ran (on_child_exit 5 1 6 [5 \<mapsto> ''a'', 7 \<mapsto> ''b'']) = {''a'', ''b''} \<and>
   supervise_pass (\<lambda>w. w > (10::nat)) (\<lambda>w. w + 11) [(3, ''a''), (12, ''b'')] [] = [(12, ''b''), (14, ''a'')]"
proof -
  let ?p = "[5 \<mapsto> ''a'', 7 \<mapsto> ''b''] :: nat \<rightharpoonup> string"
  have r: "ran ?p = {''a'', ''b''}" by (simp add: insert_commute)
  have h: "\<forall>w::nat. (\<lambda>w. True) ((\<lambda>w. w) w)" "?p 5 = Some ''a''" "6 \<notin> dom ?p" "(1::int) \<noteq> 0"
    by simp_all
  have "ran (on_child_exit 5 1 6 ?p) = ran ?p"
    using supervisors_keep_ids [OF h] by blast
  with r show ?thesis by simp
qed

end
