(* ===== verification/ThreadPool.thy ===== *)
theory ThreadPool
  imports Prelude "HOL-Library.Multiset"
begin

text \<open>
  The thread pool of \<^verbatim>\<open>aiomisc/thread_pool.py\<close>: work items, the task channel, the loop of a
  thread, and the executor with its growth and its shutdown. A work item is cut where its
  function runs, so that other threads and the event loop interleave with it; the results
  travel through callbacks of the event loop.
\<close>

section \<open>Work items\<close>

record ThreadPoolStatistic =
  ts_threads :: int
  ts_done :: nat
  ts_error :: nat
  ts_success :: nat
  ts_submitted :: nat
  ts_sum_time :: number

definition new_ThreadPoolStatistic :: ThreadPoolStatistic where
  "new_ThreadPoolStatistic =
     \<lparr>ts_threads = 0, ts_done = 0, ts_error = 0, ts_success = 0, ts_submitted = 0, ts_sum_time = 0\<rparr>"

definition ThreadPoolException :: "string \<Rightarrow> pyexc" where
  "ThreadPoolException m =
     mk_exc [''ThreadPoolException'', ''RuntimeError'', ''Exception'', ''BaseException''] [m]"

text \<open>The head of \<^verbatim>\<open>WorkItem.__call__\<close>: nothing to do, the loop is gone, or run the function.\<close>

datatype item_start = SkipItem | LoopClosed | RunItem

definition workitem_start :: "bool \<Rightarrow> 'v fut \<Rightarrow> item_start" where
  "workitem_start loop_closed future =
     (if future \<noteq> Pending then SkipItem else if loop_closed then LoopClosed else RunItem)"

text \<open>The statistic after the function has run for \<^verbatim>\<open>delta\<close> seconds.\<close>

definition workitem_statistic ::
  "'v result \<Rightarrow> number \<Rightarrow> ThreadPoolStatistic \<Rightarrow> ThreadPoolStatistic" where
  "workitem_statistic outcome delta st =
     (let st = (case outcome of
                  Inr _ \<Rightarrow> st\<lparr>ts_success := ts_success st + 1\<rparr>
                | Inl _ \<Rightarrow> st\<lparr>ts_error := ts_error st + 1\<rparr>)
      in st\<lparr>ts_sum_time := ts_sum_time st + delta, ts_done := ts_done st + 1\<rparr>)"

definition set_workitem_result :: "'v result \<Rightarrow> 'v fut \<Rightarrow> 'v fut" where
  "set_workitem_result r future = (if future \<noteq> Pending then future else Resolved r)"

text \<open>The end of the call: forget the result, or schedule the callback, or the loop is gone.\<close>

datatype item_end = NoReturn | LoopGone | Schedule

definition workitem_end :: "bool \<Rightarrow> bool \<Rightarrow> item_end" where
  "workitem_end no_return loop_closed =
     (if no_return then NoReturn else if loop_closed then LoopGone else Schedule)"

section \<open>The executor\<close>

record ('f, 'v) tp_item =
  it_func :: 'f
  it_future :: "'v fut"

datatype tp_thread = Looping | Working nat | Exited

text \<open>The channel holds items and the closing mark \<^const>\<open>None\<close>.\<close>

record ('f, 'v) ThreadPoolExecutor =
  tp_max_workers :: int
  tp_items :: "('f, 'v) tp_item list"
  tp_channel :: "nat option list"
  tp_closed :: bool
  tp_futures :: "nat list"
  tp_threads :: "tp_thread list"
  tp_callbacks :: "(nat \<times> 'v result) list"
  tp_shutdown :: bool
  tp_statistic :: ThreadPoolStatistic

definition start_thread :: "('f, 'v) ThreadPoolExecutor \<Rightarrow> ('f, 'v) ThreadPoolExecutor result" where
  "start_thread p =
     (if tp_shutdown p then Inl (RuntimeError ''Can not create a thread after shutdown'')
      else Inr (p\<lparr>tp_threads := tp_threads p @ [Looping],
                  tp_statistic := (tp_statistic p)\<lparr>ts_threads := ts_threads (tp_statistic p) + 1\<rparr>\<rparr>))"

fun start_threads :: "nat \<Rightarrow> ('f, 'v) ThreadPoolExecutor \<Rightarrow> ('f, 'v) ThreadPoolExecutor result" where
  "start_threads 0 p = Inr p"
| "start_threads (Suc n) p = bind_result (start_thread p) (start_threads n)"

definition ThreadPoolExecutor_init :: "int \<Rightarrow> ('f, 'v) ThreadPoolExecutor result" where
  "ThreadPoolExecutor_init max_workers =
     start_threads (if max_workers > 1 then 2 else 1)
       \<lparr>tp_max_workers = max_workers, tp_items = [], tp_channel = [], tp_closed = False,
        tp_futures = [], tp_threads = [], tp_callbacks = [], tp_shutdown = False,
        tp_statistic = new_ThreadPoolStatistic\<rparr>"

definition pool_size :: "('f, 'v) ThreadPoolExecutor \<Rightarrow> int" where
  "pool_size p = int (length (tp_threads p))"

definition adjust_thread_count ::
  "('f, 'v) ThreadPoolExecutor \<Rightarrow> ('f, 'v) ThreadPoolExecutor result" where
  "adjust_thread_count p =
     (let new_threads_count = min (pool_size p * 2) (tp_max_workers p) - pool_size p
      in if new_threads_count \<le> 0 then Inr p else start_threads (nat new_threads_count) p)"

definition submit :: "'f option \<Rightarrow> ('f, 'v) ThreadPoolExecutor \<Rightarrow> ('f, 'v) ThreadPoolExecutor result" where
  "submit fn p =
     (case fn of
        None \<Rightarrow> Inl (ValueError ''First argument must be callable'')
      | Some f \<Rightarrow>
          if tp_shutdown p then Inl (RuntimeError ''Pool is shutdown'')
          else bind_result
            (if pool_size p < tp_max_workers p \<and> int (length (tp_futures p)) \<ge> pool_size p
             then adjust_thread_count p else Inr p)
            (\<lambda>p. Inr (p\<lparr>tp_items := tp_items p @ [\<lparr>it_func = f, it_future = Pending\<rparr>],
                        tp_futures := tp_futures p @ [length (tp_items p)],
                        tp_channel := tp_channel p @ [Some (length (tp_items p))],
                        tp_statistic := (tp_statistic p)
                          \<lparr>ts_submitted := ts_submitted (tp_statistic p) + 1\<rparr>\<rparr>)))"

definition set_future :: "nat \<Rightarrow> 'v result \<Rightarrow> ('f, 'v) ThreadPoolExecutor \<Rightarrow> ('f, 'v) ThreadPoolExecutor" where
  "set_future i r p =
     p\<lparr>tp_items := (tp_items p)[i := (tp_items p ! i)
         \<lparr>it_future := set_workitem_result r (it_future (tp_items p ! i))\<rparr>]\<rparr>"

definition set_thread :: "nat \<Rightarrow> tp_thread \<Rightarrow> ('f, 'v) ThreadPoolExecutor \<Rightarrow> ('f, 'v) ThreadPoolExecutor" where
  "set_thread t st p = p\<lparr>tp_threads := (tp_threads p)[t := st]\<rparr>"

text \<open>The \<^verbatim>\<open>finally\<close> clause of the thread loop.\<close>

definition thread_exit :: "nat \<Rightarrow> ('f, 'v) ThreadPoolExecutor \<Rightarrow> ('f, 'v) ThreadPoolExecutor" where
  "thread_exit t p =
     (set_thread t Exited p)\<lparr>tp_statistic := (tp_statistic p)
        \<lparr>ts_threads := ts_threads (tp_statistic p) - 1\<rparr>\<rparr>"

text \<open>
  \<^verbatim>\<open>tasks.get()\<close> of a thread that found the channel open and not empty, and the head of the
  item it got; the closing mark is put back for the other threads.
\<close>

definition thread_get :: "nat \<Rightarrow> bool \<Rightarrow> ('f, 'v) ThreadPoolExecutor \<Rightarrow> ('f, 'v) ThreadPoolExecutor" where
  "thread_get t loop_closed p =
     (case tp_channel p of
        [] \<Rightarrow> p
      | None # c \<Rightarrow> thread_exit t (p\<lparr>tp_channel := c @ [None]\<rparr>)
      | Some i # c \<Rightarrow>
          (let p = p\<lparr>tp_channel := c\<rparr>
           in case workitem_start loop_closed (it_future (tp_items p ! i)) of
                SkipItem \<Rightarrow> p
              | LoopClosed \<Rightarrow> thread_exit t (set_future i (Inl CancelledError) p)
              | RunItem \<Rightarrow> set_thread t (Working i) p))"

text \<open>The function of the item has ended.\<close>

definition thread_done ::
  "nat \<Rightarrow> nat \<Rightarrow> 'v result \<Rightarrow> number \<Rightarrow> bool \<Rightarrow> ('f, 'v) ThreadPoolExecutor \<Rightarrow>
   ('f, 'v) ThreadPoolExecutor" where
  "thread_done t i outcome delta loop_closed p =
     (let p = p\<lparr>tp_statistic := workitem_statistic outcome delta (tp_statistic p)\<rparr>
      in case workitem_end False loop_closed of
           LoopGone \<Rightarrow> thread_exit t (set_future i (Inl CancelledError) p)
         | Schedule \<Rightarrow> set_thread t Looping (p\<lparr>tp_callbacks := tp_callbacks p @ [(i, outcome)]\<rparr>)
         | NoReturn \<Rightarrow> set_thread t Looping p)"

text \<open>The event loop runs a scheduled callback, or the callback that forgets a done future.\<close>

definition run_callback :: "('f, 'v) ThreadPoolExecutor \<Rightarrow> ('f, 'v) ThreadPoolExecutor" where
  "run_callback p =
     (case tp_callbacks p of
        [] \<Rightarrow> p
      | (i, r) # cs \<Rightarrow> set_future i r (p\<lparr>tp_callbacks := cs\<rparr>))"

definition forget_future :: "nat \<Rightarrow> ('f, 'v) ThreadPoolExecutor \<Rightarrow> ('f, 'v) ThreadPoolExecutor" where
  "forget_future i p = p\<lparr>tp_futures := removeAll i (tp_futures p)\<rparr>"

text \<open>\<^verbatim>\<open>shutdown\<close>, without the wait for the threads.\<close>

definition shutdown :: "('f, 'v) ThreadPoolExecutor \<Rightarrow> ('f, 'v) ThreadPoolExecutor" where
  "shutdown p =
     (if tp_shutdown p then p
      else (fold (\<lambda>i. set_future i (Inl (ThreadPoolException ''Pool closed''))) (tp_futures p)
             (p\<lparr>tp_shutdown := True, tp_closed := True, tp_channel := tp_channel p @ [None]\<rparr>))
             \<lparr>tp_futures := []\<rparr>)"

section \<open>Interleavings\<close>

definition thread_of :: "nat \<Rightarrow> ('f, 'v) ThreadPoolExecutor \<Rightarrow> tp_thread option" where
  "thread_of t p = (if t < length (tp_threads p) then Some (tp_threads p ! t) else None)"

definition tp_new :: "int \<Rightarrow> ('f, 'v) ThreadPoolExecutor \<Rightarrow> bool" where
  "tp_new max_workers p \<longleftrightarrow> 1 \<le> max_workers \<and> ThreadPoolExecutor_init max_workers = Inr p"

inductive tp_step ::
  "('f \<Rightarrow> 'v result) \<Rightarrow> ('f, 'v) ThreadPoolExecutor \<Rightarrow> ('f, 'v) ThreadPoolExecutor \<Rightarrow> bool"
  for run :: "'f \<Rightarrow> 'v result" where
  ts_submit: "submit (Some f) p = Inr p' \<Longrightarrow> tp_step run p p'"
| ts_get: "thread_of t p = Some Looping \<Longrightarrow> tp_step run p (thread_get t loop_closed p)"
| ts_stop: "thread_of t p = Some Looping \<Longrightarrow> tp_closed p \<or> tp_shutdown p \<Longrightarrow>
     tp_step run p (thread_exit t p)"
| ts_done: "thread_of t p = Some (Working i) \<Longrightarrow>
     tp_step run p (thread_done t i (run (it_func (tp_items p ! i))) delta loop_closed p)"
| ts_callback: "tp_step run p (run_callback p)"
| ts_forget: "i < length (tp_items p) \<Longrightarrow> it_future (tp_items p ! i) \<noteq> Pending \<Longrightarrow>
     tp_step run p (forget_future i p)"
| ts_cancel: "i < length (tp_items p) \<Longrightarrow> tp_step run p (set_future i (Inl CancelledError) p)"
| ts_shutdown: "tp_step run p (shutdown p)"

section \<open>The invariant\<close>

definition item_ok :: "('f \<Rightarrow> 'v result) \<Rightarrow> ('f, 'v) tp_item \<Rightarrow> bool" where
  "item_ok run it \<longleftrightarrow>
     (\<forall>r. it_future it = Resolved r \<longrightarrow>
        r = run (it_func it) \<or> r = Inl CancelledError \<or> r = Inl (ThreadPoolException ''Pool closed''))"

text \<open>Where the items are: in the channel, with a thread, or on their way back.\<close>

fun chan_bag :: "nat option \<Rightarrow> nat multiset" where
  "chan_bag None = {#}"
| "chan_bag (Some i) = {#i#}"

fun thread_bag :: "tp_thread \<Rightarrow> nat multiset" where
  "thread_bag (Working i) = {#i#}"
| "thread_bag _ = {#}"

definition places :: "('f, 'v) ThreadPoolExecutor \<Rightarrow> nat multiset" where
  "places p = (\<Sum>x\<leftarrow>tp_channel p. chan_bag x) + (\<Sum>t\<leftarrow>tp_threads p. thread_bag t) +
     mset (map fst (tp_callbacks p))"

definition threads_ok :: "int \<Rightarrow> ('f, 'v) ThreadPoolExecutor \<Rightarrow> bool" where
  "threads_ok m p \<longleftrightarrow> tp_max_workers p = m \<and> 1 \<le> pool_size p \<and> pool_size p \<le> m \<and>
     ts_threads (tp_statistic p) = (\<Sum>t\<leftarrow>tp_threads p. if t = Exited then 0 else 1)"

definition items_ok :: "('f \<Rightarrow> 'v result) \<Rightarrow> ('f, 'v) ThreadPoolExecutor \<Rightarrow> bool" where
  "items_ok run p \<longleftrightarrow> (\<forall>i < length (tp_items p). item_ok run (tp_items p ! i)) \<and>
     (\<forall>x \<in> set (tp_callbacks p). fst x < length (tp_items p) \<and> snd x = run (it_func (tp_items p ! fst x)))"

definition pending :: "nat \<Rightarrow> ('f, 'v) ThreadPoolExecutor \<Rightarrow> bool" where
  "pending i p \<longleftrightarrow> i < length (tp_items p) \<and> it_future (tp_items p ! i) = Pending"

definition places_ok :: "('f, 'v) ThreadPoolExecutor \<Rightarrow> bool" where
  "places_ok p \<longleftrightarrow> (\<forall>i. count (places p) i \<le> 1) \<and> (\<forall>i \<in># places p. i < length (tp_items p)) \<and>
     (\<forall>i. pending i p \<longrightarrow> \<not> tp_shutdown p \<and> i \<in># places p \<and> i \<in> set (tp_futures p))"

definition tp_ok :: "('f \<Rightarrow> 'v result) \<Rightarrow> int \<Rightarrow> ('f, 'v) ThreadPoolExecutor \<Rightarrow> bool" where
  "tp_ok run m p \<longleftrightarrow> threads_ok m p \<and> items_ok run p \<and> places_ok p"

section \<open>Lemmas\<close>

lemma set_workitem_result_eq: "set_workitem_result r f = resolve r f"
  by (cases f) (simp_all add: set_workitem_result_def)

lemma tp_fields [simp]:
  "length (tp_items (set_future i r p)) = length (tp_items p)"
  "tp_channel (set_future i r p) = tp_channel p" "tp_threads (set_future i r p) = tp_threads p"
  "tp_callbacks (set_future i r p) = tp_callbacks p" "tp_futures (set_future i r p) = tp_futures p"
  "tp_shutdown (set_future i r p) = tp_shutdown p" "tp_statistic (set_future i r p) = tp_statistic p"
  "tp_max_workers (set_future i r p) = tp_max_workers p"
  "tp_items (set_thread t st p) = tp_items p" "tp_channel (set_thread t st p) = tp_channel p"
  "tp_threads (set_thread t st p) = (tp_threads p)[t := st]"
  "tp_callbacks (set_thread t st p) = tp_callbacks p" "tp_futures (set_thread t st p) = tp_futures p"
  "tp_shutdown (set_thread t st p) = tp_shutdown p" "tp_statistic (set_thread t st p) = tp_statistic p"
  "tp_max_workers (set_thread t st p) = tp_max_workers p"
  by (simp_all add: set_future_def set_thread_def)

lemma item_set_future:
  "j < length (tp_items p) \<Longrightarrow> it_func (tp_items (set_future i r p) ! j) = it_func (tp_items p ! j)"
  "j < length (tp_items p) \<Longrightarrow> it_future (tp_items (set_future i r p) ! j) =
     (if j = i then resolve r (it_future (tp_items p ! j)) else it_future (tp_items p ! j))"
  by (cases "j = i"; simp add: set_future_def set_workitem_result_eq)+

lemma places_set_thread:
  "t < length (tp_threads p) \<Longrightarrow>
   places (set_thread t st p) + thread_bag (tp_threads p ! t) = places p + thread_bag st"
  using sum_list_map_update [of t "tp_threads p" thread_bag st] by (simp add: places_def add_ac)

lemma places_set_future [simp]: "places (set_future i r p) = places p"
  by (simp add: places_def)

lemma pending_set_future: "pending j (set_future i r p) \<longleftrightarrow> pending j p \<and> j \<noteq> i"
  by (auto simp: pending_def item_set_future split: if_splits)

lemma items_ok_set_future:
  assumes "items_ok run p"
    and "i < length (tp_items p) \<Longrightarrow>
      r = run (it_func (tp_items p ! i)) \<or> r = Inl CancelledError \<or> r = Inl (ThreadPoolException ''Pool closed'')"
  shows "items_ok run (set_future i r p)"
  using assms
  by (auto simp: items_ok_def item_ok_def item_set_future resolve_Resolved_iff split: if_splits)

lemma places_ok_set_future: "places_ok p \<Longrightarrow> places_ok (set_future i r p)"
  by (auto simp: places_ok_def pending_set_future)

lemma threads_ok_set_future: "threads_ok m (set_future i r p) = threads_ok m p"
  by (simp add: threads_ok_def pool_size_def)

lemma threads_update:
  assumes "t < length ts"
  shows "(\<Sum>x\<leftarrow>ts[t := y]. if x = Exited then 0 else (1::int)) =
    (\<Sum>x\<leftarrow>ts. if x = Exited then 0 else 1) - (if ts ! t = Exited then 0 else 1) + (if y = Exited then 0 else 1)"
  using sum_list_map_update [OF assms, of "\<lambda>x. if x = Exited then 0 else (1::int)" y] by simp

text \<open>Starting threads, which adds threads and nothing else.\<close>

lemma start_threads_eq:
  "\<not> tp_shutdown p \<Longrightarrow> start_threads n p =
     Inr (p\<lparr>tp_threads := tp_threads p @ replicate n Looping,
            tp_statistic := (tp_statistic p)\<lparr>ts_threads := ts_threads (tp_statistic p) + int n\<rparr>\<rparr>)"
proof (induction n arbitrary: p)
  case 0
  then show ?case by simp
next
  case (Suc n)
  then show ?case
    by (simp add: start_thread_def replicate_append_same [symmetric] add_ac
        del: replicate_append_same)
qed

lemma sum_Looping [simp]:
  "sum_list (replicate n (1::int)) = int n"
  "sum_list (replicate n ({#} :: nat multiset)) = {#}"
  by (induction n) auto

definition with_threads :: "nat \<Rightarrow> ('f, 'v) ThreadPoolExecutor \<Rightarrow> ('f, 'v) ThreadPoolExecutor" where
  "with_threads n p =
     p\<lparr>tp_threads := tp_threads p @ replicate n Looping,
       tp_statistic := (tp_statistic p)\<lparr>ts_threads := ts_threads (tp_statistic p) + int n\<rparr>\<rparr>"

lemma with_threads_ok:
  assumes "tp_ok run m p" "pool_size p + int n \<le> m"
  shows "tp_ok run m (with_threads n p)"
proof -
  have "places (with_threads n p) = places p" by (simp add: places_def with_threads_def)
  with assms show ?thesis
    by (simp add: tp_ok_def threads_ok_def items_ok_def places_ok_def pending_def with_threads_def
        pool_size_def)
qed

lemma adjust_thread_count_eq:
  assumes "\<not> tp_shutdown p" "0 \<le> pool_size p" "pool_size p \<le> tp_max_workers p"
  shows "adjust_thread_count p =
    Inr (with_threads (nat (min (pool_size p * 2) (tp_max_workers p) - pool_size p)) p)"
proof (cases "min (pool_size p * 2) (tp_max_workers p) - pool_size p \<le> 0")
  case True
  then have "nat (min (pool_size p * 2) (tp_max_workers p) - pool_size p) = 0" by simp
  with True show ?thesis unfolding adjust_thread_count_def Let_def by (simp add: with_threads_def)
next
  case False
  with assms(1) show ?thesis
    unfolding adjust_thread_count_def Let_def by (simp add: with_threads_def start_threads_eq)
qed

definition queued :: "'f \<Rightarrow> ('f, 'v) ThreadPoolExecutor \<Rightarrow> ('f, 'v) ThreadPoolExecutor" where
  "queued f p =
     p\<lparr>tp_items := tp_items p @ [\<lparr>it_func = f, it_future = Pending\<rparr>],
       tp_futures := tp_futures p @ [length (tp_items p)],
       tp_channel := tp_channel p @ [Some (length (tp_items p))],
       tp_statistic := (tp_statistic p)\<lparr>ts_submitted := ts_submitted (tp_statistic p) + 1\<rparr>\<rparr>"

lemma submit_cases:
  assumes "submit (Some f) p = Inr p'" "threads_ok m p"
  obtains n where "\<not> tp_shutdown p" "p' = queued f (with_threads n p)"
    "n = (if pool_size p < m \<and> pool_size p \<le> int (length (tp_futures p))
          then nat (min (pool_size p * 2) m - pool_size p) else 0)"
proof -
  have sd: "\<not> tp_shutdown p" using assms(1) by (auto simp: submit_def split: if_splits)
  have size: "0 \<le> pool_size p" "pool_size p \<le> tp_max_workers p" "tp_max_workers p = m"
    using assms(2) by (auto simp: threads_ok_def)
  have "with_threads 0 p = p" by (simp add: with_threads_def)
  with assms(1) sd adjust_thread_count_eq [OF sd size(1,2)] size(3) show thesis
    by (intro that [OF sd _ refl]) (auto simp: submit_def queued_def split: if_splits)
qed

lemma queued_ok:
  assumes "tp_ok run m p" "\<not> tp_shutdown p"
  shows "tp_ok run m (queued f p)"
proof -
  have pl: "places (queued f p) = add_mset (length (tp_items p)) (places p)"
    by (simp add: places_def queued_def)
  have "length (tp_items p) \<notin># places p" using assms(1) by (auto simp: tp_ok_def places_ok_def)
  then have "places_ok (queued f p)"
    using assms unfolding tp_ok_def places_ok_def pl
    by (auto simp: queued_def pending_def nth_append not_in_iff less_Suc_eq)
  with assms show ?thesis
    by (auto simp: tp_ok_def threads_ok_def items_ok_def queued_def pool_size_def item_ok_def
        nth_append less_Suc_eq)
qed

lemma set_thread_ok:
  assumes "tp_ok run m p" "t < length (tp_threads p)" "tp_threads p ! t \<noteq> Exited" "st \<noteq> Exited"
    and "thread_bag st = thread_bag (tp_threads p ! t)"
  shows "tp_ok run m (set_thread t st p)"
proof -
  have "places (set_thread t st p) = places p" using places_set_thread [OF assms(2), of st] assms(5) by simp
  with assms show ?thesis
    by (simp add: tp_ok_def threads_ok_def items_ok_def places_ok_def pending_def pool_size_def
        threads_update)
qed

lemma thread_exit_ok:
  assumes "tp_ok run m p" "t < length (tp_threads p)" "tp_threads p ! t \<noteq> Exited"
    and "\<And>i. i \<in># thread_bag (tp_threads p ! t) \<Longrightarrow> \<not> pending i p"
  shows "tp_ok run m (thread_exit t p)"
proof -
  have pl: "places (thread_exit t p) + thread_bag (tp_threads p ! t) = places p"
    using places_set_thread [OF assms(2), of Exited] by (simp add: places_def thread_exit_def)
  have sub: "count (places (thread_exit t p)) i \<le> 1" for i
  proof -
    have "count (places (thread_exit t p)) i \<le> count (places p) i" by (metis pl count_union le_add1)
    also have "\<dots> \<le> 1" using assms(1) by (simp add: tp_ok_def places_ok_def)
    finally show ?thesis .
  qed
  have mem: "i \<in># places p \<longleftrightarrow> i \<in># places (thread_exit t p) \<or> i \<in># thread_bag (tp_threads p ! t)" for i
    by (metis pl union_iff)
  have pe: "pending i (thread_exit t p) = pending i p" for i
    by (simp add: pending_def thread_exit_def)
  have "places_ok (thread_exit t p)"
    using assms(1,4) mem sub unfolding tp_ok_def places_ok_def pe
    by (auto simp: thread_exit_def)
  with assms show ?thesis
    by (simp add: tp_ok_def threads_ok_def items_ok_def pool_size_def threads_update thread_exit_def)
qed

lemma fold_set_future_ok:
  "tp_ok run m p \<Longrightarrow> tp_ok run m (fold (\<lambda>i. set_future i (Inl (ThreadPoolException ''Pool closed''))) js p)"
  by (induction js arbitrary: p)
    (auto simp: tp_ok_def threads_ok_set_future items_ok_set_future places_ok_set_future)

lemma fold_set_future_pending:
  "pending j (fold (\<lambda>i. set_future i r) js p) \<longleftrightarrow> pending j p \<and> j \<notin> set js"
  by (induction js arbitrary: p) (auto simp: pending_set_future)

lemma fold_set_future_fields:
  "tp_shutdown (fold (\<lambda>i. set_future i r) js p) = tp_shutdown p"
  "tp_futures (fold (\<lambda>i. set_future i r) js p) = tp_futures p"
  "places (fold (\<lambda>i. set_future i r) js p) = places p"
  "length (tp_items (fold (\<lambda>i. set_future i r) js p)) = length (tp_items p)"
  "threads_ok m (fold (\<lambda>i. set_future i r) js p) = threads_ok m p"
  by (induction js arbitrary: p) (auto simp: threads_ok_set_future)

lemma fold_set_future_items:
  "items_ok run p \<Longrightarrow> items_ok run (fold (\<lambda>i. set_future i (Inl (ThreadPoolException ''Pool closed''))) js p)"
  by (induction js arbitrary: p) (auto simp: items_ok_set_future)

lemma shutdown_ok:
  assumes "tp_ok run m p"
  shows "tp_ok run m (shutdown p)" "tp_shutdown (shutdown p)" "\<not> pending i (shutdown p)"
proof -
  let ?p = "p\<lparr>tp_shutdown := True, tp_closed := True, tp_channel := tp_channel p @ [None]\<rparr>"
  let ?r = "Inl (ThreadPoolException ''Pool closed'')"
  let ?q = "fold (\<lambda>i. set_future i ?r) (tp_futures p) ?p"
  have pl: "places ?p = places p" "threads_ok m ?p = threads_ok m p" "items_ok run ?p = items_ok run p"
    "pending j ?p = pending j p" for j
    by (simp_all add: places_def threads_ok_def pool_size_def items_ok_def pending_def)
  have np: "\<not> pending j (shutdown p)" for j
    using assms
    by (auto simp: shutdown_def tp_ok_def places_ok_def fold_set_future_pending pl
        pending_def [of j "?q\<lparr>tp_futures := []\<rparr>"] pending_def [of j ?q, symmetric])
  then show "\<not> pending i (shutdown p)" .
  show "tp_shutdown (shutdown p)" by (simp add: shutdown_def fold_set_future_fields)
  have "tp_ok run m (?q\<lparr>tp_futures := []\<rparr>)" if "\<not> tp_shutdown p"
  proof -
    have sd: "shutdown p = ?q\<lparr>tp_futures := []\<rparr>" using that by (simp add: shutdown_def)
    have "places (shutdown p) = places p" "length (tp_items (shutdown p)) = length (tp_items p)"
      unfolding sd using pl fold_set_future_fields [where r = ?r and js = "tp_futures p" and p = ?p] by (simp_all add: places_def)
    then have "places_ok (shutdown p)" using assms np by (auto simp: tp_ok_def places_ok_def)
    moreover have "items_ok run ?q" "threads_ok m ?q"
      using assms pl by (auto simp: tp_ok_def fold_set_future_items fold_set_future_fields)
    then have "items_ok run (shutdown p)" "threads_ok m (shutdown p)"
      unfolding sd by (simp_all add: items_ok_def threads_ok_def pool_size_def)
    ultimately show ?thesis unfolding sd [symmetric] by (simp add: tp_ok_def)
  qed
  with assms show "tp_ok run m (shutdown p)" by (simp add: shutdown_def)
qed

lemma channel_rest_ok:
  assumes "tp_ok run m p" "tp_channel p = x # c" "\<And>i. x = Some i \<Longrightarrow> \<not> pending i p"
  shows "tp_ok run m (p\<lparr>tp_channel := c\<rparr>)"
proof -
  have pl: "places p = chan_bag x + places (p\<lparr>tp_channel := c\<rparr>)"
    using assms(2) by (simp add: places_def)
  have cnt: "count (places (p\<lparr>tp_channel := c\<rparr>)) i \<le> 1" for i
  proof -
    have "count (places (p\<lparr>tp_channel := c\<rparr>)) i \<le> count (places p) i" unfolding pl by simp
    also have "\<dots> \<le> 1" using assms(1) by (simp add: tp_ok_def places_ok_def)
    finally show ?thesis .
  qed
  have bag: "i \<in># chan_bag x \<Longrightarrow> x = Some i" for i by (cases x) auto
  have pe: "pending i (p\<lparr>tp_channel := c\<rparr>) = pending i p" for i by (simp add: pending_def)
  have mem: "i \<in># places p \<longleftrightarrow> i \<in># chan_bag x \<or> i \<in># places (p\<lparr>tp_channel := c\<rparr>)" for i
    by (subst pl) simp
  have "places_ok (p\<lparr>tp_channel := c\<rparr>)"
    using assms(1,3) cnt mem bag unfolding tp_ok_def places_ok_def pe by auto
  with assms(1) show ?thesis by (simp add: tp_ok_def threads_ok_def items_ok_def pool_size_def)
qed

lemma same_places_ok:
  assumes "tp_ok run m p" "places p' = places p" "tp_items p' = tp_items p" "tp_threads p' = tp_threads p"
    "tp_callbacks p' = tp_callbacks p" "tp_futures p' = tp_futures p" "tp_shutdown p' = tp_shutdown p"
    "tp_max_workers p' = tp_max_workers p" "ts_threads (tp_statistic p') = ts_threads (tp_statistic p)"
  shows "tp_ok run m p'"
  using assms
  by (simp add: tp_ok_def threads_ok_def items_ok_def places_ok_def pending_def pool_size_def)

text \<open>A thread takes a work item whose future is pending: it closes the future or starts to work.\<close>

lemma thread_starts_ok:
  assumes ok: "tp_ok run m p" and t: "t < length (tp_threads p)" "tp_threads p ! t = Looping"
    and Cons: "tp_channel p = Some i # c" and True: "it_future (tp_items p ! i) = Pending"
  shows "tp_ok run m (thread_get t lc p)"
proof -
  let ?q = "set_future i (Inl CancelledError) p"
  have "tp_ok run m ?q"
    using ok by (auto simp: tp_ok_def threads_ok_set_future items_ok_set_future places_ok_set_future)
  then have "tp_ok run m (?q\<lparr>tp_channel := c\<rparr>)"
    using channel_rest_ok [of run m ?q "Some i" c] Cons by (simp add: pending_set_future)
  moreover have "?q\<lparr>tp_channel := c\<rparr> = set_future i (Inl CancelledError) (p\<lparr>tp_channel := c\<rparr>)"
    by (simp add: set_future_def)
  ultimately have closed: "tp_ok run m (thread_exit t (set_future i (Inl CancelledError) (p\<lparr>tp_channel := c\<rparr>)))"
    using thread_exit_ok [of run m "set_future i (Inl CancelledError) (p\<lparr>tp_channel := c\<rparr>)" t] t
    by simp
  let ?w = "set_thread t (Working i) (p\<lparr>tp_channel := c\<rparr>)"
  have "places ?w = places p"
    using places_set_thread [of t "p\<lparr>tp_channel := c\<rparr>" "Working i"] t Cons
    by (simp add: places_def)
  then have run: "tp_ok run m ?w"
    using ok t by (simp add: tp_ok_def threads_ok_def items_ok_def places_ok_def pending_def
        pool_size_def threads_update)
  show ?thesis
    using closed run True by (simp add: thread_get_def Cons workitem_start_def)
qed

lemma thread_get_ok:
  assumes ok: "tp_ok run m p" and t: "t < length (tp_threads p)" "tp_threads p ! t = Looping"
  shows "tp_ok run m (thread_get t lc p)"
proof (cases "tp_channel p")
  case Nil
  with ok show ?thesis by (simp add: thread_get_def)
next
  case (Cons x c)
  show ?thesis
  proof (cases x)
    case None
    have "tp_ok run m (p\<lparr>tp_channel := c @ [None]\<rparr>)"
      by (rule same_places_ok [OF ok]) (simp_all add: places_def Cons None)
    then show ?thesis
      using thread_exit_ok [of run m "p\<lparr>tp_channel := c @ [None]\<rparr>" t] t
      by (simp add: thread_get_def Cons None)
  next
    case (Some i)
    show ?thesis
    proof (cases "it_future (tp_items p ! i) = Pending")
      case False
      then have "tp_ok run m (p\<lparr>tp_channel := c\<rparr>)"
        using channel_rest_ok [OF ok Cons] Some by (simp add: pending_def)
      with False show ?thesis by (simp add: thread_get_def Cons Some workitem_start_def)
    next
      case True
      then show ?thesis using thread_starts_ok [OF ok t] Cons Some by simp
    qed
  qed
qed

lemma thread_done_ok:
  assumes ok: "tp_ok run m p" and t: "t < length (tp_threads p)" "tp_threads p ! t = Working i"
  shows "tp_ok run m (thread_done t i (run (it_func (tp_items p ! i))) delta lc p)"
proof -
  let ?r = "run (it_func (tp_items p ! i))"
  let ?p = "p\<lparr>tp_statistic := workitem_statistic ?r delta (tp_statistic p)\<rparr>"
  have p: "tp_ok run m ?p"
    by (rule same_places_ok [OF ok])
      (auto simp: places_def workitem_statistic_def Let_def split: sum.splits)
  then have "tp_ok run m (set_future i (Inl CancelledError) ?p)"
    by (auto simp: tp_ok_def threads_ok_set_future items_ok_set_future places_ok_set_future)
  then have closed: "tp_ok run m (thread_exit t (set_future i (Inl CancelledError) ?p))"
    using t by (intro thread_exit_ok) (auto simp: pending_set_future)
  have "{#i#} \<subseteq># (\<Sum>x\<leftarrow>tp_threads p. thread_bag x)"
    using sum_list_map_update [OF t(1), of thread_bag Looping] t(2)
    by (metis add.right_neutral mset_subset_eq_add_right thread_bag.simps(1,2))
  then have "i \<in># places p" by (simp add: places_def)
  then have bound: "i < length (tp_items p)" using ok by (auto simp: tp_ok_def places_ok_def)
  let ?s = "set_thread t Looping (?p\<lparr>tp_callbacks := tp_callbacks p @ [(i, ?r)]\<rparr>)"
  have "places ?s = places p"
    using places_set_thread [of t "?p\<lparr>tp_callbacks := tp_callbacks p @ [(i, ?r)]\<rparr>" Looping] t
    by (simp add: places_def)
  moreover have "pending j ?s = pending j p" for j by (simp add: pending_def)
  ultimately have "places_ok ?s" using ok unfolding tp_ok_def places_ok_def by simp
  moreover have "items_ok run ?s" using ok bound by (auto simp: tp_ok_def items_ok_def)
  moreover have "threads_ok m ?s"
    using p t by (simp add: tp_ok_def threads_ok_def pool_size_def threads_update)
  ultimately have "tp_ok run m ?s" by (simp add: tp_ok_def)
  with closed show ?thesis
    by (simp add: thread_done_def workitem_end_def Let_def)
qed

lemma run_callback_ok:
  assumes ok: "tp_ok run m p"
  shows "tp_ok run m (run_callback p)"
proof (cases "tp_callbacks p")
  case Nil
  with ok show ?thesis by (simp add: run_callback_def)
next
  case (Cons x cs)
  obtain i r where x: "x = (i, r)" by (cases x)
  let ?q = "p\<lparr>tp_callbacks := cs\<rparr>"
  have r: "r = run (it_func (tp_items p ! i))" using ok Cons x by (auto simp: tp_ok_def items_ok_def)
  have pl: "places p = add_mset i (places ?q)" using Cons x by (simp add: places_def)
  have cnt: "count (places ?q) j \<le> 1" for j
  proof -
    have "count (places ?q) j \<le> count (places p) j" unfolding pl by simp
    also have "\<dots> \<le> 1" using ok by (simp add: tp_ok_def places_ok_def)
    finally show ?thesis .
  qed
  have "items_ok run ?q" using ok Cons by (simp add: tp_ok_def items_ok_def)
  then have "items_ok run (set_future i r ?q)" using r by (intro items_ok_set_future) auto
  moreover have "pending j (set_future i r ?q) \<longleftrightarrow> pending j p \<and> j \<noteq> i" for j
    by (simp add: pending_set_future) (simp add: pending_def)
  then have "places_ok (set_future i r ?q)"
    using ok cnt unfolding tp_ok_def places_ok_def pl by auto
  ultimately show ?thesis
    using ok x Cons by (simp add: tp_ok_def run_callback_def threads_ok_def pool_size_def)
qed

lemma tp_init_ok: "tp_new m p \<Longrightarrow> tp_ok run m p"
  by (auto simp: tp_new_def ThreadPoolExecutor_init_def start_threads_eq tp_ok_def threads_ok_def
      items_ok_def places_ok_def places_def pending_def pool_size_def new_ThreadPoolStatistic_def
      numeral_2_eq_2 split: if_splits)

lemma submit_ok:
  assumes ok: "tp_ok run m p" and "submit (Some f) p = Inr p'"
  shows "tp_ok run m p'"
proof -
  have th: "threads_ok m p" using ok by (simp add: tp_ok_def)
  from assms(2) th obtain n where n: "\<not> tp_shutdown p" "p' = queued f (with_threads n p)"
    "n = (if pool_size p < m \<and> pool_size p \<le> int (length (tp_futures p))
          then nat (min (pool_size p * 2) m - pool_size p) else 0)"
    by (rule submit_cases)
  have "pool_size p + int n \<le> m" using n(3) th by (auto simp: threads_ok_def)
  from with_threads_ok [OF ok this] have "tp_ok run m (with_threads n p)" .
  moreover have "\<not> tp_shutdown (with_threads n p)" using n(1) by (simp add: with_threads_def)
  ultimately show ?thesis unfolding n(2) by (rule queued_ok)
qed

interpretation thread_pool: invariant_system "tp_new m" "tp_step run" "tp_ok run m"
  for m :: int and run :: "'f \<Rightarrow> 'v result"
proof unfold_locales
  fix p :: "('f, 'v) ThreadPoolExecutor"
  assume "tp_new m p"
  then show "tp_ok run m p" by (rule tp_init_ok)
next
  fix p p' :: "('f, 'v) ThreadPoolExecutor"
  assume ok: "tp_ok run m p" and "tp_step run p p'"
  from this(2) show "tp_ok run m p'"
  proof cases
    case (ts_submit f)
    with ok show ?thesis by (blast intro: submit_ok)
  next
    case (ts_get t lc)
    with ok show ?thesis by (auto simp: thread_of_def intro: thread_get_ok split: if_splits)
  next
    case (ts_stop t)
    with ok show ?thesis by (auto simp: thread_of_def intro!: thread_exit_ok split: if_splits)
  next
    case (ts_done t i delta lc)
    with ok show ?thesis by (auto simp: thread_of_def intro: thread_done_ok split: if_splits)
  next
    case ts_callback
    with ok show ?thesis by (simp add: run_callback_ok)
  next
    case (ts_forget i)
    with ok show ?thesis
      by (auto simp: forget_future_def tp_ok_def threads_ok_def items_ok_def places_ok_def
          pending_def places_def pool_size_def)
  next
    case (ts_cancel i)
    with ok show ?thesis
      by (auto simp: tp_ok_def threads_ok_set_future items_ok_set_future places_ok_set_future)
  next
    case ts_shutdown
    with ok show ?thesis by (simp add: shutdown_ok)
  qed
qed

section \<open>Properties\<close>

text \<open>
  C26. The threads of the pool: in every reachable state there are at least one and at most
  \<^verbatim>\<open>max_workers\<close> of them, the statistic counts those that have not ended, and a submission grows
  the pool exactly when it is not full and there are as many unfinished futures as threads,
  to twice its size or to \<^verbatim>\<open>max_workers\<close>, whichever is less.
\<close>

theorem thread_pool_size:
  assumes "reachable (tp_new m) (tp_step run) p" "submit (Some f) p = Inr p'"
  shows "1 \<le> pool_size p \<and> pool_size p \<le> m \<and>
    ts_threads (tp_statistic p) = (\<Sum>t\<leftarrow>tp_threads p. if t = Exited then 0 else 1) \<and>
    pool_size p' =
      (if pool_size p < m \<and> pool_size p \<le> int (length (tp_futures p))
       then min (pool_size p * 2) m else pool_size p)"
proof -
  have ok: "threads_ok m p"
    using thread_pool.reachable_inv [OF assms(1)] by (simp add: tp_ok_def)
  from assms(2) ok obtain n where "p' = queued f (with_threads n p)"
    "n = (if pool_size p < m \<and> pool_size p \<le> int (length (tp_futures p))
          then nat (min (pool_size p * 2) m - pool_size p) else 0)"
    by (rule submit_cases)
  then have "pool_size p' = pool_size p + int n" by (simp add: queued_def with_threads_def pool_size_def)
  with ok \<open>n = _\<close> show ?thesis by (auto simp: threads_ok_def)
qed

theorem thread_pool_size_witness:
  "\<exists>p p' :: (nat, nat) ThreadPoolExecutor. ThreadPoolExecutor_init 4 = Inr p \<and>
     submit (Some 0) p = Inr p' \<and> pool_size p' = 2"
proof -
  obtain p :: "(nat, nat) ThreadPoolExecutor" where p: "ThreadPoolExecutor_init 4 = Inr p"
    by (simp add: ThreadPoolExecutor_init_def start_threads_eq)
  then have f: "pool_size p = 2" "tp_futures p = []" "\<not> tp_shutdown p"
    by (auto simp: ThreadPoolExecutor_init_def start_threads_eq pool_size_def)
  then obtain p' where p': "submit (Some 0) p = Inr p'" by (simp add: submit_def)
  have "reachable (tp_new 4) (tp_step (\<lambda>_. Inr 0)) p"
    by (rule reach_init) (simp add: tp_new_def p)
  from thread_pool_size [OF this p'] f p p' show ?thesis by auto
qed



end
