(* ===== verification/Recurring.thy ===== *)
theory Recurring
  imports Prelude
begin

text \<open>
  The recurring callbacks: \<^verbatim>\<open>RecurringCallback\<close> of \<^verbatim>\<open>aiomisc/recurring.py\<close> with its strategy
  loop, and the two callbacks built on it, \<^verbatim>\<open>PeriodicCallback\<close> of \<^verbatim>\<open>aiomisc/periodic.py\<close> and
  \<^verbatim>\<open>CronCallback\<close> of \<^verbatim>\<open>aiomisc/cron.py\<close>, with the services of \<^verbatim>\<open>aiomisc/service/periodic.py\<close>
  and \<^verbatim>\<open>aiomisc/service/cron.py\<close> that start and stop them.

  The loop runs against a list of rounds, the choices of the environment: whether the event
  loop is closed, how long the strategy and the sleep take beyond what was asked, what the
  callback does and how long it takes, and whether the task of the loop is cancelled. When the
  list is used up the loop is still running, so the list is no bound on the program. The
  callback ends with a value, an \<^verbatim>\<open>Exception\<close> or a cancellation; \<^verbatim>\<open>SystemExit\<close> and
  \<^verbatim>\<open>KeyboardInterrupt\<close>, which asyncio passes to the caller of the event loop, are not considered.
\<close>

section \<open>Executing the callback\<close>

record RecurringCallbackStatistic =
  call_count :: nat
  done_count :: nat
  fail :: nat
  sum_time :: number

definition new_statistic :: RecurringCallbackStatistic where
  "new_statistic = \<lparr>call_count = 0, done_count = 0, fail = 0, sum_time = 0\<rparr>"

text \<open>\<^verbatim>\<open>_exec\<close>: the outcome of the function between two readings of the clock.\<close>

definition exec ::
  "string list \<Rightarrow> unit result \<Rightarrow> number \<Rightarrow> number \<Rightarrow> RecurringCallbackStatistic \<Rightarrow>
     RecurringCallbackStatistic \<times> unit result" where
  "exec suppress_exceptions r started finished st =
     (let st1 = st\<lparr>call_count := call_count st + 1\<rparr>;
          delta = - started;
          (st2, out) =
            (case r of
               Inl e \<Rightarrow>
                 if except_matches suppress_exceptions e
                 then (st1\<lparr>fail := fail st1 + 1\<rparr>, Inr ())
                 else if isinstance_exc e ''CancelledError'' then (st1, Inl e)
                 else if is_Exception e then (st1\<lparr>fail := fail st1 + 1\<rparr>, Inr ())
                 else (st1, Inl e)
             | Inr _ \<Rightarrow> (st1\<lparr>done_count := done_count st1 + 1\<rparr>, Inr ()))
      in (st2\<lparr>sum_time := sum_time st2 + (delta + finished)\<rparr>, out))"

section \<open>The strategy\<close>

text \<open>
  What the strategy may do: return a number, return something else, raise \<^verbatim>\<open>StrategySkip\<close> with
  a delay, or raise another exception.
\<close>

datatype strategy_outcome = Delay number | WrongDelay | StrategySkip number | StrategyRaises pyexc

definition StrategyStop :: pyexc where
  "StrategyStop =
     mk_exc [''StrategyStop'', ''StrategyException'', ''Exception'', ''BaseException''] []"

text \<open>What the loop does with it: sleep and call, sleep and ask again, or leave.\<close>

datatype decision = Proceed number | Skip number | Leave "unit result"

definition decide :: "strategy_outcome \<Rightarrow> decision" where
  "decide out =
     (case out of
        Delay d \<Rightarrow> Proceed (if d < 0 then 0 else d)
      | WrongDelay \<Rightarrow> Leave (Inr ())
      | StrategySkip d \<Rightarrow> Skip d
      | StrategyRaises e \<Rightarrow>
          if isinstance_exc e ''StrategyException'' then Leave (Inr ()) else Leave (Inl e))"

section \<open>The loop\<close>

text \<open>
  Where a cancellation of the loop's task arrives: while it sleeps, while the callback runs
  (with what the callback does when it is interrupted itself), or after the callback ended and
  before the loop goes on.
\<close>

datatype interruption = NotCancelled | CancelInSleep | CancelInCall number "unit result" number
  | CancelAfterCall

record round =
  r_closed :: bool
  r_strategy_time :: number
  r_lag :: number
  r_call :: "unit result"
  r_duration :: number
  r_cancel :: interruption

text \<open>\<^verbatim>\<open>asyncio.sleep\<close> returns at the earliest after the delay; a negative one counts as zero.\<close>

definition wake_up :: "number \<Rightarrow> round \<Rightarrow> number \<Rightarrow> number" where
  "wake_up d r now = now + max d 0 + r_lag r"

text \<open>An execution of the callback: when it started and ended, and the function's outcome.\<close>

type_synonym execution = "number \<times> number \<times> unit result"

record recurring =
  rc_statistic :: RecurringCallbackStatistic
  rc_trace :: "execution list"

definition new_recurring :: recurring where
  "new_recurring = \<lparr>rc_statistic = new_statistic, rc_trace = []\<rparr>"

definition run_exec ::
  "string list \<Rightarrow> unit result \<Rightarrow> number \<Rightarrow> number \<Rightarrow> recurring \<Rightarrow> recurring" where
  "run_exec suppress r started finished s =
     \<lparr>rc_statistic = fst (exec suppress r started finished (rc_statistic s)),
      rc_trace = rc_trace s @ [(started, finished, r)]\<rparr>"

text \<open>
  The execution that a cancellation interrupts: \<^verbatim>\<open>task.cancel()\<close> reaches the function unless the
  runner is shielded; then the execution goes on to its own end after the loop has left.
\<close>

definition interrupted_exec ::
  "bool \<Rightarrow> string list \<Rightarrow> round \<Rightarrow> number \<Rightarrow> unit result \<Rightarrow> number \<Rightarrow> number \<Rightarrow> recurring \<Rightarrow> recurring"
  where
  "interrupted_exec shield suppress r moment res cleanup started s =
     (if shield then run_exec suppress (r_call r) started (started + r_duration r) s
      else run_exec suppress res started (started + moment + cleanup) s)"

text \<open>Where the loop got to: it is still running, or its task is done.\<close>

datatype 'st loop_state = Running 'st number | Finished "unit result" number

fun start_loop ::
  "('st \<Rightarrow> number \<Rightarrow> strategy_outcome \<times> 'st) \<Rightarrow> bool \<Rightarrow> string list \<Rightarrow> round list \<Rightarrow> 'st \<Rightarrow>
     number \<Rightarrow> recurring \<Rightarrow> recurring \<times> 'st loop_state" where
  "start_loop strategy shield suppress [] st now s = (s, Running st now)"
| "start_loop strategy shield suppress (r # rs) st now s =
     (if r_closed r then (s, Finished (Inr ()) now)
      else
        let (out, st1) = strategy st now;
            now1 = now + r_strategy_time r
        in
          case decide out of
            Leave res \<Rightarrow> (s, Finished res now1)
          | Skip d \<Rightarrow>
              if r_cancel r = CancelInSleep then (s, Finished (Inl CancelledError) now1)
              else start_loop strategy shield suppress rs st1 (wake_up d r now1) s
          | Proceed d \<Rightarrow>
              (let started = wake_up d r now1; finished = started + r_duration r in
               case r_cancel r of
                 CancelInSleep \<Rightarrow> (s, Finished (Inl CancelledError) now1)
               | CancelInCall moment res cleanup \<Rightarrow>
                   (interrupted_exec shield suppress r moment res cleanup started s,
                    Finished (Inl CancelledError) (started + moment + (if shield then 0 else cleanup)))
               | CancelAfterCall \<Rightarrow>
                   (run_exec suppress (r_call r) started finished s,
                    Finished (Inl CancelledError) finished)
               | NotCancelled \<Rightarrow>
                   start_loop strategy shield suppress rs st1 finished
                     (run_exec suppress (r_call r) started finished s)))"

section \<open>Strategies of the periodic and of the cron callback\<close>

text \<open>\<^verbatim>\<open>PeriodicCallback.start.strategy\<close>: its state is the variable \<^verbatim>\<open>delayed\<close>.\<close>

definition periodic_strategy ::
  "number \<Rightarrow> number \<Rightarrow> bool \<Rightarrow> number \<Rightarrow> strategy_outcome \<times> bool" where
  "periodic_strategy interval delay delayed now =
     (if \<not> delayed then (Delay delay, True) else (Delay interval, delayed))"

text \<open>
  \<^verbatim>\<open>CronCallback.get_next\<close>: the date that \<^verbatim>\<open>croniter\<close> gives for the time of day, which is the
  clock of the loop shifted by an epoch.
\<close>

definition get_next ::
  "(number \<Rightarrow> number) \<Rightarrow> number \<Rightarrow> unit \<Rightarrow> number \<Rightarrow> strategy_outcome \<times> unit" where
  "get_next cron epoch _ now =
     (let timestamp = epoch + now; next_date = cron timestamp
      in (Delay (next_date - timestamp), ()))"

section \<open>Starting and stopping\<close>

text \<open>
  The tasks a callback has started, by their number, with the cancellations it asked for and
  the done callbacks that the event loop has still to run (\<^verbatim>\<open>clean_task\<close> of a finished task).
\<close>

record callback =
  cb_task :: "nat option"
  cb_tasks :: "unit fut list"
  cb_cancelled :: "nat list"
  cb_cleaning :: "nat list"

definition new_callback :: callback where
  "new_callback = \<lparr>cb_task = None, cb_tasks = [], cb_cancelled = [], cb_cleaning = []\<rparr>"

definition pending_task :: "callback \<Rightarrow> nat \<Rightarrow> bool" where
  "pending_task c t \<longleftrightarrow> t < length (cb_tasks c) \<and> cb_tasks c ! t = Pending"

fun task_running :: "callback \<Rightarrow> nat option \<Rightarrow> bool" where
  "task_running c None \<longleftrightarrow> False"
| "task_running c (Some t) \<longleftrightarrow> pending_task c t"

text \<open>\<^verbatim>\<open>RecurringCallback.start\<close>: a new task.\<close>

definition recurring_start :: "callback \<Rightarrow> callback" where
  "recurring_start c =
     c\<lparr>cb_task := Some (length (cb_tasks c)), cb_tasks := cb_tasks c @ [Pending]\<rparr>"

definition periodic_start :: "number \<Rightarrow> callback \<Rightarrow> callback result" where
  "periodic_start interval c =
     (if interval = 0 then Inl (AssertionError '''')
      else if task_running c (cb_task c) then Inl InvalidStateError
      else Inr (recurring_start c))"

text \<open>
  \<^verbatim>\<open>task.cancel()\<close> of a task that is not done.
\<close>

definition cancel_pending :: "nat \<Rightarrow> callback \<Rightarrow> callback" where
  "cancel_pending t c =
     (if pending_task c t then c\<lparr>cb_cancelled := cb_cancelled c @ [t]\<rparr> else c)"

text \<open>
  \<^verbatim>\<open>stop\<close> gives the task to wait for, or the exception of a callback that is not started.
\<close>

definition periodic_stop :: "callback \<Rightarrow> callback \<times> nat result" where
  "periodic_stop c =
     (case cb_task c of
        None \<Rightarrow> (c, Inl (RuntimeError ''Callback not started''))
      | Some t \<Rightarrow> ((cancel_pending t c)\<lparr>cb_task := None\<rparr>, Inr t))"

text \<open>A started task ends: its done callback is scheduled.\<close>

definition task_done :: "nat \<Rightarrow> unit result \<Rightarrow> callback \<Rightarrow> callback" where
  "task_done t r c =
     c\<lparr>cb_tasks := (cb_tasks c)[t := Resolved r], cb_cleaning := cb_cleaning c @ [t]\<rparr>"

definition clean_task :: "nat \<Rightarrow> callback \<Rightarrow> callback" where
  "clean_task t c = c\<lparr>cb_task := None, cb_cleaning := remove1 t (cb_cleaning c)\<rparr>"

text \<open>The cron callback starts on the iterator that \<^verbatim>\<open>croniter(spec)\<close> gives or fails to give.\<close>

definition cron_start :: "'c result \<Rightarrow> callback \<Rightarrow> callback result" where
  "cron_start cron c =
     (if task_running c (cb_task c) then Inl InvalidStateError
      else case cron of Inl e \<Rightarrow> Inl e | Inr _ \<Rightarrow> Inr (recurring_start c))"

definition cron_stop :: "callback \<Rightarrow> callback \<times> nat result" where
  "cron_stop c =
     (case cb_task c of
        None \<Rightarrow> (c, Inl (RuntimeError ''Callback not started''))
      | Some t \<Rightarrow> (cancel_pending t c, Inr t))"

section \<open>Services\<close>

record PeriodicService =
  ps_interval :: number
  ps_delay :: number
  ps_periodic :: callback

definition periodic_service_start :: "PeriodicService \<Rightarrow> PeriodicService result" where
  "periodic_service_start s =
     (if ps_interval s = 0 then Inl (AssertionError ''Interval illegal interval'')
      else if \<not> ps_interval s > 0 then Inl (AssertionError ''Interval must be positive not'')
      else bind_result (periodic_start (ps_interval s) (ps_periodic s))
             (\<lambda>c. Inr (s\<lparr>ps_periodic := c\<rparr>)))"

text \<open>\<^verbatim>\<open>stop\<close> swallows the exceptions of the task and of a callback that is not started.\<close>

definition periodic_service_stop :: "PeriodicService \<Rightarrow> PeriodicService" where
  "periodic_service_stop s = s\<lparr>ps_periodic := fst (periodic_stop (ps_periodic s))\<rparr>"

record StoreItem =
  si_callback :: callback
  si_spec :: string
  si_shield :: bool
  si_suppress_exceptions :: "string list"

text \<open>
  The set of store items as a list: every item holds a callback object of its own, so two
  registrations are never equal.
\<close>

definition register ::
  "(string \<Rightarrow> bool) \<Rightarrow> bool \<Rightarrow> string \<Rightarrow> bool \<Rightarrow> string list \<Rightarrow> StoreItem list \<Rightarrow> StoreItem list result"
  where
  "register is_valid is_coroutine_function spec shield suppress items =
     (if \<not> is_coroutine_function then Inl (TypeError ''function should be a coroutine'')
      else if \<not> is_valid spec then Inl (TypeError ''Not valid cron spec'')
      else Inr (items @ [\<lparr>si_callback = new_callback, si_spec = spec, si_shield = shield,
                          si_suppress_exceptions = suppress\<rparr>]))"

text \<open>Starting the items in turn; an exception leaves the later ones as they are.\<close>

fun cron_service_start ::
  "(string \<Rightarrow> 'c result) \<Rightarrow> StoreItem list \<Rightarrow> StoreItem list \<times> unit result" where
  "cron_service_start croniter [] = ([], Inr ())"
| "cron_service_start croniter (i # items) =
     (case cron_start (croniter (si_spec i)) (si_callback i) of
        Inl e \<Rightarrow> (i # items, Inl e)
      | Inr c \<Rightarrow>
          (let (js, r) = cron_service_start croniter items in (i\<lparr>si_callback := c\<rparr> # js, r)))"

definition cron_service_stop :: "StoreItem list \<Rightarrow> StoreItem list" where
  "cron_service_stop items =
     map (\<lambda>i. i\<lparr>si_callback := fst (cron_stop (si_callback i))\<rparr>) items"

section \<open>Accounting\<close>

text \<open>Which outcomes of the function count as failures.\<close>

definition failed :: "string list \<Rightarrow> unit result \<Rightarrow> bool" where
  "failed suppress r \<longleftrightarrow>
     (\<exists>e. r = Inl e \<and>
        (except_matches suppress e \<or> \<not> isinstance_exc e ''CancelledError'' \<and> is_Exception e))"

definition accounted :: "string list \<Rightarrow> recurring \<Rightarrow> bool" where
  "accounted suppress s \<longleftrightarrow>
     call_count (rc_statistic s) = length (rc_trace s) \<and>
     done_count (rc_statistic s) = length (filter (\<lambda>x. snd (snd x) = Inr ()) (rc_trace s)) \<and>
     fail (rc_statistic s) = length (filter (\<lambda>x. failed suppress (snd (snd x))) (rc_trace s)) \<and>
     sum_time (rc_statistic s) = (\<Sum>x\<leftarrow>rc_trace s. fst (snd x) - fst x)"

definition sequential :: "execution list \<Rightarrow> bool" where
  "sequential tr \<longleftrightarrow> sorted_wrt (\<lambda>x y. fst (snd x) \<le> fst y) tr"

lemma exec_statistic:
  "call_count (fst (exec suppress r a b st)) = call_count st + 1"
  "done_count (fst (exec suppress r a b st)) = done_count st + (if r = Inr () then 1 else 0)"
  "fail (fst (exec suppress r a b st)) = fail st + (if failed suppress r then 1 else 0)"
  "sum_time (fst (exec suppress r a b st)) = sum_time st + (b - a)"
  by (cases r; simp add: exec_def failed_def Let_def)+

text \<open>Only a cancellation (or another exception that is no \<^verbatim>\<open>Exception\<close>) leaves \<^verbatim>\<open>_exec\<close>.\<close>

lemma exec_raises:
  "snd (exec suppress r a b st) = Inl e \<Longrightarrow>
     r = Inl e \<and> (isinstance_exc e ''CancelledError'' \<or> \<not> is_Exception e)"
  by (cases r) (auto simp: exec_def Let_def split: if_splits)

lemma accounted_run_exec: "accounted suppress s \<Longrightarrow> accounted suppress (run_exec suppress r a b s)"
  by (simp add: accounted_def run_exec_def exec_statistic)

lemma accounted_interrupted_exec:
  "accounted suppress s \<Longrightarrow> accounted suppress (interrupted_exec sh suppress r m res c a s)"
  by (simp add: interrupted_exec_def accounted_run_exec)

lemma accounted_new: "accounted suppress new_recurring"
  by (simp add: accounted_def new_recurring_def new_statistic_def)

lemma start_loop_accounted:
  "accounted suppress s \<Longrightarrow>
     accounted suppress (fst (start_loop strategy sh suppress rs st now s))"
proof (induction rs arbitrary: st now s)
  case Nil
  then show ?case by simp
next
  case (Cons r rs)
  then show ?case
    by (auto simp: Let_def accounted_run_exec accounted_interrupted_exec
        split: prod.splits decision.splits interruption.splits)
qed

definition good_round :: "round \<Rightarrow> bool" where
  "good_round r \<longleftrightarrow> r_strategy_time r \<ge> 0 \<and> r_lag r \<ge> 0 \<and> r_duration r \<ge> 0"

lemma wake_up_ge: "good_round r \<Longrightarrow> now + max d 0 \<le> wake_up d r now"
  by (simp add: wake_up_def good_round_def)

lemma decide_Proceed_ge: "decide out = Proceed d \<Longrightarrow> 0 \<le> d"
  by (auto simp: decide_def split: strategy_outcome.splits if_splits)

lemma sequential_run_exec:
  assumes "sequential (rc_trace s)" "\<forall>x \<in> set (rc_trace s). fst (snd x) \<le> a"
  shows "sequential (rc_trace (run_exec suppress r a b s))"
  using assms by (simp add: sequential_def run_exec_def sorted_wrt_append)

lemma trace_run_exec: "rc_trace (run_exec suppress r a b s) = rc_trace s @ [(a, b, r)]"
  by (simp add: run_exec_def)

lemma sequential_interrupted_exec:
  assumes "sequential (rc_trace s)" "\<forall>x \<in> set (rc_trace s). fst (snd x) \<le> a"
  shows "sequential (rc_trace (interrupted_exec sh suppress r m res c a s))"
  using assms by (simp add: interrupted_exec_def sequential_run_exec)

lemma start_loop_sequential:
  assumes "\<forall>r \<in> set rs. good_round r" "sequential (rc_trace s)"
    and "\<forall>x \<in> set (rc_trace s). fst (snd x) \<le> now"
  shows "sequential (rc_trace (fst (start_loop strategy sh suppress rs st now s)))"
  using assms
proof (induction rs arbitrary: st now s)
  case Nil
  then show ?case by simp
next
  case (Cons r rs)
  obtain out st1 where out: "strategy st now = (out, st1)" by fastforce
  define now1 where "now1 = now + r_strategy_time r"
  have good: "good_round r" "now \<le> now1"
    using Cons.prems(1) by (auto simp: good_round_def now1_def)
  have before: "\<forall>x \<in> set (rc_trace s). fst (snd x) \<le> wake_up d r now1" for d
    using Cons.prems(3) good wake_up_ge [OF good(1), of now1 d] by fastforce
  have dur: "wake_up d r now1 \<le> wake_up d r now1 + r_duration r" for d
    using good by (simp add: good_round_def)
  have after: "\<forall>x \<in> set (rc_trace (run_exec suppress (r_call r) (wake_up d r now1)
      (wake_up d r now1 + r_duration r) s)). fst (snd x) \<le> wake_up d r now1 + r_duration r" for d
    using before [of d] dur [of d] by (fastforce simp: trace_run_exec)
  note ind = Cons.IH [OF _ sequential_run_exec [OF Cons.prems(2) before] after]
  show ?case
    using Cons.prems(1,2) before ind Cons.IH
    by (auto simp: out Let_def now1_def [symmetric] sequential_run_exec sequential_interrupted_exec
        split: decision.splits interruption.splits)
qed

definition undisturbed :: "round \<Rightarrow> bool" where
  "undisturbed r \<longleftrightarrow> \<not> r_closed r \<and> r_cancel r = NotCancelled"

text \<open>Two rounds, the first with a failing callback, as an example.\<close>

definition example_round :: "unit result \<Rightarrow> round" where
  "example_round r = \<lparr>r_closed = False, r_strategy_time = 0, r_lag = 1, r_call = r, r_duration = 2,
     r_cancel = NotCancelled\<rparr>"

lemmas example_simps = example_round_def good_round_def undisturbed_def start_loop.simps decide_def
  wake_up_def run_exec_def exec_def new_recurring_def new_statistic_def Let_def py_simps



section \<open>The timeline of an undisturbed loop\<close>

text \<open>The executions when the strategy always gives a delay.\<close>

fun timeline ::
  "('st \<Rightarrow> number \<Rightarrow> number \<times> 'st) \<Rightarrow> round list \<Rightarrow> 'st \<Rightarrow> number \<Rightarrow> execution list" where
  "timeline w [] st now = []"
| "timeline w (r # rs) st now =
     (let started = wake_up (fst (w st now)) r (now + r_strategy_time r);
          finished = started + r_duration r
      in (started, finished, r_call r) # timeline w rs (snd (w st now)) finished)"

lemma length_timeline [simp]: "length (timeline w rs st now) = length rs"
  by (induction rs arbitrary: st now) (simp_all add: Let_def)

lemma wake_up_clip: "wake_up (if d < 0 then 0 else d) r t = wake_up d r t"
  by (simp add: wake_up_def max_def)

text \<open>
  The contract between the loop and a strategy that never skips or stops: every call returns a
  delay, described by \<open>w\<close>. It is all the loop needs for its timeline.
\<close>

locale delay_strategy =
  fixes strategy :: "'st \<Rightarrow> number \<Rightarrow> strategy_outcome \<times> 'st"
    and w :: "'st \<Rightarrow> number \<Rightarrow> number \<times> 'st"
  assumes gives_delay: "strategy st now = (Delay (fst (w st now)), snd (w st now))"
begin

lemma loop_timeline:
  assumes "\<forall>r \<in> set rs. undisturbed r"
  shows "rc_trace (fst (start_loop strategy sh suppress rs st now s)) =
           rc_trace s @ timeline w rs st now \<and>
         (\<exists>st' now'. snd (start_loop strategy sh suppress rs st now s) = Running st' now')"
  using assms
proof (induction rs arbitrary: st now s)
  case Nil
  then show ?case by simp
next
  case (Cons r rs)
  then show ?case
    by (simp add: gives_delay undisturbed_def decide_def Let_def trace_run_exec wake_up_clip)
qed

lemma fresh_timeline:
  assumes "\<forall>r \<in> set rs. undisturbed r"
    and "start_loop strategy sh suppress rs st now new_recurring = (s, e)"
  shows "rc_trace s = timeline w rs st now" "\<exists>st' now'. e = Running st' now'"
  using loop_timeline [OF assms(1), of sh suppress st now new_recurring] assms(2)
  by (simp_all add: new_recurring_def)

end

text \<open>The moment at which the \<open>i\<close>-th round begins.\<close>

definition round_begin :: "execution list \<Rightarrow> number \<Rightarrow> nat \<Rightarrow> number" where
  "round_begin tr now i = (if i = 0 then now else fst (snd (tr ! (i - 1))))"

text \<open>A strategy without state gives a delay that depends on the time only.\<close>

locale stateless_strategy = delay_strategy strategy w
  for strategy :: "'st \<Rightarrow> number \<Rightarrow> strategy_outcome \<times> 'st" and w +
  fixes d :: "number \<Rightarrow> number"
  assumes stateless: "w st now = (d now, st)"
begin

lemma timeline_nth:
  assumes "i < length rs"
  shows "fst (timeline w rs st now ! i) =
    wake_up (d (round_begin (timeline w rs st now) now i)) (rs ! i)
      (round_begin (timeline w rs st now) now i + r_strategy_time (rs ! i))"
  using assms
proof (induction rs arbitrary: now i)
  case Nil
  then show ?case by simp
next
  case (Cons r rs)
  show ?case
  proof (cases i)
    case 0
    then show ?thesis by (simp add: round_begin_def Let_def stateless)
  next
    case (Suc j)
    with Cons show ?thesis
      by (cases j) (auto simp: round_begin_def Let_def stateless)
  qed
qed

end

lemma timeline_finished:
  "i < length rs \<Longrightarrow>
     fst (snd (timeline w rs st now ! i)) = fst (timeline w rs st now ! i) + r_duration (rs ! i)"
proof (induction rs arbitrary: st now i)
  case Nil
  then show ?case by simp
next
  case (Cons r rs)
  then show ?case by (cases i) (simp_all add: Let_def)
qed

definition overhead :: "round \<Rightarrow> number" where
  "overhead r = r_strategy_time r + r_lag r"

lemma timeline_constant:
  assumes "i < length rs" "\<forall>now. w True now = (d, True)"
  shows "fst (timeline w rs True now ! i) =
    now + (real i + 1) * max d 0 + (\<Sum>r\<leftarrow>take i rs. r_duration r) +
      (\<Sum>r\<leftarrow>take (Suc i) rs. overhead r)"
  using assms(1)
proof (induction rs arbitrary: now i)
  case Nil
  then show ?case by simp
next
  case (Cons r rs)
  show ?case
  proof (cases i)
    case 0
    then show ?thesis by (simp add: Let_def assms(2) wake_up_def overhead_def)
  next
    case (Suc j)
    with Cons.IH [of j] Cons.prems show ?thesis
      by (simp add: Let_def assms(2) wake_up_def overhead_def algebra_simps)
  qed
qed

definition periodic_wait :: "number \<Rightarrow> number \<Rightarrow> bool \<Rightarrow> number \<Rightarrow> number \<times> bool" where
  "periodic_wait interval delay delayed now = (if delayed then interval else delay, True)"

interpretation periodic: delay_strategy "periodic_strategy interval delay" "periodic_wait interval delay"
  by unfold_locales (simp add: periodic_strategy_def periodic_wait_def)

lemma periodic_timeline:
  assumes "i < length rs"
  shows "fst (timeline (periodic_wait interval delay) rs False now ! i) =
    now + max delay 0 + real i * max interval 0 + (\<Sum>r\<leftarrow>take i rs. r_duration r) +
      (\<Sum>r\<leftarrow>take (Suc i) rs. overhead r)"
proof (cases rs)
  case Nil
  with assms show ?thesis by simp
next
  case (Cons r rs')
  show ?thesis
  proof (cases i)
    case 0
    with Cons show ?thesis by (simp add: Let_def periodic_wait_def wake_up_def overhead_def)
  next
    case (Suc j)
    with Cons assms have "j < length rs'" by simp
    from timeline_constant [OF this, of "periodic_wait interval delay" interval] Cons Suc
    show ?thesis
      by (simp add: Let_def periodic_wait_def wake_up_def overhead_def algebra_simps)
  qed
qed



definition cron_wait :: "(number \<Rightarrow> number) \<Rightarrow> number \<Rightarrow> unit \<Rightarrow> number \<Rightarrow> number \<times> unit" where
  "cron_wait cron epoch st now = (cron (epoch + now) - (epoch + now), st)"

interpretation cron: stateless_strategy "get_next cron epoch" "cron_wait cron epoch"
  "\<lambda>now. cron (epoch + now) - (epoch + now)"
  by unfold_locales (simp_all add: get_next_def cron_wait_def Let_def)

text \<open>The date for which the \<open>i\<close>-th call of a cron callback is made.\<close>

definition cron_date ::
  "(number \<Rightarrow> number) \<Rightarrow> number \<Rightarrow> execution list \<Rightarrow> number \<Rightarrow> nat \<Rightarrow> number" where
  "cron_date cron epoch tr now i = cron (epoch + round_begin tr now i)"

text \<open>
  C32. Given what \<^verbatim>\<open>croniter.get_next\<close> promises, a date after the one it is asked for, a cron
  callback that is not stopped is called once per round; every call is made at or after its
  date, later by the overhead only, and no two calls are made for the same date: dates that
  pass while a call runs are skipped.
\<close>

theorem cron_schedule:
  assumes "\<forall>t. t < cron t" "\<forall>r \<in> set rounds. undisturbed r \<and> good_round r"
    and "start_loop (get_next cron epoch) shield suppress rounds () now new_recurring = (s, e)"
  shows "(\<exists>st t. e = Running st t) \<and> length (rc_trace s) = length rounds \<and>
    (\<forall>i. i < length rounds \<longrightarrow>
       epoch + fst (rc_trace s ! i) =
         cron_date cron epoch (rc_trace s) now i + overhead (rounds ! i)) \<and>
    (\<forall>i. Suc i < length rounds \<longrightarrow>
       cron_date cron epoch (rc_trace s) now i < cron_date cron epoch (rc_trace s) now (Suc i))"
proof -
  have u: "\<forall>r \<in> set rounds. undisturbed r" using assms(2) by blast
  define tr where "tr = timeline (cron_wait cron epoch) rounds () now"
  have tr: "rc_trace s = tr \<and> (\<exists>st t. e = Running st t)"
    using cron.fresh_timeline [OF u assms(3)] by (simp add: tr_def)
  have starts: "epoch + fst (tr ! i) = cron_date cron epoch tr now i + overhead (rounds ! i)"
    if "i < length rounds" for i
    using cron.timeline_nth [OF that, of cron epoch "()" now]
      assms(1) [rule_format, of "epoch + round_begin tr now i"]
    by (simp add: tr_def [symmetric] wake_up_def cron_date_def overhead_def)
  have dates: "cron_date cron epoch tr now i < cron_date cron epoch tr now (Suc i)"
    if "Suc i < length rounds" for i
  proof -
    have i: "i < length rounds" and "rounds ! i \<in> set rounds" using that by auto
    with assms(2) have "0 \<le> overhead (rounds ! i)" "0 \<le> r_duration (rounds ! i)"
      by (auto simp: good_round_def overhead_def)
    then have "cron_date cron epoch tr now i \<le> epoch + fst (snd (tr ! i))"
      using starts [OF i] timeline_finished [OF i, of "cron_wait cron epoch" "()" now]
      by (simp add: tr_def)
    also have "\<dots> < cron_date cron epoch tr now (Suc i)"
      using assms(1) by (simp add: cron_date_def round_begin_def)
    finally show ?thesis .
  qed
  show ?thesis using tr starts dates by (simp add: tr_def [symmetric]) (simp add: tr_def)
qed

text \<open>A cron that fires at every whole second.\<close>

definition every_second :: "number \<Rightarrow> number" where
  "every_second t = of_int \<lfloor>t\<rfloor> + 1"

theorem cron_schedule_witness:
  "(\<forall>t. t < every_second t) \<and>
   cron_date every_second 100
     (rc_trace (fst (start_loop (get_next every_second 100) False []
        [example_round (Inr ()), example_round (Inr ())] () (1/2) new_recurring))) (1/2) 0 <
   cron_date every_second 100
     (rc_trace (fst (start_loop (get_next every_second 100) False []
        [example_round (Inr ()), example_round (Inr ())] () (1/2) new_recurring))) (1/2) (Suc 0)"
proof -
  let ?rs = "[example_round (Inr ()), example_round (Inr ())]"
  let ?p = "start_loop (get_next every_second 100) False [] ?rs () (1/2) new_recurring"
  have c: "\<forall>t. t < every_second t"
    unfolding every_second_def by (simp add: floor_less_iff [symmetric])
  have "\<forall>r \<in> set ?rs. undisturbed r \<and> good_round r" by (simp add: example_simps)
  from cron_schedule [OF c this, of 100 False "[]" "1/2" "fst ?p" "snd ?p"] c
  show ?thesis by simp
qed

section \<open>Starting and stopping callbacks\<close>

text \<open>A running callback cannot be started again, and a start makes it run.\<close>

lemma periodic_start_result:
  "periodic_start interval c =
     (if interval \<noteq> 0 \<and> \<not> task_running c (cb_task c) then Inr (recurring_start c)
      else if interval = 0 then Inl (AssertionError []) else Inl InvalidStateError)"
  by (simp add: periodic_start_def)

lemma recurring_start_running: "task_running (recurring_start c) (cb_task (recurring_start c))"
  by (simp add: recurring_start_def pending_task_def)

lemma start_when_running:
  "task_running c (cb_task c) \<Longrightarrow> interval \<noteq> 0 \<Longrightarrow>
     periodic_start interval c = Inl InvalidStateError \<and> cron_start cron c = Inl InvalidStateError"
  by (simp add: periodic_start_def cron_start_def)

lemma stop_cancels:
  assumes "cb_task c = Some t" "pending_task c t"
  shows "t \<in> set (cb_cancelled (fst (periodic_stop c))) \<and> snd (periodic_stop c) = Inr t \<and>
         t \<in> set (cb_cancelled (fst (cron_stop c))) \<and> snd (cron_stop c) = Inr t"
  using assms by (simp add: periodic_stop_def cron_stop_def cancel_pending_def)

text \<open>
  The done callback of a finished task clears the attribute whatever task it holds: a callback
  that is stopped and started again before the event loop ran that callback forgets its running
  task. It can then be started a second time, and \<^verbatim>\<open>stop\<close> no longer reaches the first task.
\<close>

lemma clean_task_forgets_running:
  assumes "periodic_start i new_callback = Inr c1"
    and "periodic_start i (fst (periodic_stop c1)) = Inr c2"
    and "c3 = clean_task 0 (task_done 0 (Inl CancelledError) c2)"
  shows "pending_task c3 1 \<and> cb_task c3 = None \<and>
    snd (periodic_stop c3) = Inl (RuntimeError ''Callback not started'') \<and>
    periodic_start i c3 = Inr (recurring_start c3)"
  using assms
  by (auto simp: periodic_start_def periodic_stop_def clean_task_def task_done_def new_callback_def
      recurring_start_def pending_task_def cancel_pending_def split: if_splits)

text \<open>The cron callback keeps its task instead, so it cannot be started before that ended.\<close>

lemma cron_restart_refused:
  assumes "cb_task c = Some t" "pending_task c t"
  shows "cron_start cron (fst (cron_stop c)) = Inl InvalidStateError"
  using assms by (simp add: cron_start_def cron_stop_def cancel_pending_def pending_task_def)

section \<open>Services that start and stop callbacks\<close>

lemma periodic_service_start_positive:
  "periodic_service_start s = Inr s' \<Longrightarrow>
     ps_interval s > 0 \<and> task_running (ps_periodic s') (cb_task (ps_periodic s'))"
  by (auto simp: periodic_service_start_def periodic_start_def bind_result_Inr_iff
      recurring_start_running split: if_splits)

lemma register_valid:
  "register is_valid co spec sh su items = Inr items' \<longleftrightarrow>
     co \<and> is_valid spec \<and>
     items' = items @ [\<lparr>si_callback = new_callback, si_spec = spec, si_shield = sh,
       si_suppress_exceptions = su\<rparr>]"
  by (auto simp: register_def)

lemma cron_service_start_all:
  assumes "cron_service_start croniter items = (items', Inr ())"
  shows "length items' = length items \<and>
    (\<forall>i \<in> set items'. task_running (si_callback i) (cb_task (si_callback i)))"
  using assms
proof (induction items arbitrary: items')
  case Nil
  then show ?case by simp
next
  case (Cons i items)
  then show ?case
    by (auto simp: cron_start_def recurring_start_running split: sum.splits if_splits prod.splits)
qed

text \<open>
  Every specification that \<^verbatim>\<open>register\<close> accepts can be parsed, so the first start of the service
  starts all callbacks.
\<close>

lemma cron_service_start_fresh:
  assumes "\<forall>i \<in> set items. cb_task (si_callback i) = None \<and> (\<exists>c. croniter (si_spec i) = Inr c)"
  shows "snd (cron_service_start croniter items) = Inr ()"
  using assms
  by (induction items) (auto simp: cron_start_def split: prod.splits)

end
