(* ===== verification/Utils.thy ===== *)
theory Utils
  imports Prelude
begin

text \<open>
  The helpers of \<^verbatim>\<open>aiomisc/utils.py\<close>: chunking, \<^verbatim>\<open>select\<close>, cancelling groups of tasks, wrapping
  functions as awaitables, and the choices of \<^verbatim>\<open>bind_socket\<close> with the socket options of
  \<^verbatim>\<open>aiomisc/compat.py\<close>.
\<close>

section \<open>Chunks\<close>

text \<open>
  The generator \<^verbatim>\<open>chunk_list\<close> run to its end; \<^verbatim>\<open>islice\<close> refuses a negative size when the first
  chunk is asked for.
\<close>

function chunks :: "nat \<Rightarrow> 'a list \<Rightarrow> 'a list list" where
  "chunks n xs = (let item = take n xs in if item = [] then [] else item # chunks n (drop n xs))"
  by pat_completeness auto
termination
  by (relation "measure (\<lambda>(n, xs). length xs)") auto

declare chunks.simps [simp del]

definition chunk_list :: "'a list \<Rightarrow> int \<Rightarrow> 'a list list result" where
  "chunk_list xs n =
     (if n < 0 then Inl (ValueError ''Stop argument for islice'') else Inr (chunks (nat n) xs))"

section \<open>Groups of futures\<close>

text \<open>
  The objects that \<^verbatim>\<open>set_exception\<close> tells apart, with their state and the cancellations that were
  asked for. They live in a store and are given by their index.
\<close>

datatype fkind = Task | Future | OtherObject

record 'r fobject =
  f_kind :: fkind
  f_state :: "'r fut"
  f_cancelling :: bool

type_synonym 'r fstore = "'r fobject list"

definition f_done :: "'r fobject \<Rightarrow> bool" where
  "f_done f \<longleftrightarrow> f_state f \<noteq> Pending"

text \<open>
  \<^verbatim>\<open>set_exception\<close> over \<^verbatim>\<open>pending_futures\<close>: the generator tests each future when its turn comes.
  The result holds the tasks that were cancelled.
\<close>

fun set_exception :: "pyexc \<Rightarrow> nat list \<Rightarrow> 'r fstore \<Rightarrow> nat list \<times> 'r fstore" where
  "set_exception exc [] fs = ([], fs)"
| "set_exception exc (i # is') fs =
     (if f_done (fs ! i) then set_exception exc is' fs
      else case f_kind (fs ! i) of
        Task \<Rightarrow>
          (let (ts, fs') = set_exception exc is' (fs[i := (fs ! i)\<lparr>f_cancelling := True\<rparr>])
           in (List.insert i ts, fs'))
      | Future \<Rightarrow> set_exception exc is' (fs[i := (fs ! i)\<lparr>f_state := Resolved (Inl exc)\<rparr>])
      | OtherObject \<Rightarrow> set_exception exc is' fs)"

text \<open>\<^verbatim>\<open>cancel_tasks\<close>: the returned future waits for these tasks and is done when all of them are.\<close>

definition cancel_tasks :: "nat list \<Rightarrow> 'r fstore \<Rightarrow> nat list \<times> 'r fstore" where
  "cancel_tasks tasks fs =
     (if tasks = [] then ([], fs) else set_exception CancelledError tasks fs)"

definition waiter_done :: "nat list \<Rightarrow> 'r fstore \<Rightarrow> bool" where
  "waiter_done ts fs \<longleftrightarrow> (\<forall>t \<in> set ts. f_done (fs ! t))"

section \<open>Select\<close>

record 'v SelectResult =
  sr_length :: nat
  sr_result_idx :: "nat option"
  sr_is_exception :: "bool option"
  sr_value :: "(pyexc + 'v) option"

definition SelectResult_init :: "nat \<Rightarrow> 'v SelectResult" where
  "SelectResult_init n = \<lparr>sr_length = n, sr_result_idx = None, sr_is_exception = None, sr_value = None\<rparr>"

definition sr_set_result ::
  "nat \<Rightarrow> (pyexc + 'v) \<Rightarrow> bool \<Rightarrow> 'v SelectResult \<Rightarrow> 'v SelectResult" where
  "sr_set_result idx value is_exception r =
     (if sr_result_idx r \<noteq> None then r
      else r\<lparr>sr_value := Some value, sr_result_idx := Some idx, sr_is_exception := Some is_exception\<rparr>)"

definition sr_result :: "'v SelectResult \<Rightarrow> 'v option result" where
  "sr_result r =
     (case sr_value r of
        None \<Rightarrow> Inr None
      | Some (Inl e) \<Rightarrow> Inl e
      | Some (Inr v) \<Rightarrow> Inr (Some v))"

definition sr_done :: "'v SelectResult \<Rightarrow> bool" where
  "sr_done r \<longleftrightarrow> sr_result_idx r \<noteq> None"

definition sr_iter :: "'v SelectResult \<Rightarrow> (pyexc + 'v) option list" where
  "sr_iter r = map (\<lambda>i. if sr_result_idx r = Some i then sr_value r else None) [0..<sr_length r]"

text \<open>\<^verbatim>\<open>__waiter\<close>: a cancelled awaitable sets no result.\<close>

definition waiter :: "nat \<Rightarrow> 'v result \<Rightarrow> 'v SelectResult \<Rightarrow> 'v SelectResult" where
  "waiter idx ret r =
     (case ret of
        Inl e \<Rightarrow>
          if isinstance_exc e ''CancelledError'' then r
          else if is_Exception e then sr_set_result idx (Inl e) True r
          else r
      | Inr v \<Rightarrow> sr_set_result idx (Inr v) False r)"

text \<open>
  \<^verbatim>\<open>__run\<close>. The environment gives the awaitables that end before \<^verbatim>\<open>asyncio.wait\<close> returns, in the
  order in which they end (none when the timeout expired), and those that end on their own
  although they are cancelled, while \<^verbatim>\<open>__run\<close> waits for the cancelled tasks. Tasks that are cancelled
  without waiting, or not cancelled at all, end later.
\<close>

definition select_run ::
  "bool \<Rightarrow> bool \<Rightarrow> bool \<Rightarrow> (nat \<times> 'v result) list \<Rightarrow> (nat \<times> 'v result) list \<Rightarrow> nat \<Rightarrow>
     'v SelectResult result" where
  "select_run cancel wait return_exceptions completed late n =
     (let r = fold (\<lambda>(i, v). waiter i v) completed (SelectResult_init n);
          r' = (if cancel \<and> wait then fold (\<lambda>(i, v). waiter i v) late r else r)
      in if sr_is_exception r' = Some True \<and> \<not> return_exceptions
         then bind_result (sr_result r') (\<lambda>_. Inr r')
         else Inr r')"

section \<open>Awaitables\<close>

text \<open>What a function may give: an awaitable of a value, or the value itself.\<close>

datatype 'a returned = Awaitable 'a | Plain 'a

fun awaited :: "'a returned \<Rightarrow> 'a option" where
  "awaited (Awaitable x) = Some x"
| "awaited (Plain x) = None"

definition awaiter :: "'a \<Rightarrow> 'a returned" where
  "awaiter obj = Awaitable obj"

definition awaitable :: "bool \<Rightarrow> ('x \<Rightarrow> 'a returned) \<Rightarrow> 'x \<Rightarrow> 'a returned" where
  "awaitable is_coroutine_function func =
     (if is_coroutine_function then func
      else (\<lambda>x. case func x of Awaitable y \<Rightarrow> Awaitable y | Plain y \<Rightarrow> awaiter y))"

section \<open>Binding a socket\<close>

datatype family = AF_INET | AF_INET6 | AF_UNIX
datatype socktype = SOCK_STREAM | SOCK_DGRAM

record sock =
  s_family :: family
  s_type :: socktype
  s_proto :: int

text \<open>The number of \<^verbatim>\<open>socket.IPPROTO_TCP\<close>; a socket that is made without a protocol has the number 0.\<close>

definition IPPROTO_TCP :: int where
  "IPPROTO_TCP = 6"

text \<open>The calls made on the new socket, in order.\<close>

datatype sock_call = SetBlocking bool | V6Only int | ReuseAddr int | ReusePort int | NoDelay int
  | SetSockOpt int int int | BindUnix string | BindInet string int

text \<open>\<^verbatim>\<open>sock_set_nodelay\<close> and \<^verbatim>\<open>sock_set_reuseport\<close>, by whether the platform has the option.\<close>

definition sock_set_nodelay :: "bool \<Rightarrow> sock \<Rightarrow> sock_call list" where
  "sock_set_nodelay has_nodelay s =
     (if has_nodelay then if s_proto s \<noteq> IPPROTO_TCP then [] else [NoDelay 1] else [])"

definition sock_set_reuseport :: "bool \<Rightarrow> bool \<Rightarrow> sock_call list" where
  "sock_set_reuseport has_reuseport reuse_port =
     (if has_reuseport then [ReusePort (if reuse_port then 1 else 0)] else [])"

text \<open>
  \<^verbatim>\<open>bind_socket\<close>: the socket, the calls made on it, and the protocol name for the log. The optional
  first argument is what \<^verbatim>\<open>socket.socket(*args)\<close> makes of the positional arguments.
\<close>

definition bind_socket ::
  "bool \<Rightarrow> bool \<Rightarrow> sock option \<Rightarrow> string \<Rightarrow> int \<Rightarrow> (int \<times> int \<times> int) list \<Rightarrow> bool \<Rightarrow> bool \<Rightarrow>
     string option \<Rightarrow> sock \<times> sock_call list \<times> string" where
  "bind_socket has_nodelay has_reuseport args address port options reuse_addr reuse_port proto_name =
     (let args1 = (case args of
             None \<Rightarrow> if CHR '':'' \<in> set address
                     then Some \<lparr>s_family = AF_INET6, s_type = SOCK_STREAM, s_proto = 0\<rparr>
                     else Some \<lparr>s_family = AF_INET, s_type = SOCK_STREAM, s_proto = 0\<rparr>
           | Some a \<Rightarrow> Some a);
          s = the args1;
          v6 = (if args1 = None \<and> CHR '':'' \<in> set address then [V6Only 0] else []);
          reuse_port1 = (if s_family s = AF_UNIX then False else reuse_port);
          calls = [SetBlocking False] @ v6 @
            (if reuse_addr then [ReuseAddr 1] else []) @
            (if reuse_port1 then sock_set_reuseport has_reuseport True else []) @
            sock_set_nodelay has_nodelay s @
            map (\<lambda>(level, option, value). SetSockOpt level option value) options
      in if s_family s = AF_UNIX
         then (s, calls @ [BindUnix address],
               case proto_name of Some p \<Rightarrow> (if p = [] then ''unix'' else p) | None \<Rightarrow> ''unix'')
         else (s, calls @ [BindInet address port],
               case proto_name of Some p \<Rightarrow> (if p = [] then ''tcp'' else p) | None \<Rightarrow> ''tcp''))"

section \<open>Chunks cover the list\<close>

lemma chunks_zero [simp]: "chunks 0 xs = []"
  by (simp add: chunks.simps)

lemma chunks_Nil [simp]: "chunks n [] = []"
  by (simp add: chunks.simps)

lemma chunks_step: "n > 0 \<Longrightarrow> xs \<noteq> [] \<Longrightarrow> chunks n xs = take n xs # chunks n (drop n xs)"
  by (subst chunks.simps) (simp add: Let_def)

lemma concat_chunks: "n > 0 \<Longrightarrow> concat (chunks n xs) = xs"
proof (induction n xs rule: chunks.induct)
  case (1 n xs)
  then show ?case by (cases "xs = []") (simp_all add: chunks_step)
qed

lemma chunk_sizes_Cons:
  assumes "(\<forall>c \<in> set cs. c \<noteq> [] \<and> length c \<le> n) \<and> (\<forall>c \<in> set (butlast cs). length c = n)"
    and "x \<noteq> []" "length x \<le> n" "cs \<noteq> [] \<Longrightarrow> length x = n"
  shows "(\<forall>c \<in> set (x # cs). c \<noteq> [] \<and> length c \<le> n) \<and>
    (\<forall>c \<in> set (butlast (x # cs)). length c = n)"
  using assms by (cases cs) auto

lemma chunks_sizes:
  "n > 0 \<Longrightarrow> (\<forall>c \<in> set (chunks n xs). c \<noteq> [] \<and> length c \<le> n) \<and>
     (\<forall>c \<in> set (butlast (chunks n xs)). length c = n)"
proof (induction n xs rule: chunks.induct)
  case (1 n xs)
  show ?case
  proof (cases "xs = []")
    case True
    then show ?thesis by simp
  next
    case False
    let ?C = "chunks n (drop n xs)"
    have "take n xs \<noteq> []" using 1(2) False by simp
    note ih = 1(1) [OF refl this 1(2)]
    have "length (take n xs) = n" if "?C \<noteq> []"
      using that by (cases "n < length xs") simp_all
    moreover have "take n xs \<noteq> []" "length (take n xs) \<le> n" using 1(2) False by auto
    ultimately show ?thesis
      unfolding chunks_step [OF 1(2) False] by (intro chunk_sizes_Cons [OF ih])
  qed
qed

text \<open>
  \<^verbatim>\<open>chunk_list\<close> with a positive size yields non-empty chunks of at most that size, all but the
  last of exactly that size, whose concatenation is the list; with size 0 it yields nothing at
  all, and a negative size is a \<^verbatim>\<open>ValueError\<close>.
\<close>

theorem chunk_list_partition:
  "(n > 0 \<longrightarrow> (\<exists>cs. chunk_list xs n = Inr cs \<and> concat cs = xs \<and>
      (\<forall>c \<in> set cs. c \<noteq> [] \<and> int (length c) \<le> n) \<and>
      (\<forall>c \<in> set (butlast cs). int (length c) = n))) \<and>
   chunk_list xs 0 = Inr [] \<and>
   (n < 0 \<longrightarrow> (\<exists>e. chunk_list xs n = Inl e \<and> isinstance_exc e ''ValueError''))"
  using concat_chunks [of "nat n" xs] chunks_sizes [of "nat n" xs]
  by (auto simp: chunk_list_def py_simps le_nat_iff)

theorem chunk_list_partition_witness:
  "(\<exists>cs. chunk_list [1::nat, 2, 3, 4, 5] 2 = Inr cs \<and> concat cs = [1, 2, 3, 4, 5]) \<and>
   chunk_list [1::nat, 2, 3, 4, 5] 2 = Inr [[1, 2], [3, 4], [5]]"
proof -
  have "chunk_list [1::nat, 2, 3, 4, 5] 2 = Inr [[1, 2], [3, 4], [5]]"
    by (simp add: chunk_list_def chunks_step)
  moreover have "\<exists>cs. chunk_list [1::nat, 2, 3, 4, 5] 2 = Inr cs \<and> concat cs = [1, 2, 3, 4, 5]"
    using chunk_list_partition [of 2 "[1::nat, 2, 3, 4, 5]"] by auto
  ultimately show ?thesis by simp
qed

section \<open>Cancelling a group\<close>

text \<open>What one object looks like after its group was given an exception.\<close>

definition cancelled_object :: "pyexc \<Rightarrow> 'r fobject \<Rightarrow> 'r fobject" where
  "cancelled_object exc f =
     (if f_done f then f
      else case f_kind f of
        Task \<Rightarrow> f\<lparr>f_cancelling := True\<rparr>
      | Future \<Rightarrow> f\<lparr>f_state := Resolved (Inl exc)\<rparr>
      | OtherObject \<Rightarrow> f)"

lemma cancelled_object_idem [simp]:
  "cancelled_object exc (cancelled_object exc f) = cancelled_object exc f"
  by (cases f) (auto simp: cancelled_object_def f_done_def split: fkind.splits)

lemma cancelled_object_kind [simp]: "f_kind (cancelled_object exc f) = f_kind f"
  by (auto simp: cancelled_object_def split: fkind.splits)

lemma cancelled_object_pending_task [simp]:
  "f_kind f = Task \<Longrightarrow> f_done (cancelled_object exc f) = f_done f"
  by (auto simp: cancelled_object_def f_done_def)

lemma set_exception_Cons:
  assumes "i < length fs"
  shows "set_exception exc (i # js) fs =
    (let (ts, fs') = set_exception exc js (fs[i := cancelled_object exc (fs ! i)])
     in (if \<not> f_done (fs ! i) \<and> f_kind (fs ! i) = Task then List.insert i ts else ts, fs'))"
  by (auto simp: cancelled_object_def Let_def list_update_id split: fkind.splits prod.splits)

lemma set_exception_store:
  assumes "\<forall>i \<in> set js. i < length fs" "set_exception exc js fs = (ts, fs')"
  shows "length fs' = length fs \<and>
    (\<forall>j < length fs. fs' ! j = (if j \<in> set js then cancelled_object exc (fs ! j) else fs ! j)) \<and>
    set ts = {j \<in> set js. f_kind (fs ! j) = Task \<and> \<not> f_done (fs ! j)}"
  using assms
proof (induction js arbitrary: fs ts)
  case Nil
  then show ?case by simp
next
  case (Cons i js)
  let ?fs = "fs[i := cancelled_object exc (fs ! i)]"
  have i: "i < length fs" using Cons.prems(1) by simp
  obtain ts' where ts': "set_exception exc js ?fs = (ts', fs')"
      "set ts = (if \<not> f_done (fs ! i) \<and> f_kind (fs ! i) = Task then insert i (set ts') else set ts')"
    using Cons.prems(2) by (auto simp: set_exception_Cons [OF i] Let_def simp del: set_exception.simps
        split: prod.splits if_splits)
  have ih: "length fs' = length ?fs \<and>
      (\<forall>j < length ?fs. fs' ! j = (if j \<in> set js then cancelled_object exc (?fs ! j) else ?fs ! j)) \<and>
      set ts' = {j \<in> set js. f_kind (?fs ! j) = Task \<and> \<not> f_done (?fs ! j)}"
    using Cons.prems(1) by (intro Cons.IH [OF _ ts'(1)]) simp
  have same: "f_kind (?fs ! j) = Task \<and> \<not> f_done (?fs ! j) \<longleftrightarrow>
      f_kind (fs ! j) = Task \<and> \<not> f_done (fs ! j)" for j
    using i by (cases "j = i") auto
  have "fs' ! j = (if j \<in> set (i # js) then cancelled_object exc (fs ! j) else fs ! j)"
    if "j < length fs" for j
    using ih i that by (cases "j = i") auto
  moreover have "set ts = {j \<in> set (i # js). f_kind (fs ! j) = Task \<and> \<not> f_done (fs ! j)}"
    using ts'(2) ih same by auto
  ultimately show ?case using ih by simp
qed

text \<open>
  \<^verbatim>\<open>cancel_tasks\<close> asks every unfinished task of the group for cancellation, gives every
  unfinished plain future the \<^verbatim>\<open>CancelledError\<close>, and touches nothing else: neither finished
  futures nor those outside the group. The returned future waits for exactly the tasks that
  were cancelled, and it is done at once when there is none.
\<close>

theorem cancel_tasks_group:
  assumes "\<forall>i \<in> set tasks. i < length fs" "cancel_tasks tasks fs = (ts, fs')"
  shows "length fs' = length fs \<and>
    (\<forall>j < length fs.
       (j \<notin> set tasks \<or> f_done (fs ! j) \<longrightarrow> fs' ! j = fs ! j) \<and>
       (j \<in> set tasks \<and> \<not> f_done (fs ! j) \<and> f_kind (fs ! j) = Task \<longrightarrow>
          f_cancelling (fs' ! j) \<and> \<not> f_done (fs' ! j)) \<and>
       (j \<in> set tasks \<and> \<not> f_done (fs ! j) \<and> f_kind (fs ! j) = Future \<longrightarrow>
          f_state (fs' ! j) = Resolved (Inl CancelledError))) \<and>
    set ts = {j \<in> set tasks. f_kind (fs ! j) = Task \<and> \<not> f_done (fs ! j)} \<and>
    (waiter_done ts fs' \<longleftrightarrow> ts = [])"
proof -
  have "set_exception CancelledError tasks fs = (ts, fs')"
    using assms(2) by (simp add: cancel_tasks_def split: if_splits)
  from set_exception_store [OF assms(1) this]
  have st: "length fs' = length fs"
      "\<forall>j < length fs. fs' ! j = (if j \<in> set tasks then cancelled_object CancelledError (fs ! j) else fs ! j)"
      "set ts = {j \<in> set tasks. f_kind (fs ! j) = Task \<and> \<not> f_done (fs ! j)}" by auto
  have undone: "\<not> f_done (fs' ! t)" if "t \<in> set ts" for t
    using that st assms(1) by auto
  have "waiter_done ts fs' \<longleftrightarrow> ts = []"
  proof (cases ts)
    case (Cons t ts')
    with undone [of t] show ?thesis by (auto simp: waiter_done_def)
  qed (simp add: waiter_done_def)
  moreover have "(j \<notin> set tasks \<or> f_done (fs ! j) \<longrightarrow> fs' ! j = fs ! j) \<and>
       (j \<in> set tasks \<and> \<not> f_done (fs ! j) \<and> f_kind (fs ! j) = Task \<longrightarrow>
          f_cancelling (fs' ! j) \<and> \<not> f_done (fs' ! j)) \<and>
       (j \<in> set tasks \<and> \<not> f_done (fs ! j) \<and> f_kind (fs ! j) = Future \<longrightarrow>
          f_state (fs' ! j) = Resolved (Inl CancelledError))" if "j < length fs" for j
    using st(2) that by (auto simp: cancelled_object_def f_done_def)
  ultimately show ?thesis using st(1,3) by simp
qed

definition example_futures :: "nat fobject list" where
  "example_futures =
     [\<lparr>f_kind = Task, f_state = Pending, f_cancelling = False\<rparr>,
      \<lparr>f_kind = Future, f_state = Pending, f_cancelling = False\<rparr>,
      \<lparr>f_kind = Task, f_state = Resolved (Inr 1), f_cancelling = False\<rparr>]"

theorem cancel_tasks_group_witness:
  "f_cancelling (snd (cancel_tasks [0, 1, 2] example_futures) ! 0) \<and>
   f_state (snd (cancel_tasks [0, 1, 2] example_futures) ! 1) = Resolved (Inl CancelledError) \<and>
   snd (cancel_tasks [0, 1, 2] example_futures) ! 2 = example_futures ! 2 \<and>
   set (fst (cancel_tasks [0, 1, 2] example_futures)) = {0}"
proof -
  let ?r = "cancel_tasks [0, 1, 2] example_futures"
  have "\<forall>i \<in> set [0, 1, 2]. i < length example_futures" by (simp add: example_futures_def)
  from cancel_tasks_group [OF this, of "fst ?r" "snd ?r"]
  have "\<forall>j < length example_futures. (f_done (example_futures ! j) \<longrightarrow> snd ?r ! j = example_futures ! j)"
    and "set (fst ?r) = {j \<in> {0, 1, 2}. f_kind (example_futures ! j) = Task \<and> \<not> f_done (example_futures ! j)}"
    by auto
  then show ?thesis
    by (simp add: example_futures_def cancel_tasks_def f_done_def List.insert_def)
qed

section \<open>Select gives the first result\<close>

text \<open>The first awaitable that ends otherwise than by a cancellation.\<close>

fun counts :: "'v result \<Rightarrow> bool" where
  "counts (Inr v) \<longleftrightarrow> True"
| "counts (Inl e) \<longleftrightarrow> \<not> isinstance_exc e ''CancelledError'' \<and> is_Exception e"

definition selected :: "nat \<Rightarrow> (nat \<times> 'v result) option \<Rightarrow> 'v SelectResult" where
  "selected n c =
     (case c of
        None \<Rightarrow> SelectResult_init n
      | Some (i, v) \<Rightarrow> \<lparr>sr_length = n, sr_result_idx = Some i, sr_is_exception = Some (isl v),
                        sr_value = Some v\<rparr>)"

lemma waiter_selected:
  "waiter i v (selected n c) =
     selected n (or_else c (if counts v then Some (i, v) else None))"
  by (cases c; cases v)
    (auto simp: waiter_def selected_def SelectResult_init_def sr_set_result_def or_else_def
      split: prod.splits)

lemma fold_waiter:
  "fold (\<lambda>(i, v). waiter i v) cs (selected n c) =
     selected n (or_else c (List.find (\<lambda>(i, v). counts v) cs))"
proof (induction cs arbitrary: c)
  case Nil
  then show ?case by simp
next
  case (Cons iv cs)
  then show ?case by (cases iv; cases c) (simp_all add: waiter_selected or_else_assoc)
qed

text \<open>
  \<^verbatim>\<open>select\<close> gives the outcome of the first awaitable that ends otherwise than by a
  cancellation, and its index: its value or, with \<^verbatim>\<open>return_exceptions\<close>, its exception as the
  only entry of the result; without it that exception is raised. When none has ended, in
  particular when the timeout has expired, an empty result is returned and no exception is
  raised.
\<close>

theorem select_first:
  assumes "first = or_else (List.find (\<lambda>(i, v). counts v) completed)
             (if cancel \<and> wait then List.find (\<lambda>(i, v). counts v) late else None)"
  shows "(\<forall>i v. first = Some (i, Inr v) \<longrightarrow>
      (\<exists>r. select_run cancel wait return_exceptions completed late n = Inr r \<and>
         sr_result r = Inr (Some v) \<and> sr_result_idx r = Some i \<and>
         sr_iter r = map (\<lambda>j. if j = i then Some (Inr v) else None) [0..<n])) \<and>
    (\<forall>i e. first = Some (i, Inl e) \<longrightarrow>
      (if return_exceptions
       then \<exists>r. select_run cancel wait return_exceptions completed late n = Inr r \<and>
         sr_result r = Inl e \<and> sr_result_idx r = Some i \<and>
         sr_iter r = map (\<lambda>j. if j = i then Some (Inl e) else None) [0..<n]
       else select_run cancel wait return_exceptions completed late n = Inl e)) \<and>
    (first = None \<longrightarrow>
      (\<exists>r. select_run cancel wait return_exceptions completed late n = Inr r \<and>
         \<not> sr_done r \<and> sr_result r = Inr None \<and> sr_iter r = replicate n None))"
proof -
  have init: "SelectResult_init n = selected n None" by (simp add: selected_def)
  have run: "select_run cancel wait return_exceptions completed late n =
      (let r = selected n first in
       if sr_is_exception r = Some True \<and> \<not> return_exceptions
       then bind_result (sr_result r) (\<lambda>_. Inr r) else Inr r)"
    by (simp add: select_run_def Let_def init fold_waiter assms)
  show ?thesis
    unfolding run Let_def
    by (auto simp: selected_def sr_result_def sr_iter_def sr_done_def
        SelectResult_init_def map_replicate_const intro!: map_cong)
qed

theorem select_first_witness:
  "\<exists>r. select_run True True False [(1, Inl CancelledError), (2, Inr (7::nat)), (0, Inr 5)] [] 3 = Inr r \<and>
     sr_result r = Inr (Some 7) \<and> sr_iter r = [None, None, Some (Inr 7)]"
proof -
  let ?c = "[(1, Inl CancelledError), (2, Inr (7::nat)), (0, Inr 5)]"
  have "Some (2, Inr 7) = or_else (List.find (\<lambda>(i, v). counts v) ?c)
      (if True \<and> True then List.find (\<lambda>(i, v). counts v) [] else None)"
    by (simp add: py_simps)
  from select_first [OF this, of False 3] show ?thesis by (auto simp: upt_rec)
qed

section \<open>Awaitables and sockets\<close>

text \<open>A wrapped function always gives an awaitable, of the value the function gave.\<close>

lemma awaitable_awaited:
  "(is_coroutine_function \<longrightarrow> (\<exists>y. func x = Awaitable y)) \<Longrightarrow>
     awaited (awaitable is_coroutine_function func x) =
       Some (case func x of Awaitable y \<Rightarrow> y | Plain y \<Rightarrow> y)"
  by (auto simp: awaitable_def awaiter_def split: returned.splits)

text \<open>
  The socket is bound once, after all options were set; a unix socket never gets the reuse
  option of ports. The option for dual stack sockets is never set, and with the default
  arguments neither is \<^verbatim>\<open>TCP_NODELAY\<close>: the protocol number of such a socket is 0.
\<close>

lemma bind_socket_calls:
  assumes "bind_socket nd rp args address port options ra reuse pn = (s, calls, name)"
  shows "\<exists>pre. calls = pre @ [if s_family s = AF_UNIX then BindUnix address else BindInet address port] \<and>
      (\<forall>c \<in> set pre. \<forall>a p. c \<noteq> BindUnix a \<and> c \<noteq> BindInet a p) \<and>
      (\<forall>v. V6Only v \<notin> set calls) \<and>
      (s_family s = AF_UNIX \<longrightarrow> (\<forall>v. ReusePort v \<notin> set calls)) \<and>
      (args = None \<longrightarrow> (\<forall>v. NoDelay v \<notin> set calls))"
  using assms
  by (auto simp: bind_socket_def Let_def sock_set_nodelay_def sock_set_reuseport_def IPPROTO_TCP_def
      split: option.splits if_splits)

end
