(* ===== verification/ServiceBase.thy ===== *)
theory ServiceBase
  imports Utils
begin

text \<open>
  What services and the entrypoint are built from: signals (\<^verbatim>\<open>aiomisc/signal.py\<close>), the context of
  an event loop (\<^verbatim>\<open>aiomisc/context.py\<close>), strict context variables (\<^verbatim>\<open>aiomisc/context_vars.py\<close>),
  and the base classes of services (\<^verbatim>\<open>aiomisc/service/base.py\<close>).
\<close>

definition AttributeError :: "string \<Rightarrow> pyexc" where
  "AttributeError m = mk_exc [''AttributeError'', ''Exception'', ''BaseException''] [m]"

section \<open>Signals\<close>

text \<open>
  The set of receivers as a list without duplicates, in the order in which Python iterates over
  the set; it is frozen when the set is a \<^verbatim>\<open>frozenset\<close>.
\<close>

record 'f Signal =
  sig_receivers :: "'f list"
  sig_frozen :: bool

definition Signal_init :: "'f Signal" where
  "Signal_init = \<lparr>sig_receivers = [], sig_frozen = False\<rparr>"

definition connect :: "('f \<Rightarrow> bool) \<Rightarrow> 'f \<Rightarrow> 'f Signal \<Rightarrow> 'f Signal result" where
  "connect is_coroutine_function receiver s =
     (if sig_frozen s then Inl (RuntimeError ''Can't connect receiver (%r) to the frozen signal'')
      else if \<not> is_coroutine_function receiver
      then Inl (RuntimeError ''%r is not a coroutine function'')
      else Inr (s\<lparr>sig_receivers := List.insert receiver (sig_receivers s)\<rparr>))"

definition disconnect :: "'f \<Rightarrow> 'f Signal \<Rightarrow> 'f Signal result" where
  "disconnect receiver s =
     (if sig_frozen s then Inl (RuntimeError ''Can't connect receiver (%r) to the frozen signal'')
      else Inr (s\<lparr>sig_receivers := removeAll receiver (sig_receivers s)\<rparr>))"

text \<open>\<^verbatim>\<open>call\<close>: the receivers that were called, up to the first one that raises.\<close>

fun call_receivers :: "('f \<Rightarrow> unit result) \<Rightarrow> 'f list \<Rightarrow> 'f list \<times> unit result" where
  "call_receivers run [] = ([], Inr ())"
| "call_receivers run (f # fs) =
     (case run f of
        Inl e \<Rightarrow> ([f], Inl e)
      | Inr _ \<Rightarrow> (let (called, r) = call_receivers run fs in (f # called, r)))"

definition signal_call :: "('f \<Rightarrow> unit result) \<Rightarrow> 'f Signal \<Rightarrow> 'f list \<times> unit result" where
  "signal_call run s = call_receivers run (sig_receivers s)"

definition signal_copy :: "'f Signal \<Rightarrow> 'f Signal" where
  "signal_copy s = \<lparr>sig_receivers = sig_receivers s, sig_frozen = False\<rparr>"

definition freeze :: "'f Signal \<Rightarrow> 'f Signal" where
  "freeze s = s\<lparr>sig_frozen := True\<rparr>"

section \<open>Strict context variables\<close>

record 'v StrictContextVar =
  scv_exc :: pyexc
  scv_value :: "'v option"

definition StrictContextVar_init :: "pyexc \<Rightarrow> 'v StrictContextVar" where
  "StrictContextVar_init exc = \<lparr>scv_exc = exc, scv_value = None\<rparr>"

definition scv_get :: "'v StrictContextVar \<Rightarrow> 'v result" where
  "scv_get v = (case scv_value v of None \<Rightarrow> Inl (scv_exc v) | Some x \<Rightarrow> Inr x)"

definition scv_set :: "'v option \<Rightarrow> 'v StrictContextVar \<Rightarrow> 'v StrictContextVar" where
  "scv_set x v = v\<lparr>scv_value := x\<rparr>"

text \<open>The variable of aiomisc and that of aiothreads.\<close>

definition set_current_loop ::
  "'l \<Rightarrow> 'l StrictContextVar \<times> 'l StrictContextVar \<Rightarrow> 'l StrictContextVar \<times> 'l StrictContextVar"
  where
  "set_current_loop loop v = (scv_set (Some loop) (fst v), scv_set (Some loop) (snd v))"

section \<open>Context\<close>

text \<open>
  The storage of a context is a \<^verbatim>\<open>defaultdict\<close> that makes a future for a missing key. The futures
  live in a list; the setters that \<^verbatim>\<open>call_soon_threadsafe\<close> has scheduled wait in a queue.
\<close>

record ('k, 'v) Context =
  ctx_storage :: "'k \<rightharpoonup> nat"
  ctx_futures :: "'v fut list"
  ctx_setters :: "('k \<times> 'v) list"
  ctx_get :: nat
  ctx_set :: nat

definition Context_init :: "('k, 'v) Context" where
  "Context_init =
     \<lparr>ctx_storage = Map.empty, ctx_futures = [], ctx_setters = [], ctx_get = 0, ctx_set = 0\<rparr>"

text \<open>\<^verbatim>\<open>self._storage[item]\<close>.\<close>

definition storage_item :: "'k \<Rightarrow> ('k, 'v) Context \<Rightarrow> nat \<times> ('k, 'v) Context" where
  "storage_item k c =
     (case ctx_storage c k of
        Some i \<Rightarrow> (i, c)
      | None \<Rightarrow>
          (length (ctx_futures c),
           c\<lparr>ctx_storage := (ctx_storage c)(k \<mapsto> length (ctx_futures c)),
             ctx_futures := ctx_futures c @ [Pending]\<rparr>))"

definition context_getitem :: "'k \<Rightarrow> ('k, 'v) Context \<Rightarrow> nat \<times> ('k, 'v) Context" where
  "context_getitem k c = storage_item k (c\<lparr>ctx_get := ctx_get c + 1\<rparr>)"

definition context_setitem :: "'k \<Rightarrow> 'v \<Rightarrow> ('k, 'v) Context \<Rightarrow> ('k, 'v) Context" where
  "context_setitem k v c = c\<lparr>ctx_set := ctx_set c + 1, ctx_setters := ctx_setters c @ [(k, v)]\<rparr>"

text \<open>\<^verbatim>\<open>set_result\<close> of a future that is done raises.\<close>

definition future_set_result :: "nat \<Rightarrow> 'v \<Rightarrow> ('k, 'v) Context \<Rightarrow> ('k, 'v) Context result" where
  "future_set_result i v c =
     (if ctx_futures c ! i \<noteq> Pending then Inl InvalidStateError
      else Inr (c\<lparr>ctx_futures := (ctx_futures c)[i := Resolved (Inr v)]\<rparr>))"

definition setter :: "'k \<Rightarrow> 'v \<Rightarrow> ('k, 'v) Context \<Rightarrow> ('k, 'v) Context result" where
  "setter k v c =
     (let (i, c1) = storage_item k c;
          c2 = (if ctx_futures c1 ! i \<noteq> Pending
                then c1\<lparr>ctx_storage := (ctx_storage c1)(k := None)\<rparr> else c1);
          (j, c3) = storage_item k c2
      in future_set_result j v c3)"

definition context_close :: "('k, 'v) Context \<Rightarrow> ('k, 'v) Context" where
  "context_close c = c\<lparr>ctx_storage := Map.empty\<rparr>"

text \<open>
  What happens to a context: it is read, written, the event loop runs the next setter, a future
  is cancelled by somebody who waited for it, and the context is closed.
\<close>

inductive context_step :: "('k, 'v) Context \<Rightarrow> ('k, 'v) Context \<Rightarrow> bool" where
  "context_step c (snd (context_getitem k c))"
| "context_step c (context_setitem k v c)"
| "ctx_setters c = (k, v) # q \<Longrightarrow> setter k v (c\<lparr>ctx_setters := q\<rparr>) = Inr c' \<Longrightarrow> context_step c c'"
| "i < length (ctx_futures c) \<Longrightarrow> ctx_futures c ! i = Pending \<Longrightarrow>
     context_step c (c\<lparr>ctx_futures := (ctx_futures c)[i := Resolved (Inl CancelledError)]\<rparr>)"
| "context_step c (context_close c)"

text \<open>\<^verbatim>\<open>get_context\<close> looks the context of a loop up.\<close>

definition get_context :: "bool \<Rightarrow> 'l \<Rightarrow> ('l \<rightharpoonup> 'c) \<Rightarrow> 'c result" where
  "get_context is_closed loop event_objects =
     (if is_closed then Inl (RuntimeError ''event loop is closed'')
      else case event_objects loop of None \<Rightarrow> Inl (KeyError ''loop'') | Some c \<Rightarrow> Inr c)"

section \<open>Services\<close>

text \<open>\<^verbatim>\<open>ServiceMeta.__new__\<close>: the class of a service is refused when a required method is no coroutine.\<close>

definition ServiceMeta_new ::
  "string \<Rightarrow> string list \<Rightarrow> (string \<Rightarrow> bool) \<Rightarrow> string list result" where
  "ServiceMeta_new name async_required is_coroutine_function =
     (if \<forall>m \<in> set async_required. is_coroutine_function m then Inr (remdups async_required)
      else Inl (TypeError ''Following methods must be coroutine functions''))"

text \<open>
  A service: its parameters, its attributes, and the two private attributes that \<^verbatim>\<open>__init__\<close>
  makes (\<^const>\<open>None\<close> when there is no such attribute): the context and the start event.
\<close>

record 'v Service =
  sv_instance_params :: "string \<rightharpoonup> 'v"
  sv_attributes :: "string \<rightharpoonup> 'v"
  sv_start_event :: "bool option option"
  sv_context :: "nat option option"
  sv_loop :: bool

definition Service_new :: "'v Service" where
  "Service_new = \<lparr>sv_instance_params = Map.empty, sv_attributes = Map.empty, sv_start_event = None,
     sv_context = None, sv_loop = False\<rparr>"

definition service_setattr :: "string \<Rightarrow> 'v \<Rightarrow> 'v Service \<Rightarrow> 'v Service" where
  "service_setattr key value s =
     (let s1 = s\<lparr>sv_attributes := (sv_attributes s)(key \<mapsto> value)\<rparr>
      in if sv_instance_params s1 key \<noteq> None
         then s1\<lparr>sv_instance_params := (sv_instance_params s1)(key \<mapsto> value)\<rparr> else s1)"

text \<open>Looking an attribute up: the attributes first, then \<^verbatim>\<open>__getattr__\<close>.\<close>

definition service_getattr :: "string \<Rightarrow> 'v Service \<Rightarrow> 'v result" where
  "service_getattr key s =
     (case sv_attributes s key of
        Some v \<Rightarrow> Inr v
      | None \<Rightarrow> (case sv_instance_params s key of
                   Some v \<Rightarrow> Inr v | None \<Rightarrow> Inl (AttributeError key)))"

definition set_params :: "(string \<times> 'v) list \<Rightarrow> 'v Service \<Rightarrow> 'v Service" where
  "set_params kwargs s =
     fold (\<lambda>(name, value). service_setattr name value) kwargs
       (s\<lparr>sv_instance_params := map_of kwargs\<rparr>)"

definition Service_init ::
  "string list \<Rightarrow> (string \<times> 'v) list \<Rightarrow> 'v Service \<Rightarrow> 'v Service result" where
  "Service_init required kwargs s =
     (if \<exists>k \<in> set required. k \<notin> set (map fst kwargs)
      then Inl (AttributeError ''Absent attributes'')
      else Inr ((set_params kwargs s)\<lparr>sv_context := Some None, sv_start_event := Some None\<rparr>))"

definition start_event :: "'v Service \<Rightarrow> bool result" where
  "start_event s =
     (case sv_start_event s of
        None \<Rightarrow> Inl (AttributeError ''start_event'')
      | Some None \<Rightarrow> Inl (RuntimeError [])
      | Some (Some ev) \<Rightarrow> Inr ev)"

text \<open>The property \<^verbatim>\<open>context\<close> asks \<^verbatim>\<open>get_context()\<close> once, whose result is given here.\<close>

definition service_context :: "nat result \<Rightarrow> 'v Service \<Rightarrow> (nat \<times> 'v Service) result" where
  "service_context current s =
     (case sv_context s of
        None \<Rightarrow> Inl (AttributeError ''context'')
      | Some None \<Rightarrow> bind_result current (\<lambda>c. Inr (c, s\<lparr>sv_context := Some (Some c)\<rparr>))
      | Some (Some c) \<Rightarrow> Inr (c, s))"

definition set_loop :: "'v Service \<Rightarrow> 'v Service" where
  "set_loop s = s\<lparr>sv_loop := True, sv_start_event := Some (Some False)\<rparr>"

definition getstate :: "'v Service \<Rightarrow> (string \<rightharpoonup> 'v)" where
  "getstate s = sv_instance_params s"

text \<open>\<^verbatim>\<open>__setstate__\<close> on a new object, from the items of the state.\<close>

definition setstate :: "(string \<times> 'v) list \<Rightarrow> 'v Service \<Rightarrow> 'v Service" where
  "setstate state s = set_params state s"

section \<open>Services with tasks\<close>

record TaskStore =
  ts_tasks :: "nat list"
  ts_server_closed :: "bool option"

definition create_task :: "TaskStore \<Rightarrow> unit fstore \<Rightarrow> TaskStore \<times> unit fstore" where
  "create_task s fs =
     (s\<lparr>ts_tasks := ts_tasks s @ [length fs]\<rparr>,
      fs @ [\<lparr>f_kind = Task, f_state = Pending, f_cancelling = False\<rparr>])"

text \<open>A task ends and its done callback runs.\<close>

definition store_task_done :: "nat \<Rightarrow> unit result \<Rightarrow> TaskStore \<Rightarrow> unit fstore \<Rightarrow> TaskStore \<times> unit fstore"
  where
  "store_task_done t r s fs =
     (s\<lparr>ts_tasks := removeAll t (ts_tasks s)\<rparr>, fs[t := (fs ! t)\<lparr>f_state := Resolved r\<rparr>])"

text \<open>\<^verbatim>\<open>TaskStoreBase.stop\<close> up to its await: the tasks it waits for.\<close>

definition task_store_stop :: "TaskStore \<Rightarrow> unit fstore \<Rightarrow> nat list \<times> unit fstore" where
  "task_store_stop s fs = cancel_tasks (ts_tasks s) fs"

text \<open>\<^verbatim>\<open>SimpleServer.stop\<close> after that.\<close>

definition simple_server_close :: "TaskStore \<Rightarrow> TaskStore" where
  "simple_server_close s =
     (case ts_server_closed s of None \<Rightarrow> s | Some _ \<Rightarrow> s\<lparr>ts_server_closed := Some True\<rparr>)"

section \<open>Stopping a service with tasks\<close>

text \<open>The tasks of the store are the unfinished tasks it created.\<close>

definition task_store_inv :: "TaskStore \<Rightarrow> unit fstore \<Rightarrow> bool" where
  "task_store_inv s fs \<longleftrightarrow>
     (\<forall>t \<in> set (ts_tasks s). t < length fs \<and> f_kind (fs ! t) = Task \<and> \<not> f_done (fs ! t))"

lemma task_store_inv_create:
  "task_store_inv s fs \<Longrightarrow> create_task s fs = (s', fs') \<Longrightarrow> task_store_inv s' fs'"
  by (auto simp: task_store_inv_def create_task_def f_done_def nth_append less_Suc_eq)

lemma task_store_inv_done:
  assumes "task_store_inv s fs" "store_task_done t r s fs = (s', fs')"
  shows "task_store_inv s' fs'"
  using assms by (auto simp: task_store_inv_def store_task_done_def f_done_def nth_list_update)

text \<open>\<^verbatim>\<open>stop\<close> cancels all of them and waits for all of them.\<close>

lemma task_store_stop_all:
  assumes "task_store_inv s fs" "task_store_stop s fs = (ts, fs')"
  shows "set ts = set (ts_tasks s) \<and> (\<forall>t \<in> set (ts_tasks s). f_cancelling (fs' ! t)) \<and>
    task_store_inv s fs'"
proof -
  have e: "set_exception CancelledError (ts_tasks s) fs = (ts, fs')"
    using assms(2) by (simp add: task_store_stop_def cancel_tasks_def split: if_splits)
  have "\<forall>i \<in> set (ts_tasks s). i < length fs" using assms(1) by (simp add: task_store_inv_def)
  from set_exception_store [OF this e] assms(1) show ?thesis
    by (auto simp: task_store_inv_def cancelled_object_def f_done_def)
qed

lemma service_context_cached:
  "service_context current s = Inr (c, s') \<Longrightarrow> service_context other s' = Inr (c, s')"
  by (auto simp: service_context_def bind_result_Inr_iff split: option.splits)

section \<open>Signals keep their receivers once frozen\<close>

lemma frozen_signal:
  "sig_frozen s \<Longrightarrow> (\<exists>e. connect co f s = Inl e) \<and> (\<exists>e. disconnect f s = Inl e)"
  by (simp add: connect_def disconnect_def)

lemma connect_receivers:
  "connect co f s = Inr s' \<Longrightarrow>
     co f \<and> set (sig_receivers s') = insert f (set (sig_receivers s)) \<and>
     (distinct (sig_receivers s) \<longrightarrow> distinct (sig_receivers s'))"
  by (auto simp: connect_def split: if_splits)

lemma disconnect_receivers:
  "disconnect f s = Inr s' \<Longrightarrow> set (sig_receivers s') = set (sig_receivers s) - {f}"
  by (auto simp: disconnect_def split: if_splits)

lemma copy_of_frozen: "co f \<Longrightarrow> \<exists>s'. connect co f (signal_copy (freeze s)) = Inr s'"
  by (simp add: connect_def signal_copy_def)

text \<open>A call runs the receivers in order and stops at the first exception.\<close>

lemma call_receivers_prefix:
  assumes "call_receivers run fs = (called, r)"
  shows "(\<exists>rest. fs = called @ rest) \<and>
    (r = Inr () \<longrightarrow> called = fs \<and> (\<forall>f \<in> set fs. run f = Inr ())) \<and>
    (\<forall>e. r = Inl e \<longrightarrow> called \<noteq> [] \<and> run (last called) = Inl e \<and>
       (\<forall>f \<in> set (butlast called). run f = Inr ()))"
  using assms
proof (induction fs arbitrary: called r)
  case Nil
  then show ?case by auto
next
  case (Cons f fs)
  show ?case
  proof (cases "run f")
    case (Inl e)
    with Cons.prems show ?thesis by auto
  next
    case (Inr u)
    with Cons.prems obtain called' where *: "call_receivers run fs = (called', r)" "called = f # called'"
      by (auto split: prod.splits)
    from Cons.IH [OF *(1)] *(2) Inr show ?thesis by (cases called') auto
  qed
qed

section \<open>Context: values reach those who wait for them\<close>

definition context_inv :: "('k, 'v) Context \<Rightarrow> bool" where
  "context_inv c \<longleftrightarrow>
     (\<forall>k i. ctx_storage c k = Some i \<longrightarrow> i < length (ctx_futures c)) \<and>
     (\<forall>k k' i. ctx_storage c k = Some i \<longrightarrow> ctx_storage c k' = Some i \<longrightarrow> k = k')"

lemma context_inv_init: "context_inv Context_init"
  by (simp add: context_inv_def Context_init_def)

lemma context_inv_bound: "context_inv c \<Longrightarrow> ctx_storage c k = Some i \<Longrightarrow> i < length (ctx_futures c)"
  by (simp add: context_inv_def)

lemma context_inv_storage_item:
  assumes "context_inv c"
  shows "context_inv (snd (storage_item k c))"
  using assms
  by (auto simp: context_inv_def storage_item_def less_Suc_eq dest: less_imp_neq
      split: option.splits)

lemma context_inv_cong:
  "ctx_storage c' = ctx_storage c \<Longrightarrow> length (ctx_futures c') = length (ctx_futures c) \<Longrightarrow>
     context_inv c' = context_inv c"
  by (simp add: context_inv_def)

lemma context_inv_forget:
  "context_inv c \<Longrightarrow> context_inv (c\<lparr>ctx_storage := (ctx_storage c)(k := None)\<rparr>)"
  by (auto simp: context_inv_def)

text \<open>What a setter does: a pending future of the key is resolved, otherwise a new one is made.\<close>

lemma setter_pending:
  assumes "ctx_storage c k = Some i" "ctx_futures c ! i = Pending"
  shows "setter k v c = Inr (c\<lparr>ctx_futures := (ctx_futures c)[i := Resolved (Inr v)]\<rparr>)"
  using assms by (simp add: setter_def storage_item_def future_set_result_def)

lemma setter_fresh:
  assumes "\<forall>i. ctx_storage c k = Some i \<longrightarrow> ctx_futures c ! i \<noteq> Pending"
  shows "setter k v c =
    Inr (c\<lparr>ctx_storage := (ctx_storage c)(k \<mapsto> length (ctx_futures c)),
           ctx_futures := ctx_futures c @ [Resolved (Inr v)]\<rparr>)"
  using assms
  by (cases "ctx_storage c k") (simp_all add: setter_def storage_item_def future_set_result_def)

lemma context_inv_setter:
  assumes "context_inv c" "setter k v c = Inr c'"
  shows "context_inv c'"
proof (cases "\<exists>i. ctx_storage c k = Some i \<and> ctx_futures c ! i = Pending")
  case True
  with assms show ?thesis by (auto simp: setter_pending context_inv_def)
next
  case False
  then have "c' = c\<lparr>ctx_storage := (ctx_storage c)(k \<mapsto> length (ctx_futures c)),
      ctx_futures := ctx_futures c @ [Resolved (Inr v)]\<rparr>"
    using assms(2) by (simp add: setter_fresh)
  with assms(1) show ?thesis
    by (auto simp: context_inv_def less_Suc_eq dest: less_imp_neq)
qed

lemma context_step_inv: "context_step c c' \<Longrightarrow> context_inv c \<Longrightarrow> context_inv c'"
proof (induction rule: context_step.induct)
  case (1 c k)
  then show ?case
    unfolding context_getitem_def
    by (intro context_inv_storage_item) (simp add: context_inv_def)
next
  case (3 c k v q c')
  then have "context_inv (c\<lparr>ctx_setters := q\<rparr>)" by (simp add: context_inv_def)
  with 3 show ?case by (blast intro: context_inv_setter)
qed (auto simp: context_inv_def context_setitem_def context_close_def)

interpretation ctx: invariant_system "\<lambda>c. c = Context_init" context_step context_inv
  by unfold_locales (auto simp: context_inv_init context_step_inv)

text \<open>What a setter does to the key and to the others.\<close>

lemma setter_effect:
  assumes inv: "context_inv c"
  shows "\<exists>c'. setter k v c = Inr c' \<and>
    (\<exists>i. ctx_storage c' k = Some i \<and> ctx_futures c' ! i = Resolved (Inr v) \<and>
         fst (context_getitem k c') = i) \<and>
    (\<forall>i. ctx_storage c k = Some i \<and> ctx_futures c ! i = Pending \<longrightarrow>
         ctx_futures c' ! i = Resolved (Inr v)) \<and>
    (\<forall>i < length (ctx_futures c). ctx_futures c ! i \<noteq> Pending \<longrightarrow>
         ctx_futures c' ! i = ctx_futures c ! i) \<and>
    (\<forall>k'. k' \<noteq> k \<longrightarrow> ctx_storage c' k' = ctx_storage c k' \<and>
         (\<forall>i. ctx_storage c k' = Some i \<longrightarrow> ctx_futures c' ! i = ctx_futures c ! i))"
proof (cases "\<exists>i. ctx_storage c k = Some i \<and> ctx_futures c ! i = Pending")
  case True
  then obtain i where i: "ctx_storage c k = Some i" "ctx_futures c ! i = Pending" by blast
  have "i < length (ctx_futures c)" using inv i(1) by (rule context_inv_bound)
  moreover have "j \<noteq> i" if "ctx_storage c k' = Some j" "k' \<noteq> k" for j k'
    using inv i(1) that by (auto simp: context_inv_def)
  ultimately show ?thesis
    using i by (auto simp: setter_pending context_getitem_def storage_item_def nth_list_update)
next
  case False
  then have "setter k v c = Inr (c\<lparr>ctx_storage := (ctx_storage c)(k \<mapsto> length (ctx_futures c)),
      ctx_futures := ctx_futures c @ [Resolved (Inr v)]\<rparr>)"
    by (intro setter_fresh) blast
  then show ?thesis
    using False inv
    by (auto simp: context_getitem_def storage_item_def nth_append dest: context_inv_bound)
qed

text \<open>
  In every state of a context, setting a key never fails; afterwards the key holds the value,
  everybody who waited for the key (its future was pending) gets that value, and no finished
  future and no other key changes.
\<close>

theorem context_set_get:
  assumes "reachable (\<lambda>c. c = Context_init) context_step c"
  shows "\<exists>c'. setter k v c = Inr c' \<and>
    (\<exists>i. ctx_storage c' k = Some i \<and> ctx_futures c' ! i = Resolved (Inr v) \<and>
         fst (context_getitem k c') = i) \<and>
    (\<forall>i. ctx_storage c k = Some i \<and> ctx_futures c ! i = Pending \<longrightarrow>
         ctx_futures c' ! i = Resolved (Inr v)) \<and>
    (\<forall>i < length (ctx_futures c). ctx_futures c ! i \<noteq> Pending \<longrightarrow>
         ctx_futures c' ! i = ctx_futures c ! i) \<and>
    (\<forall>k'. k' \<noteq> k \<longrightarrow> ctx_storage c' k' = ctx_storage c k' \<and>
         (\<forall>i. ctx_storage c k' = Some i \<longrightarrow> ctx_futures c' ! i = ctx_futures c ! i))"
  by (rule setter_effect [OF ctx.reachable_inv [OF assms]])

theorem context_set_get_witness:
  "\<exists>c'. setter ''k'' (5::nat) (snd (context_getitem ''k'' Context_init)) = Inr c' \<and>
     ctx_futures c' ! 0 = Resolved (Inr 5)"
proof -
  let ?c = "snd (context_getitem ''k'' (Context_init :: (string, nat) Context))"
  have "reachable (\<lambda>c. c = Context_init) context_step ?c"
    by (rule reach_step [OF reach_init]) (auto intro: context_step.intros)
  from context_set_get [OF this, of "''k''" 5] obtain c' where
    "setter ''k'' 5 ?c = Inr c'" and
    "\<forall>i. ctx_storage ?c ''k'' = Some i \<and> ctx_futures ?c ! i = Pending \<longrightarrow>
       ctx_futures c' ! i = Resolved (Inr 5)" by blast
  moreover have "ctx_storage ?c ''k'' = Some 0 \<and> ctx_futures ?c ! 0 = Pending"
    by (simp add: context_getitem_def storage_item_def Context_init_def)
  ultimately show ?thesis by blast
qed

text \<open>The context of a closed loop, or of one without an entrypoint, is refused.\<close>

lemma get_context_result:
  "get_context is_closed l objs = Inr c \<longleftrightarrow> \<not> is_closed \<and> objs l = Some c"
  by (auto simp: get_context_def split: option.splits)

lemma scv_get_set: "scv_get (scv_set (Some x) v) = Inr x"
    and scv_get_init: "scv_get (StrictContextVar_init e) = Inl e"
  by (simp_all add: scv_get_def scv_set_def StrictContextVar_init_def)

lemma set_current_loop_both:
  "scv_get (fst (set_current_loop l v)) = Inr l \<and> scv_get (snd (set_current_loop l v)) = Inr l"
  by (simp add: set_current_loop_def scv_get_set)

section \<open>Parameters of services\<close>

definition params_visible :: "'v Service \<Rightarrow> bool" where
  "params_visible s \<longleftrightarrow>
     (\<forall>k v. sv_instance_params s k = Some v \<longrightarrow> service_getattr k s = Inr v)"

lemma service_setattr_params:
  "sv_instance_params (service_setattr k v s) =
     (if sv_instance_params s k \<noteq> None then (sv_instance_params s)(k \<mapsto> v) else sv_instance_params s)"
  by (simp add: service_setattr_def Let_def)

lemma service_setattr_attributes [simp]:
  "sv_attributes (service_setattr k v s) = (sv_attributes s)(k \<mapsto> v)"
  by (simp add: service_setattr_def Let_def)

lemma service_setattr_get:
  "service_getattr k' (service_setattr k v s) = (if k' = k then Inr v else service_getattr k' s)"
  by (auto simp: service_getattr_def service_setattr_params split: option.splits)

lemma params_visible_setattr: "params_visible s \<Longrightarrow> params_visible (service_setattr k v s)"
  by (auto simp: params_visible_def service_setattr_get service_setattr_params split: if_splits)

lemma fold_setattr_params:
  assumes "dom (sv_instance_params s) = fst ` set all_kws" "set kws \<subseteq> set all_kws"
    and "distinct (map fst all_kws)" "sv_instance_params s = map_of all_kws"
  shows "sv_instance_params (fold (\<lambda>(name, value). service_setattr name value) kws s) = map_of all_kws"
  using assms(2,4)
proof (induction kws arbitrary: s)
  case Nil
  then show ?case by simp
next
  case (Cons kv kws)
  obtain k v where kv: "kv = (k, v)" by fastforce
  with Cons.prems assms(3) have "map_of all_kws k = Some v" by (simp add: map_of_eq_Some_iff)
  with Cons.prems have "sv_instance_params (service_setattr k v s) = map_of all_kws"
    by (auto simp: service_setattr_params)
  with Cons kv show ?case by simp
qed

lemma fold_setattr_attributes:
  "sv_attributes (fold (\<lambda>(name, value). service_setattr name value) kws s) =
     sv_attributes s ++ map_of (rev kws)"
proof (induction kws arbitrary: s)
  case Nil
  then show ?case by simp
next
  case (Cons kv kws)
  then show ?case by (cases kv) (auto simp: map_add_def fun_eq_iff split: option.splits)
qed

lemma set_params_effect:
  assumes "distinct (map fst kwargs)"
  shows "sv_instance_params (set_params kwargs s) = map_of kwargs"
    and "sv_attributes (set_params kwargs s) = sv_attributes s ++ map_of kwargs"
proof -
  show "sv_instance_params (set_params kwargs s) = map_of kwargs"
    unfolding set_params_def
    by (rule fold_setattr_params [OF _ _ assms]) (auto simp: dom_map_of_conv_image_fst)
  have "map_of (rev kwargs) = map_of kwargs"
    using assms by (subst map_of_inject_set) (simp_all add: rev_map [symmetric])
  then show "sv_attributes (set_params kwargs s) = sv_attributes s ++ map_of kwargs"
    by (simp add: set_params_def fold_setattr_attributes)
qed

lemma set_params_visible:
  "distinct (map fst kwargs) \<Longrightarrow> params_visible (set_params kwargs s)"
  by (simp add: params_visible_def service_getattr_def set_params_effect map_add_Some_iff)

text \<open>A run of assignments to attributes of a service.\<close>

definition assign_all :: "(string \<times> 'v) list \<Rightarrow> 'v Service \<Rightarrow> 'v Service" where
  "assign_all kvs s = fold (\<lambda>(k, v). service_setattr k v) kvs s"

lemma params_visible_assign_all: "params_visible s \<Longrightarrow> params_visible (assign_all kvs s)"
  unfolding assign_all_def
  by (induction kvs arbitrary: s) (auto intro: params_visible_setattr)

text \<open>
  A service is made exactly when every required parameter is given. After any assignments to
  its attributes each parameter still reads the same from the attributes and from the stored
  parameters, and a copy made from its pickled state has the same parameters.
\<close>

theorem service_parameters:
  assumes "distinct (map fst kwargs)"
  shows "((\<exists>s. Service_init required kwargs Service_new = Inr s) \<longleftrightarrow> set required \<subseteq> fst ` set kwargs) \<and>
    (\<forall>s kvs state. Service_init required kwargs Service_new = Inr s \<and>
       distinct (map fst state) \<and> map_of state = getstate (assign_all kvs s) \<longrightarrow>
       (\<forall>k \<in> fst ` set kwargs. \<exists>v. getstate (assign_all kvs s) k = Some v \<and>
          service_getattr k (assign_all kvs s) = Inr v \<and>
          service_getattr k (setstate state Service_new) = Inr v) \<and>
       getstate (setstate state Service_new) = getstate (assign_all kvs s))"
proof -
  have exists: "(\<exists>s. Service_init required kwargs Service_new = Inr s) \<longleftrightarrow>
      set required \<subseteq> fst ` set kwargs"
    by (auto simp: Service_init_def)
  have dom: "dom (sv_instance_params (assign_all kvs s)) = dom (sv_instance_params s)" for kvs s
    unfolding assign_all_def
    by (induction kvs arbitrary: s) (auto simp: service_setattr_params split: if_splits)
  have same: "getstate (setstate state Service_new) = getstate (assign_all kvs s)"
    if "distinct (map fst state)" "map_of state = getstate (assign_all kvs s)" for s kvs state
    using that by (simp add: setstate_def getstate_def set_params_effect)
  have "\<exists>v. getstate (assign_all kvs s) k = Some v \<and>
          service_getattr k (assign_all kvs s) = Inr v \<and>
          service_getattr k (setstate state Service_new) = Inr v"
    if s: "Service_init required kwargs Service_new = Inr s" and k: "k \<in> fst ` set kwargs"
      and st: "distinct (map fst state)" "map_of state = getstate (assign_all kvs s)"
    for s kvs state k
  proof -
    have params: "sv_instance_params s = map_of kwargs" "params_visible s"
      using s set_params_visible [OF assms, of Service_new]
      by (auto simp: Service_init_def set_params_effect [OF assms] params_visible_def
          service_getattr_def split: if_splits)
    then have "k \<in> dom (sv_instance_params (assign_all kvs s))"
      using k by (simp add: dom dom_map_of_conv_image_fst)
    then obtain v where "sv_instance_params (assign_all kvs s) k = Some v" by blast
    with same [OF st] show ?thesis
      using params_visible_assign_all [OF params(2), of kvs] set_params_visible [OF st(1), of Service_new]
      by (simp add: params_visible_def getstate_def setstate_def)
  qed
  with exists same show ?thesis by blast
qed

theorem service_parameters_witness:
  "service_getattr ''port''
     (setstate [(''port'', 81::nat)] Service_new) = Inr 81 \<and>
   set [''port''] \<subseteq> fst ` set [(''port'', 80::nat)]"
proof -
  let ?s = "(set_params [(''port'', 80::nat)] Service_new)\<lparr>sv_context := Some None, sv_start_event := Some None\<rparr>"
  have "Service_init [''port''] [(''port'', 80)] Service_new = Inr ?s"
    by (simp add: Service_init_def)
  moreover have st: "getstate (assign_all [(''port'', 81)] ?s) = map_of [(''port'', 81)]"
    by (simp add: getstate_def assign_all_def set_params_def service_setattr_def Service_new_def)
  moreover have "distinct (map fst [(''port'', 80::nat)])" by simp
  note all = service_parameters [OF this, of "[''port'']", THEN conjunct2, THEN spec, of ?s,
      THEN spec, of "[(''port'', 81)]", THEN spec, of "[(''port'', 81)]", THEN mp]
  ultimately have "\<forall>k \<in> fst ` set [(''port'', 80::nat)].
      \<exists>v. getstate (assign_all [(''port'', 81)] ?s) k = Some v \<and>
        service_getattr k (setstate [(''port'', 81)] Service_new) = Inr v"
    by (intro ballI) (use all in auto)
  then show ?thesis using st by simp
qed

end
