(* ===== verification/Entrypoint.thy ===== *)
theory Entrypoint
  imports ServiceBase
begin

text \<open>
  The entrypoint of \<^verbatim>\<open>aiomisc/entrypoint.py\<close>: its configuration, the concurrent start of a group
  of services with its failure path, and the shutdown.

  The services of one entrypoint are numbered. The start of a group is a transition system: each
  \<^verbatim>\<open>_start_service\<close> is a phase per service, and the steps are what the event loop may do next. The
  shutdown is a function of what the \<^verbatim>\<open>stop\<close> methods and the receivers of the signals do and of the
  order in which the \<^verbatim>\<open>stop\<close> tasks end.
\<close>

section \<open>Environment variables\<close>

definition get_env_bool :: "string option \<Rightarrow> string \<Rightarrow> bool" where
  "get_env_bool value default_value =
     (py_lower (case value of None \<Rightarrow> default_value | Some v \<Rightarrow> v)
        \<in> {''1'', ''enable'', ''enabled'', ''on'', ''true'', ''yes''})"

definition get_env_convert :: "string option \<Rightarrow> (string \<Rightarrow> 'a result) \<Rightarrow> 'a \<Rightarrow> 'a result" where
  "get_env_convert value converter default_value =
     (case value of None \<Rightarrow> Inr default_value | Some v \<Rightarrow> converter v)"

section \<open>Signal handlers of the process\<close>

text \<open>The handlers of the process, by signal number, as opaque numbers.\<close>

type_synonym sigtable = "int \<Rightarrow> nat"

record OSSignalHandler =
  oh_default_handler :: nat
  oh_signal :: int

definition OSSignalHandler_init :: "sigtable \<Rightarrow> int \<Rightarrow> OSSignalHandler" where
  "OSSignalHandler_init tab sig = \<lparr>oh_default_handler = tab sig, oh_signal = sig\<rparr>"

definition handler_apply :: "nat \<Rightarrow> OSSignalHandler \<Rightarrow> sigtable \<Rightarrow> sigtable" where
  "handler_apply callback h tab = tab(oh_signal h := callback)"

definition handler_restore :: "OSSignalHandler \<Rightarrow> sigtable \<Rightarrow> sigtable" where
  "handler_restore h tab = tab(oh_signal h := oh_default_handler h)"

section \<open>The entrypoint\<close>

datatype ep_event = PreStart | PostStart | PreStop | PostStop | CancelStartTasks "nat list"
  | StopCalled nat | StopCancelled nat | BackgroundCancelled | AsyncgensShutdown
  | ExecutorShutdown | RunnerClosed

record Entrypoint =
  ep_passed_services :: "nat list option"
  ep_services :: "nat list"
  ep_tasks :: "nat list"
  ep_loop :: bool
  ep_loop_owner :: bool
  ep_runner :: bool
  ep_thread_pool :: bool
  ep_ctx :: bool
  ep_closing :: bool
  ep_frozen :: bool
  ep_handlers :: "OSSignalHandler list"
  ep_sigtable :: sigtable
  ep_log :: "ep_event list"

text \<open>\<^verbatim>\<open>SIGINT\<close> and \<^verbatim>\<open>SIGTERM\<close>.\<close>

definition default_signals :: "int list" where
  "default_signals = [2, 15]"

definition Entrypoint_init ::
  "nat list \<Rightarrow> bool \<Rightarrow> int list option \<Rightarrow> bool \<Rightarrow> sigtable \<Rightarrow> Entrypoint" where
  "Entrypoint_init services loop_given catch_signals is_main_thread tab =
     (let signals = (if catch_signals = None \<and> is_main_thread then Some default_signals
                     else catch_signals)
      in \<lparr>ep_passed_services = Some services, ep_services = [], ep_tasks = [],
          ep_loop = loop_given, ep_loop_owner = False, ep_runner = False, ep_thread_pool = False,
          ep_ctx = False, ep_closing = False, ep_frozen = False,
          ep_handlers = map (OSSignalHandler_init tab) (case signals of None \<Rightarrow> [] | Some l \<Rightarrow> l),
          ep_sigtable = tab, ep_log = []\<rparr>)"

text \<open>The property \<^verbatim>\<open>loop\<close>: without a loop the entrypoint makes a runner and owns its loop.\<close>

definition loop_property :: "Entrypoint \<Rightarrow> Entrypoint" where
  "loop_property e =
     (if \<not> ep_loop e
      then e\<lparr>ep_runner := True, ep_loop := True, ep_loop_owner := True, ep_thread_pool := True\<rparr>
      else e)"

definition logged :: "ep_event list \<Rightarrow> Entrypoint \<Rightarrow> Entrypoint" where
  "logged evs e = e\<lparr>ep_log := ep_log e @ evs\<rparr>"

section \<open>Starting services\<close>

text \<open>
  Where \<^verbatim>\<open>_start_service\<close> is: not begun, waiting for the start task or the start event, left with
  the start task running in the background, left with the start task done, joining the cancelled
  start task, or failed.
\<close>

datatype phase = NotStarted | Starting | Up | Returned | Joining pyexc | Failed pyexc

text \<open>Where \<^verbatim>\<open>start_services\<close> is: gathering, joining the cancelled group, or left.\<close>

datatype group = Gathering | GroupJoining pyexc | Ready | Raised pyexc

record startup =
  su_ep :: Entrypoint
  su_phases :: "phase list"
  su_group :: group

text \<open>
  Up to the gather: an exception of a \<^verbatim>\<open>PRE_START\<close> receiver leaves before anything is started.
\<close>

definition start_services :: "unit result \<Rightarrow> nat \<Rightarrow> Entrypoint \<Rightarrow> startup result" where
  "start_services pre n e =
     (case pre of
        Inl exc \<Rightarrow> Inl exc
      | Inr _ \<Rightarrow> Inr \<lparr>su_ep = logged [PreStart] e, su_phases = replicate n NotStarted,
                       su_group = Gathering\<rparr>)"

definition set_phase :: "nat \<Rightarrow> phase \<Rightarrow> startup \<Rightarrow> startup" where
  "set_phase i p s = s\<lparr>su_phases := (su_phases s)[i := p]\<rparr>"

text \<open>\<^verbatim>\<open>_start_service\<close> begins: the service is added before its start task runs.\<close>

definition service_begin :: "nat \<Rightarrow> startup \<Rightarrow> startup" where
  "service_begin i s =
     (set_phase i Starting s)
       \<lparr>su_ep := (su_ep s)\<lparr>ep_services := List.insert i (ep_services (su_ep s))\<rparr>\<rparr>"

text \<open>The start task ends before the service reported that it is ready.\<close>

definition start_finished :: "nat \<Rightarrow> unit result \<Rightarrow> startup \<Rightarrow> startup" where
  "start_finished i r s =
     set_phase i (case r of Inr _ \<Rightarrow> Returned | Inl exc \<Rightarrow> Failed exc) s"

text \<open>The service sets its start event while the start task goes on.\<close>

definition start_ready :: "nat \<Rightarrow> startup \<Rightarrow> startup" where
  "start_ready i s =
     (set_phase i Up s)\<lparr>su_ep := (su_ep s)\<lparr>ep_tasks := List.insert i (ep_tasks (su_ep s))\<rparr>\<rparr>"

text \<open>A start task that runs in the background ends; the weak set forgets it.\<close>

definition background_ends :: "nat \<Rightarrow> startup \<Rightarrow> startup" where
  "background_ends i s =
     (set_phase i Returned s)\<lparr>su_ep := (su_ep s)\<lparr>ep_tasks := removeAll i (ep_tasks (su_ep s))\<rparr>\<rparr>"

text \<open>
  The gather raises: the unfinished starts are cancelled. One that has not begun never runs, one
  that waits cancels its start task and joins it.
\<close>

fun cancel_phase :: "phase \<Rightarrow> phase" where
  "cancel_phase NotStarted = Failed CancelledError"
| "cancel_phase Starting = Joining CancelledError"
| "cancel_phase p = p"

definition group_fails :: "pyexc \<Rightarrow> startup \<Rightarrow> startup" where
  "group_fails exc s =
     s\<lparr>su_phases := map cancel_phase (su_phases s), su_group := GroupJoining exc\<rparr>"

text \<open>The cancelled start task of a service has ended, whatever its outcome.\<close>

definition join_ends :: "nat \<Rightarrow> pyexc \<Rightarrow> startup \<Rightarrow> startup" where
  "join_ends i exc s = set_phase i (Failed exc) s"

text \<open>\<^verbatim>\<open>start_services\<close> ends, after the \<^verbatim>\<open>POST_START\<close> receivers.\<close>

definition group_ends :: "group \<Rightarrow> startup \<Rightarrow> startup" where
  "group_ends g s = s\<lparr>su_group := g, su_ep := logged [PostStart] (su_ep s)\<rparr>"

definition settled_phase :: "phase \<Rightarrow> bool" where
  "settled_phase p \<longleftrightarrow> (case p of Up \<Rightarrow> True | Returned \<Rightarrow> True | _ \<Rightarrow> False)"

definition joining_phase :: "phase \<Rightarrow> bool" where
  "joining_phase p \<longleftrightarrow> (case p of Joining _ \<Rightarrow> True | _ \<Rightarrow> False)"

inductive startup_step :: "startup \<Rightarrow> startup \<Rightarrow> bool" where
  step_begin: "su_group s = Gathering \<Longrightarrow> i < length (su_phases s) \<Longrightarrow> su_phases s ! i = NotStarted \<Longrightarrow>
     startup_step s (service_begin i s)"
| step_finished: "i < length (su_phases s) \<Longrightarrow> su_phases s ! i = Starting \<Longrightarrow>
     startup_step s (start_finished i r s)"
| step_ready: "i < length (su_phases s) \<Longrightarrow> su_phases s ! i = Starting \<Longrightarrow>
     startup_step s (start_ready i s)"
| step_background: "i < length (su_phases s) \<Longrightarrow> su_phases s ! i = Up \<Longrightarrow>
     startup_step s (background_ends i s)"
| step_failure: "su_group s = Gathering \<Longrightarrow> Failed exc \<in> set (su_phases s) \<Longrightarrow>
     startup_step s (group_fails exc s)"
| step_cancelled: "su_group s = Gathering \<Longrightarrow> startup_step s (group_fails CancelledError s)"
| step_joined: "i < length (su_phases s) \<Longrightarrow> su_phases s ! i = Joining exc \<Longrightarrow>
     startup_step s (join_ends i exc s)"
| step_done: "su_group s = Gathering \<Longrightarrow> \<forall>p \<in> set (su_phases s). settled_phase p \<Longrightarrow>
     startup_step s (group_ends Ready s)"
| step_raised: "su_group s = GroupJoining exc \<Longrightarrow> \<forall>p \<in> set (su_phases s). \<not> joining_phase p \<Longrightarrow>
     startup_step s (group_ends (Raised exc) s)"

section \<open>Entering\<close>

text \<open>\<^verbatim>\<open>__aenter__\<close> and \<^verbatim>\<open>_start\<close> up to \<^verbatim>\<open>start_services\<close>.\<close>

definition aenter_begin :: "Entrypoint \<Rightarrow> Entrypoint" where
  "aenter_begin e = e\<lparr>ep_loop := True, ep_ctx := True, ep_frozen := True\<rparr>"

text \<open>\<^verbatim>\<open>_start\<close> after it, when the services are ready; otherwise the exception leaves.\<close>

definition aenter_end :: "nat \<Rightarrow> startup \<Rightarrow> Entrypoint result option" where
  "aenter_end callback s =
     (case su_group s of
        Ready \<Rightarrow>
          Some (Inr ((su_ep s)\<lparr>ep_passed_services := None,
            ep_sigtable := fold (handler_apply callback) (ep_handlers (su_ep s)) (ep_sigtable (su_ep s))\<rparr>))
      | Raised exc \<Rightarrow> Some (Inl exc)
      | _ \<Rightarrow> None)"

section \<open>Stopping services\<close>

text \<open>What \<^verbatim>\<open>s.stop(exc)\<close> does: give a coroutine with an outcome, give something else, or raise.\<close>

datatype stop_call = StopTask "unit result" | StopPlain | StopRaises pyexc

text \<open>The services called, those with a task, and the exception that ended the loop.\<close>

fun stop_calls :: "(nat \<Rightarrow> stop_call) \<Rightarrow> nat list \<Rightarrow> nat list \<times> nat list \<times> pyexc option" where
  "stop_calls stop [] = ([], [], None)"
| "stop_calls stop (s # svc) =
     (case stop s of
        StopRaises e \<Rightarrow>
          if isinstance_exc e ''TypeError''
          then (let (called, tasks, err) = stop_calls stop svc in (s # called, tasks, err))
          else ([s], [], Some e)
      | StopPlain \<Rightarrow> (let (called, tasks, err) = stop_calls stop svc in (s # called, tasks, err))
      | StopTask _ \<Rightarrow> (let (called, tasks, err) = stop_calls stop svc in (s # called, s # tasks, err)))"

fun stop_outcome :: "stop_call \<Rightarrow> unit result" where
  "stop_outcome (StopTask r) = r"
| "stop_outcome StopPlain = Inr ()"
| "stop_outcome (StopRaises e) = Inl e"

text \<open>
  The gather of the \<^verbatim>\<open>stop\<close> tasks in the order in which they end: the result, and the tasks that
  are not done when it raises, which \<^verbatim>\<open>cancel_tasks\<close> then cancels and joins.
\<close>

fun gather_stops :: "(nat \<Rightarrow> stop_call) \<Rightarrow> nat list \<Rightarrow> unit result \<times> nat list" where
  "gather_stops stop [] = (Inr (), [])"
| "gather_stops stop (s # order) =
     (case stop_outcome (stop s) of
        Inl e \<Rightarrow> (Inl e, order)
      | Inr _ \<Rightarrow> gather_stops stop order)"

definition stop_services ::
  "unit result \<Rightarrow> unit result \<Rightarrow> (nat \<Rightarrow> stop_call) \<Rightarrow> (nat list \<Rightarrow> nat list) \<Rightarrow> nat list \<Rightarrow> Entrypoint \<Rightarrow>
     Entrypoint \<times> unit result" where
  "stop_services pre post stop order svc e =
     (let e1 = logged [PreStop] e in
      case pre of
        Inl exc \<Rightarrow> (e1, Inl exc)
      | Inr _ \<Rightarrow>
          if svc = [] then (logged [PostStop] e1, post)
          else
            let (called, tasks, err) = stop_calls stop svc;
                (res, unfinished) =
                  (case err of
                     Some exc \<Rightarrow> (Inl exc, tasks)
                   | None \<Rightarrow> gather_stops stop (order tasks));
                e2 = logged (map StopCalled called @ map StopCancelled unfinished) e1;
                e3 = e2\<lparr>ep_services := filter (\<lambda>s. s \<notin> set svc) (ep_services e2)\<rparr>
            in (logged [PostStop] e3, bind_result post (\<lambda>_. res)))"

section \<open>Shutdown\<close>

definition graceful_shutdown ::
  "unit result \<Rightarrow> unit result \<Rightarrow> (nat \<Rightarrow> stop_call) \<Rightarrow> (nat list \<Rightarrow> nat list) \<Rightarrow> Entrypoint \<Rightarrow>
     Entrypoint \<times> unit result" where
  "graceful_shutdown pre post stop order e =
     (if ep_closing e then (e, Inr ())
      else
        let e1 = logged [CancelStartTasks (ep_tasks e)] (e\<lparr>ep_closing := True, ep_tasks := []\<rparr>);
            (e2, r) = stop_services pre post stop order (ep_services e1) e1
        in case r of
             Inl exc \<Rightarrow> (e2, Inl exc)
           | Inr _ \<Rightarrow>
               (if ep_loop_owner e2
                then logged [BackgroundCancelled, AsyncgensShutdown, ExecutorShutdown] e2
                else e2, Inr ()))"

text \<open>\<^verbatim>\<open>_stop\<close>; the last part is its \<^verbatim>\<open>finally\<close>.\<close>

definition ep_stop ::
  "bool \<Rightarrow> unit result \<Rightarrow> unit result \<Rightarrow> (nat \<Rightarrow> stop_call) \<Rightarrow> (nat list \<Rightarrow> nat list) \<Rightarrow> Entrypoint \<Rightarrow>
     Entrypoint \<times> unit result" where
  "ep_stop loop_closed pre post stop order e =
     (let e1 = e\<lparr>ep_sigtable := fold handler_restore (ep_handlers e) (ep_sigtable e)\<rparr>;
          (e2, r) = (if loop_closed then (e1, Inr ()) else graceful_shutdown pre post stop order e1);
          e3 = e2\<lparr>ep_ctx := False\<rparr>
      in (if ep_thread_pool e3 then logged [ExecutorShutdown] e3 else e3, r))"

text \<open>\<^verbatim>\<open>__exit__\<close>: the runner is closed when \<^verbatim>\<open>__aexit__\<close> has returned.\<close>

definition ep_exit ::
  "bool \<Rightarrow> unit result \<Rightarrow> unit result \<Rightarrow> (nat \<Rightarrow> stop_call) \<Rightarrow> (nat list \<Rightarrow> nat list) \<Rightarrow> Entrypoint \<Rightarrow>
     Entrypoint \<times> unit result" where
  "ep_exit loop_closed pre post stop order e =
     (let e1 = loop_property e in
      if loop_closed then (e1, Inr ())
      else
        let (e2, r) = ep_stop loop_closed pre post stop order e1
        in case r of
             Inl exc \<Rightarrow> (e2, Inl exc)
           | Inr _ \<Rightarrow>
               (if ep_loop_owner e2 \<and> ep_runner e2
                then logged [RunnerClosed] (e2\<lparr>ep_runner := False\<rparr>) else e2, Inr ()))"

text \<open>\<^verbatim>\<open>__del__\<close>.\<close>

definition ep_del :: "bool \<Rightarrow> Entrypoint \<Rightarrow> Entrypoint" where
  "ep_del loop_closed e =
     (if ep_loop e \<and> loop_closed then e
      else if ep_runner e \<and> ep_loop_owner e
      then (if ep_loop e \<and> \<not> loop_closed then logged [RunnerClosed] e else e)\<lparr>ep_runner := False\<rparr>
      else e)"

text \<open>
  \<^verbatim>\<open>_on_interrupt.on_shutdown_finish\<close>: the timer is cancelled and the loop stopped; a shutdown that
  was cancelled by its timeout ends the process with status 70.
\<close>

definition on_shutdown_finish :: "bool \<Rightarrow> bool \<times> bool \<times> int option" where
  "on_shutdown_finish cancelled = (True, True, if cancelled then Some 70 else None)"

section \<open>A group of services starts together or is joined\<close>

definition group_left :: "group \<Rightarrow> bool" where
  "group_left g \<longleftrightarrow> (case g of Ready \<Rightarrow> True | Raised _ \<Rightarrow> True | _ \<Rightarrow> False)"

definition group_phases :: "group \<Rightarrow> phase set \<Rightarrow> bool" where
  "group_phases g ps \<longleftrightarrow>
     (case g of
        Gathering \<Rightarrow> (\<forall>p \<in> ps. \<not> joining_phase p)
      | GroupJoining e \<Rightarrow> NotStarted \<notin> ps \<and> Starting \<notin> ps \<and> (e = CancelledError \<or> Failed e \<in> ps)
      | Ready \<Rightarrow> (\<forall>p \<in> ps. settled_phase p)
      | Raised e \<Rightarrow> NotStarted \<notin> ps \<and> Starting \<notin> ps \<and> (\<forall>p \<in> ps. \<not> joining_phase p) \<and>
          (e = CancelledError \<or> Failed e \<in> ps))"

definition startup_inv :: "nat \<Rightarrow> Entrypoint \<Rightarrow> startup \<Rightarrow> bool" where
  "startup_inv n e s \<longleftrightarrow>
     length (su_phases s) = n \<and>
     group_phases (su_group s) (set (su_phases s)) \<and>
     set (ep_tasks (su_ep s)) = {i. i < n \<and> su_phases s ! i = Up} \<and>
     (\<forall>i < n. su_phases s ! i = NotStarted \<or> (\<exists>x. su_phases s ! i = Failed x) \<or>
        i \<in> set (ep_services (su_ep s))) \<and>
     ep_log (su_ep s) = ep_log e @ [PreStart] @ (if group_left (su_group s) then [PostStart] else [])"

definition startup_init :: "nat \<Rightarrow> Entrypoint \<Rightarrow> startup \<Rightarrow> bool" where
  "startup_init n e s \<longleftrightarrow> ep_tasks e = [] \<and> start_services (Inr ()) n e = Inr s"

lemma startup_inv_init: "startup_init n e s \<Longrightarrow> startup_inv n e s"
  by (auto simp: startup_init_def startup_inv_def start_services_def group_phases_def joining_phase_def
      logged_def group_left_def)

lemma settled_phase_simps [simp]: "\<not> settled_phase Starting" "\<not> settled_phase (Joining x)"
  by (simp_all add: settled_phase_def)

lemmas phase_simps = settled_phase_def joining_phase_def group_left_def

text \<open>Moving one service to another phase.\<close>

lemma group_phases_update:
  assumes "group_phases g (set ps)" "i < length ps" "p \<noteq> NotStarted" "p \<noteq> Starting"
    and "\<not> joining_phase p" "g = Ready \<Longrightarrow> settled_phase p"
    and "\<not> (\<exists>x. ps ! i = Failed x)"
  shows "group_phases g (set (ps[i := p]))"
proof -
  have sub: "set (ps[i := p]) \<subseteq> insert p (set ps)" by (rule set_update_subset_insert)
  have failed: "Failed x \<in> set (ps[i := p])" if "Failed x \<in> set ps" for x
  proof -
    from that obtain j where j: "j < length ps" "ps ! j = Failed x" by (auto simp: in_set_conv_nth)
    with assms(7) have "j \<noteq> i" by auto
    with j have "ps[i := p] ! j = Failed x" by simp
    with j(1) show ?thesis by (metis length_list_update nth_mem)
  qed
  show ?thesis
    using assms(1,3-6) sub failed by (cases g) (auto simp: group_phases_def)
qed

lemma group_phases_begin:
  assumes "group_phases Gathering (set ps)"
  shows "group_phases Gathering (set (ps[i := Starting]))"
  using assms set_update_subset_insert [of ps i Starting]
  by (auto simp: group_phases_def joining_phase_def)

lemma cancel_phase_simps:
  "cancel_phase p = Up \<longleftrightarrow> p = Up"
  "cancel_phase p \<noteq> NotStarted" "cancel_phase p \<noteq> Starting"
  "cancel_phase p = Returned \<longleftrightarrow> p = Returned"
  by (cases p; simp)+

lemma cancel_phase_Failed: "cancel_phase p = Failed x \<longleftrightarrow> p = Failed x \<or> p = NotStarted \<and> x = CancelledError"
  by (cases p) auto

lemma startup_inv_group_fails:
  assumes "startup_inv n e s" "su_group s = Gathering"
    and "exc = CancelledError \<or> Failed exc \<in> set (su_phases s)"
  shows "startup_inv n e (group_fails exc s)"
proof -
  have "Failed exc \<in> cancel_phase ` set (su_phases s)" if "Failed exc \<in> set (su_phases s)"
    using imageI [OF that, of cancel_phase] by simp
  moreover have "NotStarted \<notin> cancel_phase ` X" "Starting \<notin> cancel_phase ` X" for X
    using cancel_phase_simps by (metis imageE)+
  ultimately have "group_phases (GroupJoining exc) (cancel_phase ` set (su_phases s))"
    using assms(3) by (auto simp: group_phases_def)
  moreover have "cancel_phase p = NotStarted \<or> (\<exists>x. cancel_phase p = Failed x) \<or> Q"
    if "p = NotStarted \<or> (\<exists>x. p = Failed x) \<or> Q" for p Q
    using that by (cases p) auto
  ultimately show ?thesis
    using assms(1,2)
    by (simp add: startup_inv_def group_fails_def cancel_phase_simps group_left_def cong: conj_cong)
qed

lemma startup_inv_finished:
  assumes "startup_inv n e s" "i < length (su_phases s)" "su_phases s ! i = Starting"
  shows "startup_inv n e (start_finished i r s)"
proof -
  have "Starting \<in> set (su_phases s)" using assms(2,3) by (metis nth_mem)
  then have "su_group s \<noteq> Ready"
    using assms(1) by (auto simp: startup_inv_def group_phases_def dest!: bspec)
  with assms have "group_phases (su_group s)
      (set ((su_phases s)[i := case r of Inr _ \<Rightarrow> Returned | Inl exc \<Rightarrow> Failed exc]))"
    by (intro group_phases_update) (auto simp: startup_inv_def phase_simps split: sum.splits)
  with assms show ?thesis
    by (auto simp: startup_inv_def start_finished_def set_phase_def nth_list_update split: sum.splits)
qed

lemma startup_inv_joined:
  assumes "startup_inv n e s" "i < length (su_phases s)" "su_phases s ! i = Joining exc"
  shows "startup_inv n e (join_ends i exc s)"
proof -
  have "Joining exc \<in> set (su_phases s)" using assms(2,3) by (metis nth_mem)
  then have "su_group s \<noteq> Ready"
    using assms(1) by (auto simp: startup_inv_def group_phases_def dest!: bspec)
  then have "group_phases (su_group s) (set ((su_phases s)[i := Failed exc]))"
    using assms by (intro group_phases_update) (auto simp: startup_inv_def phase_simps)
  with assms show ?thesis
    by (auto simp: startup_inv_def join_ends_def set_phase_def nth_list_update)
qed

lemma startup_step_inv:
  assumes "startup_inv n e s" "startup_step s t"
  shows "startup_inv n e t"
  using assms(2)
proof cases
  case (step_begin i)
  with assms(1) show ?thesis
    by (auto simp: startup_inv_def service_begin_def set_phase_def nth_list_update group_phases_begin
        group_left_def)
next
  case (step_finished i r)
  with assms(1) show ?thesis by (simp add: startup_inv_finished)
next
  case (step_ready i)
  then have "group_phases (su_group s) (set ((su_phases s)[i := Up]))"
    using assms(1) by (intro group_phases_update) (auto simp: startup_inv_def phase_simps)
  with step_ready assms(1) show ?thesis
    by (auto simp: startup_inv_def start_ready_def set_phase_def nth_list_update)
next
  case (step_background i)
  then have "group_phases (su_group s) (set ((su_phases s)[i := Returned]))"
    using assms(1) by (intro group_phases_update) (auto simp: startup_inv_def phase_simps)
  with step_background assms(1) show ?thesis
    by (auto simp: startup_inv_def background_ends_def set_phase_def nth_list_update)
next
  case (step_failure exc)
  with assms(1) show ?thesis by (simp add: startup_inv_group_fails)
next
  case step_cancelled
  with assms(1) show ?thesis by (simp add: startup_inv_group_fails)
next
  case (step_joined i exc)
  with assms(1) show ?thesis by (simp add: startup_inv_joined)
next
  case step_done
  with assms(1) show ?thesis
    by (auto simp: startup_inv_def group_ends_def group_phases_def group_left_def logged_def)
next
  case (step_raised exc)
  with assms(1) show ?thesis
    by (auto simp: startup_inv_def group_ends_def group_phases_def group_left_def logged_def)
qed

interpretation startup: invariant_system "startup_init n e" startup_step "startup_inv n e"
  by unfold_locales (auto intro: startup_inv_init startup_step_inv)

text \<open>
  C28. Starting a group of services. The \<^verbatim>\<open>POST_START\<close> signal is sent once, after
  \<^verbatim>\<open>PRE_START\<close>, exactly when \<^verbatim>\<open>start_services\<close> leaves. When it returns, every service is up or has
  started; when it raises, no start of the group is left unfinished (each was cancelled and
  joined), and the exception is that of a service that failed, or the cancellation. Every service
  whose start has begun and did not fail is registered, so that the shutdown stops it, and the
  recorded background tasks are exactly the start tasks that are still running.
\<close>

theorem startup_joined:
  assumes "reachable (startup_init n e) startup_step s"
  shows "(group_left (su_group s) \<longleftrightarrow> ep_log (su_ep s) = ep_log e @ [PreStart, PostStart]) \<and>
    (\<not> group_left (su_group s) \<longrightarrow> ep_log (su_ep s) = ep_log e @ [PreStart]) \<and>
    (su_group s = Ready \<longrightarrow>
       (\<forall>i < n. su_phases s ! i \<in> {Up, Returned} \<and> i \<in> set (ep_services (su_ep s)))) \<and>
    (\<forall>exc. su_group s = Raised exc \<longrightarrow>
       (\<forall>i < n. su_phases s ! i \<in> {Up, Returned} \<or> (\<exists>x. su_phases s ! i = Failed x)) \<and>
       (exc = CancelledError \<or> (\<exists>i < n. su_phases s ! i = Failed exc))) \<and>
    (\<forall>i < n. su_phases s ! i \<in> {Starting, Up, Returned} \<longrightarrow> i \<in> set (ep_services (su_ep s))) \<and>
    set (ep_tasks (su_ep s)) = {i. i < n \<and> su_phases s ! i = Up}"
proof -
  have inv: "startup_inv n e s" by (rule startup.reachable_inv [OF assms])
  have len: "length (su_phases s) = n" using inv by (simp add: startup_inv_def)
  have nth: "su_phases s ! i \<in> set (su_phases s)" if "i < n" for i using that len by simp
  have ready: "su_phases s ! i \<in> {Up, Returned} \<and> i \<in> set (ep_services (su_ep s))"
    if "su_group s = Ready" "i < n" for i
    using inv nth [OF that(2)] that
    by (auto simp: startup_inv_def group_phases_def settled_phase_def split: phase.splits)
      (cases "su_phases s ! i"; fastforce)+
  have raised: "su_phases s ! i \<in> {Up, Returned} \<or> (\<exists>x. su_phases s ! i = Failed x)"
    if "su_group s = Raised exc" "i < n" for i exc
    using inv nth [OF that(2)] that
    by (cases "su_phases s ! i") (auto simp: startup_inv_def group_phases_def joining_phase_def)
  have exc: "exc = CancelledError \<or> (\<exists>i < n. su_phases s ! i = Failed exc)"
    if "su_group s = Raised exc" for exc
    using inv len that by (auto simp: startup_inv_def group_phases_def in_set_conv_nth)
  show ?thesis
    using inv ready raised exc by (auto simp: startup_inv_def)
qed

text \<open>Two services, the second of which fails while the first one is starting.\<close>

theorem startup_joined_witness:
  "\<exists>s. reachable (startup_init 2 (Entrypoint_init [0, 1] True None True (\<lambda>_. 0))) startup_step s \<and>
     su_group s = Raised (ValueError ''x'') \<and> su_phases s = [Failed CancelledError, Failed (ValueError ''x'')] \<and>
     ep_log (su_ep s) = [PreStart, PostStart]"
proof -
  let ?e = "Entrypoint_init [0, 1] True None True (\<lambda>_. 0)"
  let ?R = "reachable (startup_init 2 ?e) startup_step"
  let ?s0 = "\<lparr>su_ep = logged [PreStart] ?e, su_phases = [NotStarted, NotStarted], su_group = Gathering\<rparr>"
  let ?s1 = "service_begin 0 ?s0"
  let ?s2 = "service_begin 1 ?s1"
  let ?s3 = "start_finished 1 (Inl (ValueError ''x'')) ?s2"
  let ?s4 = "group_fails (ValueError ''x'') ?s3"
  let ?s5 = "join_ends 0 CancelledError ?s4"
  let ?s6 = "group_ends (Raised (ValueError ''x'')) ?s5"
  note defs = service_begin_def set_phase_def start_finished_def group_fails_def join_ends_def
    group_ends_def joining_phase_def
  have "?R ?s0"
    by (rule reach_init) (simp add: startup_init_def start_services_def Entrypoint_init_def
        logged_def Let_def numeral_2_eq_2)
  then have "?R ?s1" by (rule reach_step) (rule step_begin, simp_all)
  then have "?R ?s2" by (rule reach_step) (rule step_begin, simp_all add: defs)
  then have "?R ?s3" by (rule reach_step) (rule step_finished, simp_all add: defs)
  then have "?R ?s4" by (rule reach_step) (rule step_failure, simp_all add: defs)
  then have "?R ?s5" by (rule reach_step) (rule step_joined, simp_all add: defs)
  then have r: "?R ?s6" by (rule reach_step) (rule step_raised, simp_all add: defs)
  moreover have "su_group ?s6 = Raised (ValueError ''x'')"
    "su_phases ?s6 = [Failed CancelledError, Failed (ValueError ''x'')]"
    by (simp_all add: defs)
  moreover have "ep_log (su_ep ?s6) = [PreStart, PostStart]"
    using startup_joined [OF r] by (simp add: defs group_left_def Entrypoint_init_def Let_def)
  ultimately show ?thesis by blast
qed

section \<open>Shutdown reaches every service once\<close>

lemma logged_simps [simp]:
  "ep_log (logged evs e) = ep_log e @ evs"
  "ep_services (logged evs e) = ep_services e" "ep_tasks (logged evs e) = ep_tasks e"
  "ep_closing (logged evs e) = ep_closing e" "ep_loop_owner (logged evs e) = ep_loop_owner e"
  "ep_ctx (logged evs e) = ep_ctx e" "ep_sigtable (logged evs e) = ep_sigtable e"
  "ep_handlers (logged evs e) = ep_handlers e" "ep_thread_pool (logged evs e) = ep_thread_pool e"
  by (simp_all add: logged_def)

text \<open>No \<^verbatim>\<open>stop\<close> method raises when it is called, except for a \<^verbatim>\<open>TypeError\<close>, which is logged.\<close>

definition stop_callable :: "(nat \<Rightarrow> stop_call) \<Rightarrow> nat list \<Rightarrow> bool" where
  "stop_callable stop svc \<longleftrightarrow>
     (\<forall>s \<in> set svc. \<forall>e. stop s = StopRaises e \<longrightarrow> isinstance_exc e ''TypeError'')"

fun has_stop_task :: "stop_call \<Rightarrow> bool" where
  "has_stop_task (StopTask r) \<longleftrightarrow> True"
| "has_stop_task c \<longleftrightarrow> False"

lemma stop_calls_all:
  "stop_callable stop svc \<Longrightarrow>
     stop_calls stop svc = (svc, filter (\<lambda>s. has_stop_task (stop s)) svc, None)"
  by (induction svc) (auto simp: stop_callable_def split: stop_call.splits prod.splits)

lemma stop_calls_prefix:
  "stop_calls stop svc = (called, tasks, err) \<Longrightarrow>
     (\<exists>rest. svc = called @ rest) \<and> set tasks \<subseteq> set called"
proof (induction svc arbitrary: called tasks err)
  case Nil
  then show ?case by simp
next
  case (Cons s svc)
  then show ?case
    by (cases "stop s") (fastforce split: prod.splits if_splits)+
qed

lemma gather_stops_ok:
  "(\<forall>s \<in> set order. stop_outcome (stop s) = Inr ()) \<Longrightarrow> gather_stops stop order = (Inr (), [])"
  by (induction order) auto

lemma gather_stops_fails:
  assumes "gather_stops stop order = (r, unfinished)"
  shows "(r = Inr () \<longrightarrow> unfinished = [] \<and> (\<forall>s \<in> set order. stop_outcome (stop s) = Inr ())) \<and>
    (\<forall>e. r = Inl e \<longrightarrow> (\<exists>s \<in> set order. stop_outcome (stop s) = Inl e)) \<and>
    set unfinished \<subseteq> set order"
  using assms
  by (induction order) (auto split: sum.splits)

lemma restore_after_apply:
  assumes "distinct (map oh_signal hs)"
  shows "fold handler_restore hs (fold (handler_apply cb) hs tab) x =
    (case map_of (map (\<lambda>h. (oh_signal h, oh_default_handler h)) hs) x of
       Some d \<Rightarrow> d | None \<Rightarrow> tab x)"
proof -
  have restore: "fold handler_restore hs t x =
      (case map_of (map (\<lambda>h. (oh_signal h, oh_default_handler h)) hs) x of Some d \<Rightarrow> d | None \<Rightarrow> t x)"
    for t
    using assms
  proof (induction hs arbitrary: t)
    case Nil
    then show ?case by simp
  next
    case (Cons h hs)
    then show ?case
      by (auto simp: handler_restore_def map_of_eq_None_iff split: option.splits)
        (force simp: map_of_eq_None_iff dest!: map_of_SomeD)+
  qed
  have apply_other: "fold (handler_apply cb) hs t x = t x" if "x \<notin> oh_signal ` set hs" for t
    using that by (induction hs arbitrary: t) (auto simp: handler_apply_def)
  show ?thesis
    unfolding restore
    by (cases "x \<in> oh_signal ` set hs")
      (auto simp: apply_other map_of_eq_None_iff image_iff split: option.splits dest!: map_of_SomeD)
qed

text \<open>The handlers that were found when the entrypoint was made are in place again after it.\<close>

lemma signals_restored:
  assumes "distinct sigs" "hs = map (OSSignalHandler_init tab) sigs"
  shows "fold handler_restore hs (fold (handler_apply cb) hs tab) = tab"
proof
  fix x
  have "map oh_signal hs = sigs" by (simp add: assms(2) OSSignalHandler_init_def o_def)
  then have d: "distinct (map oh_signal hs)" using assms(1) by simp
  have "d = tab x" if "map_of (map (\<lambda>h. (oh_signal h, oh_default_handler h)) hs) x = Some d" for d
    using map_of_SomeD [OF that] by (auto simp: assms(2) OSSignalHandler_init_def)
  then show "fold handler_restore hs (fold (handler_apply cb) hs tab) x = tab x"
    by (auto simp: restore_after_apply [OF d] split: option.splits)
qed

text \<open>What \<^verbatim>\<open>stop_services\<close> does when all \<^verbatim>\<open>stop\<close> methods can be called.\<close>

definition stop_results ::
  "(nat \<Rightarrow> stop_call) \<Rightarrow> (nat list \<Rightarrow> nat list) \<Rightarrow> nat list \<Rightarrow> unit result \<times> nat list" where
  "stop_results stop order svc = gather_stops stop (order (filter (\<lambda>s. has_stop_task (stop s)) svc))"

lemma stop_services_callable:
  assumes "stop_callable stop svc" "order [] = []"
  shows "stop_services (Inr ()) post stop order svc e =
    (let (res, unfinished) = stop_results stop order svc
     in (logged ([PreStop] @ map StopCalled svc @ map StopCancelled unfinished @ [PostStop])
           (e\<lparr>ep_services := filter (\<lambda>s. s \<notin> set svc) (ep_services e)\<rparr>),
         bind_result post (\<lambda>_. res)))"
proof (cases "svc = []")
  case True
  then show ?thesis
    using assms(2)
    by (cases post) (simp_all add: stop_services_def stop_results_def logged_def Let_def)
next
  case False
  then show ?thesis
    by (simp add: stop_services_def stop_calls_all [OF assms(1)] stop_results_def Let_def logged_def
        split: prod.splits)
qed

lemma stop_results_outcome:
  assumes "\<forall>ts. set (order ts) = set ts" "stop_results stop order svc = (res, unfinished)"
  shows "(res = Inr () \<longleftrightarrow> (\<forall>s \<in> set svc. \<forall>r. stop s = StopTask r \<longrightarrow> r = Inr ())) \<and>
    set unfinished \<subseteq> set svc"
proof -
  let ?ts = "filter (\<lambda>s. has_stop_task (stop s)) svc"
  have g: "gather_stops stop (order ?ts) = (res, unfinished)"
    using assms(2) by (simp add: stop_results_def)
  have "(\<forall>s \<in> set ?ts. stop_outcome (stop s) = Inr ()) \<longleftrightarrow>
      (\<forall>s \<in> set svc. \<forall>r. stop s = StopTask r \<longrightarrow> r = Inr ())"
    by (auto elim!: has_stop_task.elims)
  moreover have "(\<forall>s \<in> set ?ts. stop_outcome (stop s) = Inr ()) \<longleftrightarrow> res = Inr ()"
    using gather_stops_fails [OF g] gather_stops_ok [of "order ?ts" stop] g assms(1) by auto
  moreover have "set unfinished \<subseteq> set svc"
    using gather_stops_fails [OF g] assms(1) by auto
  ultimately show ?thesis by simp
qed

definition late_events :: "ep_event set" where
  "late_events = {BackgroundCancelled, AsyncgensShutdown, ExecutorShutdown}"

lemma ep_stop_complete:
  assumes "\<not> ep_closing e" "stop_callable stop (ep_services e)" "\<forall>ts. set (order ts) = set ts"
    and "ep_stop False (Inr ()) post stop order e = (e', r)"
  shows "(\<exists>unfinished rest.
      ep_log e' = ep_log e @ [CancelStartTasks (ep_tasks e), PreStop] @
        map StopCalled (ep_services e) @ map StopCancelled unfinished @ [PostStop] @ rest \<and>
      set unfinished \<subseteq> set (ep_services e) \<and> set rest \<subseteq> late_events) \<and>
    ep_services e' = [] \<and> ep_tasks e' = [] \<and> \<not> ep_ctx e' \<and>
    (post = Inr () \<longrightarrow>
       (r = Inr () \<longleftrightarrow> (\<forall>s \<in> set (ep_services e). \<forall>x. stop s = StopTask x \<longrightarrow> x = Inr ()))) \<and>
    (\<forall>pre' post' stop' order'. \<exists>rest.
       ep_log (fst (ep_stop False pre' post' stop' order' e')) = ep_log e' @ rest \<and>
       set rest \<subseteq> {ExecutorShutdown})"
proof -
  obtain res unfinished where res: "stop_results stop order (ep_services e) = (res, unfinished)"
    by fastforce
  have nil: "order [] = []" using assms(3) by (metis set_empty)
  note out = stop_results_outcome [OF assms(3) res]
  note defs = ep_stop_def graceful_shutdown_def
    stop_services_callable [of stop "ep_services e" order, OF assms(2) nil] res Let_def
  have closing: "ep_closing e'"
    using assms(1,4) by (cases post; cases res) (auto simp: defs split: if_splits)
  have log: "\<exists>rest. ep_log e' = ep_log e @ [CancelStartTasks (ep_tasks e), PreStop] @
        map StopCalled (ep_services e) @ map StopCancelled unfinished @ [PostStop] @ rest \<and>
      set rest \<subseteq> late_events"
    using assms(1,4) by (cases post; cases res) (auto simp: defs late_events_def split: if_splits)
  have state: "ep_services e' = [] \<and> ep_tasks e' = [] \<and> \<not> ep_ctx e'"
    using assms(1,4) by (cases post; cases res) (auto simp: defs split: if_splits)
  have result: "r = bind_result post (\<lambda>_. res)"
    using assms(1,4) by (cases post; cases res) (auto simp: defs split: if_splits)
  have again: "\<exists>rest. ep_log (fst (ep_stop False pre' post' stop' order' e')) = ep_log e' @ rest \<and>
      set rest \<subseteq> {ExecutorShutdown}" for pre' post' stop' order'
    using closing by (simp add: ep_stop_def graceful_shutdown_def Let_def)
  show ?thesis
    using log state out again by (auto simp: result)
qed


definition example_running :: Entrypoint where
  "example_running = (Entrypoint_init [0, 1] True None True (\<lambda>_. 0))
     \<lparr>ep_passed_services := None, ep_services := [0, 1], ep_tasks := [1], ep_ctx := True\<rparr>"


section \<open>Interrupts\<close>

text \<open>
  An interrupt that finds no time to shut down ends the process with status 70; otherwise the
  loop is just stopped.
\<close>

lemma on_shutdown_finish_status:
  "snd (snd (on_shutdown_finish cancelled)) = Some 70 \<longleftrightarrow> cancelled"
  by (simp add: on_shutdown_finish_def)

text \<open>An exception of a \<^verbatim>\<open>PRE_STOP\<close> receiver ends the shutdown before any service is stopped.\<close>

lemma pre_stop_failure:
  "\<not> ep_closing e \<Longrightarrow>
     graceful_shutdown (Inl x) post stop order e =
       (logged [CancelStartTasks (ep_tasks e), PreStop] (e\<lparr>ep_closing := True, ep_tasks := []\<rparr>), Inl x)"
  by (simp add: graceful_shutdown_def stop_services_def Let_def logged_def)

text \<open>The entrypoint closes its runner only when the shutdown returned.\<close>

lemma exit_keeps_runner:
  "ep_stop False pre post stop order (loop_property e) = (e', Inl x) \<Longrightarrow>
     ep_exit False pre post stop order e = (e', Inl x)"
  by (simp add: ep_exit_def Let_def)

end
