(* ===== verification/EntrypointSignals.thy ===== *)
theory EntrypointSignals
  imports ServiceBase
begin

text \<open>
  The signals of \<^verbatim>\<open>aiomisc/entrypoint.py\<close>: the four signals of the class, to which plugins connect their
  receivers, the copies every entrypoint makes of them when it is constructed and freezes when it
  starts, the decorator \<^verbatim>\<open>receiver\<close> of \<^verbatim>\<open>aiomisc/signal.py\<close>, and the variable with the current entrypoint.
\<close>

section \<open>Signals of the class and of the entrypoints\<close>

datatype ep_signal = PRE_START | POST_STOP | POST_START | PRE_STOP

type_synonym 'f ep_signals = "ep_signal \<Rightarrow> 'f Signal"

definition class_signals :: "'f ep_signals" where
  "class_signals = (\<lambda>_. Signal_init)"

text \<open>The entrypoints are numbered in the order of their construction.\<close>

record 'f signal_world =
  sw_class :: "'f ep_signals"
  sw_instances :: "'f ep_signals list"
  sw_current :: "nat StrictContextVar"

definition CURRENT_ENTRYPOINT :: "nat StrictContextVar" where
  "CURRENT_ENTRYPOINT = StrictContextVar_init (RuntimeError ''no current entrypoint is set'')"

definition signal_world_init :: "'f signal_world" where
  "signal_world_init =
     \<lparr>sw_class = class_signals, sw_instances = [], sw_current = CURRENT_ENTRYPOINT\<rparr>"

definition get_current :: "'f signal_world \<Rightarrow> nat result" where
  "get_current w = scv_get (sw_current w)"

text \<open>The decorator returns its function, after connecting it.\<close>

definition receiver :: "('f \<Rightarrow> bool) \<Rightarrow> 'f Signal \<Rightarrow> 'f \<Rightarrow> ('f \<times> 'f Signal) result" where
  "receiver co s func = bind_result (connect co func s) (\<lambda>s'. Inr (func, s'))"

text \<open>The signals of the constructor: copies, and the entrypoint becomes the current one.\<close>

definition init_signals :: "'f signal_world \<Rightarrow> 'f signal_world" where
  "init_signals w =
     w\<lparr>sw_instances := sw_instances w @ [\<lambda>g. signal_copy (sw_class w g)],
       sw_current := scv_set (Some (length (sw_instances w))) (sw_current w)\<rparr>"

text \<open>The signals of \<^verbatim>\<open>_start\<close>: frozen, and the entrypoint becomes the current one again.\<close>

definition start_signals :: "nat \<Rightarrow> 'f signal_world \<Rightarrow> 'f signal_world" where
  "start_signals k w =
     w\<lparr>sw_instances := (sw_instances w)[k := \<lambda>g. freeze ((sw_instances w ! k) g)],
       sw_current := scv_set (Some k) (sw_current w)\<rparr>"

definition class_connect :: "('f \<Rightarrow> bool) \<Rightarrow> ep_signal \<Rightarrow> 'f \<Rightarrow> 'f signal_world \<Rightarrow> 'f signal_world result" where
  "class_connect co g f w =
     bind_result (receiver co (sw_class w g) f) (\<lambda>(_, s). Inr (w\<lparr>sw_class := (sw_class w)(g := s)\<rparr>))"

definition instance_connect ::
  "('f \<Rightarrow> bool) \<Rightarrow> nat \<Rightarrow> ep_signal \<Rightarrow> 'f \<Rightarrow> 'f signal_world \<Rightarrow> 'f signal_world result" where
  "instance_connect co k g f w =
     bind_result (receiver co ((sw_instances w ! k) g) f)
       (\<lambda>(_, s). Inr (w\<lparr>sw_instances := (sw_instances w)[k := (sw_instances w ! k)(g := s)]\<rparr>))"

definition instance_disconnect ::
  "nat \<Rightarrow> ep_signal \<Rightarrow> 'f \<Rightarrow> 'f signal_world \<Rightarrow> 'f signal_world result" where
  "instance_disconnect k g f w =
     bind_result (disconnect f ((sw_instances w ! k) g))
       (\<lambda>s. Inr (w\<lparr>sw_instances := (sw_instances w)[k := (sw_instances w ! k)(g := s)]\<rparr>))"

inductive signal_step :: "('f \<Rightarrow> bool) \<Rightarrow> 'f signal_world \<Rightarrow> 'f signal_world \<Rightarrow> bool"
  for co :: "'f \<Rightarrow> bool" where
  sw_init: "signal_step co w (init_signals w)"
| sw_start: "k < length (sw_instances w) \<Longrightarrow> signal_step co w (start_signals k w)"
| sw_connect: "class_connect co g f w = Inr w' \<Longrightarrow> signal_step co w w'"
| sw_instance: "k < length (sw_instances w) \<Longrightarrow> instance_connect co k g f w = Inr w' \<Longrightarrow> signal_step co w w'"
| sw_disconnect: "k < length (sw_instances w) \<Longrightarrow> instance_disconnect k g f w = Inr w' \<Longrightarrow> signal_step co w w'"

section \<open>Lemmas\<close>

definition started :: "nat \<Rightarrow> 'f signal_world \<Rightarrow> bool" where
  "started k w \<longleftrightarrow> k < length (sw_instances w) \<and> (\<forall>g. sig_frozen ((sw_instances w ! k) g))"

lemma receiver_frozen: "sig_frozen s \<Longrightarrow> \<exists>m. receiver co s f = Inl (RuntimeError m)"
  unfolding receiver_def connect_def by (simp, rule exI, rule refl)

lemma disconnect_frozen: "sig_frozen s \<Longrightarrow> \<exists>m. disconnect f s = Inl (RuntimeError m)"
  unfolding disconnect_def by (simp, rule exI, rule refl)

lemma receiver_result:
  "receiver co s f = Inr (f', s') \<longleftrightarrow> \<not> sig_frozen s \<and> co f \<and> f' = f \<and>
     s' = s\<lparr>sig_receivers := List.insert f (sig_receivers s)\<rparr>"
  by (auto simp: receiver_def connect_def)

text \<open>No step changes the signals of an entrypoint that has started.\<close>

lemma started_step:
  assumes "signal_step co w w'" "started k w"
  shows "started k w' \<and> sw_instances w' ! k = sw_instances w ! k"
  using assms
proof (cases rule: signal_step.cases)
  case (sw_start j)
  then show ?thesis
    using assms(2) by (cases "j = k") (auto simp: started_def start_signals_def freeze_def fun_eq_iff)
next
  case (sw_instance j g f)
  then show ?thesis
    using assms(2)
    by (cases "j = k") (auto simp: started_def instance_connect_def bind_result_Inr_iff receiver_result)
next
  case (sw_disconnect j g f)
  then show ?thesis
    using assms(2)
    by (cases "j = k") (auto simp: started_def instance_disconnect_def bind_result_Inr_iff disconnect_def)
qed (auto simp: started_def init_signals_def nth_append class_connect_def bind_result_Inr_iff)

lemma started_steps:
  assumes "(signal_step co)\<^sup>*\<^sup>* w w'" "started k w"
  shows "started k w' \<and> sw_instances w' ! k = sw_instances w ! k"
  using assms
proof (induction rule: rtranclp_induct)
  case (step y z)
  then show ?case using started_step [of co y z k] by simp
qed simp

text \<open>The signals of the class are never frozen, and there is a current entrypoint once there is one.\<close>

definition signals_inv :: "('f \<Rightarrow> bool) \<Rightarrow> 'f signal_world \<Rightarrow> bool" where
  "signals_inv co w \<longleftrightarrow>
     (\<forall>g. \<not> sig_frozen (sw_class w g) \<and> distinct (sig_receivers (sw_class w g)) \<and>
        (\<forall>f \<in> set (sig_receivers (sw_class w g)). co f)) \<and>
     scv_exc (sw_current w) = scv_exc CURRENT_ENTRYPOINT \<and>
     (case scv_value (sw_current w) of
        None \<Rightarrow> sw_instances w = []
      | Some k \<Rightarrow> k < length (sw_instances w))"

interpretation signals: invariant_system "\<lambda>w. w = signal_world_init" "signal_step co" "signals_inv co"
proof unfold_locales
  show "signals_inv co w" if "w = signal_world_init" for w :: "'a signal_world"
    using that by (simp add: signals_inv_def signal_world_init_def class_signals_def Signal_init_def
        CURRENT_ENTRYPOINT_def StrictContextVar_init_def)
  show "signals_inv co w'" if "signals_inv co w" "signal_step co w w'" for w w'
    using that(2,1)
    by (cases rule: signal_step.cases)
      (auto simp: signals_inv_def init_signals_def start_signals_def class_connect_def instance_connect_def
        instance_disconnect_def bind_result_Inr_iff receiver_result scv_set_def disconnect_def
        split: option.splits if_splits)
qed

section \<open>Properties\<close>

text \<open>
  The receivers of an entrypoint. A receiver can be connected to a signal of the class at any time, and
  is a coroutine function; the entrypoints constructed from then on have it, those constructed before
  do not. From its start on the receivers of an entrypoint are fixed: whatever is connected
  anywhere and whatever other entrypoints do, they stay the same, and connecting or disconnecting one
  raises \<^verbatim>\<open>RuntimeError\<close>.
\<close>

theorem entrypoint_receivers:
  assumes "reachable (\<lambda>w. w = signal_world_init) (signal_step co) w"
  shows "(\<forall>g f. co f \<longrightarrow> (\<exists>w'. class_connect co g f w = Inr w' \<and> sw_instances w' = sw_instances w \<and>
        f \<in> set (sig_receivers ((sw_instances (init_signals w') ! length (sw_instances w)) g)))) \<and>
    (\<forall>k w'. started k w \<and> (signal_step co)\<^sup>*\<^sup>* w w' \<longrightarrow>
       sw_instances w' ! k = sw_instances w ! k \<and>
       (\<forall>g f. (\<exists>m. instance_connect co k g f w' = Inl (RuntimeError m)) \<and>
          (\<exists>m. instance_disconnect k g f w' = Inl (RuntimeError m))))"
proof (intro conjI allI impI)
  fix g f assume "co f"
  have "\<not> sig_frozen (sw_class w g)" using signals.reachable_inv [OF assms] by (simp add: signals_inv_def)
  with \<open>co f\<close> show "\<exists>w'. class_connect co g f w = Inr w' \<and> sw_instances w' = sw_instances w \<and>
      f \<in> set (sig_receivers ((sw_instances (init_signals w') ! length (sw_instances w)) g))"
    by (simp add: class_connect_def receiver_def connect_def init_signals_def signal_copy_def nth_append)
next
  fix k w' assume "started k w \<and> (signal_step co)\<^sup>*\<^sup>* w w'"
  then have steps: "(signal_step co)\<^sup>*\<^sup>* w w'" and st: "started k w" by simp_all
  have same: "started k w' \<and> sw_instances w' ! k = sw_instances w ! k" by (rule started_steps [OF steps st])
  then show "sw_instances w' ! k = sw_instances w ! k" by simp
  fix g f
  have frozen: "sig_frozen ((sw_instances w' ! k) g)" using same unfolding started_def by blast
  then show "\<exists>m. instance_connect co k g f w' = Inl (RuntimeError m)"
    using receiver_frozen [OF frozen, of co f] by (auto simp: instance_connect_def)
  show "\<exists>m. instance_disconnect k g f w' = Inl (RuntimeError m)"
    using disconnect_frozen [OF frozen, of f] by (auto simp: instance_disconnect_def)
qed

text \<open>The current entrypoint is one that exists; before the first one there is none.\<close>

lemma current_entrypoint:
  assumes "reachable (\<lambda>w. w = signal_world_init) (signal_step co) w"
  shows "(\<exists>k < length (sw_instances w). get_current w = Inr k) \<or>
    sw_instances w = [] \<and> get_current w = Inl (RuntimeError ''no current entrypoint is set'')"
  using signals.reachable_inv [OF assms]
  by (auto simp: signals_inv_def get_current_def scv_get_def CURRENT_ENTRYPOINT_def StrictContextVar_init_def
      split: option.splits)

text \<open>The entrypoint that is constructed or started last is the current one, also while another one runs.\<close>

lemma last_entrypoint_current:
  "get_current (init_signals w) = Inr (length (sw_instances w))" "get_current (start_signals k w) = Inr k"
  by (simp_all add: get_current_def init_signals_def start_signals_def scv_get_def scv_set_def)

end
