(* ===== verification/TestProxy.thy ===== *)
theory TestProxy
  imports Streams
begin

text \<open>
  The TCP proxy of the pytest plugin (\<^verbatim>\<open>aiomisc/pytest.py\<close>): adjustable delays, the two pipes of a
  proxied connection, and the proxy that keeps the settings of all its connections. Coroutines are
  cut where they suspend; the step relation of the proxy interleaves the pipes of all clients with
  the timers, with the calls that change the settings and with the closing of clients.
\<close>

section \<open>Delays\<close>

text \<open>
  The future of a delay is due at some moment, when the timer of \<^verbatim>\<open>delayed_future\<close> resolves it, and
  is done by then at the latest.
\<close>

record delay_future =
  df_due :: number
  df_done :: bool

record Delay =
  dl_timeout :: number
  dl_future :: "delay_future option"
  dl_locked :: bool

definition Delay_init :: Delay where
  "Delay_init = \<lparr>dl_timeout = 0, dl_future = None, dl_locked = False\<rparr>"

definition delayed_future :: "number \<Rightarrow> number \<Rightarrow> delay_future" where
  "delayed_future timeout now = \<lparr>df_due = now + timeout, df_done = False\<rparr>"

definition df_resolve :: "delay_future \<Rightarrow> delay_future" where
  "df_resolve f = (if df_done f then f else f\<lparr>df_done := True\<rparr>)"

definition set_timeout :: "number \<Rightarrow> Delay \<Rightarrow> unit result \<times> Delay" where
  "set_timeout value d =
     (if value < 0 then (Inl (AssertionError []), d)
      else
        let d1 = d\<lparr>dl_timeout := value\<rparr>
        in case dl_future d1 of
             None \<Rightarrow> (Inr (), d1)
           | Some f \<Rightarrow> (Inr (), d1\<lparr>dl_future := Some (if df_done f then f else f\<lparr>df_done := True\<rparr>)\<rparr>))"

text \<open>
  \<^verbatim>\<open>wait\<close> up to its first suspension: it returns, it waits for the lock, or it holds the lock and
  waits for the future. The second piece runs when the future is done or the task is cancelled.
\<close>

datatype wait_begun = WaitReturns | WaitsForLock | WaitsForFuture Delay

definition wait_locked :: "number \<Rightarrow> Delay \<Rightarrow> Delay" where
  "wait_locked now d =
     d\<lparr>dl_locked := True, dl_future := Some (delayed_future (dl_timeout d) now)\<rparr>"

definition wait_begin :: "number \<Rightarrow> Delay \<Rightarrow> wait_begun" where
  "wait_begin now d =
     (if dl_timeout d = 0 then WaitReturns
      else if dl_locked d then WaitsForLock
      else WaitsForFuture (wait_locked now d))"

definition wait_end :: "Delay \<Rightarrow> Delay" where
  "wait_end d = d\<lparr>dl_future := None, dl_locked := False\<rparr>"

definition delay_timer :: "number \<Rightarrow> Delay \<Rightarrow> Delay" where
  "delay_timer now d =
     (case dl_future d of
        Some f \<Rightarrow> if df_due f \<le> now then d\<lparr>dl_future := Some (df_resolve f)\<rparr> else d
      | None \<Rightarrow> d)"

definition delay_over :: "Delay \<Rightarrow> bool" where
  "delay_over d \<longleftrightarrow> (case dl_future d of Some f \<Rightarrow> df_done f | None \<Rightarrow> False)"

text \<open>
  One waiting task and the settings of the timeout that happen meanwhile, each at its moment: the
  moment at which the wait is over, and the delay then.
\<close>

fun wait_run :: "(number \<times> number) list \<Rightarrow> Delay \<Rightarrow> (number \<times> Delay) option" where
  "wait_run [] d =
     (case dl_future d of
        None \<Rightarrow> None
      | Some f \<Rightarrow> Some (df_due f, wait_end (delay_timer (df_due f) d)))"
| "wait_run ((now, value) # settings) d =
     (let d1 = delay_timer now d
      in if delay_over d1 then map_option (\<lambda>f. (df_due f, wait_end d1)) (dl_future d1)
         else let d2 = snd (set_timeout value d1)
              in if delay_over d2 then Some (now, wait_end d2) else wait_run settings d2)"

definition delay_wait :: "number \<Rightarrow> (number \<times> number) list \<Rightarrow> Delay \<Rightarrow> (number \<times> Delay) option" where
  "delay_wait now settings d =
     (case wait_begin now d of
        WaitReturns \<Rightarrow> Some (now, d)
      | WaitsForLock \<Rightarrow> None
      | WaitsForFuture d1 \<Rightarrow> wait_run settings d1)"

section \<open>Pipes\<close>

text \<open>
  A processor maps a chunk to what is written instead, or raises. A pipe is between two reads, or
  has a chunk in its hands: delayed, given to the processor, written and draining; or it has ended.
  The bytes read and the processed chunks are recorded with what was written for them.
\<close>

type_synonym processor = "bytes \<Rightarrow> bytes result"

datatype direction = ReadSide | WriteSide

datatype pipe_state =
  PipeReading
| PipeDelayed bytes
| PipeProcessing bytes "bytes result"
| PipeDraining
| PipeEnded "unit result"

record pipe =
  pi_state :: pipe_state
  pi_cancelled :: bool
  pi_read :: bytes
  pi_log :: "(bytes \<times> bytes) list"
  pi_written :: bytes
  pi_closed :: bool

definition pipe_init :: pipe where
  "pipe_init =
     \<lparr>pi_state = PipeReading, pi_cancelled = False, pi_read = [], pi_log = [], pi_written = [],
      pi_closed = False\<rparr>"

definition blank_processor :: processor where
  "blank_processor body = Inr body"

definition pipe_end :: "unit result \<Rightarrow> pipe \<Rightarrow> pipe" where
  "pipe_end r p = p\<lparr>pi_state := PipeEnded r, pi_closed := True\<rparr>"

text \<open>The processor is looked up when the chunk is given to it.\<close>

definition pipe_process :: "processor \<Rightarrow> bytes \<Rightarrow> pipe \<Rightarrow> pipe" where
  "pipe_process proc chunk p = p\<lparr>pi_state := PipeProcessing chunk (proc chunk)\<rparr>"

definition pipe_read :: "number \<Rightarrow> processor \<Rightarrow> bytes \<Rightarrow> Delay \<Rightarrow> pipe \<Rightarrow> Delay \<times> pipe" where
  "pipe_read now proc chunk d p =
     (if chunk = [] then (d, pipe_end (Inr ()) p)
      else
        let p1 = p\<lparr>pi_read := pi_read p @ chunk\<rparr>
        in if dl_timeout d > 0
           then case wait_begin now d of
                  WaitReturns \<Rightarrow> (d, pipe_process proc chunk p1)
                | WaitsForLock \<Rightarrow> (d, p1\<lparr>pi_state := PipeDelayed chunk\<rparr>)
                | WaitsForFuture d1 \<Rightarrow> (d1, p1\<lparr>pi_state := PipeDelayed chunk\<rparr>)
           else (d, pipe_process proc chunk p1))"

definition pipe_delay_over :: "processor \<Rightarrow> bytes \<Rightarrow> Delay \<Rightarrow> pipe \<Rightarrow> Delay \<times> pipe" where
  "pipe_delay_over proc chunk d p = (wait_end d, pipe_process proc chunk p)"

definition pipe_write :: "bool \<Rightarrow> bytes \<Rightarrow> bytes result \<Rightarrow> pipe \<Rightarrow> pipe" where
  "pipe_write buffered chunk processed p =
     (case processed of
        Inl e \<Rightarrow> pipe_end (Inl e) p
      | Inr out \<Rightarrow>
          p\<lparr>pi_written := pi_written p @ out, pi_log := pi_log p @ [(chunk, out)],
            pi_state := (if buffered then PipeReading else PipeDraining)\<rparr>)"

definition pipe_drained :: "pipe \<Rightarrow> pipe" where
  "pipe_drained p = p\<lparr>pi_state := PipeReading\<rparr>"

text \<open>A cancellation reaches the pipe where it is suspended; a delayed one gives up its delay.\<close>

definition pipe_cancel :: "Delay \<Rightarrow> pipe \<Rightarrow> Delay \<times> pipe" where
  "pipe_cancel d p =
     ((case pi_state p of PipeDelayed _ \<Rightarrow> wait_end d | _ \<Rightarrow> d), pipe_end (Inl CancelledError) p)"

fun pipe_ended :: "pipe_state \<Rightarrow> bool" where
  "pipe_ended (PipeEnded r) = True"
| "pipe_ended _ = False"

section \<open>Clients\<close>

record TCPProxyClient =
  cl_chunk_size :: nat
  cl_buffered :: bool
  cl_delay :: "direction \<Rightarrow> Delay"
  cl_processor :: "direction \<Rightarrow> processor"
  cl_tasks :: "(direction \<Rightarrow> pipe) option"
  cl_close_called :: bool
  cl_closing :: bool
  cl_registered :: bool

definition TCPProxyClient_init :: "bool \<Rightarrow> TCPProxyClient" where
  "TCPProxyClient_init buffered =
     \<lparr>cl_chunk_size = 64 * 1024, cl_buffered = buffered, cl_delay = (\<lambda>_. Delay_init),
      cl_processor = (\<lambda>_. blank_processor), cl_tasks = None, cl_close_called = False,
      cl_closing = False,
      cl_registered = False\<rparr>"

text \<open>A processor that is not given is the blank one; a given one is made awaitable.\<close>

definition processor_of :: "processor option \<Rightarrow> processor" where
  "processor_of v = (case v of None \<Rightarrow> blank_processor | Some f \<Rightarrow> f)"

definition set_processor :: "direction \<Rightarrow> processor option \<Rightarrow> TCPProxyClient \<Rightarrow> TCPProxyClient" where
  "set_processor dir v c = c\<lparr>cl_processor := (cl_processor c)(dir := processor_of v)\<rparr>"

definition set_delay_timeout ::
  "direction \<Rightarrow> number \<Rightarrow> TCPProxyClient \<Rightarrow> unit result \<times> TCPProxyClient" where
  "set_delay_timeout dir value c =
     (let (r, d) = set_timeout value (cl_delay c dir)
      in (r, c\<lparr>cl_delay := (cl_delay c)(dir := d)\<rparr>))"

definition client_connect :: "TCPProxyClient \<Rightarrow> TCPProxyClient" where
  "client_connect c = c\<lparr>cl_tasks := Some (\<lambda>_. pipe_init)\<rparr>"

text \<open>
  \<^verbatim>\<open>close\<close>: the unfinished pipes are asked for cancellation; when they have ended, the future
  \<^verbatim>\<open>closing\<close> is set.
\<close>

definition client_close :: "TCPProxyClient \<Rightarrow> TCPProxyClient" where
  "client_close c =
     (if cl_closing c then c
      else c\<lparr>cl_tasks := map_option
        (\<lambda>ps dir. if pipe_ended (pi_state (ps dir)) then ps dir
                  else (ps dir)\<lparr>pi_cancelled := True\<rparr>) (cl_tasks c), cl_close_called := True\<rparr>)"

definition client_close_end :: "TCPProxyClient \<Rightarrow> TCPProxyClient" where
  "client_close_end c = c\<lparr>cl_closing := True\<rparr>"

definition tasks_ended :: "TCPProxyClient \<Rightarrow> bool" where
  "tasks_ended c \<longleftrightarrow>
     (case cl_tasks c of
        None \<Rightarrow> True
      | Some ps \<Rightarrow> pipe_ended (pi_state (ps ReadSide)) \<and> pipe_ended (pi_state (ps WriteSide)))"

section \<open>The proxy\<close>

text \<open>
  \<^verbatim>\<open>clients\<close> is a set of objects: \<^verbatim>\<open>px_all\<close> holds every object made so far and \<^verbatim>\<open>px_clients\<close> the
  numbers of those in the set, in the order in which it is iterated. The server, once there is
  one, accepts connections until it is closed.
\<close>

record TCPProxy =
  px_target_host :: string
  px_target_port :: nat
  px_host :: string
  px_port :: nat
  px_buffered :: bool
  px_delay :: "direction \<Rightarrow> number"
  px_processor :: "direction \<Rightarrow> processor option"
  px_all :: "TCPProxyClient list"
  px_clients :: "nat list"
  px_server :: "bool option"

definition TCPProxy_init :: "string \<Rightarrow> nat \<Rightarrow> string \<Rightarrow> bool \<Rightarrow> nat \<Rightarrow> TCPProxy" where
  "TCPProxy_init target_host target_port listen_host buffered unused_port =
     \<lparr>px_target_host = target_host, px_target_port = target_port, px_host = listen_host,
      px_port = unused_port, px_buffered = buffered, px_delay = (\<lambda>_. 0),
      px_processor = (\<lambda>_. None), px_all = [], px_clients = [], px_server = None\<rparr>"

definition proxy_start :: "unit result \<Rightarrow> TCPProxy \<Rightarrow> unit result \<times> TCPProxy" where
  "proxy_start server px =
     (case server of Inl e \<Rightarrow> (Inl e, px) | Inr _ \<Rightarrow> (Inr (), px\<lparr>px_server := Some True\<rparr>))"

definition proxy_aenter :: "unit result \<Rightarrow> TCPProxy \<Rightarrow> unit result \<times> TCPProxy" where
  "proxy_aenter server px = (if px_server px \<noteq> None then (Inr (), px) else proxy_start server px)"

definition set_client :: "nat \<Rightarrow> TCPProxyClient \<Rightarrow> TCPProxy \<Rightarrow> TCPProxy" where
  "set_client i c px = px\<lparr>px_all := (px_all px)[i := c]\<rparr>"

definition set_client_delays ::
  "number \<Rightarrow> number \<Rightarrow> TCPProxyClient \<Rightarrow> unit result \<times> TCPProxyClient" where
  "set_client_delays read_delay write_delay c =
     (case set_delay_timeout ReadSide read_delay c of
        (Inl e, c1) \<Rightarrow> (Inl e, c1)
      | (Inr _, c1) \<Rightarrow> set_delay_timeout WriteSide write_delay c1)"

fun set_delays ::
  "number \<Rightarrow> number \<Rightarrow> nat list \<Rightarrow> TCPProxyClient list \<Rightarrow> unit result \<times> TCPProxyClient list" where
  "set_delays read_delay write_delay [] cs = (Inr (), cs)"
| "set_delays read_delay write_delay (i # is) cs =
     (case set_client_delays read_delay write_delay (cs ! i) of
        (Inl e, c) \<Rightarrow> (Inl e, cs[i := c])
      | (Inr _, c) \<Rightarrow> set_delays read_delay write_delay is (cs[i := c]))"

definition pair_of :: "'a \<Rightarrow> 'a \<Rightarrow> direction \<Rightarrow> 'a" where
  "pair_of r w dir = (case dir of ReadSide \<Rightarrow> r | WriteSide \<Rightarrow> w)"

definition set_delay :: "number \<Rightarrow> number \<Rightarrow> TCPProxy \<Rightarrow> unit result \<times> TCPProxy" where
  "set_delay read_delay write_delay px =
     (case set_delays read_delay write_delay (px_clients px) (px_all px) of
        (Inl e, cs) \<Rightarrow> (Inl e, px\<lparr>px_all := cs\<rparr>)
      | (Inr _, cs) \<Rightarrow>
          (Inr (), px\<lparr>px_all := cs, px_delay := pair_of read_delay write_delay\<rparr>))"

definition set_content_processors ::
  "processor option \<Rightarrow> processor option \<Rightarrow> TCPProxy \<Rightarrow> TCPProxy" where
  "set_content_processors rd wr px =
     px\<lparr>px_all := fold (\<lambda>i cs. cs[i := set_processor WriteSide wr (set_processor ReadSide rd (cs ! i))])
            (px_clients px) (px_all px),
        px_processor := pair_of rd wr\<rparr>"

text \<open>
  \<^verbatim>\<open>_handle_client\<close> up to the connection to the target, after it succeeded, and the callback of
  \<^verbatim>\<open>closing\<close> that it registers then.
\<close>

definition handle_client_begin :: "TCPProxy \<Rightarrow> unit result \<times> TCPProxy" where
  "handle_client_begin px =
     (let i = length (px_all px);
          px1 = px\<lparr>px_clients := px_clients px @ [i]\<rparr>
      in case set_client_delays (px_delay px ReadSide) (px_delay px WriteSide)
                (TCPProxyClient_init (px_buffered px)) of
           (Inl e, c) \<Rightarrow> (Inl e, px1\<lparr>px_all := px_all px @ [c]\<rparr>)
         | (Inr _, c) \<Rightarrow>
             (Inr (), px1\<lparr>px_all := px_all px @
                [set_processor WriteSide (px_processor px WriteSide)
                   (set_processor ReadSide (px_processor px ReadSide) c)]\<rparr>))"

definition handle_client_connected :: "nat \<Rightarrow> TCPProxy \<Rightarrow> TCPProxy" where
  "handle_client_connected i px =
     set_client i ((client_connect (px_all px ! i))\<lparr>cl_registered := True\<rparr>) px"

definition client_removed :: "nat \<Rightarrow> TCPProxy \<Rightarrow> TCPProxy" where
  "client_removed i px = px\<lparr>px_clients := remove1 i (px_clients px)\<rparr>"

definition disconnect_all :: "TCPProxy \<Rightarrow> TCPProxy" where
  "disconnect_all px =
     px\<lparr>px_all := fold (\<lambda>i cs. cs[i := client_close (cs ! i)]) (px_clients px) (px_all px)\<rparr>"

text \<open>The rest of \<^verbatim>\<open>TCPProxy.close\<close>, after \<^verbatim>\<open>disconnect_all\<close> has finished.\<close>

definition proxy_close_end :: "TCPProxy \<Rightarrow> TCPProxy" where
  "proxy_close_end px = (if px_server px = None then px else px\<lparr>px_server := Some False\<rparr>)"

text \<open>\<^verbatim>\<open>slowdown\<close> around a body that changes the proxy in some way.\<close>

definition slowdown :: "number \<Rightarrow> number \<Rightarrow> (TCPProxy \<Rightarrow> TCPProxy) \<Rightarrow> TCPProxy \<Rightarrow> unit result \<times> TCPProxy" where
  "slowdown read_delay write_delay body px =
     (case set_delay read_delay write_delay px of
        (Inl e, px1) \<Rightarrow> (Inl e, px1)
      | (Inr _, px1) \<Rightarrow> set_delay (px_delay px ReadSide) (px_delay px WriteSide) (body px1))"

section \<open>Interleavings\<close>

definition with_pipe :: "nat \<Rightarrow> direction \<Rightarrow> (direction \<Rightarrow> pipe) \<Rightarrow> Delay \<times> pipe \<Rightarrow> TCPProxy \<Rightarrow> TCPProxy" where
  "with_pipe i dir ps dp px =
     (let c = px_all px ! i
      in set_client i (c\<lparr>cl_delay := (cl_delay c)(dir := fst dp),
           cl_tasks := Some (ps(dir := snd dp))\<rparr>) px)"

text \<open>A pipe of a client that may go on: it exists and was not asked for cancellation.\<close>

definition runs :: "TCPProxy \<Rightarrow> nat \<Rightarrow> (direction \<Rightarrow> pipe) \<Rightarrow> direction \<Rightarrow> pipe_state \<Rightarrow> bool" where
  "runs px i ps dir st \<longleftrightarrow>
     i < length (px_all px) \<and> cl_tasks (px_all px ! i) = Some ps \<and>
     pi_state (ps dir) = st \<and> \<not> pi_cancelled (ps dir)"

abbreviation px_client :: "TCPProxy \<Rightarrow> nat \<Rightarrow> TCPProxyClient" where
  "px_client px i \<equiv> px_all px ! i"

inductive proxy_step :: "processor set \<Rightarrow> TCPProxy \<Rightarrow> TCPProxy \<Rightarrow> bool"
  for P :: "processor set" where
  ps_accept: "handle_client_begin px = (r, px') \<Longrightarrow> proxy_step P px px'"
| ps_connected: "i < length (px_all px) \<Longrightarrow> \<not> cl_registered (px_client px i) \<Longrightarrow>
    cl_tasks (px_client px i) = None \<Longrightarrow> proxy_step P px (handle_client_connected i px)"
| ps_read: "runs px i ps dir PipeReading \<Longrightarrow> length chunk \<le> cl_chunk_size (px_client px i) \<Longrightarrow>
    proxy_step P px (with_pipe i dir ps
      (pipe_read now (cl_processor (px_client px i) dir) chunk (cl_delay (px_client px i) dir) (ps dir)) px)"
| ps_timer: "i < length (px_all px) \<Longrightarrow>
    proxy_step P px (set_client i ((px_client px i)\<lparr>cl_delay :=
      (cl_delay (px_client px i))(dir := delay_timer now (cl_delay (px_client px i) dir))\<rparr>) px)"
| ps_delay_over: "runs px i ps dir (PipeDelayed chunk) \<Longrightarrow>
    delay_over (cl_delay (px_client px i) dir) \<Longrightarrow>
    proxy_step P px (with_pipe i dir ps
      (pipe_delay_over (cl_processor (px_client px i) dir) chunk (cl_delay (px_client px i) dir) (ps dir)) px)"
| ps_write: "runs px i ps dir (PipeProcessing chunk processed) \<Longrightarrow>
    proxy_step P px (with_pipe i dir ps
      (cl_delay (px_client px i) dir, pipe_write (cl_buffered (px_client px i)) chunk processed (ps dir)) px)"
| ps_drained: "runs px i ps dir PipeDraining \<Longrightarrow>
    proxy_step P px (with_pipe i dir ps (cl_delay (px_client px i) dir, pipe_drained (ps dir)) px)"
| ps_cancel: "i < length (px_all px) \<Longrightarrow> cl_tasks (px_client px i) = Some ps \<Longrightarrow>
    pi_cancelled (ps dir) \<Longrightarrow> \<not> pipe_ended (pi_state (ps dir)) \<Longrightarrow>
    proxy_step P px (with_pipe i dir ps (pipe_cancel (cl_delay (px_client px i) dir) (ps dir)) px)"
| ps_set_delay: "0 \<le> rd \<Longrightarrow> 0 \<le> wr \<Longrightarrow> set_delay rd wr px = (r, px') \<Longrightarrow> proxy_step P px px'"
| ps_set_processors: "set_option rd \<subseteq> P \<Longrightarrow> set_option wr \<subseteq> P \<Longrightarrow>
    proxy_step P px (set_content_processors rd wr px)"
| ps_disconnect: "proxy_step P px (disconnect_all px)"
| ps_close: "i < length (px_all px) \<Longrightarrow>
    proxy_step P px (set_client i (client_close (px_client px i)) px)"
| ps_close_end: "i < length (px_all px) \<Longrightarrow> cl_close_called (px_client px i) \<Longrightarrow>
    tasks_ended (px_client px i) \<Longrightarrow>
    proxy_step P px (set_client i (client_close_end (px_client px i)) px)"
| ps_removed: "cl_closing (px_client px i) \<Longrightarrow> cl_registered (px_client px i) \<Longrightarrow>
    proxy_step P px (client_removed i px)"

section \<open>Invariants\<close>

fun in_hand :: "pipe_state \<Rightarrow> bytes" where
  "in_hand (PipeDelayed chunk) = chunk"
| "in_hand (PipeProcessing chunk _) = chunk"
| "in_hand _ = []"

text \<open>
  What was read is what was processed, in order, then the chunk in hand; a pipe that ended by an
  exception has dropped that chunk. Every processed chunk went through a processor that was set at
  some time.
\<close>

definition pipe_bytes :: "processor set \<Rightarrow> pipe \<Rightarrow> bool" where
  "pipe_bytes P p \<longleftrightarrow>
     (\<exists>rest. pi_read p = concat (map fst (pi_log p)) @ rest \<and>
        (case pi_state p of PipeEnded (Inl _) \<Rightarrow> True | st \<Rightarrow> rest = in_hand st)) \<and>
     pi_written p = concat (map snd (pi_log p)) \<and>
     (\<forall>(chunk, out) \<in> set (pi_log p). \<exists>proc \<in> insert blank_processor P. proc chunk = Inr out) \<and>
     (\<forall>chunk r. pi_state p = PipeProcessing chunk r \<longrightarrow>
        (\<exists>proc \<in> insert blank_processor P. r = proc chunk)) \<and>
     (pi_closed p \<longleftrightarrow> pipe_ended (pi_state p))"

text \<open>The lock of a delay is held exactly while its pipe is delayed; then there is a future.\<close>

definition pipe_delay :: "Delay \<Rightarrow> pipe_state \<Rightarrow> bool" where
  "pipe_delay d st \<longleftrightarrow>
     (case st of
        PipeDelayed _ \<Rightarrow> dl_locked d \<and> dl_future d \<noteq> None
      | _ \<Rightarrow> \<not> dl_locked d \<and> dl_future d = None)"

definition client_inv :: "processor set \<Rightarrow> TCPProxyClient \<Rightarrow> bool" where
  "client_inv P c \<longleftrightarrow>
     (\<forall>dir. cl_processor c dir \<in> insert blank_processor P \<and> 0 \<le> dl_timeout (cl_delay c dir) \<and>
        (case cl_tasks c of
           None \<Rightarrow> pipe_delay (cl_delay c dir) PipeReading
         | Some ps \<Rightarrow> pipe_delay (cl_delay c dir) (pi_state (ps dir)) \<and> pipe_bytes P (ps dir)))"

definition has_settings :: "TCPProxy \<Rightarrow> TCPProxyClient \<Rightarrow> bool" where
  "has_settings px c \<longleftrightarrow>
     (\<forall>dir. dl_timeout (cl_delay c dir) = px_delay px dir \<and>
        cl_processor c dir = processor_of (px_processor px dir))"

definition proxy_inv :: "processor set \<Rightarrow> TCPProxy \<Rightarrow> bool" where
  "proxy_inv P px \<longleftrightarrow>
     distinct (px_clients px) \<and> (\<forall>i \<in> set (px_clients px). i < length (px_all px)) \<and>
     (\<forall>dir. 0 \<le> px_delay px dir \<and> set_option (px_processor px dir) \<subseteq> P) \<and>
     (\<forall>i < length (px_all px). client_inv P (px_client px i)) \<and>
     (\<forall>i \<in> set (px_clients px). has_settings px (px_client px i))"

section \<open>Lemmas on delays and pipes\<close>

lemma delay_timer_simps [simp]:
  "dl_timeout (delay_timer now d) = dl_timeout d" "dl_locked (delay_timer now d) = dl_locked d"
  "dl_future (delay_timer now d) = None \<longleftrightarrow> dl_future d = None"
  by (auto simp: delay_timer_def split: option.splits)

lemma pipe_delay_timer [simp]: "pipe_delay (delay_timer now d) st = pipe_delay d st"
  by (simp add: pipe_delay_def split: pipe_state.splits)

lemma set_timeout_ok:
  assumes "0 \<le> v"
  shows "fst (set_timeout v d) = Inr ()" "dl_timeout (snd (set_timeout v d)) = v"
    "pipe_delay (snd (set_timeout v d)) st = pipe_delay d st"
  using assms by (auto simp: set_timeout_def pipe_delay_def Let_def split: option.splits pipe_state.splits)

lemma set_timeout_wakes:
  "0 \<le> v \<Longrightarrow> dl_future d \<noteq> None \<Longrightarrow> delay_over (snd (set_timeout v d))"
  by (auto simp: set_timeout_def delay_over_def Let_def)

lemma wait_end_simps [simp]:
  "dl_timeout (wait_end d) = dl_timeout d" "dl_locked (wait_end d) = False"
  "dl_future (wait_end d) = None"
  by (simp_all add: wait_end_def)

text \<open>
  A task that waits is woken by the timer or by the first setting of the timeout, whichever comes
  first, and leaves the delay free.
\<close>

lemma delay_wait_moment:
  assumes "\<not> dl_locked d" "0 < dl_timeout d" "\<forall>(u, v) \<in> set settings. now \<le> u \<and> 0 \<le> v"
  shows "\<exists>d'. delay_wait now settings d =
      Some (case settings of
              [] \<Rightarrow> now + dl_timeout d
            | (u, _) # _ \<Rightarrow> min u (now + dl_timeout d), d') \<and>
    \<not> dl_locked d' \<and> dl_future d' = None"
proof (cases settings)
  case Nil
  with assms(1,2) show ?thesis
    by (simp add: delay_wait_def wait_begin_def wait_locked_def delayed_future_def)
next
  case (Cons uv rest)
  obtain u v where uv: "uv = (u, v)" by (cases uv)
  let ?d = "wait_locked now d"
  have v: "0 \<le> v" using assms(3) Cons uv by simp
  have over: "delay_over (delay_timer u ?d) \<longleftrightarrow> now + dl_timeout d \<le> u"
    by (simp add: delay_over_def delay_timer_def wait_locked_def delayed_future_def df_resolve_def)
  have "delay_over (snd (set_timeout v (delay_timer u ?d)))"
    using v by (rule set_timeout_wakes) (simp add: wait_locked_def)
  then show ?thesis
    using assms(1,2) Cons uv over
    by (auto simp: delay_wait_def wait_begin_def Let_def delay_timer_def wait_locked_def
        delayed_future_def df_resolve_def)
qed

lemma pipe_bytes_init: "pipe_bytes P pipe_init"
  by (simp add: pipe_bytes_def pipe_init_def)

lemma pipe_bytes_cancelled [simp]: "pipe_bytes P (p\<lparr>pi_cancelled := b\<rparr>) = pipe_bytes P p"
  by (simp add: pipe_bytes_def)

lemma pipe_bytes_in_hand:
  assumes "pipe_bytes P p" "pi_state p = st" "\<not> pipe_ended st"
  shows "pi_read p = concat (map fst (pi_log p)) @ in_hand st"
  using assms by (cases st) (auto simp: pipe_bytes_def)

lemma pipe_bytes_process:
  assumes "pi_read p = concat (map fst (pi_log p)) @ chunk" "proc \<in> insert blank_processor P"
    and "pi_written p = concat (map snd (pi_log p))"
    and "\<forall>(chunk, out) \<in> set (pi_log p). \<exists>proc \<in> insert blank_processor P. proc chunk = Inr out"
    and "\<not> pi_closed p"
  shows "pipe_bytes P (pipe_process proc chunk p)"
  using assms by (auto simp: pipe_bytes_def pipe_process_def)

lemma pipe_bytes_end:
  assumes "pipe_bytes P p" "\<not> pipe_ended (pi_state p)" "isl r \<or> in_hand (pi_state p) = []"
  shows "pipe_bytes P (pipe_end r p)"
  using assms pipe_bytes_in_hand [OF assms(1) refl assms(2)]
  by (cases r) (auto simp: pipe_bytes_def pipe_end_def)

lemma pipe_read_inv:
  assumes "pipe_bytes P p" "pipe_delay d PipeReading" "pi_state p = PipeReading"
    and "proc \<in> insert blank_processor P" "pipe_read now proc chunk d p = (d', p')"
  shows "pipe_bytes P p' \<and> pipe_delay d' (pi_state p') \<and> dl_timeout d' = dl_timeout d"
proof -
  have rd: "pi_read p = concat (map fst (pi_log p))"
    using pipe_bytes_in_hand [OF assms(1,3)] by simp
  have p: "pi_written p = concat (map snd (pi_log p))" "\<not> pi_closed p"
    "\<forall>(chunk, out) \<in> set (pi_log p). \<exists>proc \<in> insert blank_processor P. proc chunk = Inr out"
    using assms(1,3) by (auto simp: pipe_bytes_def)
  have free: "\<not> dl_locked d" "dl_future d = None" using assms(2) by (simp_all add: pipe_delay_def)
  have ended: "pipe_bytes P (pipe_end (Inr ()) p)"
    using assms(1,3) by (intro pipe_bytes_end) simp_all
  have processed: "pipe_bytes P (pipe_process proc chunk (p\<lparr>pi_read := pi_read p @ chunk\<rparr>))"
    using rd assms(4) p by (intro pipe_bytes_process) simp_all
  have delayed: "pipe_bytes P (p\<lparr>pi_read := pi_read p @ chunk, pi_state := PipeDelayed chunk\<rparr>)"
    using rd p by (simp add: pipe_bytes_def)
  have lock: "pipe_delay (wait_locked now d) (PipeDelayed chunk)"
    by (simp add: pipe_delay_def wait_locked_def)
  have same: "pipe_delay d (PipeEnded r)" "pipe_delay d (PipeProcessing chunk x)" for r x
    using free by (simp_all add: pipe_delay_def)
  show ?thesis
  proof (cases "chunk = [] \<or> dl_timeout d \<le> 0")
    case True
    with assms(5) ended processed same show ?thesis
      by (auto simp: pipe_read_def Let_def pipe_process_def pipe_end_def split: if_splits)
  next
    case False
    with assms(5) free(1) have
      "d' = wait_locked now d" "p' = p\<lparr>pi_read := pi_read p @ chunk, pi_state := PipeDelayed chunk\<rparr>"
      by (auto simp: pipe_read_def wait_begin_def Let_def)
    with delayed lock show ?thesis by (simp add: wait_locked_def)
  qed
qed

lemma pipe_delay_over_inv:
  assumes "pipe_bytes P p" "pi_state p = PipeDelayed chunk" "proc \<in> insert blank_processor P"
    and "pipe_delay_over proc chunk d p = (d', p')"
  shows "pipe_bytes P p' \<and> pipe_delay d' (pi_state p') \<and> dl_timeout d' = dl_timeout d"
proof -
  have "pipe_bytes P (pipe_process proc chunk p)"
    using assms(1,2,3) pipe_bytes_in_hand [OF assms(1,2)]
    by (intro pipe_bytes_process) (auto simp: pipe_bytes_def)
  then show ?thesis using assms(4)
    by (auto simp: pipe_delay_over_def pipe_delay_def pipe_process_def)
qed

lemma pipe_write_inv:
  assumes "pipe_bytes P p" "pi_state p = PipeProcessing chunk r"
  shows "pipe_bytes P (pipe_write b chunk r p)"
    and "pipe_delay d (PipeProcessing chunk r) \<Longrightarrow> pipe_delay d (pi_state (pipe_write b chunk r p))"
proof -
  have rd: "pi_read p = concat (map fst (pi_log p)) @ chunk"
    using pipe_bytes_in_hand [OF assms] by simp
  show "pipe_bytes P (pipe_write b chunk r p)"
  proof (cases r)
    case (Inl e)
    with assms show ?thesis by (simp add: pipe_write_def pipe_bytes_end)
  next
    case (Inr out)
    with rd assms show ?thesis
      by (simp add: pipe_write_def pipe_bytes_def) (metis (no_types, lifting))
  qed
  show "pipe_delay d (pi_state (pipe_write b chunk r p))" if "pipe_delay d (PipeProcessing chunk r)"
    using that by (cases r) (auto simp: pipe_write_def pipe_delay_def pipe_end_def)
qed

lemma pipe_drained_inv:
  assumes "pipe_bytes P p" "pi_state p = PipeDraining" "pipe_delay d PipeDraining"
  shows "pipe_bytes P (pipe_drained p)" "pipe_delay d (pi_state (pipe_drained p))"
  using assms by (auto simp: pipe_drained_def pipe_bytes_def pipe_delay_def)

lemma pipe_cancel_inv:
  assumes "pipe_bytes P p" "\<not> pipe_ended (pi_state p)" "pipe_delay d (pi_state p)"
    and "pipe_cancel d p = (d', p')"
  shows "pipe_bytes P p' \<and> pipe_delay d' (pi_state p') \<and> dl_timeout d' = dl_timeout d"
proof -
  have "pipe_bytes P (pipe_end (Inl CancelledError) p)"
    using assms(1,2) by (intro pipe_bytes_end) simp_all
  then show ?thesis using assms(3,4)
    by (auto simp: pipe_cancel_def pipe_delay_def pipe_end_def split: pipe_state.splits)
qed

section \<open>Lemmas on clients and on the proxy\<close>

lemma client_invD:
  assumes "client_inv P c"
  shows "cl_processor c dir \<in> insert blank_processor P" "0 \<le> dl_timeout (cl_delay c dir)"
    "cl_tasks c = None \<Longrightarrow> pipe_delay (cl_delay c dir) PipeReading"
    "cl_tasks c = Some ps \<Longrightarrow> pipe_delay (cl_delay c dir) (pi_state (ps dir))"
    "cl_tasks c = Some ps \<Longrightarrow> pipe_bytes P (ps dir)"
  using assms by (auto simp: client_inv_def split: option.splits)

lemma client_inv_pipe:
  assumes "client_inv P c" "cl_tasks c = Some ps"
    and "pipe_bytes P p' \<and> pipe_delay d' (pi_state p') \<and> dl_timeout d' = dl_timeout (cl_delay c dir)"
  shows "client_inv P (c\<lparr>cl_delay := (cl_delay c)(dir := d'), cl_tasks := Some (ps(dir := p'))\<rparr>)"
  using client_invD [OF assms(1)] assms(2,3) by (simp add: client_inv_def)

lemma client_inv_timer:
  assumes "client_inv P c"
  shows "client_inv P (c\<lparr>cl_delay := (cl_delay c)(dir := delay_timer now (cl_delay c dir))\<rparr>)"
  using assms by (auto simp: client_inv_def split: option.splits)

lemma client_inv_close: "client_inv P c \<Longrightarrow> client_inv P (client_close c)"
  by (auto simp: client_inv_def client_close_def split: option.splits)

lemma client_inv_flags [simp]:
  "client_inv P (c\<lparr>cl_registered := b\<rparr>) = client_inv P c"
  "client_inv P (client_close_end c) = client_inv P c"
  by (simp_all add: client_inv_def client_close_end_def split: option.splits)

lemma client_inv_connect:
  assumes "client_inv P c" "cl_tasks c = None"
  shows "client_inv P (client_connect c)"
  using client_invD [OF assms(1)] assms(2)
  by (simp add: client_inv_def client_connect_def pipe_bytes_init) (simp add: pipe_init_def)

lemma set_delay_timeout_ok:
  assumes "0 \<le> v" "set_delay_timeout dir v c = (r, c')"
  shows "r = Inr ()"
    and "dl_timeout (cl_delay c' dir') = (if dir' = dir then v else dl_timeout (cl_delay c dir'))"
    and "cl_processor c' = cl_processor c" "cl_tasks c' = cl_tasks c"
    and "pipe_delay (cl_delay c' dir') st = pipe_delay (cl_delay c dir') st"
  using assms(2)
  by (auto simp: set_delay_timeout_def split_def Let_def set_timeout_ok [OF assms(1)]
      split: if_splits)

lemma client_inv_set_delay:
  assumes "0 \<le> v" "set_delay_timeout dir v c = (r, c')" "client_inv P c"
  shows "client_inv P c'"
  using client_invD [OF assms(3)] set_delay_timeout_ok [OF assms(1,2)] assms(1)
  by (auto simp: client_inv_def split: option.splits)

lemma client_delays_ok:
  assumes "0 \<le> rd" "0 \<le> wr" "client_inv P c"
  obtains c' where "set_client_delays rd wr c = (Inr (), c')" "client_inv P c'"
    "\<And>dir. dl_timeout (cl_delay c' dir) = pair_of rd wr dir" "cl_processor c' = cl_processor c"
proof -
  obtain r1 c1 where c1: "set_delay_timeout ReadSide rd c = (r1, c1)" by fastforce
  obtain r2 c2 where c2: "set_delay_timeout WriteSide wr c1 = (r2, c2)" by fastforce
  note s1 = set_delay_timeout_ok [OF assms(1) c1] and s2 = set_delay_timeout_ok [OF assms(2) c2]
  have inv: "client_inv P c2"
    by (rule client_inv_set_delay [OF assms(2) c2 client_inv_set_delay [OF assms(1) c1 assms(3)]])
  have "dl_timeout (cl_delay c2 dir) = pair_of rd wr dir" for dir
    using s1(2) s2(2) by (cases dir) (simp_all add: pair_of_def)
  moreover have "set_client_delays rd wr c = (Inr (), c2)"
    using c1 c2 s1(1) s2(1) by (simp add: set_client_delays_def)
  ultimately show ?thesis using that inv s1(3) s2(3) by simp
qed

lemma client_inv_set_processors:
  assumes "client_inv P c" "set_option rd \<subseteq> P" "set_option wr \<subseteq> P"
  shows "client_inv P (set_processor WriteSide wr (set_processor ReadSide rd c))"
proof -
  have "processor_of v \<in> insert blank_processor P" if "set_option v \<subseteq> P" for v
    using that by (cases v) (simp_all add: processor_of_def)
  then show ?thesis using assms client_invD [OF assms(1)]
    by (auto simp: client_inv_def set_processor_def split: option.splits)
qed

lemma set_processors_eq:
  "cl_processor (set_processor WriteSide wr (set_processor ReadSide rd c)) dir =
     processor_of (pair_of rd wr dir)"
  "cl_delay (set_processor WriteSide wr (set_processor ReadSide rd c)) = cl_delay c"
  by (cases dir) (simp_all add: set_processor_def pair_of_def)

text \<open>Applying a change to the clients of a set, one after the other.\<close>

lemma fold_clients:
  assumes "distinct is" "\<forall>i \<in> set is. i < length cs"
  shows "length (fold (\<lambda>i cs. cs[i := f (cs ! i)]) is cs) = length cs \<and>
    (\<forall>j < length cs. fold (\<lambda>i cs. cs[i := f (cs ! i)]) is cs ! j =
       (if j \<in> set is then f (cs ! j) else cs ! j))"
  using assms
proof (induction "is" arbitrary: cs)
  case Nil
  then show ?case by simp
next
  case (Cons i "is")
  then have "distinct is" "\<forall>j \<in> set is. j < length (cs[i := f (cs ! i)])" by simp_all
  from Cons.IH [OF this] Cons.prems show ?case by (auto simp: nth_list_update)
qed

lemma set_delays_fold:
  assumes "distinct is" "\<forall>i \<in> set is. i < length cs \<and> client_inv P (cs ! i)" "0 \<le> rd" "0 \<le> wr"
  shows "set_delays rd wr is cs =
    (Inr (), fold (\<lambda>i cs. cs[i := snd (set_client_delays rd wr (cs ! i))]) is cs)"
  using assms(1,2)
proof (induction "is" arbitrary: cs)
  case Nil
  then show ?case by simp
next
  case (Cons i "is")
  from Cons.prems have "client_inv P (cs ! i)" by simp
  from client_delays_ok [OF assms(3,4) this] obtain c
    where c: "set_client_delays rd wr (cs ! i) = (Inr (), c)" by metis
  have "\<forall>j \<in> set is. j < length (cs[i := c]) \<and> client_inv P (cs[i := c] ! j)"
    using Cons.prems by (auto simp: nth_list_update)
  with Cons.IH [of "cs[i := c]"] Cons.prems c show ?case by simp
qed

lemma proxy_invD:
  assumes "proxy_inv P px"
  shows "distinct (px_clients px)" "i \<in> set (px_clients px) \<Longrightarrow> i < length (px_all px)"
    "0 \<le> px_delay px dir" "set_option (px_processor px dir) \<subseteq> P"
    "i < length (px_all px) \<Longrightarrow> client_inv P (px_client px i)"
    "i \<in> set (px_clients px) \<Longrightarrow> has_settings px (px_client px i)"
  using assms by (simp_all add: proxy_inv_def)

lemma proxy_inv_client:
  assumes "proxy_inv P px" "i < length (px_all px)" "client_inv P c"
    and "\<And>dir. dl_timeout (cl_delay c dir) = dl_timeout (cl_delay (px_client px i) dir)"
    and "cl_processor c = cl_processor (px_client px i)"
  shows "proxy_inv P (set_client i c px)"
  using assms by (auto simp: proxy_inv_def set_client_def has_settings_def nth_list_update)

lemma proxy_inv_pipe:
  assumes "proxy_inv P px" "i < length (px_all px)" "cl_tasks (px_client px i) = Some ps"
    and "pipe_bytes P p' \<and> pipe_delay d' (pi_state p') \<and>
      dl_timeout d' = dl_timeout (cl_delay (px_client px i) dir)"
  shows "proxy_inv P (with_pipe i dir ps (d', p') px)"
  unfolding with_pipe_def Let_def fst_conv snd_conv
  using assms(4)
  by (intro proxy_inv_client [OF assms(1,2) client_inv_pipe [OF proxy_invD(5) [OF assms(1,2)] assms(3,4)]])
    simp_all

text \<open>A change of all members that keeps the invariant of each and gives them the settings.\<close>

lemma proxy_inv_members:
  assumes "proxy_inv P px" "px_clients px' = px_clients px"
    and "px_all px' = fold (\<lambda>i cs. cs[i := f (cs ! i)]) (px_clients px) (px_all px)"
    and "\<And>dir. 0 \<le> px_delay px' dir \<and> set_option (px_processor px' dir) \<subseteq> P"
    and "\<And>i. i \<in> set (px_clients px) \<Longrightarrow>
      client_inv P (f (px_client px i)) \<and> has_settings px' (f (px_client px i))"
  shows "proxy_inv P px'"
proof -
  have f: "length (px_all px') = length (px_all px)"
    "\<And>j. j < length (px_all px) \<Longrightarrow>
      px_all px' ! j = (if j \<in> set (px_clients px) then f (px_client px j) else px_client px j)"
    using fold_clients [of "px_clients px" "px_all px" f] proxy_invD(1,2) [OF assms(1)] assms(3)
    by simp_all
  show ?thesis
    unfolding proxy_inv_def
    using f assms(2,4,5) proxy_invD(1,2,5) [OF assms(1)] by simp
qed

lemma proxy_inv_settings:
  assumes "proxy_inv P px" "0 \<le> rd" "0 \<le> wr" "set_delay rd wr px = (r, px')"
  shows "proxy_inv P px' \<and> r = Inr () \<and> px_delay px' = pair_of rd wr \<and>
    px_clients px' = px_clients px \<and> px_processor px' = px_processor px"
proof -
  have ids: "distinct (px_clients px)"
    "\<forall>i \<in> set (px_clients px). i < length (px_all px) \<and> client_inv P (px_client px i)"
    using proxy_invD(1,2,5) [OF assms(1)] by simp_all
  from assms(4) have px': "r = Inr ()" "px' = px\<lparr>px_all :=
      fold (\<lambda>i cs. cs[i := snd (set_client_delays rd wr (cs ! i))]) (px_clients px) (px_all px),
      px_delay := pair_of rd wr\<rparr>"
    using set_delays_fold [OF ids assms(2,3)] by (simp_all add: set_delay_def)
  have "proxy_inv P px'"
  proof (rule proxy_inv_members [OF assms(1), where f = "\<lambda>c. snd (set_client_delays rd wr c)"])
    show "0 \<le> px_delay px' dir \<and> set_option (px_processor px' dir) \<subseteq> P" for dir
      using px' proxy_invD(4) [OF assms(1)] assms(2,3) by (cases dir) (simp_all add: pair_of_def)
  next
    fix i assume i: "i \<in> set (px_clients px)"
    from ids(2) i have "client_inv P (px_client px i)" by simp
    from client_delays_ok [OF assms(2,3) this] obtain c where
      c: "set_client_delays rd wr (px_client px i) = (Inr (), c)" "client_inv P c"
        "\<And>dir. dl_timeout (cl_delay c dir) = pair_of rd wr dir"
        "cl_processor c = cl_processor (px_client px i)" by metis
    with proxy_invD(6) [OF assms(1) i] px'(2)
    show "client_inv P (snd (set_client_delays rd wr (px_client px i))) \<and>
        has_settings px' (snd (set_client_delays rd wr (px_client px i)))"
      by (simp add: has_settings_def)
  qed (simp_all add: px'(2))
  with px' show ?thesis by simp
qed

lemma proxy_inv_processors:
  assumes "proxy_inv P px" "set_option rd \<subseteq> P" "set_option wr \<subseteq> P"
  shows "proxy_inv P (set_content_processors rd wr px)"
proof (rule proxy_inv_members [OF assms(1),
    where f = "\<lambda>c. set_processor WriteSide wr (set_processor ReadSide rd c)"])
  show "0 \<le> px_delay (set_content_processors rd wr px) dir \<and>
      set_option (px_processor (set_content_processors rd wr px) dir) \<subseteq> P" for dir
    using proxy_invD(3) [OF assms(1)] assms(2,3)
    by (cases dir) (simp_all add: set_content_processors_def pair_of_def)
next
  fix i assume i: "i \<in> set (px_clients px)"
  let ?c = "set_processor WriteSide wr (set_processor ReadSide rd (px_client px i))"
  have "client_inv P ?c"
    using proxy_invD(2,5) [OF assms(1)] i assms(2,3) by (intro client_inv_set_processors) simp_all
  moreover have "has_settings (set_content_processors rd wr px) ?c"
    using proxy_invD(6) [OF assms(1) i]
    by (simp add: has_settings_def set_processors_eq set_content_processors_def)
  ultimately show "client_inv P ?c \<and> has_settings (set_content_processors rd wr px) ?c" ..
qed (simp_all add: set_content_processors_def)

lemma client_close_same [simp]:
  "cl_delay (client_close c) = cl_delay c" "cl_processor (client_close c) = cl_processor c"
  by (simp_all add: client_close_def)

lemma proxy_inv_disconnect:
  assumes "proxy_inv P px"
  shows "proxy_inv P (disconnect_all px)"
proof (rule proxy_inv_members [OF assms, where f = client_close])
  fix i assume i: "i \<in> set (px_clients px)"
  then show "client_inv P (client_close (px_client px i)) \<and>
      has_settings (disconnect_all px) (client_close (px_client px i))"
    using proxy_invD(2,5,6) [OF assms, of i] client_inv_close
    by (simp add: has_settings_def disconnect_all_def)
qed (use proxy_invD(3,4) [OF assms] in \<open>simp_all add: disconnect_all_def\<close>)

lemma client_inv_init: "client_inv P (TCPProxyClient_init b)"
  by (simp add: client_inv_def TCPProxyClient_init_def Delay_init_def pipe_delay_def)

lemma proxy_inv_accept:
  assumes "proxy_inv P px" "handle_client_begin px = (r, px')"
  shows "proxy_inv P px'"
proof -
  let ?px = "\<lambda>c. px\<lparr>px_clients := px_clients px @ [length (px_all px)], px_all := px_all px @ [c]\<rparr>"
  from client_delays_ok [OF proxy_invD(3) [OF assms(1)] proxy_invD(3) [OF assms(1)] client_inv_init]
  obtain c where
    c: "set_client_delays (px_delay px ReadSide) (px_delay px WriteSide)
          (TCPProxyClient_init (px_buffered px)) = (Inr (), c)" "client_inv P c"
      "\<And>dir. dl_timeout (cl_delay c dir) = pair_of (px_delay px ReadSide) (px_delay px WriteSide) dir"
    by metis
  let ?c = "set_processor WriteSide (px_processor px WriteSide)
      (set_processor ReadSide (px_processor px ReadSide) c)"
  have px': "px' = ?px ?c" using assms(2) c(1) by (simp add: handle_client_begin_def Let_def)
  have pair: "pair_of (f ReadSide) (f WriteSide) dir = f dir" for f :: "direction \<Rightarrow> 'x" and dir
    by (cases dir) (simp_all add: pair_of_def)
  have inv: "client_inv P ?c"
    by (rule client_inv_set_processors [OF c(2)]) (rule proxy_invD(4) [OF assms(1)])+
  have settings: "has_settings px' ?c"
    using c(3) by (simp add: has_settings_def set_processors_eq pair px')
  have old: "has_settings px' (px_client px i)" if "i \<in> set (px_clients px)" for i
    using proxy_invD(6) [OF assms(1) that] by (simp add: has_settings_def px')
  show ?thesis
    unfolding proxy_inv_def
    using proxy_invD(1-5) [OF assms(1)] inv settings old px'
    by (auto simp: nth_append less_Suc_eq dest: proxy_invD(2) [OF assms(1)])
qed

lemma proxy_inv_removed:
  assumes "proxy_inv P px"
  shows "proxy_inv P (client_removed i px)"
  using assms set_remove1_subset [of i "px_clients px"]
  by (auto simp: proxy_inv_def client_removed_def has_settings_def)

lemma runsD:
  assumes "runs px i ps dir st"
  shows "i < length (px_all px)" "cl_tasks (px_client px i) = Some ps" "pi_state (ps dir) = st"
  using assms by (simp_all add: runs_def)

text \<open>The steps of a pipe: each keeps the invariant of its client, whatever the other pipes do.\<close>

lemma running_pipeD:
  assumes "proxy_inv P px" "runs px i ps dir st"
  shows "client_inv P (px_client px i)" "i < length (px_all px)" "cl_tasks (px_client px i) = Some ps"
    "pi_state (ps dir) = st"
  using proxy_invD(5) [OF assms(1)] runsD [OF assms(2)] by blast+

lemma proxy_inv_read:
  assumes "proxy_inv P px" "runs px i ps dir PipeReading"
  shows "proxy_inv P (with_pipe i dir ps
    (pipe_read now (cl_processor (px_client px i) dir) chunk (cl_delay (px_client px i) dir) (ps dir)) px)"
proof -
  note r = running_pipeD [OF assms] note c = client_invD [OF r(1)]
  let ?dp = "pipe_read now (cl_processor (px_client px i) dir) chunk (cl_delay (px_client px i) dir) (ps dir)"
  have "pipe_bytes P (snd ?dp) \<and> pipe_delay (fst ?dp) (pi_state (snd ?dp)) \<and>
      dl_timeout (fst ?dp) = dl_timeout (cl_delay (px_client px i) dir)"
    using c(4) [OF r(3), of dir] r(4)
    by (intro pipe_read_inv [OF c(5) [OF r(3)] _ r(4) c(1) surjective_pairing]) simp
  from proxy_inv_pipe [OF assms(1) r(2,3) this] show ?thesis by simp
qed

lemma proxy_inv_delay_over:
  assumes "proxy_inv P px" "runs px i ps dir (PipeDelayed chunk)"
  shows "proxy_inv P (with_pipe i dir ps
    (pipe_delay_over (cl_processor (px_client px i) dir) chunk (cl_delay (px_client px i) dir) (ps dir)) px)"
proof -
  note r = running_pipeD [OF assms] note c = client_invD [OF r(1)]
  let ?dp = "pipe_delay_over (cl_processor (px_client px i) dir) chunk (cl_delay (px_client px i) dir) (ps dir)"
  have "pipe_bytes P (snd ?dp) \<and> pipe_delay (fst ?dp) (pi_state (snd ?dp)) \<and>
      dl_timeout (fst ?dp) = dl_timeout (cl_delay (px_client px i) dir)"
    by (rule pipe_delay_over_inv [OF c(5) [OF r(3)] r(4) c(1) surjective_pairing])
  from proxy_inv_pipe [OF assms(1) r(2,3) this] show ?thesis by simp
qed

lemma proxy_inv_write:
  assumes "proxy_inv P px" "runs px i ps dir (PipeProcessing chunk processed)"
  shows "proxy_inv P (with_pipe i dir ps
    (cl_delay (px_client px i) dir, pipe_write (cl_buffered (px_client px i)) chunk processed (ps dir)) px)"
proof -
  note r = running_pipeD [OF assms] note c = client_invD [OF r(1)]
  show ?thesis
    using pipe_write_inv [OF c(5) [OF r(3)] r(4)] c(4) [OF r(3), of dir] r(4)
    by (intro proxy_inv_pipe [OF assms(1) r(2,3)]) simp
qed

lemma proxy_inv_drained:
  assumes "proxy_inv P px" "runs px i ps dir PipeDraining"
  shows "proxy_inv P (with_pipe i dir ps (cl_delay (px_client px i) dir, pipe_drained (ps dir)) px)"
proof -
  note r = running_pipeD [OF assms] note c = client_invD [OF r(1)]
  show ?thesis
    using pipe_drained_inv [OF c(5) [OF r(3)] r(4)] c(4) [OF r(3), of dir] r(4)
    by (intro proxy_inv_pipe [OF assms(1) r(2,3)]) simp
qed

lemma proxy_inv_cancel:
  assumes "proxy_inv P px" "i < length (px_all px)" "cl_tasks (px_client px i) = Some ps"
    and "\<not> pipe_ended (pi_state (ps dir))"
  shows "proxy_inv P (with_pipe i dir ps (pipe_cancel (cl_delay (px_client px i) dir) (ps dir)) px)"
proof -
  note c = client_invD [OF proxy_invD(5) [OF assms(1,2)]]
  let ?dp = "pipe_cancel (cl_delay (px_client px i) dir) (ps dir)"
  have "pipe_bytes P (snd ?dp) \<and> pipe_delay (fst ?dp) (pi_state (snd ?dp)) \<and>
      dl_timeout (fst ?dp) = dl_timeout (cl_delay (px_client px i) dir)"
    by (rule pipe_cancel_inv [OF c(5) [OF assms(3)] assms(4) c(4) [OF assms(3)] surjective_pairing])
  from proxy_inv_pipe [OF assms(1-3) this] show ?thesis by simp
qed

lemma proxy_inv_connected:
  assumes "proxy_inv P px" "i < length (px_all px)" "\<not> cl_registered (px_client px i)"
    and "cl_tasks (px_client px i) = None"
  shows "proxy_inv P (handle_client_connected i px)"
proof -
  have "client_inv P (client_connect (px_client px i))"
    using proxy_invD(5) [OF assms(1,2)] assms(4) by (rule client_inv_connect)
  then show ?thesis
    unfolding handle_client_connected_def
    by (intro proxy_inv_client assms) (simp_all add: client_connect_def)
qed

lemma proxy_step_inv:
  assumes "proxy_step P px px'" "proxy_inv P px"
  shows "proxy_inv P px'"
  using assms
proof (induction rule: proxy_step.induct)
  case (ps_accept px r px')
  then show ?case using proxy_inv_accept by blast
next
  case (ps_timer i px dir now)
  then show ?case by (intro proxy_inv_client client_inv_timer proxy_invD(5)) simp_all
next
  case (ps_set_delay rd wr px r px')
  then show ?case using proxy_inv_settings by blast
next
  case (ps_close i px)
  then show ?case by (intro proxy_inv_client client_inv_close proxy_invD(5)) simp_all
next
  case (ps_close_end i px)
  then show ?case
    by (intro proxy_inv_client) (simp_all add: proxy_invD(5), simp_all add: client_close_end_def)
next
  case (ps_set_processors rd wr px)
  then show ?case by (intro proxy_inv_processors)
qed (simp_all add: proxy_inv_connected proxy_inv_read proxy_inv_delay_over proxy_inv_write proxy_inv_drained
    proxy_inv_cancel proxy_inv_disconnect proxy_inv_removed)

definition proxy_new :: "TCPProxy \<Rightarrow> bool" where
  "proxy_new px \<longleftrightarrow> (\<exists>th tp lh b p. px = TCPProxy_init th tp lh b p)"

interpretation proxy: invariant_system proxy_new "proxy_step P" "proxy_inv P"
proof unfold_locales
  fix px assume "proxy_new px"
  then show "proxy_inv P px"
    by (auto simp: proxy_new_def TCPProxy_init_def proxy_inv_def)
qed (rule proxy_step_inv)

section \<open>Properties\<close>

lemma blank_log:
  assumes "pipe_bytes {} p"
  shows "map fst (pi_log p) = map snd (pi_log p)"
  using assms by (auto simp: pipe_bytes_def blank_processor_def)

text \<open>
  C39. The proxy is transparent: as long as no content processor is set, and whatever delays are
  set, clients come, are closed or removed, in every interleaving each pipe has written exactly what it
  has read, in order, but for the one chunk it may have in hand; a pipe whose input ended has
  written all of it and closed its output. Members of the set of clients all have the delays of
  the proxy.
\<close>

theorem proxy_transparent:
  assumes "reachable proxy_new (proxy_step {}) px" "i < length (px_all px)"
    and "cl_tasks (px_client px i) = Some ps"
  shows "(\<exists>rest. pi_read (ps dir) = pi_written (ps dir) @ rest) \<and>
    (\<not> pipe_ended (pi_state (ps dir)) \<longrightarrow>
       pi_read (ps dir) = pi_written (ps dir) @ in_hand (pi_state (ps dir)) \<and> \<not> pi_closed (ps dir)) \<and>
    (pi_state (ps dir) = PipeEnded (Inr ()) \<longrightarrow>
       pi_written (ps dir) = pi_read (ps dir) \<and> pi_closed (ps dir)) \<and>
    (i \<in> set (px_clients px) \<longrightarrow> dl_timeout (cl_delay (px_client px i) dir) = px_delay px dir)"
proof -
  have inv: "proxy_inv {} px" by (rule proxy.reachable_inv [OF assms(1)])
  have pipe: "pipe_bytes {} (ps dir)"
    by (rule client_invD(5) [OF proxy_invD(5) [OF inv assms(2)] assms(3)])
  have log: "pi_written (ps dir) = concat (map fst (pi_log (ps dir)))"
    using pipe by (simp only: blank_log [OF pipe] pipe_bytes_def)
  have closed: "pi_closed (ps dir) \<longleftrightarrow> pipe_ended (pi_state (ps dir))"
    using pipe by (simp add: pipe_bytes_def)
  have "\<exists>rest. pi_read (ps dir) = pi_written (ps dir) @ rest"
    using pipe log by (auto simp: pipe_bytes_def)
  moreover have "pi_read (ps dir) = pi_written (ps dir) @ in_hand (pi_state (ps dir))"
    if "\<not> pipe_ended (pi_state (ps dir))"
    using pipe_bytes_in_hand [OF pipe refl that] log by simp
  moreover have "pi_written (ps dir) = pi_read (ps dir)" if "pi_state (ps dir) = PipeEnded (Inr ())"
    using pipe log that by (auto simp: pipe_bytes_def)
  moreover have "dl_timeout (cl_delay (px_client px i) dir) = px_delay px dir"
    if "i \<in> set (px_clients px)"
    using proxy_invD(6) [OF inv that] by (simp add: has_settings_def)
  ultimately show ?thesis using closed by auto
qed

text \<open>The states of a proxy with one client that sends two bytes and then closes.\<close>

definition example_proxy :: TCPProxy where
  "example_proxy =
     handle_client_connected 0
       (snd (handle_client_begin (TCPProxy_init ''target'' 80 ''127.0.0.1'' True 8080)))"

definition example_pipe :: "bytes \<Rightarrow> pipe" where
  "example_pipe bs = snd (pipe_read 0 blank_processor bs Delay_init pipe_init)"

definition example_written :: pipe where
  "example_written = pipe_write True [1, 2] (Inr [1, 2]) (example_pipe [1, 2])"

definition example_at :: "pipe \<Rightarrow> TCPProxy" where
  "example_at p = with_pipe 0 ReadSide (\<lambda>_. pipe_init) (Delay_init, p) example_proxy"

lemma example_client:
  "length (px_all example_proxy) = 1" "cl_delay (px_client example_proxy 0) = (\<lambda>_. Delay_init)"
  "cl_processor (px_client example_proxy 0) dir = blank_processor"
  "cl_buffered (px_client example_proxy 0)" "cl_chunk_size (px_client example_proxy 0) = 65536"
  "cl_tasks (px_client example_proxy 0) = Some (\<lambda>_. pipe_init)"
  by (auto simp: example_proxy_def TCPProxy_init_def handle_client_begin_def Let_def
      set_client_delays_def set_delay_timeout_def set_timeout_def TCPProxyClient_init_def
      Delay_init_def handle_client_connected_def set_client_def client_connect_def set_processor_def
      processor_of_def)

lemma example_at_client:
  "length (px_all (example_at p)) = 1"
  "cl_delay (px_client (example_at p) 0) = (\<lambda>_. Delay_init)"
  "cl_processor (px_client (example_at p) 0) dir = blank_processor"
  "cl_buffered (px_client (example_at p) 0)" "cl_chunk_size (px_client (example_at p) 0) = 65536"
  "cl_tasks (px_client (example_at p) 0) = Some ((\<lambda>_. pipe_init)(ReadSide := p))"
  "with_pipe 0 ReadSide ((\<lambda>_. pipe_init)(ReadSide := p)) (Delay_init, q) (example_at p) = example_at q"
  using example_client
  by (auto simp: example_at_def with_pipe_def set_client_def Let_def fun_eq_iff)

lemma example_reachable:
  "reachable proxy_new (proxy_step {}) (example_at (pipe_end (Inr ()) example_written))"
proof -
  let ?px = "TCPProxy_init ''target'' 80 ''127.0.0.1'' True 8080"
  have "reachable proxy_new (proxy_step {}) ?px"
    by (rule reach_init, unfold proxy_new_def) blast
  then have r0: "reachable proxy_new (proxy_step {}) (snd (handle_client_begin ?px))"
    by (rule reach_step) (rule ps_accept [OF surjective_pairing])
  have r1: "reachable proxy_new (proxy_step {}) example_proxy"
    unfolding example_proxy_def
    by (rule reach_step [OF r0], rule ps_connected)
      (auto simp: TCPProxy_init_def handle_client_begin_def Let_def
        set_client_delays_def set_delay_timeout_def set_timeout_def TCPProxyClient_init_def
        Delay_init_def set_processor_def)
  have rd: "pipe_read 0 blank_processor [1, 2] Delay_init pipe_init = (Delay_init, example_pipe [1, 2])"
    by (simp add: example_pipe_def pipe_read_def Delay_init_def)
  have "runs example_proxy 0 (\<lambda>_. pipe_init) ReadSide PipeReading"
    using example_client by (simp add: runs_def pipe_init_def)
  from reach_step [OF r1 ps_read [OF this, where chunk = "[1, 2]" and now = 0]]
  have r2: "reachable proxy_new (proxy_step {}) (example_at (example_pipe [1, 2]))"
    using example_client rd by (simp add: example_at_def)
  have "runs (example_at (example_pipe [1, 2])) 0 ((\<lambda>_. pipe_init)(ReadSide := example_pipe [1, 2]))
      ReadSide (PipeProcessing [1, 2] (Inr [1, 2]))"
    using example_at_client
    by (simp add: runs_def example_pipe_def pipe_read_def pipe_process_def Delay_init_def
        blank_processor_def pipe_init_def)
  from reach_step [OF r2 ps_write [OF this]]
  have r3: "reachable proxy_new (proxy_step {}) (example_at example_written)"
    using example_at_client by (simp add: example_written_def)
  have "runs (example_at example_written) 0 ((\<lambda>_. pipe_init)(ReadSide := example_written))
      ReadSide PipeReading"
    using example_at_client
    by (simp add: runs_def example_written_def pipe_write_def example_pipe_def pipe_read_def
        pipe_process_def Delay_init_def pipe_init_def)
  from reach_step [OF r3 ps_read [OF this, where chunk = "[]" and now = 0]] show ?thesis
    using example_at_client by (simp add: pipe_read_def)
qed

theorem proxy_transparent_witness:
  "pi_written (pipe_end (Inr ()) example_written) = [1, 2]"
proof -
  let ?p = "pipe_end (Inr ()) example_written"
  have "pi_state ?p = PipeEnded (Inr ())" "pi_read ?p = [1, 2]"
    by (simp_all add: pipe_end_def example_written_def pipe_write_def example_pipe_def pipe_read_def
        pipe_process_def Delay_init_def pipe_init_def)
  then show ?thesis
    using proxy_transparent [OF example_reachable, of 0 "(\<lambda>_. pipe_init)(ReadSide := ?p)" ReadSide]
      example_at_client [of ?p] by simp
qed

text \<open>
  \<^verbatim>\<open>slowdown\<close> restores the delays: after it, the proxy and every connected client, those accepted
  meanwhile included, have the delays from before, whatever happened in its body.
\<close>

lemma slowdown_restores:
  assumes "proxy_inv P px" "0 \<le> rd" "0 \<le> wr"
    and "\<And>px1. proxy_inv P px1 \<Longrightarrow> proxy_inv P (body px1)"
    and "slowdown rd wr body px = (r, px')"
  shows "r = Inr () \<and> px_delay px' = px_delay px \<and>
    (\<forall>i \<in> set (px_clients px'). \<forall>dir.
       dl_timeout (cl_delay (px_client px' i) dir) = px_delay px dir)"
proof -
  obtain r1 px1 where s1: "set_delay rd wr px = (r1, px1)" by fastforce
  note i1 = proxy_inv_settings [OF assms(1-3) s1]
  have s2: "set_delay (px_delay px ReadSide) (px_delay px WriteSide) (body px1) = (r, px')"
    using assms(5) s1 i1 by (simp add: slowdown_def)
  note i2 = proxy_inv_settings [OF assms(4) proxy_invD(3) [OF assms(1)] proxy_invD(3) [OF assms(1)] s2]
  have d: "px_delay px' = px_delay px"
    using i1 i2 by (auto simp: pair_of_def fun_eq_iff split: direction.splits)
  moreover have "dl_timeout (cl_delay (px_client px' i) dir) = px_delay px dir"
    if "i \<in> set (px_clients px')" for i dir
    using i1 i2 proxy_invD(6) [OF _ that] d by (auto simp: has_settings_def)
  ultimately show ?thesis using i1 i2 by simp
qed

end
