(* ===== verification/PytestPlugin.thy ===== *)
theory PytestPlugin
  imports TestProxy
begin

text \<open>
  The fixtures and hooks of the pytest plugin (\<^verbatim>\<open>aiomisc/pytest.py\<close>): asynchronous fixtures with
  their finalizers, asynchronous tests, the event loop of a test and what happens to it in the end,
  and the sockets that reserve unused ports. pytest is the environment: it calls the wrapped
  fixture and afterwards its finalizers, the last one first.
\<close>

section \<open>Asynchronous fixtures\<close>

datatype func_kind = PlainFunction | CoroutineFunction | AsyncGenFunction

definition isasyncgenerator :: "func_kind \<Rightarrow> bool option" where
  "isasyncgenerator k =
     (if k = AsyncGenFunction then Some True
      else if k = CoroutineFunction then Some False
      else None)"

text \<open>
  A generator is the list of what its successive \<^verbatim>\<open>__anext__\<close> calls do, a yielded value or an
  exception; after the last one they raise \<^verbatim>\<open>StopAsyncIteration\<close>.
\<close>

definition StopAsyncIteration :: pyexc where
  "StopAsyncIteration = mk_exc [''StopAsyncIteration'', ''Exception'', ''BaseException''] []"

definition gen_next :: "'v result list \<Rightarrow> 'v result \<times> 'v result list" where
  "gen_next g = (case g of [] \<Rightarrow> (Inl StopAsyncIteration, []) | r # g' \<Rightarrow> (r, case r of Inl _ \<Rightarrow> [] | Inr _ \<Rightarrow> g'))"

text \<open>
  The definition of a fixture: what its function is, the names of its arguments, and whether it
  has been wrapped, with the flag \<^verbatim>\<open>strip_request\<close> of the wrapper.
\<close>

record fixturedef =
  fx_kind :: func_kind
  fx_argnames :: "string list"
  fx_wrapper :: "bool option"

definition pytest_fixture_setup :: "string list \<Rightarrow> fixturedef \<Rightarrow> unit result \<times> fixturedef" where
  "pytest_fixture_setup fixturenames fd =
     (if isasyncgenerator (fx_kind fd) = None then (Inr (), fd)
      else
        let strip_request = ''request'' \<notin> set (fx_argnames fd);
            fd1 = (if strip_request then fd\<lparr>fx_argnames := fx_argnames fd @ [''request'']\<rparr> else fd)
        in if ''event_loop'' \<notin> set fixturenames
           then (Inl (mk_exc [''Exception'', ''BaseException''] [''`event_loop` fixture required'']), fd1)
           else (Inr (), fd1\<lparr>fx_wrapper := Some strip_request\<rparr>))"

text \<open>
  The call of the wrapper: the arguments that reach the function, the value of the fixture, and
  the generator that its finalizer will resume, if there is one. The finalizer is added before the
  first value is taken.
\<close>

definition wrapper_args :: "bool \<Rightarrow> (string \<times> 'a) list \<Rightarrow> (string \<times> 'a) list" where
  "wrapper_args strip_request kwargs =
     (if strip_request then filter (\<lambda>(k, _). k \<noteq> ''request'') kwargs else kwargs)"

definition fixture_call :: "bool \<Rightarrow> 'v result list \<Rightarrow> 'v result \<times> 'v result list option" where
  "fixture_call is_async_gen body =
     (let (r, g) = gen_next body in (r, if is_async_gen then Some g else None))"

definition fixture_finalizer :: "'v result list \<Rightarrow> 'v option result \<times> 'v result list" where
  "fixture_finalizer g =
     (case gen_next g of
        (Inl e, g') \<Rightarrow>
          if isinstance_exc e ''StopAsyncIteration'' then (Inr None, g') else (Inl e, g')
      | (Inr v, g') \<Rightarrow> (Inr (Some v), g'))"

section \<open>Asynchronous tests\<close>

definition pytest_pycollect_makeitem :: "bool \<Rightarrow> func_kind \<Rightarrow> 'i list \<Rightarrow> 'i list option" where
  "pytest_pycollect_makeitem name_matches kind generated =
     (if name_matches \<and> kind = CoroutineFunction then Some generated else None)"

text \<open>
  The call of a test: \<^const>\<open>None\<close> leaves it to pytest. The test has an outcome and a duration; the
  arguments are those that the test names, among the values of all fixtures.
\<close>

fun select_args :: "(string \<rightharpoonup> 'a) \<Rightarrow> string list \<Rightarrow> (string \<times> 'a) list result" where
  "select_args funcargs [] = Inr []"
| "select_args funcargs (arg # argnames) =
     (case funcargs arg of
        None \<Rightarrow> Inl (KeyError arg)
      | Some v \<Rightarrow> bind_result (select_args funcargs argnames) (\<lambda>kw. Inr ((arg, v) # kw)))"

definition limit_test :: "number option \<Rightarrow> number \<Rightarrow> unit result \<Rightarrow> unit result \<times> number" where
  "limit_test timeout duration outcome =
     (case timeout of
        Some t \<Rightarrow> if t < duration then (Inl TimeoutError, max t 0) else (outcome, duration)
      | None \<Rightarrow> (outcome, duration))"

definition pytest_pyfunc_call ::
  "func_kind \<Rightarrow> bool \<Rightarrow> (string \<rightharpoonup> 'a) \<Rightarrow> string list \<Rightarrow> number option \<Rightarrow>
   ((string \<times> 'a) list \<Rightarrow> unit result \<times> number) \<Rightarrow> bool option result \<times> number" where
  "pytest_pyfunc_call kind has_loop funcargs argnames timeout test =
     (if kind \<noteq> CoroutineFunction then (Inr None, 0)
      else case select_args funcargs argnames of
             Inl e \<Rightarrow> (Inl e, 0)
           | Inr kwargs \<Rightarrow>
               if \<not> has_loop
               then (Inl (mk_exc [''AttributeError'', ''Exception'', ''BaseException''] []), 0)
               else case limit_test timeout (snd (test kwargs)) (fst (test kwargs)) of
                      (Inl e, t) \<Rightarrow> (Inl e, t)
                    | (Inr _, t) \<Rightarrow> (Inr (Some True), t))"

section \<open>The event loop of a test\<close>

datatype loop_action =
  BasicConfig string
| CreateLoop bool
| SetDebug bool
| SetEventLoop bool
| SetCurrentLoop
| SetDefaultExecutor nat
| SetExceptionHandler
| SetLogLevel
| PatchGetEventLoop
| ForbidGetEventLoop
| RestoreGetEventLoop
| LogUnhandled nat
| ShutdownAsyncgens
| ShutdownExecutor
| CloseLoop

definition create_event_loop :: "bool \<Rightarrow> bool \<Rightarrow> loop_action" where
  "create_event_loop use_uvloop has_uvloop = CreateLoop (use_uvloop \<and> has_uvloop)"

definition event_loop_setup ::
  "bool \<Rightarrow> bool \<Rightarrow> bool \<Rightarrow> nat \<Rightarrow> bool \<Rightarrow> bool \<Rightarrow> loop_action list" where
  "event_loop_setup use_uvloop has_uvloop debug pool_size catch_unhandled forbid_getter =
     [BasicConfig ''caplog'', create_event_loop use_uvloop has_uvloop, SetDebug debug,
      SetEventLoop True, SetCurrentLoop, SetDefaultExecutor pool_size] @
     (if catch_unhandled then [SetExceptionHandler] else []) @
     [SetLogLevel, PatchGetEventLoop] @
     (if forbid_getter then [ForbidGetEventLoop] else [])"

definition Failed :: "string \<Rightarrow> pyexc" where
  "Failed m = mk_exc [''Failed'', ''OutcomeException'', ''BaseException''] [m]"

text \<open>
  The end of the fixture, given the number of exceptions caught before it, whether the test has
  closed the loop, and the number caught when the loop has been shut down.
\<close>

definition event_loop_teardown :: "nat \<Rightarrow> bool \<Rightarrow> nat \<Rightarrow> loop_action list \<times> unit result" where
  "event_loop_teardown exceptions is_closed exceptions_later =
     (if exceptions > 0
      then ([RestoreGetEventLoop, LogUnhandled exceptions],
            Inl (Failed ''Unhandled exceptions found. See logs.''))
      else
        let cleanup = [RestoreGetEventLoop, BasicConfig ''stderr''] @
              (if is_closed then [] else [ShutdownAsyncgens, ShutdownExecutor, CloseLoop])
        in if exceptions_later > 0
           then (cleanup @ [LogUnhandled exceptions_later],
                 Inl (Failed ''Unhandled exceptions found. See logs.''))
           else (cleanup @ [SetEventLoop False], Inr ()))"

section \<open>Local addresses and unused ports\<close>

fun first_bindable :: "(string \<Rightarrow> unit result) \<Rightarrow> string list \<Rightarrow> string result" where
  "first_bindable bind [] = Inl (RuntimeError ''localhost unavailable'')"
| "first_bindable bind (addr # params) =
     (case bind addr of
        Inl e \<Rightarrow> if is_Exception e then first_bindable bind params else Inl e
      | Inr _ \<Rightarrow> Inr addr)"

definition localhost :: "(string \<Rightarrow> unit result) \<Rightarrow> string result" where
  "localhost bind = first_bindable bind [''127.0.0.1'', ''::1'']"

text \<open>
  The descriptors of the process: the ports that the open ones are bound to. A socket object owns
  a descriptor until it is detached.
\<close>

type_synonym fd_table = "int \<rightharpoonup> nat option"

record SocketWrapperUnix =
  sw_socket :: "int option"
  sw_fd :: int
  sw_address :: string
  sw_port :: nat

definition SocketWrapperUnix_init :: "int \<Rightarrow> fd_table \<Rightarrow> SocketWrapperUnix \<times> fd_table" where
  "SocketWrapperUnix_init new_fd t =
     (\<lparr>sw_socket = Some new_fd, sw_fd = -1, sw_address = [], sw_port = 0\<rparr>, t(new_fd \<mapsto> None))"

text \<open>\<^verbatim>\<open>prepare\<close> binds to a port that the system chooses, or raises.\<close>

definition sw_prepare ::
  "string \<Rightarrow> nat result \<Rightarrow> SocketWrapperUnix \<Rightarrow> fd_table \<Rightarrow> unit result \<times> SocketWrapperUnix \<times> fd_table" where
  "sw_prepare address bound w t =
     (case bound of
        Inl e \<Rightarrow> (Inl e, w, t)
      | Inr port \<Rightarrow>
          (case sw_socket w of
             None \<Rightarrow> (Inl (mk_exc [''OSError'', ''Exception'', ''BaseException''] []), w, t)
           | Some s \<Rightarrow>
               (Inr (), w\<lparr>sw_address := address, sw_port := port, sw_fd := s, sw_socket := None\<rparr>,
                t(s \<mapsto> Some port))))"

definition sw_close :: "SocketWrapperUnix \<Rightarrow> fd_table \<Rightarrow> unit result \<times> SocketWrapperUnix \<times> fd_table" where
  "sw_close w t =
     (let t1 = (case sw_socket w of Some s \<Rightarrow> t(s := None) | None \<Rightarrow> t);
          w1 = w\<lparr>sw_socket := None\<rparr>
      in if sw_fd w > 0
         then if t1 (sw_fd w) = None
              then (Inl (mk_exc [''OSError'', ''Exception'', ''BaseException''] []), w1, t1)
              else (Inr (), w1, t1(sw_fd w := None))
         else (Inr (), w1, t1))"

text \<open>
  \<^verbatim>\<open>port_factory\<close>: the reserved port and the wrapper that the finalizer will close. A failing
  \<^verbatim>\<open>prepare\<close> registers no finalizer.
\<close>

definition port_factory ::
  "string \<Rightarrow> int \<Rightarrow> nat result \<Rightarrow> SocketWrapperUnix list \<Rightarrow> fd_table \<Rightarrow>
   nat result \<times> SocketWrapperUnix list \<times> fd_table" where
  "port_factory host new_fd bound finalizers t =
     (let (w, t1) = SocketWrapperUnix_init new_fd t
      in case sw_prepare (if CHR '':'' \<in> set host then ''::'' else ''0.0.0.0'') bound w t1 of
           (Inl e, _, t2) \<Rightarrow> (Inl e, finalizers, t2)
         | (Inr _, w2, t2) \<Rightarrow> (Inr (sw_port w2), w2 # finalizers, t2))"

fun run_finalizers :: "SocketWrapperUnix list \<Rightarrow> fd_table \<Rightarrow> fd_table" where
  "run_finalizers [] t = t"
| "run_finalizers (w # ws) t = run_finalizers ws (snd (snd (sw_close w t)))"

section \<open>Properties\<close>

text \<open>
  A fixture whose function is an asynchronous generator gives the first value that the generator yields,
  and its finalizer resumes the generator exactly once: the end of the generator is no error, and any
  other exception of the part after the \<^verbatim>\<open>yield\<close> is one.
\<close>

lemma async_fixture_lifecycle:
  "fixture_call True [Inr v] = (Inr v, Some []) \<and> fixture_finalizer [] = (Inr None, []) \<and>
   fixture_call True [Inr v, Inl e] = (Inr v, Some [Inl e]) \<and>
   fixture_finalizer [Inl e] =
     ((if isinstance_exc e ''StopAsyncIteration'' then Inr None else Inl e), [])"
  by (simp add: fixture_call_def fixture_finalizer_def gen_next_def py_simps StopAsyncIteration_def)

lemma fixture_setup_result:
  assumes "pytest_fixture_setup names fd = (r, fd')"
  shows "(fx_kind fd = PlainFunction \<longrightarrow> r = Inr () \<and> fd' = fd) \<and>
    (fx_kind fd \<noteq> PlainFunction \<longrightarrow>
       (r = Inr ()) = (''event_loop'' \<in> set names) \<and> ''request'' \<in> set (fx_argnames fd') \<and>
       (r = Inr () \<longrightarrow> fx_wrapper fd' = Some (''request'' \<notin> set (fx_argnames fd)) \<and>
          (distinct (fx_argnames fd) \<longrightarrow> distinct (fx_argnames fd'))))"
  using assms by (cases "fx_kind fd")
    (auto simp: pytest_fixture_setup_def isasyncgenerator_def Let_def split: if_splits)

text \<open>The function of a wrapped fixture gets exactly the arguments that it named itself.\<close>

lemma wrapper_args_names:
  assumes "map fst kwargs = fx_argnames fd'" "distinct (fx_argnames fd)"
    and "pytest_fixture_setup names fd = (Inr (), fd')" "fx_wrapper fd' = Some strip"
    and "fx_kind fd \<noteq> PlainFunction"
  shows "map fst (wrapper_args strip kwargs) = fx_argnames fd"
proof -
  have fd': "strip = (''request'' \<notin> set (fx_argnames fd))"
    "fx_argnames fd' = (if strip then fx_argnames fd @ [''request''] else fx_argnames fd)"
    using assms(3,4,5)
    by (cases "fx_kind fd"; auto simp: pytest_fixture_setup_def isasyncgenerator_def Let_def split: if_splits)+
  have "map fst (filter (\<lambda>(k, _). k \<noteq> ''request'') kwargs) =
      filter (\<lambda>k. k \<noteq> ''request'') (map fst kwargs)"
    by (simp add: filter_map o_def case_prod_unfold)
  then show ?thesis using fd' assms(1)
    by (auto simp: wrapper_args_def filter_id_conv)
qed

text \<open>A test ends within its timeout, and passes exactly when it returns within it.\<close>

lemma pyfunc_call_timeout:
  assumes "pytest_pyfunc_call CoroutineFunction True funcargs argnames (Some t) test = (r, d)"
    and "0 \<le> t" "\<forall>kw. 0 \<le> snd (test kw)"
  shows "d \<le> t"
    and "r = Inr (Some True) \<longleftrightarrow>
      (\<exists>kw. select_args funcargs argnames = Inr kw \<and> snd (test kw) \<le> t \<and> fst (test kw) = Inr ())"
  using assms
  by (auto simp: pytest_pyfunc_call_def limit_test_def split: sum.splits prod.splits if_splits)

text \<open>
  When the test leaves the loop open and no exception was caught, the fixture closes the loop, with
  its asynchronous generators and its executor before it; when the loop's exception handler has
  caught something, the fixture fails before that and the loop stays open.
\<close>

lemma event_loop_closed:
  "CloseLoop \<in> set (fst (event_loop_teardown exc is_closed later)) \<longleftrightarrow> exc = 0 \<and> \<not> is_closed"
  "isl (snd (event_loop_teardown exc is_closed later)) \<longleftrightarrow> 0 < exc \<or> 0 < later"
  "RestoreGetEventLoop = hd (fst (event_loop_teardown exc is_closed later))"
  by (auto simp: event_loop_teardown_def Let_def)

text \<open>
  A port from the factory stays bound until the finalizers run, and then no descriptor of the
  factory is left open.
\<close>

lemma port_factory_reserves:
  assumes "t new_fd = None" "0 < new_fd" "port_factory host new_fd (Inr port) fins t = (r, fins', t')"
  shows "r = Inr port" "t' = t(new_fd \<mapsto> Some port)" "run_finalizers fins' t' = run_finalizers fins t"
proof -
  have f: "r = Inr port \<and> t' = t(new_fd \<mapsto> Some port) \<and>
      (\<exists>w. fins' = w # fins \<and> sw_socket w = None \<and> sw_fd w = new_fd)"
    using assms(3) by (auto simp: port_factory_def SocketWrapperUnix_init_def sw_prepare_def)
  then show "r = Inr port" "t' = t(new_fd \<mapsto> Some port)" by simp_all
  have "(t(new_fd \<mapsto> Some port))(new_fd := None) = t" using assms(1) by auto
  with f assms(2) show "run_finalizers fins' t' = run_finalizers fins t"
    by (auto simp: sw_close_def Let_def)
qed

lemma localhost_result:
  assumes "\<forall>a e. bind a = Inl e \<longrightarrow> is_Exception e"
  shows "localhost bind =
    (if isl (bind ''127.0.0.1'') then if isl (bind ''::1'') then Inl (RuntimeError ''localhost unavailable'')
       else Inr ''::1'' else Inr ''127.0.0.1'')"
  using assms by (auto simp: localhost_def split: sum.splits)

end
