(* ===== verification/Logging.thy ===== *)
theory Logging
  imports Prelude "HOL-Library.AList"
begin

text \<open>
  Logging: the choice and set-up of handlers in \<^verbatim>\<open>aiomisc_log\<close>, its JSON formatter, and the
  threaded handler and the hook for unhandled errors of an event loop of \<^verbatim>\<open>aiomisc/log.py\<close>.

  The handlers of the standard library and of third-party packages (colorlog, rich,
  logging-journald) are descriptions here; what they write is not modelled.
\<close>

definition ImportError :: "string \<Rightarrow> pyexc" where
  "ImportError m = mk_exc [''ImportError'', ''Exception'', ''BaseException''] [m]"

definition FileNotFoundError :: "string \<Rightarrow> pyexc" where
  "FileNotFoundError m = mk_exc [''FileNotFoundError'', ''OSError'', ''Exception'', ''BaseException''] [m]"

definition AttributeError :: "string \<Rightarrow> pyexc" where
  "AttributeError m = mk_exc [''AttributeError'', ''Exception'', ''BaseException''] [m]"

definition FullError :: pyexc where
  "FullError = mk_exc [''Full'', ''Exception'', ''BaseException''] []"

section \<open>Formats and levels\<close>

datatype LogFormat = disabled | stream | color | json | syslog | plain | journald | rich | rich_tb

datatype LogLevel = critical | error | warning | info | debug | notset

fun LogFormat_value :: "LogFormat \<Rightarrow> int" where
  "LogFormat_value disabled = -1"
| "LogFormat_value stream = 0"
| "LogFormat_value color = 1"
| "LogFormat_value json = 2"
| "LogFormat_value syslog = 3"
| "LogFormat_value plain = 4"
| "LogFormat_value journald = 5"
| "LogFormat_value rich = 6"
| "LogFormat_value rich_tb = 7"

fun LogLevel_value :: "LogLevel \<Rightarrow> int" where
  "LogLevel_value critical = 50"
| "LogLevel_value error = 40"
| "LogLevel_value warning = 30"
| "LogLevel_value info = 20"
| "LogLevel_value debug = 10"
| "LogLevel_value notset = 0"

text \<open>Levels are compared as their numbers, being members of an \<^verbatim>\<open>IntEnum\<close>; so are the formats.\<close>

lemma LogLevel_value_inj: "LogLevel_value a = LogLevel_value b \<longleftrightarrow> a = b"
  by (cases a; cases b) simp_all

lemma LogFormat_value_inj: "LogFormat_value a = LogFormat_value b \<longleftrightarrow> a = b"
  by (cases a; cases b) simp_all

instantiation LogLevel :: linorder
begin

definition less_eq_LogLevel :: "LogLevel \<Rightarrow> LogLevel \<Rightarrow> bool" where
  "less_eq_LogLevel a b \<longleftrightarrow> LogLevel_value a \<le> LogLevel_value b"

definition less_LogLevel :: "LogLevel \<Rightarrow> LogLevel \<Rightarrow> bool" where
  "less_LogLevel a b \<longleftrightarrow> LogLevel_value a < LogLevel_value b"

instance
  by standard
    (auto simp: less_eq_LogLevel_def less_LogLevel_def simp flip: LogLevel_value_inj)

end

instantiation LogFormat :: linorder
begin

definition less_eq_LogFormat :: "LogFormat \<Rightarrow> LogFormat \<Rightarrow> bool" where
  "less_eq_LogFormat a b \<longleftrightarrow> LogFormat_value a \<le> LogFormat_value b"

definition less_LogFormat :: "LogFormat \<Rightarrow> LogFormat \<Rightarrow> bool" where
  "less_LogFormat a b \<longleftrightarrow> LogFormat_value a < LogFormat_value b"

instance
  by standard
    (auto simp: less_eq_LogFormat_def less_LogFormat_def simp flip: LogFormat_value_inj)

end

definition format_names :: "(string \<times> LogFormat) list" where
  "format_names = [(''disabled'', disabled), (''stream'', stream), (''color'', color),
     (''json'', json), (''syslog'', syslog), (''plain'', plain), (''journald'', journald),
     (''rich'', rich), (''rich_tb'', rich_tb)]"

definition level_names :: "(string \<times> LogLevel) list" where
  "level_names = [(''critical'', critical), (''error'', error), (''warning'', warning),
     (''info'', info), (''debug'', debug), (''notset'', notset)]"

text \<open>The members are declared in the order of their values.\<close>

lemma names_sorted: "sorted (map snd format_names)" "sorted (rev (map snd level_names))"
  by (simp_all add: format_names_def level_names_def less_eq_LogFormat_def less_eq_LogLevel_def)

text \<open>\<^verbatim>\<open>LogFormat[name]\<close> and \<^verbatim>\<open>LogLevel[name]\<close>.\<close>

definition LogFormat_of :: "string \<Rightarrow> LogFormat result" where
  "LogFormat_of n = (case map_of format_names n of None \<Rightarrow> Inl (KeyError n) | Some f \<Rightarrow> Inr f)"

definition LogLevel_of :: "string \<Rightarrow> LogLevel result" where
  "LogLevel_of n = (case map_of level_names n of None \<Rightarrow> Inl (KeyError n) | Some l \<Rightarrow> Inr l)"

definition LogFormat_default :: "bool \<Rightarrow> bool \<Rightarrow> bool \<Rightarrow> string" where
  "LogFormat_default check_journal_stream isatty rich_installed =
     (if check_journal_stream then ''journald''
      else if \<not> isatty then ''plain''
      else if rich_installed then ''rich''
      else ''color'')"

definition LogLevel_default :: string where
  "LogLevel_default = ''info''"

definition format_choices :: "string list" where
  "format_choices = map fst format_names"

definition level_choices :: "string list" where
  "level_choices = map fst level_names"

section \<open>Handlers\<close>

text \<open>
  A handler that \<^verbatim>\<open>create_logging_handler\<close> makes: its kind, its format string and date format.
\<close>

datatype handler =
    StreamHandler string "string option"
  | JsonHandler "string option"
  | ColorHandler string
  | JournaldHandler
  | RichHandler string bool
  | SysLogHandler "string option"
  | UserHandler nat
  | Threaded nat

record platform =
  has_journald :: bool
  journald_socket :: bool
  has_rich :: bool
  has_dev_log :: bool

definition DEFAULT_FORMAT :: string where
  "DEFAULT_FORMAT = ''%(levelname)s:%(name)s:%(message)s''"

text \<open>An absent date format and an empty one count the same.\<close>

definition given :: "string option \<Rightarrow> string option" where
  "given d = (case d of Some (c # cs) \<Rightarrow> d | _ \<Rightarrow> None)"

definition journald_formatter :: "platform \<Rightarrow> handler result" where
  "journald_formatter pl =
     (if \<not> has_journald pl
      then Inl (ImportError ''You must install \"logging-journald\" library for use it'')
      else if \<not> journald_socket pl then Inl (FileNotFoundError ''JournalD socket does not exist'')
      else Inr JournaldHandler)"

definition rich_formatter :: "platform \<Rightarrow> string option \<Rightarrow> bool \<Rightarrow> handler result" where
  "rich_formatter pl date_format rich_tracebacks =
     (if \<not> has_rich pl then Inl (ImportError ''You must install \"rich\" library for use it'')
      else Inr (RichHandler (case given date_format of Some d \<Rightarrow> d | None \<Rightarrow> ''[%X]'') rich_tracebacks))"

definition color_formatter :: "string option \<Rightarrow> handler" where
  "color_formatter date_format =
     ColorHandler (case given date_format of Some d \<Rightarrow> d | None \<Rightarrow> ''%Y-%m-%d %H:%M:%S'')"

definition create_logging_handler ::
  "platform \<Rightarrow> LogFormat \<Rightarrow> string option \<Rightarrow> handler option result" where
  "create_logging_handler pl log_format date_format =
     (case log_format of
        disabled \<Rightarrow> Inr None
      | stream \<Rightarrow>
          Inr (Some (case given date_format of
             Some d \<Rightarrow> StreamHandler (''%(asctime)s '' @ DEFAULT_FORMAT) (Some d)
           | None \<Rightarrow> StreamHandler DEFAULT_FORMAT None))
      | json \<Rightarrow> Inr (Some (JsonHandler date_format))
      | color \<Rightarrow> Inr (Some (color_formatter date_format))
      | journald \<Rightarrow> bind_result (journald_formatter pl) (\<lambda>h. Inr (Some h))
      | rich \<Rightarrow> bind_result (rich_formatter pl date_format False) (\<lambda>h. Inr (Some h))
      | rich_tb \<Rightarrow> bind_result (rich_formatter pl date_format True) (\<lambda>h. Inr (Some h))
      | syslog \<Rightarrow> Inr (Some (SysLogHandler (if has_dev_log pl then Some ''/dev/log'' else None)))
      | plain \<Rightarrow> Inr (Some (StreamHandler ''%(message)s'' None)))"

section \<open>Basic configuration\<close>

text \<open>The part of the \<^verbatim>\<open>logging\<close> module that is configured, and the hook for unhandled exceptions.\<close>

record logging_state =
  root_level :: int
  root_handlers :: "handler list"
  hook_handlers :: "handler list"
  LOG_LEVEL :: int
  LOG_FORMAT :: "LogFormat option"

text \<open>A level or a format is given by its name or as a member.\<close>

datatype 'a named = Name string | Member 'a

fun level_of :: "int named \<Rightarrow> int result" where
  "level_of (Name n) = bind_result (LogLevel_of n) (\<lambda>l. Inr (LogLevel_value l))"
| "level_of (Member l) = Inr l"

fun format_of :: "LogFormat named \<Rightarrow> LogFormat result" where
  "format_of (Name n) = LogFormat_of n"
| "format_of (Member f) = Inr f"

text \<open>
  \<^verbatim>\<open>aiomisc_log.basic_config\<close>. A wrong level is found before anything is changed; a wrong format
  and a handler that cannot be made are found after the old handlers were removed.
\<close>

definition basic_config ::
  "platform \<Rightarrow> int named \<Rightarrow> LogFormat named \<Rightarrow> (handler \<Rightarrow> handler) \<Rightarrow> handler list \<Rightarrow> string option \<Rightarrow>
     logging_state \<Rightarrow> logging_state \<times> unit result" where
  "basic_config pl level log_format handler_wrapper handlers date_format s =
     (case level_of level of
        Inl e \<Rightarrow> (s, Inl e)
      | Inr lv \<Rightarrow>
          let s1 = s\<lparr>root_handlers := []\<rparr> in
          (case format_of log_format of
             Inl e \<Rightarrow> (s1, Inl e)
           | Inr fmt \<Rightarrow>
               let s2 = s1\<lparr>hook_handlers := [], LOG_FORMAT := Some fmt\<rparr> in
               (case create_logging_handler pl fmt date_format of
                  Inl e \<Rightarrow> (s2, Inl e)
                | Inr h \<Rightarrow>
                    let hs = map handler_wrapper ((case h of None \<Rightarrow> [] | Some x \<Rightarrow> [x]) @ handlers)
                    in (s2\<lparr>LOG_LEVEL := lv, root_level := lv, root_handlers := hs,
                           hook_handlers := hs\<rparr>, Inr ()))))"

section \<open>JSON records\<close>

text \<open>Values of the attributes of a log record, as far as the formatter tells them apart.\<close>

datatype jvalue = JNone | JStr string | JInt int | JList "jvalue list" | JObj "(string \<times> jvalue) list"

datatype ftype = StrType | IntType

definition FIELD_MAPPING :: "(string \<times> string \<times> ftype) list" where
  "FIELD_MAPPING =
     [(''filename'', ''code_file'', StrType), (''funcName'', ''code_func'', StrType),
      (''lineno'', ''code_line'', IntType), (''module'', ''code_module'', StrType),
      (''name'', ''identifier'', StrType), (''msg'', ''message_raw'', StrType),
      (''process'', ''pid'', IntType), (''processName'', ''process_name'', StrType),
      (''threadName'', ''thread_name'', StrType)]"

text \<open>The table of levels; the later of two entries for the same number counts.\<close>

definition LEVELS :: "(int \<times> jvalue) list" where
  "LEVELS = [(50, JStr ''crit''), (50, JStr ''fatal''), (40, JStr ''error''), (30, JStr ''warn''),
     (20, JStr ''info''), (10, JStr ''debug''), (0, JNone)]"

definition level_name :: "int \<Rightarrow> jvalue result" where
  "level_name l = (case map_of (rev LEVELS) l of None \<Rightarrow> Inl (KeyError ''levelno'') | Some v \<Rightarrow> Inr v)"

fun has_type :: "ftype \<Rightarrow> jvalue \<Rightarrow> bool" where
  "has_type StrType (JStr _) = True"
| "has_type IntType (JInt _) = True"
| "has_type _ _ = False"

text \<open>\<^verbatim>\<open>str(v)\<close> and \<^verbatim>\<open>int(v)\<close> of a value that has not the type are given by the language.\<close>

definition convert :: "(jvalue \<Rightarrow> string) \<Rightarrow> (jvalue \<Rightarrow> int result) \<Rightarrow> ftype \<Rightarrow> jvalue \<Rightarrow> jvalue result" where
  "convert to_str to_int t v =
     (if has_type t v then Inr v
      else case t of StrType \<Rightarrow> Inr (JStr (to_str v)) | IntType \<Rightarrow> bind_result (to_int v) (\<lambda>i. Inr (JInt i)))"

type_synonym fields = "(string \<times> jvalue) list"

fun mapped_fields ::
  "(jvalue \<Rightarrow> string) \<Rightarrow> (jvalue \<Rightarrow> int result) \<Rightarrow> (string \<rightharpoonup> jvalue) \<Rightarrow> (string \<times> string \<times> ftype) list \<Rightarrow>
     fields result" where
  "mapped_fields to_str to_int record [] = Inr []"
| "mapped_fields to_str to_int record ((key, mapping, t) # ms) =
     bind_result (convert to_str to_int t (case record key of None \<Rightarrow> JNone | Some v \<Rightarrow> v))
       (\<lambda>v. bind_result (mapped_fields to_str to_int record ms) (\<lambda>fs. Inr ((mapping, v) # fs)))"

text \<open>The remaining attributes: not those already there, not private ones, not \<^verbatim>\<open>None\<close>. (Names of
  attributes are not empty.)\<close>

fun other_fields :: "fields \<Rightarrow> fields \<Rightarrow> fields" where
  "other_fields data [] = data"
| "other_fields data ((key, v) # rest) =
     (if key \<in> fst ` set data \<or> key \<in> fst ` set FIELD_MAPPING \<or> py_startswith key ''_'' \<or> v = JNone
      then other_fields data rest
      else other_fields (data @ [(key, v)]) rest)"

fun items :: "jvalue \<Rightarrow> jvalue list" where
  "items (JList vs) = vs"
| "items (JObj kvs) = map (\<lambda>kv. JStr (fst kv)) kvs"
| "items _ = []"

definition argument_key :: "(nat \<Rightarrow> string) \<Rightarrow> nat \<Rightarrow> string" where
  "argument_key digits i = ''argument_'' @ digits i"

definition add_arguments :: "(jvalue \<Rightarrow> string) \<Rightarrow> (nat \<Rightarrow> string) \<Rightarrow> fields \<Rightarrow> fields" where
  "add_arguments to_str digits data =
     (let args = (case map_of data ''args'' of None \<Rightarrow> [] | Some a \<Rightarrow> items a);
          data' = filter (\<lambda>(k, _). k \<noteq> ''args'') data
      in fold (\<lambda>(i, a). AList.update (argument_key digits i) (JStr (to_str a))) (enumerate 0 args) data')"

record log_record =
  lr_dict :: fields
  lr_levelno :: int
  lr_message :: string
  lr_exc_info :: "string option"
  lr_time :: "string \<Rightarrow> jvalue"

text \<open>\<^verbatim>\<open>JSONLogFormatter.format\<close>, up to the dump of the payload.\<close>

definition json_format ::
  "(jvalue \<Rightarrow> string) \<Rightarrow> (jvalue \<Rightarrow> int result) \<Rightarrow> (nat \<Rightarrow> string) \<Rightarrow> string option \<Rightarrow> log_record \<Rightarrow>
     fields result" where
  "json_format to_str to_int digits datefmt record =
     bind_result (mapped_fields to_str to_int (map_of (lr_dict record)) FIELD_MAPPING) (\<lambda>mapped.
       let data = other_fields
             ((''errno'', JInt (if lr_exc_info record = None then 0 else 255)) # mapped)
             (lr_dict record);
           data' = add_arguments to_str digits data
       in bind_result (level_name (lr_levelno record)) (\<lambda>level.
            Inr ([(''@fields'', JObj data'), (''msg'', JStr (lr_message record)), (''level'', level)] @
              (case given datefmt of Some d \<Rightarrow> [(''@timestamp'', lr_time record d)] | None \<Rightarrow> []) @
              (case lr_exc_info record of Some e \<Rightarrow> [(''stackTrace'', JStr e)] | None \<Rightarrow> []))))"

section \<open>The threaded handler\<close>

text \<open>
  What the thread of the handler is doing: waiting for a flush, handing records over with the
  lock of the handler held, or gone, because it met the sentinel or because it saw the close
  event. A handler that emits holds the same lock, so it cannot emit while the thread drains.
\<close>

datatype th_thread = NoThread | Waiting | Draining | GoneSentinel | GoneEvent

record 'r ThreadedHandler =
  th_buffered :: bool
  th_queue_size :: nat
  th_queue :: "'r option list"
  th_has_queue :: bool
  th_flush_event :: bool
  th_close_event :: bool
  th_thread :: th_thread
  th_accepted :: "'r list"
  th_handled :: "'r list"
  th_threads :: int
  th_records :: nat
  th_flushes :: nat

definition ThreadedHandler_init :: "bool \<Rightarrow> nat \<Rightarrow> 'r ThreadedHandler" where
  "ThreadedHandler_init buffered queue_size =
     \<lparr>th_buffered = buffered, th_queue_size = queue_size, th_queue = [], th_has_queue = True,
      th_flush_event = False, th_close_event = False, th_thread = NoThread, th_accepted = [],
      th_handled = [], th_threads = 0, th_records = 0, th_flushes = 0\<rparr>"

definition th_start :: "'r ThreadedHandler \<Rightarrow> 'r ThreadedHandler" where
  "th_start h = h\<lparr>th_threads := th_threads h + 1, th_thread := Waiting\<rparr>"

definition th_flush :: "'r ThreadedHandler \<Rightarrow> 'r ThreadedHandler" where
  "th_flush h = h\<lparr>th_flushes := th_flushes h + 1, th_flush_event := True\<rparr>"

text \<open>A \<^verbatim>\<open>Queue\<close> of size 0 is never full.\<close>

definition queue_full :: "'r ThreadedHandler \<Rightarrow> bool" where
  "queue_full h \<longleftrightarrow> th_queue_size h > 0 \<and> length (th_queue h) \<ge> th_queue_size h"

text \<open>
  \<^verbatim>\<open>emit\<close>: \<^const>\<open>None\<close> when it would wait for a place in the queue.
\<close>

definition emit :: "'r \<Rightarrow> 'r ThreadedHandler \<Rightarrow> ('r ThreadedHandler \<times> unit result) option" where
  "emit r h =
     (if \<not> th_has_queue h then Some (h, Inl (AttributeError ''_queue''))
      else if queue_full h
      then (if th_buffered h then Some (h, Inl FullError) else None)
      else Some (h\<lparr>th_queue := th_queue h @ [Some r], th_accepted := th_accepted h @ [r],
                   th_records := th_records h + 1\<rparr>, Inr ()))"

text \<open>\<^verbatim>\<open>close\<close> up to the flush, and its last part. The first waits for a place in the queue.\<close>

definition close_put :: "'r ThreadedHandler \<Rightarrow> ('r ThreadedHandler \<times> unit result) option" where
  "close_put h =
     (if \<not> th_has_queue h then Some (h, Inl (AttributeError ''_queue''))
      else if queue_full h then None
      else Some (th_flush (h\<lparr>th_queue := th_queue h @ [None], th_has_queue := False\<rparr>), Inr ()))"

definition close_set :: "'r ThreadedHandler \<Rightarrow> 'r ThreadedHandler" where
  "close_set h = h\<lparr>th_close_event := True\<rparr>"

text \<open>The thread at the head of its outer loop.\<close>

definition thread_outer :: "'r ThreadedHandler \<Rightarrow> 'r ThreadedHandler" where
  "thread_outer h =
     (if th_close_event h then h\<lparr>th_thread := GoneEvent, th_threads := th_threads h - 1\<rparr>
      else h\<lparr>th_thread := Draining\<rparr>)"

text \<open>The thread takes from the queue; the timeout of an empty queue ends the inner loop.\<close>

definition thread_get :: "'r ThreadedHandler \<Rightarrow> 'r ThreadedHandler" where
  "thread_get h =
     (case th_queue h of
        [] \<Rightarrow> h\<lparr>th_thread := Waiting\<rparr>
      | None # q \<Rightarrow> h\<lparr>th_queue := q, th_thread := GoneSentinel\<rparr>
      | Some r # q \<Rightarrow> h\<lparr>th_queue := q, th_handled := th_handled h @ [r]\<rparr>)"

inductive th_step :: "'r ThreadedHandler \<Rightarrow> 'r ThreadedHandler \<Rightarrow> bool" where
  th_step_start: "th_thread h = NoThread \<Longrightarrow> th_step h (th_start h)"
| th_step_emit: "th_thread h \<noteq> Draining \<Longrightarrow> emit r h = Some (h', res) \<Longrightarrow> th_step h h'"
| th_step_flush: "th_step h (th_flush h)"
| th_step_close_put: "close_put h = Some (h', res) \<Longrightarrow> th_step h h'"
| th_step_close_set: "\<not> th_has_queue h \<Longrightarrow> th_step h (close_set h)"
| th_step_outer: "th_thread h = Waiting \<Longrightarrow> th_step h (thread_outer h)"
| th_step_get: "th_thread h = Draining \<Longrightarrow> th_step h (thread_get h)"

section \<open>Unhandled errors of the event loop\<close>

text \<open>
  The context of the exception handler: its message, the exception and the objects by their
  descriptions, and the remaining entries.
\<close>

record loop_context =
  lc_message :: "string option"
  lc_exception :: "string option"
  lc_future :: "string option option"
  lc_task :: "(bool \<times> string option) option"
  lc_handle :: "string option"
  lc_protocol :: "string option"
  lc_transport :: "(string \<times> (string \<rightharpoonup> string)) option"
  lc_socket :: "string option"
  lc_source_traceback :: "string list"
  lc_rest :: "(string \<times> string) list"

definition transport_keys :: "string list" where
  "transport_keys = [''peername'', ''sockname'', ''compression'', ''cipher'', ''peercert'', ''pipe'',
     ''subprocess'']"

definition fill_transport_extra ::
  "(string \<times> (string \<rightharpoonup> string)) option \<Rightarrow> (string \<times> string) list" where
  "fill_transport_extra transport =
     (case transport of
        None \<Rightarrow> []
      | Some (repr, extra_info) \<Rightarrow>
          (''transport'', repr) #
          concat (map (\<lambda>key. case extra_info key of
              None \<Rightarrow> []
            | Some v \<Rightarrow> if v = [] then [] else [(''transport_'' @ key, v)]) transport_keys))"

text \<open>\<^verbatim>\<open>UnhandledLoopHook.__call__\<close>: the message, the exception and the extra entries it logs.\<close>

definition unhandled_loop_hook ::
  "loop_context \<Rightarrow> string \<times> string option \<times> (string \<times> string) list \<times> string list" where
  "unhandled_loop_hook c =
     (let message = (case lc_message c of None \<Rightarrow> ''unhandled loop exception'' | Some m \<Rightarrow> m);
          exception =
            (if lc_exception c \<noteq> None then lc_exception c
             else case lc_future c of
               Some e \<Rightarrow> e
             | None \<Rightarrow> (case lc_task c of Some (True, e) \<Rightarrow> e | _ \<Rightarrow> None));
          entry = (\<lambda>key v. case v of None \<Rightarrow> [] | Some x \<Rightarrow> [(key, x)]);
          extra = lc_rest c @ entry ''handle'' (lc_handle c) @ entry ''protocol'' (lc_protocol c) @
            entry ''sock'' (lc_socket c) @ fill_transport_extra (lc_transport c)
      in (message, exception, extra, lc_source_traceback c))"

section \<open>Configuration with threaded handlers\<close>

text \<open>
  \<^verbatim>\<open>aiomisc.log.basic_config\<close>: a started threaded handler per user handler, and the handlers that
  the done callbacks of the endless task close. The callbacks read the loop variable when they
  run, so each of them closes the handler of the last iteration.
\<close>

definition log_basic_config :: "nat list \<Rightarrow> nat list \<times> handler list" where
  "log_basic_config handlers =
     (let log_handlers = map Threaded handlers
      in (map (\<lambda>_. last handlers) handlers, log_handlers))"

section \<open>Names of formats and levels\<close>

lemma default_format_valid: "\<exists>f. LogFormat_of (LogFormat_default j t r) = Inr f"
  by (simp add: LogFormat_default_def LogFormat_of_def format_names_def)

lemma default_level_valid: "LogLevel_of LogLevel_default = Inr info"
  by (simp add: LogLevel_of_def LogLevel_default_def level_names_def)

lemma LogFormat_of_choices: "(\<exists>f. LogFormat_of n = Inr f) \<longleftrightarrow> n \<in> set format_choices"
  by (auto simp: LogFormat_of_def format_choices_def format_names_def split: option.splits if_splits)

lemma LogFormat_value_unique: "LogFormat_value f = LogFormat_value g \<Longrightarrow> f = g"
  by (cases f; cases g; simp)

section \<open>Configuration\<close>

text \<open>
  A configuration that succeeds leaves the hook for unhandled exceptions with the handlers of the
  root logger: the new one and the given ones, wrapped. Nothing changes for an unknown level.
\<close>

lemma basic_config_handlers:
  assumes "basic_config pl level fmt wrap handlers date s = (s', Inr ())"
  shows "hook_handlers s' = root_handlers s' \<and>
    (\<exists>hs. root_handlers s' = map wrap (hs @ handlers) \<and> length hs \<le> 1 \<and>
       (hs = [] \<longleftrightarrow> format_of fmt = Inr disabled)) \<and>
    level_of level = Inr (root_level s')"
proof -
  obtain lv f h where *: "level_of level = Inr lv" "format_of fmt = Inr f"
      "create_logging_handler pl f date = Inr h"
      "s' = s\<lparr>root_handlers := [], hook_handlers := [], LOG_FORMAT := Some f, LOG_LEVEL := lv, root_level := lv,
         root_handlers := map wrap ((case h of None \<Rightarrow> [] | Some x \<Rightarrow> [x]) @ handlers),
         hook_handlers := map wrap ((case h of None \<Rightarrow> [] | Some x \<Rightarrow> [x]) @ handlers)\<rparr>"
    using assms by (auto simp: basic_config_def Let_def split: sum.splits)
  have "h = None \<longleftrightarrow> f = disabled"
    using *(3) by (cases f) (auto simp: create_logging_handler_def bind_result_Inr_iff)
  with * show ?thesis
    by (intro conjI exI [of _ "case h of None \<Rightarrow> [] | Some x \<Rightarrow> [x]"]) (auto split: option.splits)
qed

lemma basic_config_unknown_level:
  "level_of level = Inl e \<Longrightarrow> basic_config pl level fmt wrap handlers date s = (s, Inl e)"
  by (simp add: basic_config_def)

text \<open>An unknown format is refused only after the handlers of the root logger are gone.\<close>

lemma basic_config_unknown_format:
  "level_of level = Inr lv \<Longrightarrow> format_of fmt = Inl e \<Longrightarrow>
     basic_config pl level fmt wrap handlers date s = (s\<lparr>root_handlers := []\<rparr>, Inl e)"
  by (simp add: basic_config_def)

section \<open>Fields of a JSON record\<close>

lemma convert_type: "convert to_str to_int t v = Inr w \<Longrightarrow> has_type t w"
  by (cases t) (auto simp: convert_def bind_result_Inr_iff split: if_splits)

lemma mapped_fields_types:
  assumes "mapped_fields to_str to_int record ms = Inr fs"
  shows "map fst fs = map (\<lambda>x. fst (snd x)) ms \<and>
    list_all2 (\<lambda>f m. has_type (snd (snd m)) (snd f)) fs ms"
  using assms
  by (induction ms arbitrary: fs) (auto simp: bind_result_Inr_iff convert_type)

lemma distinct_mappings: "distinct (map (\<lambda>x. fst (snd x)) FIELD_MAPPING)"
  by (simp add: FIELD_MAPPING_def)

text \<open>Further attributes are added behind what is there and never replace it.\<close>

lemma other_fields_extends:
  "\<exists>more. other_fields data rest = data @ more \<and>
     (\<forall>k \<in> fst ` set more. k \<notin> fst ` set data \<and> k \<notin> fst ` set FIELD_MAPPING \<and> \<not> py_startswith k ''_'')"
proof (induction data rest rule: other_fields.induct)
  case (1 data)
  then show ?case by simp
next
  case (2 data key v rest)
  show ?case
  proof (cases "key \<in> fst ` set data \<or> key \<in> fst ` set FIELD_MAPPING \<or> py_startswith key ''_'' \<or> v = JNone")
    case True
    with 2(1) show ?thesis by simp
  next
    case False
    from 2(2) [OF False] obtain more where
      "other_fields (data @ [(key, v)]) rest = (data @ [(key, v)]) @ more"
      "\<forall>k \<in> fst ` set more. k \<notin> fst ` set (data @ [(key, v)]) \<and> k \<notin> fst ` set FIELD_MAPPING \<and>
         \<not> py_startswith k ''_''" by blast
    with False show ?thesis by (intro exI [of _ "(key, v) # more"]) auto
  qed
qed

lemma argument_key_not_mapping: "argument_key digits i \<notin> (\<lambda>x. fst (snd x)) ` set FIELD_MAPPING"
  by (simp add: argument_key_def FIELD_MAPPING_def)

lemma fold_update_other:
  assumes "\<forall>x \<in> set xs. f x \<noteq> k"
  shows "map_of (fold (\<lambda>x. AList.update (f x) (g x)) xs d) k = map_of d k"
  using assms by (induction xs arbitrary: d) (auto simp: update_conv')

lemma add_arguments_other:
  assumes "\<forall>i. argument_key digits i \<noteq> k" "k \<noteq> ''args''"
  shows "map_of (add_arguments to_str digits data) k = map_of data k"
proof -
  have "map_of (filter (\<lambda>(k', _). k' \<noteq> ''args'') data) k = map_of data k"
    using assms(2) by (induction data) auto
  then show ?thesis
    using assms(1)
      fold_update_other [of _ "\<lambda>x. argument_key digits (fst x)" k "\<lambda>x. JStr (to_str (snd x))"]
    by (simp add: add_arguments_def Let_def case_prod_unfold)
qed

lemma map_of_append_left: "map_of xs k = Some v \<Longrightarrow> map_of (xs @ ys) k = Some v"
  by (simp add: map_add_Some_iff)

lemma json_format_payload:
  assumes "json_format to_str to_int digits datefmt record = Inr payload"
  obtains mapped level where
    "mapped_fields to_str to_int (map_of (lr_dict record)) FIELD_MAPPING = Inr mapped"
    "payload = [(''@fields'', JObj (add_arguments to_str digits (other_fields
        ((''errno'', JInt (if lr_exc_info record = None then 0 else 255)) # mapped) (lr_dict record)))),
      (''msg'', JStr (lr_message record)), (''level'', level)] @
      (case given datefmt of Some d \<Rightarrow> [(''@timestamp'', lr_time record d)] | None \<Rightarrow> []) @
      (case lr_exc_info record of Some e \<Rightarrow> [(''stackTrace'', JStr e)] | None \<Rightarrow> [])"
  using assms by (auto simp: json_format_def bind_result_Inr_iff Let_def)

text \<open>What the later additions to the fields keep.\<close>

lemma fields_kept:
  assumes "map_of base k = Some v" "k \<noteq> ''args''" "\<forall>i. argument_key digits i \<noteq> k"
  shows "map_of (add_arguments to_str digits (other_fields base record)) k = Some v"
proof -
  obtain more where "other_fields base record = base @ more" using other_fields_extends by blast
  then show ?thesis
    unfolding add_arguments_other [OF assms(3,2)] using map_of_append_left [OF assms(1)] by simp
qed

lemma mapped_field_found:
  assumes "mapped_fields to_str to_int d FIELD_MAPPING = Inr mapped" "x \<in> set FIELD_MAPPING"
  shows "\<exists>v. map_of mapped (fst (snd x)) = Some v \<and> has_type (snd (snd x)) v"
proof -
  from assms(2) obtain i where i: "i < length FIELD_MAPPING" "FIELD_MAPPING ! i = x"
    by (auto simp: in_set_conv_nth)
  have t: "map fst mapped = map (\<lambda>x. fst (snd x)) FIELD_MAPPING"
      "list_all2 (\<lambda>f m. has_type (snd (snd m)) (snd f)) mapped FIELD_MAPPING"
    using mapped_fields_types [OF assms(1)] by auto
  then have len: "length mapped = length FIELD_MAPPING" by (simp add: list_all2_lengthD)
  have key: "fst (mapped ! i) = fst (snd x)"
    using arg_cong [OF t(1), of "\<lambda>xs. xs ! i"] i len by simp
  have "distinct (map fst mapped)" by (simp only: t(1) distinct_mappings)
  then have "map_of mapped (fst (mapped ! i)) = Some (snd (mapped ! i))"
    using i len by (intro map_of_is_SomeI) auto
  moreover have "has_type (snd (snd x)) (snd (mapped ! i))"
    using list_all2_nthD2 [OF t(2) i(1)] i(2) by simp
  ultimately show ?thesis using key by auto
qed

lemma mapped_field_kept:
  assumes "mapped_fields to_str to_int d FIELD_MAPPING = Inr mapped" "x \<in> set FIELD_MAPPING"
  shows "\<exists>v. map_of (add_arguments to_str digits (other_fields ((''errno'', e) # mapped) record)) (fst (snd x)) = Some v \<and>
    has_type (snd (snd x)) v"
proof -
  obtain v where v: "map_of mapped (fst (snd x)) = Some v" "has_type (snd (snd x)) v"
    using mapped_field_found [OF assms] by blast
  have "map_of ((''errno'', e) # mapped) (fst (snd x)) = Some v" "fst (snd x) \<noteq> ''args''"
    using assms(2) v(1) by (auto simp: FIELD_MAPPING_def)
  moreover have "\<forall>i. argument_key digits i \<noteq> fst (snd x)"
    using assms(2) argument_key_not_mapping by (metis image_eqI)
  ultimately show ?thesis using v(2) by (intro exI [of _ v] conjI fields_kept)
qed

lemma level_name_known:
  "(\<exists>v. level_name n = Inr v) \<longleftrightarrow> n \<in> {0, 10, 20, 30, 40, 50}"
  by (auto simp: level_name_def LEVELS_def split: if_splits)


definition example_record :: log_record where
  "example_record = \<lparr>lr_dict = [(''msg'', JStr ''hi''), (''_x'', JInt 1)], lr_levelno = 20, lr_message = ''hi'',
     lr_exc_info = None, lr_time = (\<lambda>_. JNone)\<rparr>"


section \<open>The threaded handler keeps the order\<close>

definition queued :: "'r option list \<Rightarrow> 'r list" where
  "queued q = map the (filter (\<lambda>x. x \<noteq> None) q)"

lemma queued_simps [simp]:
  "queued [] = []" "queued (Some r # q) = r # queued q" "queued (None # q) = queued q"
  "queued (q @ q') = queued q @ queued q'"
  by (simp_all add: queued_def)

definition th_inv :: "'r ThreadedHandler \<Rightarrow> bool" where
  "th_inv h \<longleftrightarrow>
     th_handled h @ queued (th_queue h) = th_accepted h \<and>
     length (th_accepted h) = th_records h \<and>
     (th_has_queue h \<longrightarrow> None \<notin> set (th_queue h) \<and> th_thread h \<noteq> GoneSentinel) \<and>
     None \<notin> set (butlast (th_queue h)) \<and>
     (th_thread h = GoneSentinel \<longrightarrow> th_queue h = []) \<and>
     (th_queue_size h > 0 \<longrightarrow> length (th_queue h) \<le> th_queue_size h)"

lemma th_inv_init: "th_inv (ThreadedHandler_init b n)"
  by (simp add: th_inv_def ThreadedHandler_init_def)

lemma th_inv_emit: "th_inv h \<Longrightarrow> emit r h = Some (h', res) \<Longrightarrow> th_inv h'"
  by (auto simp: th_inv_def emit_def queue_full_def butlast_append split: if_splits
      dest: in_set_butlastD)

lemma th_inv_close_put: "th_inv h \<Longrightarrow> close_put h = Some (h', res) \<Longrightarrow> th_inv h'"
  by (auto simp: th_inv_def close_put_def th_flush_def queue_full_def butlast_append split: if_splits
      dest: in_set_butlastD)

lemma th_inv_get:
  assumes "th_inv h" "th_thread h = Draining"
  shows "th_inv (thread_get h)"
proof (cases "th_queue h")
  case Nil
  with assms show ?thesis by (simp add: th_inv_def thread_get_def)
next
  case (Cons x q)
  show ?thesis
  proof (cases x)
    case None
    with Cons assms have "q = []" by (cases q) (auto simp: th_inv_def)
    with Cons None assms show ?thesis by (auto simp: th_inv_def thread_get_def)
  next
    case (Some r)
    with Cons assms show ?thesis by (cases q) (auto simp: th_inv_def thread_get_def)
  qed
qed

lemma th_inv_simple:
  assumes "th_inv h"
  shows "th_thread h = NoThread \<Longrightarrow> th_inv (th_start h)" "th_inv (th_flush h)" "th_inv (close_set h)"
    "th_thread h = Waiting \<Longrightarrow> th_inv (thread_outer h)"
  using assms by (simp_all add: th_inv_def th_start_def th_flush_def close_set_def thread_outer_def)

lemma th_step_inv: "th_step h h' \<Longrightarrow> th_inv h \<Longrightarrow> th_inv h'"
  by (induction rule: th_step.induct)
    (blast intro: th_inv_emit th_inv_close_put th_inv_get th_inv_simple)+

interpretation th: invariant_system "\<lambda>h. h = ThreadedHandler_init b n" th_step th_inv
  by unfold_locales (auto simp: th_inv_init th_step_inv)

text \<open>
  C34. In every state of a threaded handler the target has been given the accepted records in
  their order and without gaps; the rest is in the queue, which keeps its bound, and the
  statistic counts the accepted ones. A thread that ended by the sentinel has handed over all of
  them.
\<close>

theorem threaded_handler_order:
  assumes "reachable (\<lambda>h. h = ThreadedHandler_init buffered queue_size) th_step h"
  shows "th_accepted h = th_handled h @ queued (th_queue h) \<and>
    th_records h = length (th_accepted h) \<and>
    (th_queue_size h > 0 \<longrightarrow> length (th_queue h) \<le> th_queue_size h) \<and>
    (th_thread h = GoneSentinel \<longrightarrow> th_handled h = th_accepted h)"
  using th.reachable_inv [OF assms] by (auto simp: th_inv_def)

text \<open>A thread that drains hands over everything that is in the queue.\<close>

lemma thread_get_drains:
  assumes "th_thread h = Draining" "th_queue h = map Some rs"
  shows "(thread_get ^^ length rs) h = h\<lparr>th_queue := [], th_handled := th_handled h @ rs\<rparr>"
  using assms
proof (induction rs arbitrary: h)
  case Nil
  then show ?case by (cases h) simp
next
  case (Cons r rs)
  have one: "thread_get h = h\<lparr>th_queue := map Some rs, th_handled := th_handled h @ [r]\<rparr>"
    using Cons.prems by (simp add: thread_get_def)
  have "(thread_get ^^ length (r # rs)) h = (thread_get ^^ length rs) (thread_get h)"
    by (simp add: funpow_swap1)
  then show ?case using Cons.prems(1) by (simp only: one) (simp add: Cons.IH)
qed

text \<open>
  A record can be lost: when the thread is at the head of its loop while a record is emitted and
  the handler closed, it sees the close event first and leaves the record in the queue.
\<close>

lemma threaded_handler_loses:
  "\<exists>h. reachable (\<lambda>h. h = ThreadedHandler_init True 0) th_step h \<and>
     th_thread h = GoneEvent \<and> th_accepted h = [r] \<and> th_handled h = []"
proof -
  let ?R = "reachable (\<lambda>h. h = ThreadedHandler_init True 0) th_step"
  let ?h0 = "ThreadedHandler_init True 0"
  let ?h1 = "th_start ?h0"
  let ?h2 = "?h1\<lparr>th_queue := [Some r], th_accepted := [r], th_records := 1\<rparr>"
  let ?h3 = "th_flush (?h2\<lparr>th_queue := [Some r, None], th_has_queue := False\<rparr>)"
  let ?h4 = "close_set ?h3"
  note defs = ThreadedHandler_init_def th_start_def emit_def queue_full_def close_put_def th_flush_def
    close_set_def thread_outer_def
  have "?R ?h0" by (rule reach_init) simp
  then have "?R ?h1" by (rule reach_step) (rule th_step_start, simp add: defs)
  then have "?R ?h2" by (rule reach_step) (rule th_step_emit [of _ r _ "Inr ()"], simp_all add: defs)
  then have "?R ?h3" by (rule reach_step) (rule th_step_close_put [of _ _ "Inr ()"], simp add: defs)
  then have "?R ?h4" by (rule reach_step) (rule th_step_close_set, simp add: defs)
  then have "?R (thread_outer ?h4)" by (rule reach_step) (rule th_step_outer, simp add: defs)
  then show ?thesis by (rule exI [of _ "thread_outer ?h4", OF conjI]) (simp add: defs)
qed

theorem threaded_handler_order_witness:
  "\<exists>h :: nat ThreadedHandler. reachable (\<lambda>h. h = ThreadedHandler_init True 0) th_step h \<and>
     th_records h = length [1::nat]"
proof -
  obtain h where h: "reachable (\<lambda>h. h = ThreadedHandler_init True 0) th_step h" "th_accepted h = [1::nat]"
    using threaded_handler_loses [of "1::nat"] by blast
  have "th_records h = length [1::nat]"
    using conjunct1 [OF conjunct2 [OF threaded_handler_order [OF h(1)]]] by (simp only: h(2))
  with h(1) show ?thesis by blast
qed

section \<open>Hooks\<close>

text \<open>The exception of the context is logged, or else that of its future or finished task.\<close>

lemma unhandled_loop_exception:
  "fst (snd (unhandled_loop_hook c)) =
     or_else (lc_exception c)
       (case lc_future c of Some e \<Rightarrow> e
        | None \<Rightarrow> (case lc_task c of Some (d, e) \<Rightarrow> if d then e else None | None \<Rightarrow> None))"
  by (auto simp: unhandled_loop_hook_def Let_def or_else_def split: option.splits bool.splits)

text \<open>With two user handlers, the first threaded handler is never closed.\<close>

lemma log_basic_config_closes_last:
  "handlers \<noteq> [] \<Longrightarrow> set (fst (log_basic_config handlers)) = {last handlers}"
  by (auto simp: log_basic_config_def Let_def image_constant_conv)

end
