(* ===== verification/Compat.thy ===== *)
theory Compat
  imports Utils
begin

text \<open>
  The rest of \<^verbatim>\<open>aiomisc/utils.py\<close> and \<^verbatim>\<open>aiomisc/compat.py\<close>: which event loop is made, the loop that an
  object remembers, the entry points of plugins, \<^verbatim>\<open>shield\<close>, awaiting a \<^verbatim>\<open>select\<close>, and the address that
  \<^verbatim>\<open>bind_socket\<close> logs. \<^verbatim>\<open>asyncio.shield\<close> is modelled as the standard library has it: an outer future that
  a callback of the inner task resolves.
\<close>

section \<open>Event loops\<close>

datatype loop_impl = UvLoop | AsyncioLoop

definition uvloop_enabled :: "bool \<Rightarrow> string option \<Rightarrow> bool" where
  "uvloop_enabled importable AIOMISC_USE_UVLOOP \<longleftrightarrow>
     importable \<and>
     py_lower (case AIOMISC_USE_UVLOOP of None \<Rightarrow> ''1'' | Some v \<Rightarrow> v)
       \<in> {''yes'', ''1'', ''enabled'', ''enable'', ''on'', ''true''}"

definition default_loop_factory :: "bool \<Rightarrow> string option \<Rightarrow> loop_impl" where
  "default_loop_factory importable env =
     (if uvloop_enabled importable env then UvLoop else AsyncioLoop)"

text \<open>
  The property \<^verbatim>\<open>EventLoopMixin.loop\<close>: \<^verbatim>\<open>running\<close> is the result of \<^verbatim>\<open>get_running_loop\<close> in the calling
  thread; the first loop found is kept.
\<close>

definition mixin_loop :: "'l result \<Rightarrow> 'l option \<Rightarrow> 'l result \<times> 'l option" where
  "mixin_loop running loop =
     (case loop of
        Some l \<Rightarrow> (Inr l, Some l)
      | None \<Rightarrow> (case running of Inl e \<Rightarrow> (Inl e, None) | Inr l \<Rightarrow> (Inr l, Some l)))"

lemma mixin_loop_kept: "mixin_loop running loop = (Inr l, loop') \<Longrightarrow> mixin_loop other loop' = (Inr l, Some l)"
  by (auto simp: mixin_loop_def split: option.splits sum.splits)

section \<open>Entry points\<close>

record entry_point =
  ep_group :: string
  ep_name :: string
  ep_value :: string

definition entry_pont_iterator :: "entry_point list list \<Rightarrow> string \<Rightarrow> entry_point list" where
  "entry_pont_iterator distributions grp =
     concat (map (filter (\<lambda>ep. ep_group ep = grp)) distributions)"

section \<open>Shielded coroutines\<close>

text \<open>
  The function decorated by \<^verbatim>\<open>shield\<close> is called: its coroutine becomes a task at once, and the caller
  gets the coroutine \<^verbatim>\<open>awaiter\<close> over the outer future, which it may await or not.
\<close>

datatype 'r caller = NotAwaiting | Awaiting | Got "'r result"

record 'r shielded =
  sh_inner :: "'r fut"
  sh_outer :: "'r fut"
  sh_caller :: "'r caller"
  sh_caller_cancelled :: bool

definition shield_wrap :: "'r shielded" where
  "shield_wrap =
     \<lparr>sh_inner = Pending, sh_outer = Pending, sh_caller = NotAwaiting, sh_caller_cancelled = False\<rparr>"

definition shield_inner_done :: "'r result \<Rightarrow> 'r shielded \<Rightarrow> 'r shielded option" where
  "shield_inner_done r s =
     (case sh_inner s of Pending \<Rightarrow> Some (s\<lparr>sh_inner := Resolved r\<rparr>) | _ \<Rightarrow> None)"

text \<open>The callback of the inner task; a cancelled outer future is left alone.\<close>

definition shield_callback :: "'r shielded \<Rightarrow> 'r shielded option" where
  "shield_callback s =
     (case sh_inner s of
        Pending \<Rightarrow> None
      | Resolved r \<Rightarrow> Some (s\<lparr>sh_outer := resolve r (sh_outer s)\<rparr>))"

definition shield_await :: "'r shielded \<Rightarrow> 'r shielded option" where
  "shield_await s =
     (if sh_caller s = NotAwaiting then Some (s\<lparr>sh_caller := Awaiting\<rparr>) else None)"

definition shield_wake :: "'r shielded \<Rightarrow> 'r shielded option" where
  "shield_wake s =
     (case (sh_caller s, sh_outer s) of
        (Awaiting, Resolved r) \<Rightarrow> Some (s\<lparr>sh_caller := Got r\<rparr>)
      | _ \<Rightarrow> None)"

text \<open>
  The caller is cancelled while it awaits: the future it waits for is cancelled, when it is still
  pending, and the next wake-up raises.
\<close>

definition shield_cancel :: "'r shielded \<Rightarrow> 'r shielded option" where
  "shield_cancel s =
     (if sh_caller s = Awaiting
      then Some (s\<lparr>sh_outer := resolve (Inl CancelledError) (sh_outer s), sh_caller := Got (Inl CancelledError),
                   sh_caller_cancelled := True\<rparr>)
      else None)"

inductive shield_step :: "'r shielded \<Rightarrow> 'r shielded \<Rightarrow> bool" where
  "shield_inner_done r s = Some s' \<Longrightarrow> shield_step s s'"
| "shield_callback s = Some s' \<Longrightarrow> shield_step s s'"
| "shield_await s = Some s' \<Longrightarrow> shield_step s s'"
| "shield_wake s = Some s' \<Longrightarrow> shield_step s s'"
| "shield_cancel s = Some s' \<Longrightarrow> shield_step s s'"

definition shield_inv :: "'r shielded \<Rightarrow> bool" where
  "shield_inv s \<longleftrightarrow>
     (\<forall>r. sh_outer s = Resolved r \<longrightarrow>
        sh_inner s = Resolved r \<or> sh_caller_cancelled s \<and> r = Inl CancelledError) \<and>
     (\<forall>r. sh_caller s = Got r \<longrightarrow>
        sh_inner s = Resolved r \<or> sh_caller_cancelled s \<and> r = Inl CancelledError) \<and>
     (\<not> sh_caller_cancelled s \<longrightarrow> (\<forall>r. sh_caller s = Got r \<longrightarrow> sh_inner s = Resolved r))"

lemma shield_step_inv: "shield_step s t \<Longrightarrow> shield_inv s \<Longrightarrow> shield_inv t"
  by (induction rule: shield_step.induct)
    (auto simp: shield_inv_def shield_inner_done_def shield_callback_def shield_await_def
      shield_wake_def shield_cancel_def resolve_Resolved_iff
      split: fut.splits if_splits caller.splits)

interpretation shield_system:
  invariant_system "\<lambda>s. s = shield_wrap" "shield_step :: 'r shielded \<Rightarrow> _" shield_inv
proof unfold_locales
  show "shield_inv s" if "s = shield_wrap" for s :: "'r shielded"
    using that by (simp add: shield_wrap_def shield_inv_def)
qed (rule shield_step_inv)

text \<open>
  A shielded coroutine is not touched by its caller: cancelling the caller leaves the inner task as it
  is and able to end, and a caller that was not cancelled gets exactly the inner task's result.
\<close>

theorem shield_protects:
  assumes "reachable (\<lambda>s. s = shield_wrap) shield_step s"
  shows "(\<forall>s'. shield_cancel s = Some s' \<longrightarrow> sh_inner s' = sh_inner s) \<and>
    (sh_inner s = Pending \<longrightarrow> (\<forall>r. \<exists>s'. shield_step s s' \<and> sh_inner s' = Resolved r)) \<and>
    (\<forall>r. sh_caller s = Got r \<longrightarrow>
       sh_inner s = Resolved r \<or> sh_caller_cancelled s \<and> r = Inl CancelledError)"
proof -
  have inv: "shield_inv s" using shield_system.reachable_inv [OF assms] .
  have "\<exists>s'. shield_step s s' \<and> sh_inner s' = Resolved r" if "sh_inner s = Pending" for r
    using that shield_step.intros(1) [of r s "s\<lparr>sh_inner := Resolved r\<rparr>"]
    by (auto simp: shield_inner_done_def)
  with inv show ?thesis by (auto simp: shield_inv_def shield_cancel_def split: if_splits)
qed

theorem shield_protects_witness:
  "\<exists>s. reachable (\<lambda>s. s = shield_wrap) shield_step s \<and> sh_inner s = Resolved (Inr (7::nat)) \<and>
     sh_caller s = Got (Inl CancelledError) \<and> sh_caller_cancelled s"
proof -
  let ?R = "reachable (\<lambda>s. s = shield_wrap) (shield_step :: nat shielded \<Rightarrow> _)"
  let ?s1 = "shield_wrap\<lparr>sh_caller := Awaiting\<rparr> :: nat shielded"
  let ?s2 = "?s1\<lparr>sh_outer := Resolved (Inl CancelledError), sh_caller := Got (Inl CancelledError),
    sh_caller_cancelled := True\<rparr>"
  have "?R shield_wrap" by (rule reach_init) simp
  moreover have "shield_await shield_wrap = Some ?s1" by (simp add: shield_await_def shield_wrap_def)
  ultimately have "?R ?s1" by (blast intro: reach_step shield_step.intros)
  moreover have "shield_cancel ?s1 = Some ?s2" by (simp add: shield_cancel_def shield_wrap_def)
  ultimately have r2: "?R ?s2" by (blast intro: reach_step shield_step.intros)
  moreover have "sh_inner ?s2 = Pending" by (simp add: shield_wrap_def)
  ultimately obtain s where s: "shield_step ?s2 s" "sh_inner s = Resolved (Inr 7)"
    using shield_protects [of ?s2] by blast
  then have "?R s" using r2 by (blast intro: reach_step)
  moreover from s have "sh_caller s = Got (Inl CancelledError) \<and> sh_caller_cancelled s"
    by (cases rule: shield_step.cases)
      (auto simp: shield_wrap_def shield_inner_done_def shield_callback_def shield_await_def
        shield_wake_def shield_cancel_def)
  ultimately show ?thesis using s(2) by blast
qed

section \<open>Awaiting a select\<close>

record 'a SelectAwaitable =
  sa_awaitables :: "'a list option"
  sa_return_exceptions :: bool
  sa_cancel :: bool
  sa_timeout :: "number option"
  sa_wait :: bool

definition SelectAwaitable_init ::
  "'a list \<Rightarrow> bool \<Rightarrow> bool \<Rightarrow> number option \<Rightarrow> bool \<Rightarrow> 'a SelectAwaitable" where
  "SelectAwaitable_init awaitables return_exceptions cancel timeout wait =
     \<lparr>sa_awaitables = Some awaitables, sa_return_exceptions = return_exceptions, sa_cancel = cancel,
      sa_timeout = timeout, sa_wait = wait\<rparr>"

text \<open>
  \<^verbatim>\<open>__await__\<close> consumes the awaitables; the environment says which of them end, as for
  \<^const>\<open>select_run\<close>.
\<close>

definition select_await ::
  "(nat \<times> 'v result) list \<Rightarrow> (nat \<times> 'v result) list \<Rightarrow> 'a SelectAwaitable \<Rightarrow>
     'v SelectResult result \<times> 'a SelectAwaitable" where
  "select_await completed late s =
     (case sa_awaitables s of
        None \<Rightarrow> (Inl (mk_exc [''AttributeError'', ''Exception'', ''BaseException''] [''_awaitables'']), s)
      | Some xs \<Rightarrow>
          (select_run (sa_cancel s) (sa_wait s) (sa_return_exceptions s) completed late (length xs),
           s\<lparr>sa_awaitables := None\<rparr>))"

lemma select_awaited_once:
  "isl (fst (select_await c l (snd (select_await c' l' s))))"
  by (auto simp: select_await_def split: option.splits)

section \<open>The address in the log\<close>

datatype sockname = SockPath string | SockAddr string string

definition listening_address :: "family \<Rightarrow> string \<Rightarrow> sockname \<Rightarrow> string" where
  "listening_address fam proto_name name =
     proto_name @ ''://'' @
       (case name of
          SockPath p \<Rightarrow> p
        | SockAddr host port \<Rightarrow>
            (if fam = AF_INET6 then ''['' @ host @ '']'' else host) @ '':'' @ port)"

end
