(* ===== verification/EntrypointConfig.thy ===== *)
theory EntrypointConfig
  imports Entrypoint Logging Compat
begin

text \<open>
  The configuration of the entrypoint (\<^verbatim>\<open>aiomisc/entrypoint.py\<close>): the defaults that the class takes
  from the environment when it is defined, what the constructor and the start do with the logging
  options, the current entrypoint, and \<^verbatim>\<open>run\<close>, which enters an entrypoint, runs a coroutine and leaves
  it again. \<^verbatim>\<open>int\<close> and \<^verbatim>\<open>float\<close> of a string are arguments.
\<close>

section \<open>Defaults\<close>

record ep_config =
  cf_log_level :: string
  cf_log_format :: string
  cf_log_date_format :: "string option"
  cf_debug :: bool
  cf_log_config :: bool
  cf_log_flush :: number
  cf_log_buffering :: bool
  cf_log_buffer_size :: int
  cf_pool_size :: "int option"
  cf_shutdown_timeout :: number

definition getenv_default :: "string \<Rightarrow> string option \<Rightarrow> string" where
  "getenv_default d v = (case v of None \<Rightarrow> d | Some x \<Rightarrow> x)"

text \<open>
  The class body of \<^verbatim>\<open>Entrypoint\<close>; an exception of a conversion leaves the import of the module.
\<close>

definition default_config ::
  "(string \<Rightarrow> int result) \<Rightarrow> (string \<Rightarrow> number result) \<Rightarrow> string \<Rightarrow> (string \<Rightarrow> string option) \<Rightarrow>
     ep_config result" where
  "default_config to_int to_float default_format getenv =
     bind_result (get_env_convert (getenv ''AIOMISC_LOG_FLUSH'') to_float (1 / 5)) (\<lambda>flush.
     bind_result (get_env_convert (getenv ''AIOMISC_LOG_BUFFER'') to_int 1024) (\<lambda>buffer.
     bind_result (get_env_convert (getenv ''AIOMISC_POOL_SIZE'')
         (\<lambda>v. bind_result (to_int v) (\<lambda>n. Inr (Some n))) None) (\<lambda>pool.
     bind_result (get_env_convert (getenv ''AIOMISC_SHUTDOWN_TIMEOUT'') to_float 60) (\<lambda>timeout.
       Inr \<lparr>cf_log_level = getenv_default LogLevel_default (getenv ''AIOMISC_LOG_LEVEL''),
            cf_log_format = getenv_default default_format (getenv ''AIOMISC_LOG_FORMAT''),
            cf_log_date_format = getenv ''AIOMISC_LOG_DATE_FORMAT'',
            cf_debug = get_env_bool (getenv ''AIOMISC_DEBUG'') ''0'',
            cf_log_config = get_env_bool (getenv ''AIOMISC_LOG_CONFIG'') ''1'',
            cf_log_flush = flush,
            cf_log_buffering = get_env_bool (getenv ''AIOMISC_LOG_BUFFERING'') ''1'',
            cf_log_buffer_size = buffer, cf_pool_size = pool, cf_shutdown_timeout = timeout\<rparr>))))"

text \<open>The size of the thread pool; \<^verbatim>\<open>None\<close> and 0 both mean the default.\<close>

definition effective_pool_size :: "int \<Rightarrow> ep_config \<Rightarrow> int" where
  "effective_pool_size DEFAULT_POOL_SIZE c =
     (case cf_pool_size c of Some n \<Rightarrow> if n = 0 then DEFAULT_POOL_SIZE else n | None \<Rightarrow> DEFAULT_POOL_SIZE)"

section \<open>Logging\<close>

text \<open>The end of \<^verbatim>\<open>__init__\<close>: the plain configuration of the logging package.\<close>

definition init_logging ::
  "platform \<Rightarrow> ep_config \<Rightarrow> logging_state \<Rightarrow> logging_state \<times> unit result" where
  "init_logging pl c s =
     (if cf_log_config c
      then basic_config pl (Name (cf_log_level c)) (Name (cf_log_format c)) id [] (cf_log_date_format c) s
      else (s, Inr ()))"

text \<open>The arguments of \<^verbatim>\<open>aiomisc.log.basic_config\<close> in \<^verbatim>\<open>_start\<close> and in \<^verbatim>\<open>__exit__\<close>.\<close>

record log_call =
  lc_level :: string
  lc_format :: string
  lc_date_format :: "string option"
  lc_buffered :: bool
  lc_handlers :: "nat list"
  lc_buffer_size :: int
  lc_flush_interval :: number

definition start_logging :: "ep_config \<Rightarrow> nat list \<Rightarrow> log_call option" where
  "start_logging c handlers =
     (if cf_log_config c
      then Some \<lparr>lc_level = cf_log_level c, lc_format = cf_log_format c,
                 lc_date_format = cf_log_date_format c, lc_buffered = cf_log_buffering c,
                 lc_handlers = handlers, lc_buffer_size = cf_log_buffer_size c,
                 lc_flush_interval = cf_log_flush c\<rparr>
      else None)"

text \<open>On the way out the defaults of \<^verbatim>\<open>basic_config\<close> stand for the options that are not given.\<close>

definition exit_logging :: "ep_config \<Rightarrow> log_call option" where
  "exit_logging c =
     (if cf_log_config c
      then Some \<lparr>lc_level = cf_log_level c, lc_format = cf_log_format c,
                 lc_date_format = cf_log_date_format c, lc_buffered = False,
                 lc_handlers = [], lc_buffer_size = 0, lc_flush_interval = 1 / 5\<rparr>
      else None)"

text \<open>What \<^verbatim>\<open>log.basic_config\<close> does with the root logger: the user's handlers become threaded ones.\<close>

definition run_log_call ::
  "platform \<Rightarrow> log_call option \<Rightarrow> logging_state \<Rightarrow> logging_state \<times> unit result" where
  "run_log_call pl call s =
     (case call of
        None \<Rightarrow> (s, Inr ())
      | Some c \<Rightarrow>
          basic_config pl (Name (lc_level c)) (Name (lc_format c)) id
            (snd (log_basic_config (lc_handlers c))) (lc_date_format c) s)"

section \<open>Background tasks and interrupts\<close>

text \<open>\<^verbatim>\<open>_cancel_background_tasks\<close>: all tasks of the loop but the current one are cancelled and joined.\<close>

definition cancel_background_tasks :: "nat list \<Rightarrow> nat \<Rightarrow> 'r fstore \<Rightarrow> nat list \<times> 'r fstore" where
  "cancel_background_tasks all_tasks current fs = cancel_tasks (filter (\<lambda>t. t \<noteq> current) all_tasks) fs"

text \<open>
  An interrupt starts a task with \<^verbatim>\<open>_stop\<close> and a timer that cancels it; \<^verbatim>\<open>took\<close> is the time that the
  shutdown takes when nobody cancels it. The result is that of \<^verbatim>\<open>on_shutdown_finish\<close>.
\<close>

definition on_interrupt :: "ep_config \<Rightarrow> number \<Rightarrow> bool \<times> bool \<times> int option" where
  "on_interrupt c took = on_shutdown_finish (cf_shutdown_timeout c \<le> took)"

section \<open>Run\<close>

text \<open>
  \<^verbatim>\<open>run\<close>: the \<^verbatim>\<open>with\<close> statement over an entrypoint. When entering raises, the body and \<^verbatim>\<open>__exit__\<close> are
  skipped. An exception of \<^verbatim>\<open>__exit__\<close> replaces the result of the coroutine, and \<^verbatim>\<open>__exit__\<close> itself
  suppresses none.
\<close>

definition ep_run ::
  "nat \<Rightarrow> startup \<Rightarrow> 'v result \<Rightarrow> unit result \<Rightarrow> unit result \<Rightarrow> (nat \<Rightarrow> stop_call) \<Rightarrow>
     (nat list \<Rightarrow> nat list) \<Rightarrow> (Entrypoint \<times> 'v result) option" where
  "ep_run callback s coro pre post stop order =
     (case aenter_end callback s of
        None \<Rightarrow> None
      | Some (Inl exc) \<Rightarrow> Some (su_ep s, Inl exc)
      | Some (Inr e) \<Rightarrow>
          (case ep_exit False pre post stop order e of
             (e', Inl exc) \<Rightarrow> Some (e', Inl exc)
           | (e', Inr _) \<Rightarrow> Some (e', coro)))"

section \<open>Properties\<close>

text \<open>
  Importing the module fails exactly when one of the four numeric variables is set to something that
  cannot be converted; everything else has a value for every environment.
\<close>

lemma get_env_convert_fails:
  "(\<exists>e. get_env_convert value conv d = Inl e) \<longleftrightarrow> (\<exists>v e. value = Some v \<and> conv v = Inl e)"
  by (auto simp: get_env_convert_def split: option.splits)

theorem config_from_environment:
  "((\<exists>e. default_config to_int to_float fmt getenv = Inl e) \<longleftrightarrow>
     (\<exists>n \<in> {''AIOMISC_LOG_FLUSH'', ''AIOMISC_SHUTDOWN_TIMEOUT''}. \<exists>v e.
        getenv n = Some v \<and> to_float v = Inl e) \<or>
     (\<exists>n \<in> {''AIOMISC_LOG_BUFFER'', ''AIOMISC_POOL_SIZE''}. \<exists>v e.
        getenv n = Some v \<and> to_int v = Inl e)) \<and>
   (default_config to_int to_float fmt (\<lambda>_. None) = Inr c \<longrightarrow>
     level_of (Name (cf_log_level c)) = Inr 20 \<and> cf_log_format c = fmt \<and> \<not> cf_debug c \<and>
     cf_log_config c \<and> cf_log_buffering c \<and> cf_log_buffer_size c = 1024 \<and>
     effective_pool_size n c = n \<and> cf_shutdown_timeout c = 60)"
proof (rule conjI)
  let ?flush = "get_env_convert (getenv ''AIOMISC_LOG_FLUSH'') to_float (1 / 5)"
  let ?buffer = "get_env_convert (getenv ''AIOMISC_LOG_BUFFER'') to_int 1024"
  let ?pool = "get_env_convert (getenv ''AIOMISC_POOL_SIZE'')
    (\<lambda>v. bind_result (to_int v) (\<lambda>n. Inr (Some n))) None"
  let ?timeout = "get_env_convert (getenv ''AIOMISC_SHUTDOWN_TIMEOUT'') to_float 60"
  have "(\<exists>e. default_config to_int to_float fmt getenv = Inl e) \<longleftrightarrow>
      (\<exists>e. ?flush = Inl e) \<or> (\<exists>e. ?buffer = Inl e) \<or> (\<exists>e. ?pool = Inl e) \<or> (\<exists>e. ?timeout = Inl e)"
    unfolding default_config_def
    by (cases ?flush; cases ?buffer; cases ?pool; cases ?timeout) simp_all
  then show "(\<exists>e. default_config to_int to_float fmt getenv = Inl e) \<longleftrightarrow>
     (\<exists>n \<in> {''AIOMISC_LOG_FLUSH'', ''AIOMISC_SHUTDOWN_TIMEOUT''}. \<exists>v e.
        getenv n = Some v \<and> to_float v = Inl e) \<or>
     (\<exists>n \<in> {''AIOMISC_LOG_BUFFER'', ''AIOMISC_POOL_SIZE''}. \<exists>v e.
        getenv n = Some v \<and> to_int v = Inl e)"
    by (auto simp: get_env_convert_fails bind_result_Inl_iff)
qed (auto simp: default_config_def get_env_convert_def getenv_default_def get_env_bool_def py_lower_def
    lower_char_def effective_pool_size_def default_level_valid)



end
