(* ===== verification/PytestFixtures.thy ===== *)
theory PytestFixtures
  imports PytestPlugin EntrypointConfig
begin

text \<open>
  The rest of the pytest plugin (\<^verbatim>\<open>aiomisc/pytest.py\<close>): the environment variables it reads, the mocked
  \<^verbatim>\<open>get_event_loop\<close>, the fixture of the entrypoint with the default context, unused ports on Windows and
  the factory of bound sockets.
\<close>

section \<open>Switches\<close>

definition USE_UVLOOP :: "string option \<Rightarrow> bool" where
  "USE_UVLOOP env =
     (py_lower (case env of Some s \<Rightarrow> s | None \<Rightarrow> ''1'') \<in> {''1'', ''yes'', ''true''})"

text \<open>The module is there when it is wanted and can be imported.\<close>

definition uvloop_module :: "bool \<Rightarrow> bool \<Rightarrow> bool option" where
  "uvloop_module use_uvloop installed =
     (if use_uvloop then Some installed else None)"

definition loop_autouse :: "string option \<Rightarrow> bool" where
  "loop_autouse env = ((case env of Some s \<Rightarrow> s | None \<Rightarrow> ''1'') = ''1'')"

text \<open>
  The loop the plugin makes: the second test is not reached when uvloop is not wanted, in which case the
  name \<^verbatim>\<open>uvloop_module\<close> is not bound (\<^const>\<open>None\<close>).
\<close>

definition plugin_loop :: "string option \<Rightarrow> bool \<Rightarrow> loop_action option" where
  "plugin_loop env installed =
     (if USE_UVLOOP env
      then map_option (create_event_loop True) (uvloop_module (USE_UVLOOP env) installed)
      else Some (create_event_loop False False))"

section \<open>The mocked get_event_loop\<close>

text \<open>
  What \<^verbatim>\<open>asyncio.get_event_loop\<close> is bound to: a function given by its result, or a mock with the
  result of its side effect and the number of its calls.
\<close>

datatype 'l getter = Getter "'l result" | GetterMock "'l result" nat

fun getter_result :: "'l getter \<Rightarrow> 'l result" where
  "getter_result (Getter r) = r"
| "getter_result (GetterMock r _) = r"

fun call_getter :: "'l getter \<Rightarrow> 'l result \<times> 'l getter" where
  "call_getter (Getter r) = (r, Getter r)"
| "call_getter (GetterMock r n) = (r, GetterMock r (Suc n))"

definition mock_get_event_loop :: "('l getter \<Rightarrow> 'a result \<times> 'l getter) \<Rightarrow> 'l getter \<Rightarrow> 'a result \<times> 'l getter" where
  "mock_get_event_loop body original =
     (let (r, _) = body (GetterMock (getter_result original) 0)
      in (r, original))"

text \<open>The part of the fixture \<^verbatim>\<open>event_loop\<close> around the test, which calls the getter some times.\<close>

definition forbid_getter :: "'l getter \<Rightarrow> 'l getter" where
  "forbid_getter g =
     (case g of
        GetterMock _ n \<Rightarrow> GetterMock (Inl (PytestPlugin.Failed ''get_event_loop is forbidden'')) n
      | Getter r \<Rightarrow> Getter r)"

definition with_getter ::
  "bool \<Rightarrow> ('l getter \<Rightarrow> 'a result \<times> 'l getter) \<Rightarrow> 'l getter \<Rightarrow> 'a result \<times> 'l getter" where
  "with_getter forbidden test =
     mock_get_event_loop (\<lambda>g. test (if forbidden then forbid_getter g else g))"

section \<open>The entrypoint of a test\<close>

text \<open>
  The fixture \<^verbatim>\<open>entrypoint\<close> up to its \<^verbatim>\<open>yield\<close>: when the services are ready, the values of the default
  context are set. An exception of the start leaves the fixture; \<^const>\<open>None\<close> means that the start is
  not over.
\<close>

definition fixture_kwargs :: "(string \<times> bool) list" where
  "fixture_kwargs = [(''log_config'', False)]"

definition entrypoint_fixture ::
  "nat \<Rightarrow> startup \<Rightarrow> (string \<times> 'v) list \<Rightarrow> (string, 'v) Context \<Rightarrow>
   (Entrypoint result \<times> (string, 'v) Context) option" where
  "entrypoint_fixture callback s default_context ctx =
     map_option (\<lambda>r. case r of
         Inl e \<Rightarrow> (Inl e, ctx)
       | Inr ep \<Rightarrow> (Inr ep, fold (\<lambda>(key, value). context_setitem key value) default_context ctx))
       (aenter_end callback s)"

text \<open>After the test: \<^verbatim>\<open>__aexit__\<close>, with what the test has raised or not.\<close>

definition entrypoint_fixture_end ::
  "bool \<Rightarrow> unit result \<Rightarrow> unit result \<Rightarrow> (nat \<Rightarrow> stop_call) \<Rightarrow> (nat list \<Rightarrow> nat list) \<Rightarrow> Entrypoint \<Rightarrow>
     Entrypoint \<times> unit result" where
  "entrypoint_fixture_end loop_closed pre post stop order ep = ep_stop loop_closed pre post stop order ep"

text \<open>The event loop runs all setters that are scheduled.\<close>

definition run_setters :: "('k, 'v) Context \<Rightarrow> ('k, 'v) Context result" where
  "run_setters c = fold_result (\<lambda>(k, v). setter k v) (ctx_setters c) (c\<lparr>ctx_setters := []\<rparr>)"

section \<open>Sockets\<close>

text \<open>
  \<^verbatim>\<open>unused_port\<close>: a new descriptor, bound to a port that the system chooses or not, and closed in any
  case.
\<close>

definition unused_port :: "int \<Rightarrow> nat result \<Rightarrow> fd_table \<Rightarrow> nat result \<times> fd_table" where
  "unused_port new_fd bound t =
     (let t1 = t(new_fd \<mapsto> None)
      in case bound of
           Inl e \<Rightarrow> (Inl e, t1(new_fd := None))
         | Inr port \<Rightarrow>
             let t2 = t1(new_fd \<mapsto> Some port) in (Inr port, t2(new_fd := None)))"

record SocketWrapper =
  wr_address :: string
  wr_port :: nat

definition SocketWrapper_init :: SocketWrapper where
  "SocketWrapper_init = \<lparr>wr_address = [], wr_port = 0\<rparr>"

definition windows_prepare ::
  "string \<Rightarrow> int \<Rightarrow> nat result \<Rightarrow> SocketWrapper \<Rightarrow> fd_table \<Rightarrow> unit result \<times> SocketWrapper \<times> fd_table" where
  "windows_prepare address new_fd bound w t =
     (let w1 = w\<lparr>wr_address := address\<rparr>
      in case unused_port new_fd bound t of
           (Inl e, t1) \<Rightarrow> (Inl e, w1, t1)
         | (Inr p, t1) \<Rightarrow> (Inr (), w1\<lparr>wr_port := p\<rparr>, t1))"

definition windows_close :: "SocketWrapper \<Rightarrow> fd_table \<Rightarrow> fd_table" where
  "windows_close w t = t"

datatype wrapper_class = WindowsWrapper | UnixWrapper

definition socket_wrapper :: "string \<Rightarrow> wrapper_class" where
  "socket_wrapper system = (if system = ''Windows'' then WindowsWrapper else UnixWrapper)"

text \<open>
  The factory of bound sockets: each call binds a new socket to a free port of the local address and
  registers its \<^verbatim>\<open>close\<close>; a failing bind leaves the socket to the garbage collector.
\<close>

record PortSocket =
  po_port :: nat
  po_socket :: int

definition socket_factory ::
  "int \<Rightarrow> nat result \<Rightarrow> int list \<Rightarrow> fd_table \<Rightarrow> PortSocket result \<times> int list \<times> fd_table" where
  "socket_factory new_fd bound finalizers t =
     (case bound of
        Inl e \<Rightarrow> (Inl e, finalizers, t(new_fd \<mapsto> None))
      | Inr port \<Rightarrow> (Inr \<lparr>po_port = port, po_socket = new_fd\<rparr>, new_fd # finalizers, t(new_fd \<mapsto> Some port)))"

text \<open>Closing a socket that the test has closed already does nothing.\<close>

definition close_sockets :: "int list \<Rightarrow> fd_table \<Rightarrow> fd_table" where
  "close_sockets finalizers t = fold (\<lambda>s t. t(s := None)) finalizers t"

section \<open>Properties\<close>

text \<open>uvloop is used exactly when it is wanted and installed, and no unbound name is read.\<close>

lemma plugin_loop_total: "plugin_loop env installed = Some (CreateLoop (USE_UVLOOP env \<and> installed))"
  by (simp add: plugin_loop_def uvloop_module_def create_event_loop_def)

text \<open>
  Within a test \<^verbatim>\<open>get_event_loop\<close> works as before, or fails when the marker forbids it; after the test it is
  what it was, whatever the test did or raised.
\<close>

lemma getter_restored:
  "snd (with_getter forbidden test g) = g"
  "fst (with_getter forbidden (\<lambda>g. call_getter g) g) =
     (if forbidden then Inl (PytestPlugin.Failed ''get_event_loop is forbidden'') else getter_result g)"
  by (simp_all add: with_getter_def mock_get_event_loop_def forbid_getter_def split: prod.splits)

lemma fold_context_setitem:
  "fold (\<lambda>(key, value). context_setitem key value) kvs c =
     c\<lparr>ctx_set := ctx_set c + length kvs, ctx_setters := ctx_setters c @ kvs\<rparr>"
  by (induction kvs arbitrary: c) (auto simp: context_setitem_def)

definition holds_value :: "'k \<Rightarrow> 'v \<Rightarrow> ('k, 'v) Context \<Rightarrow> bool" where
  "holds_value k v c \<longleftrightarrow> (\<exists>i. ctx_storage c k = Some i \<and> ctx_futures c ! i = Resolved (Inr v))"

lemma run_setters_values:
  assumes "context_inv c"
  shows "\<exists>c'. fold_result (\<lambda>(k, v). setter k v) kvs c = Inr c' \<and> context_inv c' \<and>
    (\<forall>k v. map_of (rev kvs) k = Some v \<longrightarrow> holds_value k v c') \<and>
    (\<forall>k v. map_of (rev kvs) k = None \<and> holds_value k v c \<longrightarrow> holds_value k v c')"
  using assms
proof (induction kvs arbitrary: c)
  case Nil
  then show ?case by simp
next
  case (Cons kv kvs)
  obtain k v where kv: "kv = (k, v)" by (cases kv)
  obtain c1 where c1: "setter k v c = Inr c1" "holds_value k v c1"
      "\<forall>k' v'. k' \<noteq> k \<and> holds_value k' v' c \<longrightarrow> holds_value k' v' c1"
    using setter_effect [OF Cons.prems, of k v] by (fastforce simp: holds_value_def)
  have "context_inv c1" using Cons.prems c1(1) by (rule context_inv_setter)
  from Cons.IH [OF this] obtain c' where
    c': "fold_result (\<lambda>(k, v). setter k v) kvs c1 = Inr c'" "context_inv c'"
      "\<forall>k v. map_of (rev kvs) k = Some v \<longrightarrow> holds_value k v c'"
      "\<forall>k v. map_of (rev kvs) k = None \<and> holds_value k v c1 \<longrightarrow> holds_value k v c'"
    by blast
  have "fold_result (\<lambda>(k, v). setter k v) (kv # kvs) c = Inr c'" using c1 c' by (simp add: kv)
  moreover have "holds_value k' v' c'" if "map_of (rev (kv # kvs)) k' = Some v'" for k' v'
    using that c1(2) c'(3,4) by (auto simp: kv map_add_def split: option.splits if_splits)
  moreover have "holds_value k' v' c'" if "map_of (rev (kv # kvs)) k' = None" "holds_value k' v' c" for k' v'
    using that c1(3) c'(4) by (auto simp: kv map_add_def split: option.splits if_splits)
  ultimately show ?case using c'(2) by blast
qed

text \<open>
  When the entrypoint of a test has started, the event loop resolves every key of the default context with
  its value, in whatever state the context is, so a service or a test that waits for such a key gets it.
\<close>

theorem default_context_available:
  assumes "reachable (\<lambda>c. c = Context_init) context_step c"
    and "entrypoint_fixture callback s default_context c = Some (Inr ep, c1)"
    and "distinct (map fst default_context)"
  shows "\<exists>c'. run_setters c1 = Inr c' \<and>
    (\<forall>k v. map_of default_context k = Some v \<longrightarrow>
      (\<exists>i. ctx_storage c' k = Some i \<and> ctx_futures c' ! i = Resolved (Inr v) \<and>
        fst (context_getitem k c') = i))"
proof -
  have c1: "c1 = c\<lparr>ctx_set := ctx_set c + length default_context, ctx_setters := ctx_setters c @ default_context\<rparr>"
    using assms(2)
    by (cases "aenter_end callback s") (auto simp: entrypoint_fixture_def fold_context_setitem split: sum.split_asm)
  have "context_inv c" by (rule ctx.reachable_inv [OF assms(1)])
  then have "context_inv (c1\<lparr>ctx_setters := []\<rparr>)"
    by (subst context_inv_cong [of _ c]) (simp_all add: c1)
  from run_setters_values [OF this, of "ctx_setters c1"] obtain c' where
    c': "run_setters c1 = Inr c'" "\<forall>k v. map_of (rev (ctx_setters c1)) k = Some v \<longrightarrow> holds_value k v c'"
    by (auto simp: run_setters_def)
  have "map_of (rev default_context) = map_of default_context"
    using assms(3) by (subst map_of_inject_set) (simp_all add: rev_map [symmetric])
  then have "holds_value k v c'" if "map_of default_context k = Some v" for k v
    using c'(2) that by (simp add: c1 map_add_def)
  with c'(1) show ?thesis
    by (fastforce simp: holds_value_def context_getitem_def storage_item_def)
qed

theorem default_context_available_witness:
  "\<exists>ep (c1 :: (string, nat) Context) c' i.
     entrypoint_fixture 0 \<lparr>su_ep = aenter_begin (Entrypoint_init [] True None True (\<lambda>_. 0)), su_phases = [],
        su_group = Ready\<rparr> [(''db'', 5)] Context_init = Some (Inr ep, c1) \<and>
     run_setters c1 = Inr c' \<and> ctx_storage c' ''db'' = Some i \<and> ctx_futures c' ! i = Resolved (Inr 5)"
proof -
  let ?s = "\<lparr>su_ep = aenter_begin (Entrypoint_init [] True None True (\<lambda>_. 0)), su_phases = [], su_group = Ready\<rparr>"
  have r: "reachable (\<lambda>c. c = Context_init) context_step (Context_init :: (string, nat) Context)"
    by (rule reach_init) simp
  obtain ep and c1 :: "(string, nat) Context"
    where e: "entrypoint_fixture 0 ?s [(''db'', 5)] Context_init = Some (Inr ep, c1)"
    by (simp add: entrypoint_fixture_def aenter_end_def)
  from default_context_available [OF r e] obtain c' where
    "run_setters c1 = Inr c'" "\<exists>i. ctx_storage c' ''db'' = Some i \<and> ctx_futures c' ! i = Resolved (Inr 5)"
    by auto
  with e show ?thesis by blast
qed

text \<open>
  An unused port is free when it is returned, and no descriptor is left. Descriptors of the socket
  factory are closed by the finalizers, also when the test has closed them before.
\<close>

lemma unused_port_free: "t new_fd = None \<Longrightarrow> snd (unused_port new_fd bound t) = t"
  by (auto simp: unused_port_def Let_def split: sum.splits)

lemma close_sockets_all: "close_sockets fins t s = (if s \<in> set fins then None else t s)"
  unfolding close_sockets_def by (induction fins arbitrary: t) auto

lemma socket_factory_closed:
  assumes "socket_factory new_fd (Inr port) fins t = (r, fins', t')"
  shows "r = Inr \<lparr>po_port = port, po_socket = new_fd\<rparr>" "t' new_fd = Some (Some port)"
    "close_sockets fins' t' new_fd = None"
  using assms by (auto simp: socket_factory_def close_sockets_all)

end
