(* ===== verification/Raven.thy ===== *)
theory Raven
  imports Prelude "HOL-Library.Multiset"
begin

text \<open>
  The transports of \<^verbatim>\<open>aiomisc/service/raven.py\<close>: one delivery with its callbacks, the transport with a
  task per message, and the queued transport, whose bounded queue drops its oldest message when it is
  full and whose workers are ended by a sentinel. aiohttp is the environment: a request raises or gives
  a response. Messages are given to the transports in the thread of the event loop.
\<close>

section \<open>One delivery\<close>

record http_response =
  hr_status :: nat
  hr_error :: "string option"
  hr_retry_after :: "string option"

datatype callback =
  Success
| RateLimited "string option" int
| APIError "string option" nat
| Failure pyexc

text \<open>\<^verbatim>\<open>int\<close> of the header, with the exceptions that the code catches.\<close>

definition retry_after_of :: "(string \<Rightarrow> int result) \<Rightarrow> http_response \<Rightarrow> int result" where
  "retry_after_of to_int resp =
     (case to_int (case hr_retry_after resp of None \<Rightarrow> ''0'' | Some h \<Rightarrow> h) of
        Inr n \<Rightarrow> Inr n
      | Inl e \<Rightarrow> if except_matches [''ValueError'', ''TypeError''] e then Inr 0 else Inl e)"

definition first_callback :: "(string \<Rightarrow> int result) \<Rightarrow> http_response \<Rightarrow> callback result" where
  "first_callback to_int resp =
     (if hr_status resp \<noteq> 200
      then if hr_status resp = 429
           then bind_result (retry_after_of to_int resp) (\<lambda>n. Inr (RateLimited (hr_error resp) n))
           else Inr (APIError (hr_error resp) (hr_status resp))
      else Inr Success)"

text \<open>
  \<^verbatim>\<open>_do_send\<close>: the callbacks it calls, in order, whether it releases the response and closes the
  session, and how it ends. An exception of a callback is caught as one of the request is.
\<close>

record sent =
  sn_callbacks :: "callback list"
  sn_released :: bool
  sn_session_closed :: bool
  sn_result :: "unit result"

definition failed_send :: "(callback \<Rightarrow> unit result) \<Rightarrow> pyexc \<Rightarrow> callback list \<times> unit result" where
  "failed_send call e =
     (if isinstance_exc e ''CancelledError'' then ([], Inl e)
      else if is_Exception e then ([Failure e], call (Failure e))
      else ([], Inl e))"

definition do_send ::
  "(string \<Rightarrow> int result) \<Rightarrow> (callback \<Rightarrow> unit result) \<Rightarrow> bool \<Rightarrow> http_response result \<Rightarrow> sent" where
  "do_send to_int call keepalive post =
     (let (cbs, r) =
        (case post of
           Inl e \<Rightarrow> failed_send call e
         | Inr resp \<Rightarrow>
             (case first_callback to_int resp of
                Inl e \<Rightarrow> failed_send call e
              | Inr cb \<Rightarrow>
                  (case call cb of
                     Inr _ \<Rightarrow> ([cb], Inr ())
                   | Inl e \<Rightarrow> (let (cbs, r) = failed_send call e in (cb # cbs, r)))))
      in \<lparr>sn_callbacks = cbs, sn_released = \<not> isl post, sn_session_closed = \<not> keepalive,
          sn_result = r\<rparr>)"

section \<open>The transport with a task per message\<close>

record 'm AioHttpTransport =
  at_scheduled :: "'m list"
  at_tasks :: "'m list"
  at_answers :: "('m \<times> callback list) list"
  at_closing :: bool

definition AioHttpTransport_init :: "'m AioHttpTransport" where
  "AioHttpTransport_init = \<lparr>at_scheduled = [], at_tasks = [], at_answers = [], at_closing = False\<rparr>"

definition transport_closed :: pyexc where
  "transport_closed = RuntimeError ''AioHttpTransport is closed''"

definition at_async_send :: "'m \<Rightarrow> 'm AioHttpTransport \<Rightarrow> 'm AioHttpTransport" where
  "at_async_send m t =
     (if at_closing t then t\<lparr>at_answers := at_answers t @ [(m, [Failure transport_closed])]\<rparr>
      else t\<lparr>at_scheduled := at_scheduled t @ [m]\<rparr>)"

definition at_create_task :: "'m AioHttpTransport \<Rightarrow> 'm AioHttpTransport" where
  "at_create_task t =
     (case at_scheduled t of
        [] \<Rightarrow> t
      | m # ms \<Rightarrow> t\<lparr>at_scheduled := ms, at_tasks := at_tasks t @ [m]\<rparr>)"

definition at_task_done :: "'m \<Rightarrow> sent \<Rightarrow> 'm AioHttpTransport \<Rightarrow> 'm AioHttpTransport" where
  "at_task_done m s t =
     t\<lparr>at_tasks := remove1 m (at_tasks t), at_answers := at_answers t @ [(m, sn_callbacks s)]\<rparr>"

section \<open>The queued transport\<close>

text \<open>
  The queue holds messages and, at the end, the sentinel \<^const>\<open>None\<close>. \<^verbatim>\<open>qt_sent\<close> records all messages
  given to \<^verbatim>\<open>async_send\<close> and \<^verbatim>\<open>qt_answers\<close> the callbacks called for each.
\<close>

datatype 'm worker = WorkerIdle | WorkerSends 'm | WorkerGone

record 'm QueuedTransport =
  qt_maxsize :: nat
  qt_scheduled :: "'m list"
  qt_queue :: "'m option list"
  qt_workers :: "'m worker list"
  qt_sent :: "'m list"
  qt_answers :: "('m \<times> callback list) list"
  qt_closing :: bool
  qt_ending :: bool

definition QueuedTransport_init :: "nat \<Rightarrow> nat \<Rightarrow> 'm QueuedTransport" where
  "QueuedTransport_init workers qsize =
     \<lparr>qt_maxsize = qsize, qt_scheduled = [], qt_queue = [], qt_workers = replicate workers WorkerIdle,
      qt_sent = [], qt_answers = [], qt_closing = False, qt_ending = False\<rparr>"

definition qt_full :: "'m QueuedTransport \<Rightarrow> bool" where
  "qt_full t \<longleftrightarrow> 0 < qt_maxsize t \<and> qt_maxsize t \<le> length (qt_queue t)"

definition qt_put :: "'m option \<Rightarrow> 'm QueuedTransport \<Rightarrow> 'm QueuedTransport" where
  "qt_put x t = t\<lparr>qt_queue := qt_queue t @ [x]\<rparr>"

definition qt_answer :: "'m \<Rightarrow> callback list \<Rightarrow> 'm QueuedTransport \<Rightarrow> 'm QueuedTransport" where
  "qt_answer m cbs t = t\<lparr>qt_answers := qt_answers t @ [(m, cbs)]\<rparr>"

definition async_send :: "'m \<Rightarrow> 'm QueuedTransport \<Rightarrow> 'm QueuedTransport" where
  "async_send m t =
     (let t1 = t\<lparr>qt_sent := qt_sent t @ [m]\<rparr>
      in if qt_closing t1
         then qt_answer m [Failure (RuntimeError ''QueuedAioHttpTransport is closed'')] t1
         else t1\<lparr>qt_scheduled := qt_scheduled t1 @ [m]\<rparr>)"

text \<open>
  Putting an item when the queue is full: the oldest message is answered with an error and gives
  way; taking the sentinel out instead raises \<^verbatim>\<open>TypeError\<close>.
\<close>

definition put_or_skip :: "string \<Rightarrow> 'm option \<Rightarrow> 'm QueuedTransport \<Rightarrow> unit result \<times> 'm QueuedTransport" where
  "put_or_skip reason x t =
     (if \<not> qt_full t then (Inr (), qt_put x t)
      else case qt_queue t of
             [] \<Rightarrow> (Inr (), qt_put x t)
           | None # q \<Rightarrow> (Inl (TypeError ''cannot unpack''), t\<lparr>qt_queue := q\<rparr>)
           | Some m # q \<Rightarrow>
               (Inr (), qt_put x (qt_answer m [Failure (RuntimeError reason)] (t\<lparr>qt_queue := q\<rparr>))))"

definition async_send_run :: "'m QueuedTransport \<Rightarrow> unit result \<times> 'm QueuedTransport" where
  "async_send_run t =
     (case qt_scheduled t of
        [] \<Rightarrow> (Inr (), t)
      | m # ms \<Rightarrow>
          put_or_skip ''QueuedAioHttpTransport internal queue is full'' (Some m)
            (t\<lparr>qt_scheduled := ms\<rparr>))"

definition set_worker :: "nat \<Rightarrow> 'm worker \<Rightarrow> 'm QueuedTransport \<Rightarrow> 'm QueuedTransport" where
  "set_worker i w t = t\<lparr>qt_workers := (qt_workers t)[i := w]\<rparr>"

definition worker_get :: "nat \<Rightarrow> 'm QueuedTransport \<Rightarrow> 'm QueuedTransport" where
  "worker_get i t =
     (case qt_queue t of
        [] \<Rightarrow> t
      | None # q \<Rightarrow> set_worker i WorkerGone (qt_put None (t\<lparr>qt_queue := q\<rparr>))
      | Some m # q \<Rightarrow> set_worker i (WorkerSends m) (t\<lparr>qt_queue := q\<rparr>))"

text \<open>A worker whose delivery raises ends with the exception.\<close>

definition worker_sent :: "nat \<Rightarrow> 'm \<Rightarrow> sent \<Rightarrow> 'm QueuedTransport \<Rightarrow> 'm QueuedTransport" where
  "worker_sent i m s t =
     set_worker i (if isl (sn_result s) then WorkerGone else WorkerIdle)
       (qt_answer m (sn_callbacks s) t)"

definition qt_close :: "'m QueuedTransport \<Rightarrow> 'm QueuedTransport" where
  "qt_close t = (if qt_closing t then t else t\<lparr>qt_closing := True\<rparr>)"

definition qt_close_put :: "'m QueuedTransport \<Rightarrow> unit result \<times> 'm QueuedTransport" where
  "qt_close_put t =
     put_or_skip ''QueuedAioHttpTransport internal queue was full'' None (t\<lparr>qt_ending := True\<rparr>)"

text \<open>The assertions after the workers have ended, and the removal of the sentinel.\<close>

definition qt_close_end :: "'m QueuedTransport \<Rightarrow> unit result \<times> 'm QueuedTransport" where
  "qt_close_end t =
     (case qt_queue t of
        [x] \<Rightarrow> (if x = None then Inr () else Inl (AssertionError []), t\<lparr>qt_queue := []\<rparr>)
      | _ \<Rightarrow> (Inl (AssertionError []), t))"

section \<open>Interleavings\<close>

definition ordinary :: "pyexc \<Rightarrow> bool" where
  "ordinary e \<longleftrightarrow> is_Exception e \<and> \<not> isinstance_exc e ''CancelledError''"

text \<open>
  The callbacks of the messages return, and nobody cancels the workers. The task of \<^verbatim>\<open>close\<close> begins
  after the calls that were scheduled before it, in the order of the event loop.
\<close>

inductive qt_step :: "(string \<Rightarrow> int result) \<Rightarrow> 'm QueuedTransport \<Rightarrow> 'm QueuedTransport \<Rightarrow> bool"
  for to_int where
  qs_send: "qt_step to_int t (async_send m t)"
| qs_run: "async_send_run t = (r, t') \<Longrightarrow> qt_step to_int t t'"
| qs_get: "i < length (qt_workers t) \<Longrightarrow> qt_workers t ! i = WorkerIdle \<Longrightarrow>
    qt_step to_int t (worker_get i t)"
| qs_sent: "i < length (qt_workers t) \<Longrightarrow> qt_workers t ! i = WorkerSends m \<Longrightarrow>
    s = do_send to_int (\<lambda>_. Inr ()) keepalive post \<Longrightarrow>
    (\<forall>e. post = Inl e \<longrightarrow> ordinary e) \<Longrightarrow> (\<forall>h e. to_int h = Inl e \<longrightarrow> ordinary e) \<Longrightarrow>
    qt_step to_int t (worker_sent i m s t)"
| qs_close: "qt_step to_int t (qt_close t)"
| qs_close_put: "qt_closing t \<Longrightarrow> \<not> qt_ending t \<Longrightarrow> qt_scheduled t = [] \<Longrightarrow>
    qt_close_put t = (r, t') \<Longrightarrow> qt_step to_int t t'"

section \<open>The invariant\<close>

definition item_messages :: "'m option \<Rightarrow> 'm multiset" where
  "item_messages x = (case x of None \<Rightarrow> {#} | Some m \<Rightarrow> {#m#})"

definition worker_messages :: "'m worker \<Rightarrow> 'm multiset" where
  "worker_messages w = (case w of WorkerSends m \<Rightarrow> {#m#} | _ \<Rightarrow> {#})"

lemma messages_simps [simp]:
  "item_messages None = {#}" "item_messages (Some m) = {#m#}"
  "worker_messages WorkerIdle = {#}" "worker_messages WorkerGone = {#}"
  "worker_messages (WorkerSends m) = {#m#}"
  by (simp_all add: item_messages_def worker_messages_def)

text \<open>Where a message can be: scheduled, queued, with a worker, or answered.\<close>

definition messages :: "'m QueuedTransport \<Rightarrow> 'm multiset" where
  "messages t =
     mset (qt_scheduled t) + (\<Sum>x\<leftarrow>qt_queue t. item_messages x) +
     (\<Sum>w\<leftarrow>qt_workers t. worker_messages w) + mset (map fst (qt_answers t))"

definition qt_shape :: "'m QueuedTransport \<Rightarrow> bool" where
  "qt_shape t \<longleftrightarrow>
     (if qt_ending t
      then qt_closing t \<and> qt_scheduled t = [] \<and> (\<exists>ms. qt_queue t = map Some ms @ [None]) \<and>
           (WorkerGone \<in> set (qt_workers t) \<longrightarrow> qt_queue t = [None])
      else None \<notin> set (qt_queue t) \<and> WorkerGone \<notin> set (qt_workers t))"

definition qt_inv :: "nat \<Rightarrow> nat \<Rightarrow> 'm QueuedTransport \<Rightarrow> bool" where
  "qt_inv n k t \<longleftrightarrow>
     mset (qt_sent t) = messages t \<and> (\<forall>a \<in> set (qt_answers t). length (snd a) = 1) \<and>
     qt_maxsize t = k \<and> (0 < k \<longrightarrow> length (qt_queue t) \<le> k) \<and>
     length (qt_workers t) = n \<and> qt_shape t"

lemma messages_set_worker:
  assumes "i < length (qt_workers t)"
  shows "messages (set_worker i w t) + worker_messages (qt_workers t ! i) =
    messages t + worker_messages w"
  using sum_list_map_update [OF assms, of worker_messages w]
  by (simp add: messages_def set_worker_def ac_simps)

lemma messages_put [simp]: "messages (qt_put x t) = messages t + item_messages x"
  by (simp add: messages_def qt_put_def)

lemma messages_answer [simp]: "messages (qt_answer m cbs t) = messages t + {#m#}"
  by (simp add: messages_def qt_answer_def)

lemma messages_queue:
  "qt_queue t = x # q \<Longrightarrow> messages t = messages (t\<lparr>qt_queue := q\<rparr>) + item_messages x"
  by (simp add: messages_def)

text \<open>One delivery calls exactly one callback, when the callbacks return.\<close>

lemma do_send_one:
  assumes "\<And>e. post = Inl e \<Longrightarrow> ordinary e" "\<And>h e. to_int h = Inl e \<Longrightarrow> ordinary e"
  shows "length (sn_callbacks (do_send to_int (\<lambda>_. Inr ()) keepalive post)) = 1"
    and "sn_result (do_send to_int (\<lambda>_. Inr ()) keepalive post) = Inr ()"
proof -
  have fail: "failed_send (\<lambda>_. Inr ()) e = ([Failure e], Inr ())" if "ordinary e" for e
    using that by (simp add: failed_send_def ordinary_def)
  have "ordinary e" if "first_callback to_int resp = Inl e" for resp e
    using that assms(2)
    by (auto simp: first_callback_def retry_after_of_def bind_result_Inl_iff split: if_splits sum.splits)
  then show "length (sn_callbacks (do_send to_int (\<lambda>_. Inr ()) keepalive post)) = 1"
    "sn_result (do_send to_int (\<lambda>_. Inr ()) keepalive post) = Inr ()"
    using assms(1) fail by (auto simp: do_send_def split: sum.splits prod.splits)
qed

lemma qt_inv_init: "qt_inv n k (QueuedTransport_init n k)"
proof -
  have "(\<Sum>w\<leftarrow>replicate n WorkerIdle. worker_messages w) = {#}" by (induction n) simp_all
  then show ?thesis by (simp add: qt_inv_def QueuedTransport_init_def messages_def qt_shape_def)
qed

lemma qt_inv_send: "qt_inv n k t \<Longrightarrow> qt_inv n k (async_send m t)"
  by (auto simp: qt_inv_def async_send_def qt_answer_def Let_def messages_def qt_shape_def)

text \<open>Putting an item in a queue without sentinel.\<close>

lemma put_or_skip_inv:
  assumes "put_or_skip reason x t = (r, t')" "None \<notin> set (qt_queue t)"
    and "0 < qt_maxsize t \<longrightarrow> length (qt_queue t) \<le> qt_maxsize t"
    and "\<forall>a \<in> set (qt_answers t). length (snd a) = 1"
  shows "r = Inr () \<and> messages t' = messages t + item_messages x \<and>
    (\<exists>q. set q \<subseteq> set (qt_queue t) \<and> qt_queue t' = q @ [x]) \<and>
    (0 < qt_maxsize t \<longrightarrow> length (qt_queue t') \<le> qt_maxsize t) \<and>
    (\<forall>a \<in> set (qt_answers t'). length (snd a) = 1) \<and>
    (qt_maxsize t', qt_scheduled t', qt_workers t', qt_sent t', qt_closing t', qt_ending t') =
    (qt_maxsize t, qt_scheduled t, qt_workers t, qt_sent t, qt_closing t, qt_ending t)"
proof (cases "qt_full t")
  case False
  with assms show ?thesis
    by (auto simp: put_or_skip_def qt_put_def qt_full_def messages_def)
next
  case True
  then obtain y q where q: "qt_queue t = y # q" by (cases "qt_queue t") (auto simp: qt_full_def)
  with assms(2) obtain m where m: "y = Some m" by (cases y) auto
  let ?t = "qt_put x (qt_answer m [Failure (RuntimeError reason)] (t\<lparr>qt_queue := q\<rparr>))"
  have t': "r = Inr ()" "t' = ?t" using assms(1) True q m by (simp_all add: put_or_skip_def)
  moreover have "messages ?t = messages t + item_messages x"
    using messages_queue [OF q] m by simp
  ultimately show ?thesis
    using assms(3,4) q by (auto simp: qt_put_def qt_answer_def)
qed

lemma qt_inv_run:
  assumes "qt_inv n k t" "async_send_run t = (r, t')"
  shows "qt_inv n k t'"
proof (cases "qt_scheduled t")
  case Nil
  with assms show ?thesis by (simp add: async_send_run_def)
next
  case (Cons m ms)
  let ?t = "t\<lparr>qt_scheduled := ms\<rparr>"
  have e: "\<not> qt_ending t" using assms(1) Cons by (auto simp: qt_inv_def qt_shape_def)
  have put: "put_or_skip ''QueuedAioHttpTransport internal queue is full'' (Some m) ?t = (r, t')"
    using assms(2) Cons by (simp add: async_send_run_def)
  have "mset (qt_sent t) = messages ?t + {#m#}"
    using assms(1) Cons by (simp add: qt_inv_def messages_def)
  then show ?thesis
    using put_or_skip_inv [OF put] assms(1) e by (auto simp: qt_inv_def qt_shape_def)
qed

lemma qt_inv_close_put:
  assumes "qt_inv n k t" "qt_closing t" "\<not> qt_ending t" "qt_scheduled t = []"
    and "qt_close_put t = (r, t')"
  shows "qt_inv n k t'"
proof -
  let ?t = "t\<lparr>qt_ending := True\<rparr>"
  have t: "None \<notin> set (qt_queue t)" "WorkerGone \<notin> set (qt_workers t)"
    using assms(1,3) by (auto simp: qt_inv_def qt_shape_def)
  have put: "put_or_skip ''QueuedAioHttpTransport internal queue was full'' None ?t = (r, t')"
    using assms(5) by (simp add: qt_close_put_def)
  from put_or_skip_inv [OF put] t(1) assms(1) obtain q where
    q: "set q \<subseteq> set (qt_queue t)" "qt_queue t' = q @ [None]" by (auto simp: qt_inv_def)
  have "Some (the x) = x" if "x \<in> set q" for x using q(1) t(1) that by (cases x) auto
  then have "map Some (map the q) = q" by (simp add: map_idI)
  then have "\<exists>ms. qt_queue t' = map Some ms @ [None]" using q(2) by metis
  then show ?thesis
    using put_or_skip_inv [OF put] t assms(1,2,4) by (auto simp: qt_inv_def qt_shape_def messages_def)
qed

lemma set_worker_simps [simp]:
  "qt_queue (set_worker i w t) = qt_queue t" "qt_answers (set_worker i w t) = qt_answers t"
  "qt_sent (set_worker i w t) = qt_sent t" "qt_scheduled (set_worker i w t) = qt_scheduled t"
  "qt_maxsize (set_worker i w t) = qt_maxsize t" "qt_closing (set_worker i w t) = qt_closing t"
  "qt_ending (set_worker i w t) = qt_ending t"
  "qt_workers (set_worker i w t) = (qt_workers t)[i := w]"
  by (simp_all add: set_worker_def)

lemma gone_update:
  "WorkerGone \<in> set (ws[i := w]) \<Longrightarrow> w \<noteq> WorkerGone \<Longrightarrow> WorkerGone \<in> set ws"
  using set_update_subset_insert [of ws i w] by auto

lemma qt_shape_get:
  assumes "qt_inv n k t" "i < length (qt_workers t)" "qt_queue t = Some m # q"
  shows "qt_shape (set_worker i (WorkerSends m) (t\<lparr>qt_queue := q\<rparr>))"
proof (cases "qt_ending t")
  case True
  with assms(1) obtain ms where ms: "qt_queue t = map Some ms @ [None]"
    and gone: "WorkerGone \<in> set (qt_workers t) \<longrightarrow> qt_queue t = [None]"
    by (auto simp: qt_inv_def qt_shape_def)
  with assms(3) have "q = map Some (tl ms) @ [None]" by (cases ms) auto
  moreover have "WorkerGone \<notin> set ((qt_workers t)[i := WorkerSends m])"
    using gone_update [of "qt_workers t" i "WorkerSends m"] gone assms(3) by auto
  ultimately show ?thesis using assms(1) True by (auto simp: qt_inv_def qt_shape_def)
next
  case False
  then show ?thesis using assms(1,3) gone_update [of "qt_workers t" i "WorkerSends m"]
    by (auto simp: qt_inv_def qt_shape_def)
qed

lemma qt_inv_get:
  assumes "qt_inv n k t" "i < length (qt_workers t)" "qt_workers t ! i = WorkerIdle"
  shows "qt_inv n k (worker_get i t)"
proof (cases "qt_queue t")
  case Nil
  with assms show ?thesis by (simp add: worker_get_def)
next
  case (Cons x q)
  show ?thesis
  proof (cases x)
    case None
    then have e: "qt_ending t" using assms(1) Cons by (auto simp: qt_inv_def qt_shape_def split: if_splits)
    have "q = []"
    proof -
      from assms(1) e obtain ms where "qt_queue t = map Some ms @ [None]"
        by (auto simp: qt_inv_def qt_shape_def)
      with Cons None show ?thesis by (cases ms) auto
    qed
    then have "worker_get i t = set_worker i WorkerGone t"
      using Cons None by (cases t) (simp add: worker_get_def qt_put_def)
    moreover have "messages (set_worker i WorkerGone t) = messages t"
      using messages_set_worker [OF assms(2), of WorkerGone] assms(3) by simp
    ultimately show ?thesis using assms(1) Cons None \<open>q = []\<close> e
      by (auto simp: qt_inv_def qt_shape_def)
  next
    case (Some m)
    let ?t = "t\<lparr>qt_queue := q\<rparr>"
    have get: "worker_get i t = set_worker i (WorkerSends m) ?t" using Cons Some by (simp add: worker_get_def)
    have "messages (set_worker i (WorkerSends m) ?t) = messages t"
      using messages_set_worker [of i ?t "WorkerSends m"] messages_queue [OF Cons] assms(2,3) Some
      by simp
    moreover have "qt_shape (set_worker i (WorkerSends m) ?t)"
      using assms(1,2) Cons Some by (intro qt_shape_get) simp_all
    ultimately show ?thesis using assms(1) Cons get by (auto simp: qt_inv_def)
  qed
qed

lemma qt_inv_sent:
  assumes "qt_inv n k t" "i < length (qt_workers t)" "qt_workers t ! i = WorkerSends m"
    and "length (sn_callbacks s) = 1" "sn_result s = Inr ()"
  shows "qt_inv n k (worker_sent i m s t)"
proof -
  let ?t = "qt_answer m (sn_callbacks s) t"
  have w: "worker_sent i m s t = set_worker i WorkerIdle ?t" using assms(5) by (simp add: worker_sent_def)
  have a: "qt_workers ?t = qt_workers t" by (simp add: qt_answer_def)
  have msgs: "messages (set_worker i WorkerIdle ?t) = messages t"
    using messages_set_worker [of i ?t WorkerIdle] assms(2,3) a by simp
  have "qt_shape (set_worker i WorkerIdle ?t)"
    using assms(1) gone_update [of "qt_workers t" i WorkerIdle]
    by (cases "qt_ending t") (auto simp: qt_inv_def qt_shape_def qt_answer_def)
  with msgs assms(1,4) show ?thesis
    unfolding w qt_inv_def by (simp add: qt_answer_def)
qed

lemma qt_step_inv: "qt_step to_int t t' \<Longrightarrow> qt_inv n k t \<Longrightarrow> qt_inv n k t'"
proof (induction rule: qt_step.induct)
  case (qs_send t m)
  then show ?case by (rule qt_inv_send)
next
  case (qs_run t r t')
  then show ?case by (rule qt_inv_run [rotated])
next
  case (qs_get i t)
  then show ?case by (rule qt_inv_get [rotated])
next
  case (qs_sent i t m s keepalive post)
  then show ?case using do_send_one [of post to_int keepalive]
    by (intro qt_inv_sent [OF qs_sent(6,1,2)]) simp_all
next
  case (qs_close t)
  then show ?case by (auto simp: qt_inv_def qt_close_def messages_def qt_shape_def)
next
  case (qs_close_put t r t')
  then show ?case by (rule qt_inv_close_put [rotated])
qed

interpretation transport: invariant_system
  "\<lambda>t. t = QueuedTransport_init n k" "qt_step to_int" "qt_inv n k"
  by unfold_locales (auto simp: qt_inv_init qt_step_inv)

section \<open>Properties\<close>


text \<open>One worker delivers the message 7 and ends.\<close>

definition example_response :: http_response where
  "example_response = \<lparr>hr_status = 200, hr_error = None, hr_retry_after = None\<rparr>"

definition example_closed :: "nat QueuedTransport" where
  "example_closed =
     (let t1 = snd (async_send_run (async_send 7 (QueuedTransport_init 1 0)));
          t2 = worker_sent 0 7 (do_send (\<lambda>_. Inr 0) (\<lambda>_. Inr ()) True (Inr example_response))
                 (worker_get 0 t1)
      in worker_get 0 (snd (qt_close_put (qt_close t2))))"

lemmas transport_defs = async_send_run_def async_send_def QueuedTransport_init_def put_or_skip_def
  qt_full_def qt_put_def worker_get_def worker_sent_def do_send_def first_callback_def
  example_response_def qt_close_def qt_close_put_def qt_answer_def set_worker_def Let_def

lemma example_closed_reachable:
  "reachable (\<lambda>t. t = QueuedTransport_init 1 0) (qt_step (\<lambda>_. Inr 0)) example_closed"
proof -
  let ?t0 = "QueuedTransport_init 1 0 :: nat QueuedTransport"
  let ?s = "do_send (\<lambda>_. Inr 0) (\<lambda>_. Inr ()) True (Inr example_response)"
  let ?t1 = "snd (async_send_run (async_send 7 ?t0))"
  let ?t2 = "worker_sent 0 7 ?s (worker_get 0 ?t1)"
  let ?reach = "reachable (\<lambda>t. t = ?t0) (qt_step (\<lambda>_. Inr 0))"
  have "?reach (async_send 7 ?t0)"
    by (rule reach_step [where s = ?t0]) (auto intro: reach_init qs_send)
  then have "?reach ?t1" by (rule reach_step) (rule qs_run [OF surjective_pairing])
  then have "?reach (worker_get 0 ?t1)"
    by (rule reach_step) (rule qs_get; simp add: transport_defs)
  then have "?reach ?t2"
    by (rule reach_step) (rule qs_sent [OF _ _ refl]; simp add: transport_defs)
  then have "?reach (qt_close ?t2)" by (rule reach_step) (rule qs_close)
  then have "?reach (snd (qt_close_put (qt_close ?t2)))"
    by (rule reach_step) (rule qs_close_put [OF _ _ _ surjective_pairing]; simp add: transport_defs)
  then have "?reach (worker_get 0 (snd (qt_close_put (qt_close ?t2))))"
    by (rule reach_step) (rule qs_get; simp add: transport_defs)
  then show ?thesis by (simp add: example_closed_def Let_def)
qed


text \<open>
  The transport with a task per message: before it is closed, every message is scheduled, in a task
  or answered.
\<close>

lemma at_conserves:
  "mset (at_scheduled (at_create_task t)) + mset (at_tasks (at_create_task t)) =
     mset (at_scheduled t) + mset (at_tasks t)"
  "m \<in> set (at_tasks t) \<Longrightarrow>
     add_mset m (mset (at_tasks (at_task_done m s t))) = mset (at_tasks t)"
  by (auto simp: at_create_task_def at_task_done_def split: list.splits)

end
