(* ===== verification/RavenService.thy ===== *)
theory RavenService
  imports Raven
begin

text \<open>
  The sessions of the Raven transports and the service that installs them
  (\<^verbatim>\<open>aiomisc/service/raven.py\<close>): construction, the session of one delivery, closing with a timeout,
  the connector of the keepalive transport, and \<^verbatim>\<open>RavenSender\<close>. The transports' queues are in Raven.

  aiohttp and raven are other packages. What the code does with them is the list of its calls:
  sessions and connectors are numbered in the order of their creation.
\<close>

section \<open>Sessions\<close>

text \<open>The options of a connector; \<^const>\<open>None\<close> is an option that is not given.\<close>

record connector_options =
  co_family :: int
  co_verify_ssl :: bool
  co_limit :: "nat option"
  co_limit_host :: "nat option"
  co_dns_ttl :: "int option"
  co_dns_cache :: "bool option"

datatype http_call =
  MakeConnector connector_options
| MakeSession bool
| PostWith nat
| ReleaseResponse
| CloseSession nat
| CloseConnector nat

text \<open>A plain transport, or the keepalive one with its limits and its settings of the name cache.\<close>

datatype transport_kind = PlainTransport | KeepaliveTransport nat nat bool int

record transport =
  tr_kind :: transport_kind
  tr_keepalive :: bool
  tr_family :: int
  tr_verify_ssl :: bool
  tr_session :: "nat option"
  tr_connector :: "nat option"
  tr_closing :: bool
  tr_calls :: "http_call list"

definition calls :: "http_call list \<Rightarrow> transport \<Rightarrow> transport" where
  "calls cs t = t\<lparr>tr_calls := tr_calls t @ cs\<rparr>"

definition sessions_made :: "transport \<Rightarrow> nat" where
  "sessions_made t = length (filter (\<lambda>c. \<exists>owner. c = MakeSession owner) (tr_calls t))"

definition connectors_made :: "transport \<Rightarrow> nat" where
  "connectors_made t = length (filter (\<lambda>c. \<exists>opts. c = MakeConnector opts) (tr_calls t))"

text \<open>\<^verbatim>\<open>_client_session_factory\<close> of the base class: the session owns its connector.\<close>

definition base_session_factory :: "transport \<Rightarrow> nat \<times> transport" where
  "base_session_factory t =
     (sessions_made t,
      calls [MakeConnector \<lparr>co_family = tr_family t, co_verify_ssl = tr_verify_ssl t, co_limit = None,
               co_limit_host = None, co_dns_ttl = None, co_dns_cache = None\<rparr>, MakeSession True] t)"

text \<open>That of the keepalive transport, which keeps the connector and does not give it away.\<close>

definition keepalive_session_factory ::
  "nat \<Rightarrow> nat \<Rightarrow> bool \<Rightarrow> int \<Rightarrow> transport \<Rightarrow> nat \<times> transport" where
  "keepalive_session_factory limit limit_host dns_cache dns_cache_ttl t =
     (sessions_made t,
      (calls [MakeConnector \<lparr>co_family = tr_family t, co_verify_ssl = tr_verify_ssl t,
                co_limit = Some limit, co_limit_host = Some limit_host,
                co_dns_ttl = Some dns_cache_ttl, co_dns_cache = Some dns_cache\<rparr>, MakeSession False] t)
        \<lparr>tr_connector := Some (connectors_made t)\<rparr>)"

definition session_factory :: "transport \<Rightarrow> nat \<times> transport" where
  "session_factory t =
     (case tr_kind t of
        PlainTransport \<Rightarrow> base_session_factory t
      | KeepaliveTransport limit limit_host dns_cache ttl \<Rightarrow>
          keepalive_session_factory limit limit_host dns_cache ttl t)"

text \<open>\<^verbatim>\<open>AioHttpTransportBase.__init__\<close>.\<close>

definition transport_init ::
  "transport_kind \<Rightarrow> string option \<Rightarrow> bool \<Rightarrow> bool \<Rightarrow> int \<Rightarrow> transport result" where
  "transport_init kind parsed_url verify_ssl keepalive family =
     (let t = \<lparr>tr_kind = kind, tr_keepalive = keepalive, tr_family = family,
               tr_verify_ssl = verify_ssl, tr_session = None, tr_connector = None,
               tr_closing = False, tr_calls = []\<rparr>
      in if parsed_url \<noteq> None
         then Inl (TypeError ''Transport accepts no URLs for this version of raven.'')
         else if keepalive
              then (case session_factory t of (s, t') \<Rightarrow> Inr (t'\<lparr>tr_session := Some s\<rparr>))
              else Inr t)"

definition DNS_CACHE_TTL :: int where "DNS_CACHE_TTL = 600"
definition DNS_CACHE :: bool where "DNS_CACHE = True"
definition TCP_CONNECTION_LIMIT :: nat where "TCP_CONNECTION_LIMIT = 32"
definition TCP_CONNECTION_LIMIT_HOST :: nat where "TCP_CONNECTION_LIMIT_HOST = 8"
definition WORKERS :: nat where "WORKERS = 1"
definition QUEUE_SIZE :: nat where "QUEUE_SIZE = 1000"
definition AF_UNSPEC :: int where "AF_UNSPEC = 0"

text \<open>
  \<^verbatim>\<open>QueuedKeepaliveAioHttpTransport.__init__\<close> with its default arguments: the sessions and, from
  Raven, the queue with its workers.
\<close>

definition queued_keepalive_init :: "bool \<Rightarrow> (transport \<times> 'm QueuedTransport) result" where
  "queued_keepalive_init verify_ssl =
     bind_result
       (transport_init
          (KeepaliveTransport TCP_CONNECTION_LIMIT TCP_CONNECTION_LIMIT_HOST DNS_CACHE DNS_CACHE_TTL)
          None verify_ssl True AF_UNSPEC)
       (\<lambda>t. Inr (t, QueuedTransport_init WORKERS QUEUE_SIZE))"

text \<open>
  The session of one delivery: a keepalive transport uses its own, another makes one and closes it
  in the end. The callbacks are those of \<^const>\<open>do_send\<close>.
\<close>

definition send_calls ::
  "(string \<Rightarrow> int result) \<Rightarrow> (callback \<Rightarrow> unit result) \<Rightarrow> http_response result \<Rightarrow> transport \<Rightarrow>
     sent \<times> transport" where
  "send_calls to_int call post t =
     (let s = do_send to_int call (tr_keepalive t) post;
          (session, t1) = (if tr_keepalive t then (the (tr_session t), t) else session_factory t)
      in (s, calls (PostWith session # (if sn_released s then [ReleaseResponse] else []) @
                    (if sn_session_closed s then [CloseSession session] else [])) t1))"

section \<open>Closing\<close>

text \<open>
  \<^verbatim>\<open>_close\<close> under \<^verbatim>\<open>wait_for\<close>: \<^verbatim>\<open>inner\<close> is the end of the class's own \<^verbatim>\<open>_close\<close>, or \<^const>\<open>None\<close> when the timeout
  comes first. The keepalive transport closes its connector after it.
\<close>

definition close_in_time :: "unit result option \<Rightarrow> transport \<Rightarrow> unit result \<times> transport" where
  "close_in_time inner t =
     (case inner of
        None \<Rightarrow> (Inl TimeoutError, t)
      | Some (Inl e) \<Rightarrow> (Inl e, t)
      | Some (Inr _) \<Rightarrow>
          (Inr (), (case tr_kind t of
                      PlainTransport \<Rightarrow> t
                    | KeepaliveTransport _ _ _ _ \<Rightarrow> calls [CloseConnector (the (tr_connector t))] t)))"

definition close_coro :: "unit result option \<Rightarrow> transport \<Rightarrow> unit result \<times> transport" where
  "close_coro inner t =
     (case close_in_time inner t of
        (r, t1) \<Rightarrow>
          ((case r of Inl e \<Rightarrow> if isinstance_exc e ''TimeoutError'' then Inr () else Inl e | Inr _ \<Rightarrow> Inr ()),
           if tr_keepalive t1 then calls [CloseSession (the (tr_session t1))] t1 else t1))"

text \<open>\<^verbatim>\<open>close\<close>, with the coroutine that it starts run to its end.\<close>

definition transport_close :: "unit result option \<Rightarrow> transport \<Rightarrow> unit result \<times> transport" where
  "transport_close inner t =
     (if tr_closing t then (Inr (), t) else close_coro inner (t\<lparr>tr_closing := True\<rparr>))"

section \<open>The service\<close>

datatype client_transport = QueuedKeepalive | Dummy

record raven_client =
  rc_dsn :: string
  rc_transport :: client_transport

record 'f sentry_handler =
  sh_dsn :: string
  sh_level :: int
  sh_filters :: "'f list"

record 'f RavenSender =
  rv_sentry_dsn :: string
  rv_min_level :: int
  rv_filters :: "'f list"
  rv_client :: "raven_client option"

text \<open>
  \<^verbatim>\<open>start\<close>: \<^verbatim>\<open>masked\<close> takes user and password out of the DSN. The handlers are those of the root logger.
\<close>

definition raven_start ::
  "(string \<Rightarrow> string) \<Rightarrow> 'f RavenSender \<Rightarrow> 'f sentry_handler list \<Rightarrow>
     'f RavenSender \<times> 'f sentry_handler list" where
  "raven_start masked s handlers =
     (let dsn = rv_sentry_dsn s
      in (s\<lparr>rv_client := Some \<lparr>rc_dsn = dsn, rc_transport = QueuedKeepalive\<rparr>, rv_sentry_dsn := masked dsn\<rparr>,
          handlers @ [\<lparr>sh_dsn = dsn, sh_level = rv_min_level s, sh_filters = rv_filters s\<rparr>]))"

text \<open>
  \<^verbatim>\<open>stop\<close>: the client gets the dummy transport before the old one is closed, whose result is
  that of \<^verbatim>\<open>stop\<close>. A service that was not started has no client.
\<close>

definition raven_stop ::
  "unit result \<Rightarrow> 'f RavenSender \<Rightarrow> unit result \<times> 'f RavenSender" where
  "raven_stop ending s =
     (case rv_client s of
        None \<Rightarrow> (Inl (mk_exc [''AttributeError'', ''Exception'', ''BaseException''] [''client'']), s)
      | Some c \<Rightarrow> (ending, s\<lparr>rv_client := Some (c\<lparr>rc_dsn := [], rc_transport := Dummy\<rparr>)\<rparr>))"

section \<open>Properties\<close>

lemmas session_defs = transport_init_def session_factory_def base_session_factory_def
  keepalive_session_factory_def sessions_made_def connectors_made_def calls_def Let_def

text \<open>A transport keeps a session exactly when it is a keepalive one, and its own connector if it has one.\<close>

definition transport_ok :: "transport \<Rightarrow> bool" where
  "transport_ok t \<longleftrightarrow>
     (tr_keepalive t \<longleftrightarrow> tr_session t \<noteq> None) \<and>
     (tr_keepalive t \<and> tr_kind t \<noteq> PlainTransport \<longrightarrow> tr_connector t \<noteq> None)"

lemma transport_init_ok:
  "transport_init kind url verify keepalive family = Inr t \<Longrightarrow> transport_ok t \<and> \<not> tr_closing t"
  by (cases kind) (auto simp: session_defs transport_ok_def split: if_splits)

lemma count_calls [simp]: "tr_calls (calls cs t) = tr_calls t @ cs" "tr_kind (calls cs t) = tr_kind t"
  "tr_session (calls cs t) = tr_session t" "tr_keepalive (calls cs t) = tr_keepalive t"
  "tr_closing (calls cs t) = tr_closing t" "tr_connector (calls cs t) = tr_connector t"
  by (simp_all add: calls_def)

text \<open>Deliveries one after the other.\<close>

definition sends ::
  "(string \<Rightarrow> int result) \<Rightarrow> (callback \<Rightarrow> unit result) \<Rightarrow> http_response result list \<Rightarrow> transport \<Rightarrow> transport" where
  "sends to_int call posts = fold (\<lambda>post t. snd (send_calls to_int call post t)) posts"

lemma sends_keepalive:
  assumes "tr_keepalive t"
  shows "tr_kind (sends to_int call posts t) = tr_kind t \<and> tr_keepalive (sends to_int call posts t) \<and>
    tr_session (sends to_int call posts t) = tr_session t \<and>
    tr_connector (sends to_int call posts t) = tr_connector t \<and>
    tr_closing (sends to_int call posts t) = tr_closing t \<and>
    (\<exists>cs. tr_calls (sends to_int call posts t) = tr_calls t @ cs \<and>
       set cs \<subseteq> {PostWith (the (tr_session t)), ReleaseResponse})"
  using assms
proof (induction posts arbitrary: t)
  case Nil
  then show ?case by (simp add: sends_def)
next
  case (Cons post posts)
  let ?t = "snd (send_calls to_int call post t)"
  have "\<not> sn_session_closed (do_send to_int call (tr_keepalive t) post)"
    using Cons.prems by (simp add: do_send_def Let_def split: prod.splits)
  then obtain cs where cs: "?t = calls cs t" "set cs \<subseteq> {PostWith (the (tr_session t)), ReleaseResponse}"
    using Cons.prems by (fastforce simp: send_calls_def Let_def)
  with Cons.IH [of ?t] Cons.prems show ?case by (fastforce simp: sends_def)
qed

text \<open>
  A keepalive transport that has delivered any reports posts them all with its one session. Closing it
  calls \<^verbatim>\<open>close\<close> of the session, however the closing of the queue ends, and swallows exactly a timeout.
  The connector, which the session does not own, is closed only when the queue was closed in time and
  without an exception. A second \<^verbatim>\<open>close\<close> does nothing.
\<close>

theorem raven_close_session:
  assumes "transport_init (KeepaliveTransport l lh c ttl) None verify True family = Inr t0"
    and "t = sends to_int call posts t0" "transport_close inner t = (r, t')"
  shows "(r = Inr () \<longleftrightarrow> (\<forall>e. inner = Some (Inl e) \<longrightarrow> isinstance_exc e ''TimeoutError'')) \<and>
    (\<exists>cs. set cs \<subseteq> {PostWith 0, ReleaseResponse} \<and>
       tr_calls t' = tr_calls t0 @ cs @ (if inner = Some (Inr ()) then [CloseConnector 0] else []) @
         [CloseSession 0]) \<and>
    transport_close again t' = (Inr (), t')"
proof -
  have t0: "tr_session t0 = Some 0" "tr_connector t0 = Some 0" "tr_kind t0 = KeepaliveTransport l lh c ttl"
    "tr_keepalive t0" "\<not> tr_closing t0" using assms(1) by (auto simp: session_defs)
  note sent = sends_keepalive [OF t0(4), of to_int call posts, folded assms(2)]
  then obtain cs where cs: "tr_calls t = tr_calls t0 @ cs" "set cs \<subseteq> {PostWith 0, ReleaseResponse}"
    using t0(1) by auto
  have close: "close_coro inner (t\<lparr>tr_closing := True\<rparr>) = (r, t')"
    using assms(3) sent t0(5) by (simp add: transport_close_def)
  have "isinstance_exc TimeoutError ''TimeoutError''" by (simp add: py_simps)
  then have r: "r = Inr () \<longleftrightarrow> (\<forall>e. inner = Some (Inl e) \<longrightarrow> isinstance_exc e ''TimeoutError'')"
    and t': "tr_closing t'" "tr_calls t' = tr_calls t @
      (if inner = Some (Inr ()) then [CloseConnector 0] else []) @ [CloseSession 0]"
    using close sent t0 by (auto simp: close_coro_def close_in_time_def split: option.splits sum.splits if_splits)
  have "transport_close again t' = (Inr (), t')" using t'(1) by (simp add: transport_close_def)
  with r t'(2) cs show ?thesis by (intro conjI exI [of _ cs]) auto
qed

theorem raven_close_session_witness:
  "\<exists>t r t'. transport_init (KeepaliveTransport 32 8 True 600) None True True 0 = Inr t \<and>
     transport_close None (sends (\<lambda>_. Inr 0) (\<lambda>_. Inr ()) [Inl TimeoutError] t) = (r, t') \<and>
     r = Inr () \<and> last (tr_calls t') = CloseSession 0 \<and> CloseConnector 0 \<notin> set (tr_calls t')"
proof -
  obtain t where t: "transport_init (KeepaliveTransport 32 8 True 600) None True True 0 = Inr t"
    by (simp add: session_defs)
  then have calls: "CloseConnector 0 \<notin> set (tr_calls t)" by (auto simp: session_defs)
  obtain r t' where "transport_close None (sends (\<lambda>_. Inr 0) (\<lambda>_. Inr ()) [Inl TimeoutError] t) = (r, t')"
    by fastforce
  note closed = this
  from raven_close_session [OF t refl this, of None] obtain cs where
    "r = Inr ()" "set cs \<subseteq> {PostWith 0, ReleaseResponse}"
    "tr_calls t' = tr_calls t @ cs @ [CloseSession 0]" by auto
  with t calls closed show ?thesis by auto
qed

text \<open>
  The service does not take its handler from the root logger, and it forgets the credentials of its
  DSN: started again after a stop, it adds a second handler, and its new client has the masked DSN.
\<close>

theorem raven_restart:
  assumes "raven_start masked s handlers = (s1, h1)" "raven_stop ending s1 = (r, s2)"
    and "raven_start masked s2 h1 = (s3, h3)"
  shows "r = ending \<and> length h3 = length handlers + 2 \<and>
    map sh_dsn (drop (length handlers) h3) = [rv_sentry_dsn s, masked (rv_sentry_dsn s)] \<and>
    rv_sentry_dsn s3 = masked (masked (rv_sentry_dsn s))"
  using assms by (auto simp: raven_start_def raven_stop_def Let_def)

theorem raven_restart_witness:
  "\<exists>s3. raven_start (\<lambda>_. ''http://sentry'')
      (snd (raven_stop (Inr ()) (fst (raven_start (\<lambda>_. ''http://sentry'')
        \<lparr>rv_sentry_dsn = ''http://key@sentry'', rv_min_level = 30, rv_filters = [0::nat], rv_client = None\<rparr> []))))
      [\<lparr>sh_dsn = ''http://key@sentry'', sh_level = 30, sh_filters = [0]\<rparr>] = s3 \<and>
    map sh_dsn (snd s3) = [''http://key@sentry'', ''http://sentry'']"
  using raven_restart [where masked = "\<lambda>_. ''http://sentry''" and ending = "Inr ()" and handlers = "[]"
      and s = "\<lparr>rv_sentry_dsn = ''http://key@sentry'', rv_min_level = 30, rv_filters = [0::nat], rv_client = None\<rparr>"]
  by (simp add: raven_start_def raven_stop_def Let_def)

end
