(* ===== verification/RavenPlain.thy ===== *)
theory RavenPlain
  imports RavenService
begin

text \<open>
  The life of the transport with a task per message of \<^verbatim>\<open>aiomisc/service/raven.py\<close>: sending, the tasks,
  and the closing, which gathers the tasks that exist when it begins, asserts that none is left
  and is cut by a timeout. The ready queue of the event loop is first in, first out: the closing begins
  after the callbacks that were scheduled before it. A send from another thread tests the closing flag
  and schedules its callback later.
\<close>

section \<open>The life of a transport\<close>

datatype 'm closer = NotClosing | ClosePending nat | Gathers "'m list" | Closed "unit result"

record 'm transport_life =
  tl_at :: "'m AioHttpTransport"
  tl_given :: "'m list"
  tl_closer :: "'m closer"

definition new_life :: "'m transport_life" where
  "new_life = \<lparr>tl_at = AioHttpTransport_init, tl_given = [], tl_closer = NotClosing\<rparr>"

definition tl_send :: "'m \<Rightarrow> 'm transport_life \<Rightarrow> 'm transport_life" where
  "tl_send m s = s\<lparr>tl_given := tl_given s @ [m], tl_at := at_async_send m (tl_at s)\<rparr>"

text \<open>The second half of a send whose thread has tested the flag before it was set.\<close>

definition tl_late_send :: "'m \<Rightarrow> 'm transport_life \<Rightarrow> 'm transport_life" where
  "tl_late_send m s =
     s\<lparr>tl_given := tl_given s @ [m], tl_at := (tl_at s)\<lparr>at_scheduled := at_scheduled (tl_at s) @ [m]\<rparr>\<rparr>"

text \<open>The loop runs the next callback.\<close>

definition tl_run_next :: "'m transport_life \<Rightarrow> 'm transport_life" where
  "tl_run_next s =
     s\<lparr>tl_at := at_create_task (tl_at s),
       tl_closer := (case tl_closer s of ClosePending n \<Rightarrow> ClosePending (n - 1) | c \<Rightarrow> c)\<rparr>"

text \<open>A task ends; the gathering waits for the others.\<close>

definition tl_task_done :: "'m \<Rightarrow> sent \<Rightarrow> 'm transport_life \<Rightarrow> 'm transport_life" where
  "tl_task_done m sn s =
     s\<lparr>tl_at := at_task_done m sn (tl_at s),
       tl_closer := (case tl_closer s of Gathers ts \<Rightarrow> Gathers (removeAll m ts) | c \<Rightarrow> c)\<rparr>"

text \<open>\<^verbatim>\<open>close\<close>: once; the coroutine that closes runs after the callbacks in the ready queue.\<close>

definition tl_close :: "'m transport_life \<Rightarrow> 'm transport_life" where
  "tl_close s =
     (if at_closing (tl_at s) then s
      else s\<lparr>tl_at := (tl_at s)\<lparr>at_closing := True\<rparr>,
             tl_closer := ClosePending (length (at_scheduled (tl_at s)))\<rparr>)"

definition tl_gather :: "'m transport_life \<Rightarrow> 'm transport_life" where
  "tl_gather s = s\<lparr>tl_closer := Gathers (at_tasks (tl_at s))\<rparr>"

text \<open>\<^verbatim>\<open>_close\<close> after the gathering: the assertion that no task is left.\<close>

definition tl_close_end :: "'m transport_life \<Rightarrow> 'm transport_life" where
  "tl_close_end s =
     s\<lparr>tl_closer := Closed (if at_tasks (tl_at s) = [] then Inr () else Inl (AssertionError []))\<rparr>"

text \<open>
  The timeout cancels the gathering, and so the tasks that it waits for: a cancelled delivery calls
  no callback. The timeout itself is swallowed by \<^verbatim>\<open>_close_coro\<close>.
\<close>

definition cancelled_send :: sent where
  "cancelled_send = do_send (\<lambda>_. Inr 0) (\<lambda>_. Inr ()) True (Inl CancelledError)"

definition tl_timeout :: "'m list \<Rightarrow> 'm transport_life \<Rightarrow> 'm transport_life" where
  "tl_timeout ts s =
     s\<lparr>tl_at := fold (\<lambda>m. at_task_done m cancelled_send) ts (tl_at s), tl_closer := Closed (Inr ())\<rparr>"

text \<open>With \<open>threads\<close>, messages also come from other threads; \<open>timeouts\<close> says whether a timeout is given.\<close>

inductive tl_step :: "bool \<Rightarrow> bool \<Rightarrow> 'm transport_life \<Rightarrow> 'm transport_life \<Rightarrow> bool"
  for threads timeouts :: bool where
  tl_step_send: "m \<notin> set (tl_given s) \<Longrightarrow> tl_step threads timeouts s (tl_send m s)"
| tl_step_late: "threads \<Longrightarrow> m \<notin> set (tl_given s) \<Longrightarrow> tl_step threads timeouts s (tl_late_send m s)"
| tl_step_next: "at_scheduled (tl_at s) \<noteq> [] \<Longrightarrow> tl_closer s \<noteq> ClosePending 0 \<Longrightarrow>
    tl_step threads timeouts s (tl_run_next s)"
| tl_step_done: "m \<in> set (at_tasks (tl_at s)) \<Longrightarrow> \<forall>e. post = Inl e \<longrightarrow> ordinary e \<Longrightarrow>
    \<forall>h e. to_int h = Inl e \<longrightarrow> ordinary e \<Longrightarrow>
    tl_step threads timeouts s (tl_task_done m (do_send to_int (\<lambda>_. Inr ()) keepalive post) s)"
| tl_step_close: "tl_step threads timeouts s (tl_close s)"
| tl_step_gather: "tl_closer s = ClosePending 0 \<Longrightarrow> tl_step threads timeouts s (tl_gather s)"
| tl_step_end: "tl_closer s = Gathers [] \<Longrightarrow> tl_step threads timeouts s (tl_close_end s)"
| tl_step_timeout: "timeouts \<Longrightarrow> tl_closer s = Gathers ts \<Longrightarrow> tl_step threads timeouts s (tl_timeout ts s)"

section \<open>Invariants\<close>

definition life_messages :: "'m transport_life \<Rightarrow> 'm multiset" where
  "life_messages s =
     mset (at_scheduled (tl_at s)) + mset (at_tasks (tl_at s)) + mset (map fst (at_answers (tl_at s)))"

definition callbacks_ok :: "bool \<Rightarrow> 'm transport_life \<Rightarrow> bool" where
  "callbacks_ok timeouts s \<longleftrightarrow>
     (\<forall>a \<in> set (at_answers (tl_at s)). length (snd a) = 1 \<or> timeouts \<and> snd a = [])"

text \<open>Where the closing is, when all sends are made in the thread of the loop.\<close>

definition closer_ok :: "'m transport_life \<Rightarrow> bool" where
  "closer_ok s \<longleftrightarrow>
     (case tl_closer s of
        NotClosing \<Rightarrow> \<not> at_closing (tl_at s)
      | ClosePending n \<Rightarrow> at_closing (tl_at s) \<and> n = length (at_scheduled (tl_at s))
      | Gathers ts \<Rightarrow> at_closing (tl_at s) \<and> at_scheduled (tl_at s) = [] \<and> ts = at_tasks (tl_at s)
      | Closed r \<Rightarrow> at_closing (tl_at s) \<and> at_scheduled (tl_at s) = [] \<and> at_tasks (tl_at s) = [] \<and> r = Inr ())"

definition plain_inv :: "bool \<Rightarrow> 'm transport_life \<Rightarrow> bool" where
  "plain_inv timeouts s \<longleftrightarrow>
     distinct (tl_given s) \<and> mset (tl_given s) = life_messages s \<and> callbacks_ok timeouts s \<and> closer_ok s"

lemma life_distinct:
  assumes "plain_inv timeouts s"
  shows "distinct (at_tasks (tl_at s))"
proof -
  have "distinct (at_scheduled (tl_at s) @ at_tasks (tl_at s) @ map fst (at_answers (tl_at s)))"
    using assms mset_eq_imp_distinct_iff [of "tl_given s"]
    by (metis (no_types, lifting) plain_inv_def life_messages_def mset_append add.assoc)
  then show ?thesis by simp
qed

text \<open>Ending tasks moves their messages to the answers.\<close>

lemma done_fields [simp]:
  "at_scheduled (at_task_done m sn t) = at_scheduled t" "at_closing (at_task_done m sn t) = at_closing t"
  "at_tasks (at_task_done m sn t) = remove1 m (at_tasks t)"
  "at_answers (at_task_done m sn t) = at_answers t @ [(m, sn_callbacks sn)]"
  by (simp_all add: at_task_done_def)

lemma fold_done:
  "fold (\<lambda>m. at_task_done m sn) ts t =
     t\<lparr>at_tasks := fold remove1 ts (at_tasks t), at_answers := at_answers t @ map (\<lambda>m. (m, sn_callbacks sn)) ts\<rparr>"
  by (induction ts arbitrary: t) (simp_all add: at_task_done_def)

lemma fold_remove1_self: "fold remove1 ts ts = []"
  by (induction ts) simp_all

lemma cancelled_send_silent: "sn_callbacks cancelled_send = []"
  by (simp add: cancelled_send_def do_send_def failed_send_def py_simps)

lemmas life_defs = plain_inv_def life_messages_def callbacks_ok_def closer_ok_def

lemma plain_inv_send:
  assumes "plain_inv timeouts s" "m \<notin> set (tl_given s)"
  shows "plain_inv timeouts (tl_send m s)"
  using assms
  by (auto simp: life_defs tl_send_def at_async_send_def split: closer.splits)

lemma plain_inv_next:
  assumes "plain_inv timeouts s" "at_scheduled (tl_at s) \<noteq> []" "tl_closer s \<noteq> ClosePending 0"
  shows "plain_inv timeouts (tl_run_next s)"
  using assms
  by (cases "at_scheduled (tl_at s)")
    (auto simp: life_defs tl_run_next_def at_create_task_def split: closer.splits)

lemma plain_inv_done:
  assumes "plain_inv timeouts s" "m \<in> set (at_tasks (tl_at s))" "length (sn_callbacks sn) = 1"
  shows "plain_inv timeouts (tl_task_done m sn s)"
proof -
  have "mset (remove1 m (at_tasks (tl_at s))) + {#m#} = mset (at_tasks (tl_at s))"
    using assms(2) by simp
  then have "life_messages (tl_task_done m sn s) = life_messages s"
    by (simp add: life_messages_def tl_task_done_def)
  moreover have "removeAll m (at_tasks (tl_at s)) = remove1 m (at_tasks (tl_at s))"
    using life_distinct [OF assms(1)] by (simp add: distinct_remove1_removeAll)
  ultimately show ?thesis
    using assms by (auto simp: plain_inv_def callbacks_ok_def closer_ok_def tl_task_done_def split: closer.splits)
qed

lemma plain_inv_timeout:
  assumes "plain_inv True s" "tl_closer s = Gathers ts"
  shows "plain_inv True (tl_timeout ts s)"
  using assms
  by (auto simp: life_defs tl_timeout_def fold_done fold_remove1_self cancelled_send_silent comp_def)

lemma plain_step_inv:
  assumes "plain_inv timeouts s" "tl_step False timeouts s s'"
  shows "plain_inv timeouts s'"
  using assms(2)
proof cases
  case (tl_step_done m post to_int keepalive)
  then have "length (sn_callbacks (do_send to_int (\<lambda>_. Inr ()) keepalive post)) = 1"
    by (intro do_send_one(1)) auto
  with tl_step_done assms(1) show ?thesis by (simp add: plain_inv_done)
next
  case (tl_step_timeout ts)
  with assms(1) show ?thesis using plain_inv_timeout by auto
qed (use assms(1) in \<open>auto simp: plain_inv_send plain_inv_next\<close>,
  use assms(1) in \<open>auto simp: life_defs tl_close_def tl_gather_def tl_close_end_def split: closer.splits\<close>)

lemma plain_inv_new: "plain_inv timeouts new_life"
  by (simp add: life_defs new_life_def AioHttpTransport_init_def)

interpretation plain: invariant_system "\<lambda>s. s = new_life" "tl_step False timeouts" "plain_inv timeouts"
  by unfold_locales (auto intro: plain_inv_new plain_step_inv)

section \<open>Properties\<close>

text \<open>
  Closing the transport loses nothing: when all messages are given in the thread of the loop, every
  message is at every moment in exactly one place (scheduled, with its task, or answered); when the
  closing has ended, the assertion held, nothing is scheduled or running, and every message that was
  ever given has been answered, by exactly one callback unless a timeout has cancelled its delivery,
  which then calls none.
\<close>

theorem plain_close_complete:
  assumes "reachable (\<lambda>s. s = new_life) (tl_step False timeouts) s"
  shows "mset (tl_given s) = life_messages s \<and>
    (\<forall>m cbs. (m, cbs) \<in> set (at_answers (tl_at s)) \<longrightarrow> length cbs = 1 \<or> timeouts \<and> cbs = []) \<and>
    (\<forall>r. tl_closer s = Closed r \<longrightarrow> r = Inr () \<and> at_scheduled (tl_at s) = [] \<and> at_tasks (tl_at s) = [] \<and>
       mset (map fst (at_answers (tl_at s))) = mset (tl_given s))"
proof -
  have inv: "plain_inv timeouts s" by (rule plain.reachable_inv [OF assms])
  then have "\<forall>a \<in> set (at_answers (tl_at s)). length (snd a) = 1 \<or> timeouts \<and> snd a = []"
    by (simp add: plain_inv_def callbacks_ok_def)
  with inv show ?thesis by (auto simp: plain_inv_def closer_ok_def life_messages_def)
qed

lemma progressI:
  assumes "tl_step threads timeouts s s'" "tl_closer s' \<noteq> tl_closer s" "tl_given s' = tl_given s"
  shows "\<exists>s'. tl_step threads timeouts s s' \<and> s' \<noteq> s \<and> tl_given s' = tl_given s"
  using assms by blast

text \<open>The closing never gets stuck: a callback, a task, the gathering or the end is due.\<close>

lemma plain_close_progress:
  assumes "reachable (\<lambda>s. s = new_life) (tl_step False timeouts) s" "at_closing (tl_at s)"
    and "\<forall>r. tl_closer s \<noteq> Closed r"
  shows "\<exists>s'. tl_step False timeouts s s' \<and> s' \<noteq> s \<and> tl_given s' = tl_given s"
proof -
  have inv: "closer_ok s" using plain.reachable_inv [OF assms(1)] by (simp add: plain_inv_def)
  show ?thesis
  proof (cases "tl_closer s")
    case (ClosePending n)
    show ?thesis
    proof (cases n)
      case 0
      then have "tl_step False timeouts s (tl_gather s)" "tl_closer (tl_gather s) \<noteq> tl_closer s"
        using ClosePending by (simp_all add: tl_step_gather) (simp add: tl_gather_def)
      then show ?thesis by (rule progressI) (simp add: tl_gather_def)
    next
      case (Suc k)
      with ClosePending inv have "at_scheduled (tl_at s) \<noteq> []" by (auto simp: closer_ok_def)
      then have "tl_step False timeouts s (tl_run_next s)" "tl_closer (tl_run_next s) \<noteq> tl_closer s"
        using ClosePending Suc by (simp_all add: tl_step_next) (simp add: tl_run_next_def)
      then show ?thesis by (rule progressI) (simp add: tl_run_next_def)
    qed
  next
    case (Gathers ts)
    show ?thesis
    proof (cases ts)
      case Nil
      then have "tl_step False timeouts s (tl_close_end s)" "tl_closer (tl_close_end s) \<noteq> tl_closer s"
        using Gathers by (simp_all add: tl_step_end) (simp add: tl_close_end_def)
      then show ?thesis by (rule progressI) (simp add: tl_close_end_def)
    next
      case (Cons m ms)
      let ?s = "tl_task_done m (do_send (\<lambda>_. Inr 0) (\<lambda>_. Inr ()) True (Inl TimeoutError)) s"
      have m: "m \<in> set (at_tasks (tl_at s))" using inv Gathers Cons by (simp add: closer_ok_def) (metis list.set_intros(1))
      have "tl_step False timeouts s ?s"
        by (rule tl_step_done [OF m]) (simp_all add: ordinary_def py_simps)
      moreover have "tl_closer ?s \<noteq> tl_closer s"
        using Gathers Cons length_removeAll_less [of m ts] by (auto simp: tl_task_done_def)
      ultimately show ?thesis by (rule progressI) (simp add: tl_task_done_def)
    qed
  qed (use inv assms(2,3) in \<open>auto simp: closer_ok_def\<close>)
qed


text \<open>One message, a close and the end of its task.\<close>

lemmas life_ops = new_life_def AioHttpTransport_init_def tl_send_def tl_late_send_def at_async_send_def
  tl_run_next_def at_create_task_def tl_close_def tl_gather_def tl_close_end_def tl_task_done_def
  at_task_done_def

definition lonely_message :: "nat transport_life" where
  "lonely_message = tl_gather (tl_run_next (tl_close (tl_send 7 new_life)))"

lemma lonely_message_reachable:
  "reachable (\<lambda>s. s = new_life) (tl_step threads timeouts) lonely_message"
proof -
  let ?R = "reachable (\<lambda>s. s = new_life) (tl_step threads timeouts :: nat transport_life \<Rightarrow> _)"
  have "?R new_life" by (rule reach_init) simp
  then have "?R (tl_send 7 new_life)" by (rule reach_step) (rule tl_step_send, simp add: life_ops)
  then have "?R (tl_close (tl_send 7 new_life))" by (rule reach_step) (rule tl_step_close)
  then have "?R (tl_run_next (tl_close (tl_send 7 new_life)))"
    by (rule reach_step) (rule tl_step_next, simp_all add: life_ops)
  then show ?thesis
    unfolding lonely_message_def by (rule reach_step) (rule tl_step_gather, simp add: life_ops)
qed

abbreviation delivered :: sent where
  "delivered \<equiv> do_send (\<lambda>_. Inr 0) (\<lambda>_. Inr ()) True (Inl TimeoutError)"

lemma delivered_step:
  "7 \<in> set (at_tasks (tl_at s)) \<Longrightarrow> tl_step threads timeouts s (tl_task_done 7 delivered s)"
  by (rule tl_step_done) (simp_all add: ordinary_def py_simps)

theorem plain_close_complete_witness:
  "\<exists>s. reachable (\<lambda>s. s = new_life) (tl_step False False) s \<and> tl_closer s = Closed (Inr ()) \<and>
     mset (map fst (at_answers (tl_at s))) = {#7::nat#}"
proof -
  let ?s = "tl_close_end (tl_task_done 7 delivered lonely_message)"
  have "reachable (\<lambda>s. s = new_life) (tl_step False False) (tl_task_done 7 delivered lonely_message)"
    by (rule reach_step [OF lonely_message_reachable], rule delivered_step) (simp add: lonely_message_def life_ops)
  then have r: "reachable (\<lambda>s. s = new_life) (tl_step False False) ?s"
    by (rule reach_step) (rule tl_step_end, simp add: lonely_message_def life_ops)
  have s: "tl_closer ?s = Closed (Inr ())" "tl_given ?s = [7]"
    by (simp_all add: lonely_message_def life_ops)
  with plain_close_complete [OF r] have "mset (map fst (at_answers (tl_at ?s))) = {#7#}" by simp
  with r s(1) show ?thesis by (intro exI conjI)
qed

text \<open>
  A message of another thread breaks the closing: it comes between the gathering and its end, its task
  is not gathered, and the assertion fails.
\<close>

theorem late_message_breaks_close:
  "\<exists>s. reachable (\<lambda>s. s = new_life) (tl_step True False) s \<and> tl_closer s = Closed (Inl (AssertionError [])) \<and>
     (8::nat) \<in> set (at_tasks (tl_at s))"
proof -
  let ?R = "reachable (\<lambda>s. s = new_life) (tl_step True False)"
  let ?s1 = "tl_late_send 8 lonely_message"
  let ?s2 = "tl_task_done 7 delivered (tl_run_next ?s1)"
  have "?R ?s1"
    by (rule reach_step [OF lonely_message_reachable], rule tl_step_late) (simp_all add: lonely_message_def life_ops)
  then have "?R (tl_run_next ?s1)"
    by (rule reach_step) (rule tl_step_next, simp_all add: lonely_message_def life_ops)
  then have "?R ?s2"
    by (rule reach_step) (rule delivered_step, simp add: lonely_message_def life_ops)
  then have "?R (tl_close_end ?s2)"
    by (rule reach_step) (rule tl_step_end, simp add: lonely_message_def life_ops)
  moreover have "tl_closer (tl_close_end ?s2) = Closed (Inl (AssertionError []))"
    "8 \<in> set (at_tasks (tl_at (tl_close_end ?s2)))"
    by (simp_all add: lonely_message_def life_ops)
  ultimately show ?thesis by blast
qed


end
