(* ===== verification/WorkerStartup.thy ===== *)
theory WorkerStartup
  imports WorkerPool
begin

text \<open>
  How worker processes come into being: the pool starts a supervisor and writes the set-up to its
  standard input (\<^verbatim>\<open>WorkerPool.__create_supervisor\<close>); the supervisor starts its workers by forking
  (\<^verbatim>\<open>aiomisc_worker/forking.py\<close>) or as new processes that get their set-up in the same way
  (\<^verbatim>\<open>process.py\<close> and \<^verbatim>\<open>process_inner.py\<close>); a worker runs the initializer, connects and authenticates itself
  (\<^verbatim>\<open>worker.py\<close>). The packets go through the protocol of WorkerProtocol, with a buffered file as reader.
\<close>

section \<open>The set-up\<close>

text \<open>The values that are sent, one per packet. An initializer is a function that may raise.\<close>

datatype 'i setup_value =
  SetupLog string string
| SetupAddress string
| SetupCookie bytes
| SetupIds "bytes list"
| SetupId bytes
| SetupInitializer "'i option"

record 'i conf =
  cf_log_level :: string
  cf_log_format :: string
  cf_address :: string
  cf_cookie :: bytes
  cf_ids :: "bytes list"
  cf_initializer :: "'i option"

definition supervisor_packets :: "'i conf \<Rightarrow> 'i setup_value list" where
  "supervisor_packets c =
     [SetupLog (cf_log_level c) (cf_log_format c), SetupAddress (cf_address c),
      SetupCookie (cf_cookie c), SetupIds (cf_ids c), SetupInitializer (cf_initializer c)]"

text \<open>\<^verbatim>\<open>__create_supervisor\<close>: the bytes on the standard input of the new process.\<close>

definition create_supervisor :: "('i setup_value \<Rightarrow> bytes) \<Rightarrow> bool \<Rightarrow> 'i conf \<Rightarrow> bytes result" where
  "create_supervisor dumps closing c =
     (if closing then Inl (RuntimeError ''Pool closed'')
      else send_all dumps (supervisor_packets c) [])"

text \<open>
  The start of both \<^verbatim>\<open>main\<close> functions. Values of another form than the expected ones are refused
  here, where Python would fail when it uses them.
\<close>

definition supervisor_setup :: "(bytes \<Rightarrow> 'i setup_value result) \<Rightarrow> reader \<Rightarrow> 'i conf result" where
  "supervisor_setup loads stdin =
     bind_result (receive_all file_read loads 5 stdin) (\<lambda>ps.
       case ps of
         [SetupLog level fmt, SetupAddress address, SetupCookie cookie, SetupIds worker_ids,
          SetupInitializer initializer] \<Rightarrow>
           Inr \<lparr>cf_log_level = level, cf_log_format = fmt, cf_address = address, cf_cookie = cookie,
                cf_ids = worker_ids, cf_initializer = initializer\<rparr>
       | _ \<Rightarrow> Inl (TypeError ''unexpected set-up''))"

section \<open>Workers as processes\<close>

text \<open>\<^verbatim>\<open>Worker.__init__\<close>: what the new process finds on its standard input.\<close>

definition worker_packets :: "'i conf \<Rightarrow> bytes \<Rightarrow> 'i setup_value list" where
  "worker_packets c worker_id =
     [SetupLog (cf_log_level c) (cf_log_format c), SetupAddress (cf_address c),
      SetupCookie (cf_cookie c), SetupId worker_id, SetupInitializer (cf_initializer c)]"

definition create_worker :: "('i setup_value \<Rightarrow> bytes) \<Rightarrow> 'i conf \<Rightarrow> bytes \<Rightarrow> bytes result" where
  "create_worker dumps c worker_id = send_all dumps (worker_packets c worker_id) []"

text \<open>The workers of \<^verbatim>\<open>process.main\<close>, in the order of the identifiers.\<close>

fun start_workers ::
  "('i setup_value \<Rightarrow> bytes) \<Rightarrow> 'i conf \<Rightarrow> bytes list \<Rightarrow> (bytes \<times> bytes) list result" where
  "start_workers dumps c [] = Inr []"
| "start_workers dumps c (worker_id # ids) =
     bind_result (create_worker dumps c worker_id) (\<lambda>wire.
       bind_result (start_workers dumps c ids) (\<lambda>ws. Inr ((wire, worker_id) # ws)))"

definition process_main ::
  "('i setup_value \<Rightarrow> bytes) \<Rightarrow> (bytes \<Rightarrow> 'i setup_value result) \<Rightarrow> reader \<Rightarrow> (bytes \<times> bytes) list result" where
  "process_main dumps loads stdin =
     bind_result (supervisor_setup loads stdin) (\<lambda>c. start_workers dumps c (cf_ids c))"

text \<open>
  What a worker sends first: the authentication, or the report of a failed initializer, after which it
  exits.
\<close>

datatype greeting =
  Authenticates "PacketTypes \<times> bytes \<times> bytes \<times> nat"
| ReportsInitializer "PacketTypes \<times> bytes \<times> bytes \<times> nat" "PacketTypes \<times> pyexc"

definition greet ::
  "(bytes \<Rightarrow> bytes \<Rightarrow> bytes) \<Rightarrow> ('i \<Rightarrow> unit result) \<Rightarrow> 'i option \<Rightarrow> bytes \<Rightarrow> bytes \<Rightarrow> nat \<Rightarrow> greeting" where
  "greet hmac run initializer cookie worker_id pid =
     (case initializer of
        None \<Rightarrow> Authenticates (auth_packet hmac cookie worker_id pid)
      | Some f \<Rightarrow>
          (case run f of
             Inr _ \<Rightarrow> Authenticates (auth_packet hmac cookie worker_id pid)
           | Inl e \<Rightarrow>
               (case bad_initializer_packets hmac cookie worker_id pid e of
                  (p1, p2) \<Rightarrow> ReportsInitializer p1 p2)))"

definition worker_inner ::
  "(bytes \<Rightarrow> bytes \<Rightarrow> bytes) \<Rightarrow> ('i \<Rightarrow> unit result) \<Rightarrow> (bytes \<Rightarrow> 'i setup_value result) \<Rightarrow> nat \<Rightarrow> reader \<Rightarrow>
   greeting result" where
  "worker_inner hmac run loads pid stdin =
     bind_result (receive_all file_read loads 5 stdin) (\<lambda>ps.
       case ps of
         [SetupLog level fmt, SetupAddress address, SetupCookie cookie, SetupId worker_id,
          SetupInitializer initializer] \<Rightarrow>
           Inr (greet hmac run initializer cookie worker_id pid)
       | _ \<Rightarrow> Inl (TypeError ''unexpected set-up''))"

section \<open>Workers as forked children\<close>

text \<open>
  \<^verbatim>\<open>forking.main\<close>: the initializer runs in the supervisor, once; when it fails, the failure is
  reported under the first identifier and nothing is forked. The system gives the process
  identifiers of the children.
\<close>

definition forking_main ::
  "(bytes \<Rightarrow> bytes \<Rightarrow> bytes) \<Rightarrow> ('i \<Rightarrow> unit result) \<Rightarrow> (bytes \<Rightarrow> 'i setup_value result) \<Rightarrow> nat \<Rightarrow> nat list \<Rightarrow>
   reader \<Rightarrow> (greeting + (nat \<rightharpoonup> bytes) \<times> bytes) result" where
  "forking_main hmac run loads pid child_pids stdin =
     bind_result (supervisor_setup loads stdin) (\<lambda>c.
       let forked = (fold (\<lambda>(p, i). fork p i) (zip child_pids (cf_ids c)) Map.empty, cf_cookie c)
       in case cf_initializer c of
            None \<Rightarrow> Inr (Inr forked)
          | Some f \<Rightarrow>
              (case run f of
                 Inr _ \<Rightarrow> Inr (Inr forked)
               | Inl e \<Rightarrow>
                   if cf_ids c = [] then Inl (mk_exc [''IndexError'', ''LookupError'', ''Exception'', ''BaseException''] [])
                   else (case bad_initializer_packets hmac (cf_cookie c) (hd (cf_ids c)) pid e of
                           (p1, p2) \<Rightarrow> Inr (Inl (ReportsInitializer p1 p2)))))"

definition child_greeting ::
  "(bytes \<Rightarrow> bytes \<Rightarrow> bytes) \<Rightarrow> (nat \<rightharpoonup> bytes) \<times> bytes \<Rightarrow> nat \<Rightarrow> greeting option" where
  "child_greeting hmac forked pid =
     map_option (\<lambda>worker_id. Authenticates (auth_packet hmac (snd forked) worker_id pid))
       (fst forked pid)"

section \<open>The working loop\<close>

text \<open>
  \<^verbatim>\<open>worker\<close> after it has connected: the answer of the pool, then requests, until one of them ends
  the loop. A lost connection ends the worker quietly.
\<close>

fun worker_requests :: "(PacketTypes \<times> 'v result) result list \<Rightarrow> 'v response list \<times> unit result" where
  "worker_requests [] = ([], Inr ())"
| "worker_requests (packet # packets) =
     (case bind_result packet (\<lambda>(ty, outcome). worker_execute ty outcome) of
        Inl e \<Rightarrow> ([], if isinstance_exc e ''ConnectionError'' then Inr () else Inl e)
      | Inr response \<Rightarrow>
          (case worker_requests packets of (responses, r) \<Rightarrow> (response # responses, r)))"

definition worker_run ::
  "PacketTypes result \<Rightarrow> (PacketTypes \<times> 'v result) result list \<Rightarrow> 'v response list \<times> unit result" where
  "worker_run answer packets =
     (case bind_result answer worker_authorized of
        Inl e \<Rightarrow> ([], if isinstance_exc e ''ConnectionError'' then Inr () else Inl e)
      | Inr _ \<Rightarrow> worker_requests packets)"

section \<open>Lemmas\<close>

text \<open>What pickle promises for the values that are sent for a configuration.\<close>

definition setup_values :: "'i conf \<Rightarrow> 'i setup_value list" where
  "setup_values c = supervisor_packets c @ concat (map (worker_packets c) (cf_ids c))"

definition pickles :: "('i setup_value \<Rightarrow> bytes) \<Rightarrow> (bytes \<Rightarrow> 'i setup_value result) \<Rightarrow> 'i conf \<Rightarrow> bool" where
  "pickles dumps loads c \<longleftrightarrow> (\<forall>p \<in> set (setup_values c). loads (dumps p) = Inr p)"

lemma send_all_received:
  assumes "pickles dumps loads c" "set ps \<subseteq> set (setup_values c)"
    and "send_all dumps ps [] = Inr wire" "rd_bytes r = wire"
  shows "receive_all file_read loads (length ps) r = Inr ps"
  using buffered.receive_all_packets [of dumps ps "[]" wire loads r "[]"] assms
  by (auto simp: pickles_def)

lemma supervisor_setup_received:
  assumes "pickles dumps loads c" "create_supervisor dumps closing c = Inr wire" "rd_bytes r = wire"
  shows "supervisor_setup loads r = Inr c"
proof -
  have "send_all dumps (supervisor_packets c) [] = Inr wire"
    using assms(2) by (simp add: create_supervisor_def split: if_splits)
  from send_all_received [OF assms(1) _ this assms(3)]
  have "receive_all file_read loads 5 r = Inr (supervisor_packets c)"
    by (simp add: setup_values_def supervisor_packets_def eval_nat_numeral)
  then show ?thesis by (simp add: supervisor_setup_def supervisor_packets_def)
qed

lemma worker_inner_received:
  assumes "pickles dumps loads c" "worker_id \<in> set (cf_ids c)"
    and "create_worker dumps c worker_id = Inr wire" "rd_bytes r = wire"
  shows "worker_inner hmac run loads pid r =
    Inr (greet hmac run (cf_initializer c) (cf_cookie c) worker_id pid)"
proof -
  have "set (worker_packets c worker_id) \<subseteq> set (setup_values c)"
    using assms(2) by (auto simp: setup_values_def)
  from send_all_received [OF assms(1) this assms(3) [unfolded create_worker_def] assms(4)]
  have "receive_all file_read loads 5 r = Inr (worker_packets c worker_id)"
    by (simp add: worker_packets_def eval_nat_numeral)
  then show ?thesis by (simp add: worker_inner_def worker_packets_def)
qed

lemma start_workers_result:
  "start_workers dumps c ids = Inr ws \<Longrightarrow>
     map snd ws = ids \<and> (\<forall>(wire, worker_id) \<in> set ws. create_worker dumps c worker_id = Inr wire)"
proof (induction ids arbitrary: ws)
  case Nil
  then show ?case by simp
next
  case (Cons worker_id ids)
  then show ?case by (fastforce simp: bind_result_Inr_iff)
qed

lemma fold_fork:
  assumes "distinct (map fst pis)"
  shows "fold (\<lambda>(p, i). fork p i) pis m = m ++ map_of pis"
  using assms
proof (induction pis arbitrary: m)
  case Nil
  then show ?case by simp
next
  case (Cons pi pis)
  obtain p i where pi: "pi = (p, i)" by (cases pi)
  with Cons.prems have "map_of pis p = None" by (auto simp: map_of_eq_None_iff)
  with Cons pi show ?case by (auto simp: fork_def map_add_def fun_eq_iff split: option.splits)
qed

section \<open>Properties\<close>

text \<open>The pool accepts an authentication, and learns of a failed initializer with its exception.\<close>

definition greeting_ok ::
  "(bytes \<Rightarrow> bytes \<Rightarrow> bytes) \<Rightarrow> ('i \<Rightarrow> unit result) \<Rightarrow> 'i conf \<Rightarrow> nat \<Rightarrow> greeting \<Rightarrow> bool" where
  "greeting_ok hmac run c pid g \<longleftrightarrow>
     (case g of
        Authenticates p \<Rightarrow> authenticate hmac (cf_cookie c) (cf_ids c) p = Accepted pid
      | ReportsInitializer p1 p2 \<Rightarrow>
          authenticate hmac (cf_cookie c) (cf_ids c) p1 = InitializerFailed \<and>
          (\<exists>f e. cf_initializer c = Some f \<and> run f = Inl e \<and> p2 = (EXCEPTION, e)))"

lemma authenticates_ok:
  "worker_id \<in> set (cf_ids c) \<Longrightarrow>
     greeting_ok hmac run c pid (Authenticates (auth_packet hmac (cf_cookie c) worker_id pid))"
  by (simp add: greeting_ok_def authenticate_def auth_packet_def)

lemma reports_ok:
  assumes "cf_initializer c = Some f" "run f = Inl e"
    and "bad_initializer_packets hmac (cf_cookie c) worker_id pid e = (p1, p2)"
  shows "greeting_ok hmac run c pid (ReportsInitializer p1 p2)"
  using assms by (auto simp: greeting_ok_def authenticate_def bad_initializer_packets_def)

lemma greet_ok:
  "worker_id \<in> set (cf_ids c) \<Longrightarrow>
     greeting_ok hmac run c pid (greet hmac run (cf_initializer c) (cf_cookie c) worker_id pid)"
  by (auto simp: greet_def authenticates_ok reports_ok split: option.splits sum.splits prod.splits)

lemma forked_ids:
  assumes "distinct child_pids" "length child_pids = length ids"
  shows "ran (fold (\<lambda>(p, i). fork p i) (zip child_pids ids) Map.empty) = set ids"
proof -
  have d: "distinct (map fst (zip child_pids ids))" using assms by simp
  have "snd ` set (zip child_pids ids) = set ids" using assms(2) by (metis list.set_map map_snd_zip)
  then show ?thesis by (simp add: fold_fork [OF d] ran_distinct [OF d])
qed

lemma started_worker_greets:
  assumes "pickles dumps loads c" "start_workers dumps c (cf_ids c) = Inr ws"
    and "(w, i) \<in> set ws" "rd_bytes r = w"
  shows "\<exists>g. worker_inner hmac run loads pid r = Inr g \<and> greeting_ok hmac run c pid g"
proof -
  note ids = start_workers_result [OF assms(2)]
  have "create_worker dumps c i = Inr w" "i \<in> snd ` set ws" using ids assms(3) by force+
  moreover from this(2) ids have "i \<in> set (cf_ids c)" by (metis list.set_map)
  ultimately show ?thesis
    using worker_inner_received [OF assms(1) _ _ assms(4)] greet_ok by blast
qed

lemma forked_child_greets:
  assumes "procs = fold (\<lambda>(p, i). fork p i) (zip child_pids (cf_ids c)) Map.empty"
    and "distinct child_pids" "length child_pids = length (cf_ids c)" "p \<in> dom procs"
  shows "\<exists>g. child_greeting hmac (procs, cf_cookie c) p = Some g \<and> greeting_ok hmac run c p g"
proof -
  from assms(4) obtain i where i: "procs p = Some i" by blast
  moreover have "ran procs = set (cf_ids c)" unfolding assms(1) by (rule forked_ids [OF assms(2,3)])
  ultimately have "i \<in> set (cf_ids c)" by (metis ranI)
  from authenticates_ok [OF this] i show ?thesis by (simp add: child_greeting_def)
qed

text \<open>
  C36. The set-up arrives: from what the pool wrote, however the bytes are chunked, both kinds of
  supervisor start one worker for each identifier of the pool, and what every worker sends first is
  accepted by the pool's authentication with the worker's process id, or tells the pool the exception with
  which the initializer failed.
\<close>

theorem workers_start:
  assumes "pickles dumps loads c" "create_supervisor dumps False c = Inr wire" "rd_bytes stdin = wire"
    and "distinct child_pids" "length child_pids = length (cf_ids c)"
  shows "process_main dumps loads stdin = start_workers dumps c (cf_ids c) \<and>
    (start_workers dumps c (cf_ids c) = Inr ws \<longrightarrow>
      map snd ws = cf_ids c \<and>
      (\<forall>(w, worker_id) \<in> set ws. \<forall>r pid. rd_bytes r = w \<longrightarrow>
         (\<exists>g. worker_inner hmac run loads pid r = Inr g \<and> greeting_ok hmac run c pid g))) \<and>
    (case forking_main hmac run loads pid child_pids stdin of
        Inl e \<Rightarrow> cf_ids c = []
      | Inr (Inl g) \<Rightarrow> greeting_ok hmac run c pid g
      | Inr (Inr forked) \<Rightarrow>
          ran (fst forked) = set (cf_ids c) \<and>
          (\<forall>p \<in> dom (fst forked). \<exists>g. child_greeting hmac forked p = Some g \<and>
             greeting_ok hmac run c p g))"
proof (intro conjI)
  note conf = supervisor_setup_received [OF assms(1-3)]
  show "process_main dumps loads stdin = start_workers dumps c (cf_ids c)"
    by (simp add: process_main_def conf)
  show "start_workers dumps c (cf_ids c) = Inr ws \<longrightarrow>
      map snd ws = cf_ids c \<and>
      (\<forall>(w, worker_id) \<in> set ws. \<forall>r pid. rd_bytes r = w \<longrightarrow>
         (\<exists>g. worker_inner hmac run loads pid r = Inr g \<and> greeting_ok hmac run c pid g))"
    using start_workers_result started_worker_greets [OF assms(1)] by blast
  let ?procs = "fold (\<lambda>(p, i). fork p i) (zip child_pids (cf_ids c)) Map.empty"
  have ran: "ran ?procs = set (cf_ids c)" by (rule forked_ids [OF assms(4,5)])
  have "\<exists>g. child_greeting hmac (?procs, cf_cookie c) p = Some g \<and> greeting_ok hmac run c p g"
    if "p \<in> dom ?procs" for p
    by (rule forked_child_greets [OF refl assms(4,5) that])
  with ran show "case forking_main hmac run loads pid child_pids stdin of
        Inl e \<Rightarrow> cf_ids c = []
      | Inr (Inl g) \<Rightarrow> greeting_ok hmac run c pid g
      | Inr (Inr forked) \<Rightarrow>
          ran (fst forked) = set (cf_ids c) \<and>
          (\<forall>p \<in> dom (fst forked). \<exists>g. child_greeting hmac forked p = Some g \<and>
             greeting_ok hmac run c p g)"
    by (auto simp: forking_main_def conf Let_def reports_ok split: option.splits sum.splits prod.splits)
qed

text \<open>A pool with one worker, and a pickle for the values of its configuration.\<close>

definition example_conf :: "nat conf" where
  "example_conf =
     \<lparr>cf_log_level = ''info'', cf_log_format = ''plain'', cf_address = ''/tmp/s'', cf_cookie = [1, 2],
      cf_ids = [[7]], cf_initializer = Some 3\<rparr>"

fun example_dumps :: "nat setup_value \<Rightarrow> bytes" where
  "example_dumps (SetupLog _ _) = [0]"
| "example_dumps (SetupAddress _) = [1]"
| "example_dumps (SetupCookie _) = [2]"
| "example_dumps (SetupIds _) = [3]"
| "example_dumps (SetupId _) = [4]"
| "example_dumps (SetupInitializer _) = [5]"

definition example_loads :: "bytes \<Rightarrow> nat setup_value result" where
  "example_loads bs =
     (if bs = [0] then Inr (SetupLog ''info'' ''plain'') else if bs = [1] then Inr (SetupAddress ''/tmp/s'')
      else if bs = [2] then Inr (SetupCookie [1, 2]) else if bs = [3] then Inr (SetupIds [[7]])
      else if bs = [4] then Inr (SetupId [7]) else Inr (SetupInitializer (Some 3)))"

theorem workers_start_witness:
  "\<exists>wire. create_supervisor example_dumps False example_conf = Inr wire \<and>
     process_main example_dumps example_loads \<lparr>rd_buf = [], rd_chunks = [wire]\<rparr> =
       start_workers example_dumps example_conf [[7]]"
proof -
  have p: "pickles example_dumps example_loads example_conf"
    by (simp add: pickles_def setup_values_def supervisor_packets_def worker_packets_def
        example_conf_def example_loads_def)
  have "struct_pack 4 1 = Inr (be_bytes 4 1)" by (simp add: struct_pack_def)
  then obtain wire where w: "create_supervisor example_dumps False example_conf = Inr wire"
    by (simp add: create_supervisor_def supervisor_packets_def send_def pack_def
        PACKET_HEADER_size_def)
  let ?r = "\<lparr>rd_buf = [], rd_chunks = [wire]\<rparr>"
  have "rd_bytes ?r = wire" by (simp add: rd_bytes_def)
  from workers_start [OF p w this, of "[5]"] w show ?thesis by (auto simp: example_conf_def)
qed

end
