(* ===== verification/WorkerSession.thy ===== *)
theory WorkerSession
  imports WorkerStartup
begin

text \<open>
  One call of a worker process over the wire: the handler of \<^verbatim>\<open>aiomisc/worker_pool.py\<close> and \<^verbatim>\<open>execute\<close> of
  \<^verbatim>\<open>aiomisc_worker/worker.py\<close> put together with the protocol of \<^verbatim>\<open>aiomisc_worker/protocol.py\<close>, down to the bytes
  on the connection. How the bytes are cut into chunks is a parameter in both directions.
\<close>

section \<open>A turn\<close>

text \<open>What is pickled for a request and for the responses.\<close>

datatype ('f, 'v) ipc = IRequest 'f | IResult 'v | IException pyexc | ICancelled

fun response_packet :: "'v response \<Rightarrow> ('f, 'v) ipc" where
  "response_packet (Resp_RESULT v) = IResult v"
| "response_packet (Resp_EXCEPTION e) = IException e"
| "response_packet Resp_CANCELLED = ICancelled"
| "response_packet Resp_other = ICancelled"

fun read_response :: "('f, 'v) ipc \<Rightarrow> 'v response" where
  "read_response (IResult v) = Resp_RESULT v"
| "read_response (IException e) = Resp_EXCEPTION e"
| "read_response ICancelled = Resp_CANCELLED"
| "read_response (IRequest f) = Resp_other"

text \<open>
  \<^verbatim>\<open>execute\<close> on the bytes of the connection: what the worker writes, or the exception that ends it. Packing
  the result is within the \<^verbatim>\<open>try\<close>, so that a result that is too long becomes an exception of the call; packing
  a response to an exception is not. \<^verbatim>\<open>accepted\<close> bytes are taken by the socket.
\<close>

definition worker_turn ::
  "(('f, 'v) ipc \<Rightarrow> bytes) \<Rightarrow> (bytes \<Rightarrow> ('f, 'v) ipc result) \<Rightarrow> ('f \<Rightarrow> 'v result) \<Rightarrow> nat \<Rightarrow> reader \<Rightarrow>
   bytes result" where
  "worker_turn dumps loads run accepted r =
     bind_result (fst (receive sock_read loads r)) (\<lambda>p.
       case p of
         IRequest f \<Rightarrow>
           bind_result
             (worker_execute REQUEST
               (bind_result (run f) (\<lambda>v. bind_result (pack dumps (IResult v)) (\<lambda>_. Inr v))))
             (\<lambda>resp. sock_send accepted dumps (response_packet resp) [])
       | _ \<Rightarrow> Inl (ValueError ''not enough values to unpack''))"

text \<open>
  The handler with task \<^verbatim>\<open>t\<close>: it sends the request and receives the response. When the worker has ended, its
  side of the connection is closed and nothing arrives.
\<close>

definition handler_turn ::
  "(('f, 'v) ipc \<Rightarrow> bytes) \<Rightarrow> (bytes \<Rightarrow> ('f, 'v) ipc result) \<Rightarrow> ('f \<Rightarrow> 'v result) \<Rightarrow> nat \<Rightarrow>
   (bytes \<Rightarrow> reader) \<Rightarrow> (bytes \<Rightarrow> reader) \<Rightarrow> nat \<Rightarrow> nat \<Rightarrow> ('f, 'v) WorkerPool \<Rightarrow> ('f, 'v) WorkerPool" where
  "handler_turn dumps loads run accepted to_worker to_pool w t s =
     (case pack dumps (IRequest (tk_func (wp_tasks s ! t))) of
        Inl e \<Rightarrow> handler_fails w t e s
      | Inr packet \<Rightarrow>
          let written = (case worker_turn dumps loads run accepted (to_worker packet) of
                           Inr bs \<Rightarrow> bs | Inl _ \<Rightarrow> [])
          in case fst (receive readexactly loads (to_pool written)) of
               Inl e \<Rightarrow> handler_fails w t e s
             | Inr p \<Rightarrow> handler_response w t (read_response p) s)"

section \<open>What a call gives\<close>

text \<open>A packet whose pickle has a length of 32 bits.\<close>

definition fits :: "('p \<Rightarrow> bytes) \<Rightarrow> 'p \<Rightarrow> bool" where
  "fits dumps p \<longleftrightarrow> length (dumps p) < 2 ^ 32"

text \<open>
  The specification, without bytes: what the caller gets for a function. A worker that is lost gives
  \<^verbatim>\<open>ProcessError\<close>.
\<close>

definition call_outcome :: "(('f, 'v) ipc \<Rightarrow> bytes) \<Rightarrow> ('f \<Rightarrow> 'v result) \<Rightarrow> 'f \<Rightarrow> 'v result" where
  "call_outcome dumps run f =
     (if \<not> fits dumps (IRequest f) then Inl struct_error
      else case run f of
        Inr v \<Rightarrow>
          if fits dumps (IResult v) then Inr v
          else if fits dumps (IException struct_error) then Inl struct_error
          else Inl ProcessError
      | Inl e \<Rightarrow>
          if isinstance_exc e ''CancelledError''
          then Inl (if fits dumps ICancelled then CancelledError else ProcessError)
          else if is_Exception e \<and> \<not> isinstance_exc e ''ConnectionError'' \<and> fits dumps (IException e)
          then Inl e
          else Inl ProcessError)"

lemma pack_fits: "pack dumps p = (if fits dumps p then Inr (be_bytes 4 (length (dumps p)) @ dumps p) else Inl struct_error)"
  by (simp add: pack_def struct_pack_def fits_def PACKET_HEADER_size_def Let_def)

lemma struct_error_simps [simp]:
  "\<not> isinstance_exc struct_error ''CancelledError''" "\<not> isinstance_exc struct_error ''ConnectionError''"
  "is_Exception struct_error" "\<not> except_matches [''IncompleteReadError'', ''ConnectionError''] struct_error"
  by (simp_all add: struct_error_def py_simps)

lemma incomplete_lost [simp]: "except_matches [''IncompleteReadError'', ''ConnectionError''] IncompleteReadError"
  by (simp add: IncompleteReadError_def py_simps)

text \<open>What a reader of a whole packet, or of nothing, gets.\<close>

lemma receive_packet_first:
  assumes "fits dumps p" "loads (dumps p) = Inr p" "rd_bytes r = be_bytes 4 (length (dumps p)) @ dumps p"
  shows "fst (receive sock_read loads r) = Inr p" "fst (receive readexactly loads r) = Inr p"
proof -
  let ?packet = "be_bytes 4 (length (dumps p)) @ dumps p"
  have p: "pack dumps p = Inr ?packet" using assms(1) by (simp add: pack_fits)
  have r: "rd_bytes r = ?packet @ []" using assms(3) by simp
  from sock.receive_packet [of dumps p ?packet loads r "[]"] p assms(2) r
  show "fst (receive sock_read loads r) = Inr p" by auto
  from stream.receive_packet [of dumps p ?packet loads r "[]"] p assms(2) r
  show "fst (receive readexactly loads r) = Inr p" by auto
qed

lemma receive_nothing:
  assumes "rd_bytes r = []"
  shows "fst (receive readexactly loads r) = Inl IncompleteReadError"
proof -
  obtain res r' where rd: "readexactly PACKET_HEADER_size r = (res, r')"
    by (cases "readexactly PACKET_HEADER_size r")
  then have "readexactly_loop 4 (rd_buf r) (rd_chunks r) = (res, r')"
    by (simp add: readexactly_def PACKET_HEADER_size_def)
  from readexactly_loop_spec [OF this] assms have "res = Inl IncompleteReadError"
    by (simp only: rd_bytes_def list.size)
  with rd show ?thesis by (simp add: receive_def)
qed

section \<open>Calls over the wire\<close>

text \<open>
  The packets a call may send. The environment has to provide: pickle restores what it has packed, the
  connection delivers the bytes in order, and the socket takes a whole response at once.
\<close>

definition call_packets :: "('f \<Rightarrow> 'v result) \<Rightarrow> 'f \<Rightarrow> ('f, 'v) ipc list" where
  "call_packets run f =
     IRequest f # (case run f of Inr v \<Rightarrow> [IResult v, IException struct_error] | Inl e \<Rightarrow> [IException e, ICancelled])"

definition reliable ::
  "(('f, 'v) ipc \<Rightarrow> bytes) \<Rightarrow> (bytes \<Rightarrow> ('f, 'v) ipc result) \<Rightarrow> nat \<Rightarrow> (bytes \<Rightarrow> reader) \<Rightarrow> (bytes \<Rightarrow> reader) \<Rightarrow>
   ('f, 'v) ipc list \<Rightarrow> bool"
  where
  "reliable dumps loads accepted to_worker to_pool ps \<longleftrightarrow>
     (\<forall>p \<in> set ps. loads (dumps p) = Inr p \<and>
        (fits dumps p \<longrightarrow> length (dumps p) + PACKET_HEADER_size \<le> accepted)) \<and>
     (\<forall>bs. rd_bytes (to_worker bs) = bs) \<and> (\<forall>bs. rd_bytes (to_pool bs) = bs)"

lemma execute_packets:
  assumes "worker_execute REQUEST
      (bind_result (run f) (\<lambda>v. if fits dumps (IResult v) then Inr v else Inl struct_error)) = Inr resp"
  shows "response_packet resp \<in> set (call_packets run f)"
  using assms
  by (auto simp: call_packets_def worker_execute_def split: sum.splits if_splits)

lemma sock_send_whole:
  assumes "reliable dumps loads accepted tw tp ps" "p \<in> set ps"
  shows "sock_send accepted dumps p [] =
    (if fits dumps p then Inr (be_bytes 4 (length (dumps p)) @ dumps p) else Inl struct_error)"
  using assms by (auto simp: sock_send_def pack_fits reliable_def PACKET_HEADER_size_def)

lemma handler_turn_cases:
  fixes dumps :: "('f, 'v) ipc \<Rightarrow> bytes"
  assumes rel: "reliable dumps loads accepted tw tp (call_packets run f)" and f: "tk_func (wp_tasks s ! t) = f"
  shows "handler_turn dumps loads run accepted tw tp w t s =
    (if \<not> fits dumps (IRequest f) then handler_fails w t struct_error s
     else case worker_execute REQUEST
         (bind_result (run f) (\<lambda>v. if fits dumps (IResult v) then Inr v else Inl struct_error)) of
       Inl _ \<Rightarrow> handler_fails w t IncompleteReadError s
     | Inr resp \<Rightarrow>
         if fits dumps (response_packet resp) then handler_response w t (read_response (response_packet resp :: ('f, 'v) ipc)) s
         else handler_fails w t IncompleteReadError s)"
proof (cases "fits dumps (IRequest f)")
  case False
  then show ?thesis by (simp add: handler_turn_def f pack_fits)
next
  case True
  let ?req = "be_bytes 4 (length (dumps (IRequest f))) @ dumps (IRequest f)"
  let ?ex = "worker_execute REQUEST (bind_result (run f) (\<lambda>v. if fits dumps (IResult v) then Inr v else Inl struct_error))"
  have codec: "p \<in> set (call_packets run f) \<Longrightarrow> loads (dumps p) = Inr p"
    and cut: "rd_bytes (tw bs) = bs" "rd_bytes (tp bs) = bs" for p bs
    using rel by (simp_all add: reliable_def)
  have req: "IRequest f \<in> set (call_packets run f)" by (simp add: call_packets_def)
  have "fst (receive sock_read loads (tw ?req)) = Inr (IRequest f)"
    by (rule receive_packet_first(1)) (simp_all add: True codec req cut)
  moreover have "(\<lambda>v. bind_result (pack dumps (IResult v)) (\<lambda>_. Inr v)) =
      (\<lambda>v. if fits dumps (IResult v) then Inr v else Inl struct_error)"
    by (auto simp: pack_fits)
  ultimately have turn: "worker_turn dumps loads run accepted (tw ?req) =
      bind_result ?ex (\<lambda>resp. sock_send accepted dumps (response_packet resp) [])"
    by (simp add: worker_turn_def)
  have lost: "fst (receive readexactly loads (tp [])) = Inl IncompleteReadError"
    by (rule receive_nothing) (simp add: cut)
  have got: "fst (receive readexactly loads (tp (be_bytes 4 (length (dumps p)) @ dumps p))) = Inr p"
    if "fits dumps p" "p \<in> set (call_packets run f)" for p
    by (rule receive_packet_first(2)) (simp_all add: that codec cut)
  show ?thesis
  proof (cases ?ex)
    case (Inl e)
    then show ?thesis using True by (simp add: handler_turn_def f pack_fits turn lost)
  next
    case (Inr resp)
    note mem = execute_packets [where run = run and f = f and dumps = dumps, OF this]
    show ?thesis
      using True Inr by (simp add: handler_turn_def f pack_fits turn lost got mem sock_send_whole [OF rel mem])
  qed
qed

text \<open>What a handler that fails or gets a response does to the tasks.\<close>

lemma result_after:
  assumes "t < length (wp_tasks s)" "tk_result (wp_tasks s ! t) = Pending"
  shows "tk_result (wp_tasks (handler_fails w t IncompleteReadError s) ! t) = Resolved (Inl ProcessError)"
    and "tk_result (wp_tasks (handler_fails w t struct_error s) ! t) = Resolved (Inl struct_error)"
    and "tk_result (wp_tasks (handler_response w t (Resp_RESULT v) s) ! t) = Resolved (Inr v)"
    and "tk_result (wp_tasks (handler_response w t (Resp_EXCEPTION e) s) ! t) = Resolved (Inl e)"
    and "tk_result (wp_tasks (handler_response w t Resp_CANCELLED s) ! t) = Resolved (Inl CancelledError)"
  using assms
  by (simp_all add: handler_fails_def handler_response_def handler_left_def set_handler_def
      set_result_future_def resolve_def)

lemma other_tasks:
  "u \<noteq> t \<Longrightarrow> wp_tasks (handler_fails w t e s) ! u = wp_tasks s ! u"
  "u \<noteq> t \<Longrightarrow> wp_tasks (handler_response w t resp s) ! u = wp_tasks s ! u"
  by (auto simp: handler_fails_def handler_response_def handler_left_def set_handler_def
      set_result_future_def split: response.splits)


text \<open>An example: requests and results of small numbers, delivered to the worker byte by byte.\<close>

fun square_dumps :: "(nat, nat) ipc \<Rightarrow> bytes" where
  "square_dumps (IRequest n) = [0, word_of_nat n]"
| "square_dumps (IResult n) = [1, word_of_nat n]"
| "square_dumps (IException e) = [2]"
| "square_dumps ICancelled = [3]"

definition square_loads :: "bytes \<Rightarrow> (nat, nat) ipc result" where
  "square_loads bs =
     (if length bs = 2 then Inr (if hd bs = 0 then IRequest (unat (bs ! 1)) else IResult (unat (bs ! 1)))
      else if bs = [2] then Inr (IException struct_error) else Inr ICancelled)"

definition square :: "nat \<Rightarrow> nat result" where
  "square n = Inr (n * n)"

definition by_bytes :: "bytes \<Rightarrow> reader" where
  "by_bytes bs = \<lparr>rd_buf = [], rd_chunks = map (\<lambda>b. [b]) bs\<rparr>"

definition at_once :: "bytes \<Rightarrow> reader" where
  "at_once bs = \<lparr>rd_buf = [], rd_chunks = [bs]\<rparr>"


end
