(* ===== verification/WorkerSignals.thy ===== *)
theory WorkerSignals
  imports WorkerPool
begin

text \<open>
  Cancelled calls of a worker process. A caller that is cancelled makes the pool send a signal to the
  worker (\<^verbatim>\<open>create_task\<close> of \<^verbatim>\<open>aiomisc/worker_pool.py\<close>); its handler raises \<^verbatim>\<open>CancelledError\<close> wherever the
  worker is (\<^verbatim>\<open>on_cancel_signal\<close> of \<^verbatim>\<open>aiomisc_worker/worker.py\<close>). The model is one handler of the pool and
  its worker, with the packets between them; \<^verbatim>\<open>execute\<close> is cut where a signal makes a difference.
\<close>

section \<open>The worker\<close>

text \<open>
  The worker waits for a request, runs a function, has written the result but not yet left the \<^verbatim>\<open>try\<close>,
  is about to send the response of an \<^verbatim>\<open>except\<close> clause, or has ended.
\<close>

datatype ('f, 'v) wphase = WRecv | WRun 'f | WSent | WFail "'v response" | WDead

record ('f, 'v) session =
  ss_funcs :: "'f list"
  ss_results :: "'v fut list"
  ss_queue :: "nat list"
  ss_cancelled :: "nat list"
  ss_handler :: wp_handler
  ss_worker :: "('f, 'v) wphase"
  ss_requests :: "'f list"
  ss_responses :: "'v response list"
  ss_killers :: nat
  ss_signal :: bool

definition session_start :: "'f list \<Rightarrow> ('f, 'v) session" where
  "session_start fs =
     \<lparr>ss_funcs = fs, ss_results = replicate (length fs) Pending, ss_queue = [0..<length fs],
      ss_cancelled = [], ss_handler = Idle, ss_worker = WRecv, ss_requests = [], ss_responses = [],
      ss_killers = 0, ss_signal = False\<rparr>"

text \<open>
  \<^verbatim>\<open>execute\<close>: the request; the function returns and its result is written; it raises; the \<^verbatim>\<open>try\<close> is left; the
  response of an \<^verbatim>\<open>except\<close> clause is written.
\<close>

definition worker_receives :: "('f, 'v) session \<Rightarrow> ('f, 'v) session" where
  "worker_receives s =
     s\<lparr>ss_worker := WRun (hd (ss_requests s)), ss_requests := tl (ss_requests s)\<rparr>"

definition worker_returns :: "'v \<Rightarrow> ('f, 'v) session \<Rightarrow> ('f, 'v) session" where
  "worker_returns v s =
     s\<lparr>ss_worker := WSent, ss_responses := ss_responses s @ [Resp_RESULT v]\<rparr>"

definition worker_raises :: "pyexc \<Rightarrow> ('f, 'v) session \<Rightarrow> ('f, 'v) session" where
  "worker_raises e s =
     s\<lparr>ss_worker := (case worker_execute REQUEST (Inl e) of Inl _ \<Rightarrow> WDead | Inr resp \<Rightarrow> WFail resp)\<rparr>"

definition worker_leaves_try :: "('f, 'v) session \<Rightarrow> ('f, 'v) session" where
  "worker_leaves_try s = s\<lparr>ss_worker := WRecv\<rparr>"

definition worker_answers :: "'v response \<Rightarrow> ('f, 'v) session \<Rightarrow> ('f, 'v) session" where
  "worker_answers resp s = s\<lparr>ss_worker := WRecv, ss_responses := ss_responses s @ [resp]\<rparr>"

text \<open>
  \<^verbatim>\<open>on_cancel_signal\<close>: within the \<^verbatim>\<open>try\<close> the exception leads to the clause that answers \<^verbatim>\<open>CANCELLED\<close>; elsewhere
  nobody catches it and the process ends.
\<close>

definition on_cancel_signal :: "('f, 'v) session \<Rightarrow> ('f, 'v) session" where
  "on_cancel_signal s =
     s\<lparr>ss_signal := False,
       ss_worker := (case ss_worker s of
           WRun _ \<Rightarrow> WFail Resp_CANCELLED
         | WSent \<Rightarrow> WFail Resp_CANCELLED
         | _ \<Rightarrow> WDead)\<rparr>"

section \<open>The pool\<close>

definition set_session_result :: "nat \<Rightarrow> 'v result \<Rightarrow> ('f, 'v) session \<Rightarrow> ('f, 'v) session" where
  "set_session_result t r s =
     s\<lparr>ss_results := (ss_results s)[t := resolve r (ss_results s ! t)]\<rparr>"

text \<open>The handler takes a task that is not done and sends its request, or skips it.\<close>

definition session_takes :: "('f, 'v) session \<Rightarrow> ('f, 'v) session" where
  "session_takes s =
     (let t = hd (ss_queue s); s = s\<lparr>ss_queue := tl (ss_queue s)\<rparr>
      in if ss_results s ! t \<noteq> Pending then s
         else s\<lparr>ss_handler := Busy t, ss_requests := ss_requests s @ [ss_funcs s ! t]\<rparr>)"

definition session_response :: "nat \<Rightarrow> ('f, 'v) session \<Rightarrow> ('f, 'v) session" where
  "session_response t s =
     (let s1 = s\<lparr>ss_responses := tl (ss_responses s), ss_handler := Idle\<rparr>
      in case hd (ss_responses s) of
           Resp_RESULT v \<Rightarrow> set_session_result t (Inr v) s1
         | Resp_EXCEPTION e \<Rightarrow> set_session_result t (Inl e) s1
         | Resp_CANCELLED \<Rightarrow>
             (set_session_result t (Inl CancelledError) s1)
               \<lparr>ss_killers := ss_killers s + (if ss_results s ! t = Pending then 1 else 0)\<rparr>
         | Resp_other \<Rightarrow> s1)"

definition session_lost :: "nat \<Rightarrow> ('f, 'v) session \<Rightarrow> ('f, 'v) session" where
  "session_lost t s = (set_session_result t (Inl ProcessError) s)\<lparr>ss_handler := Left\<rparr>"

text \<open>
  The caller of a task is cancelled. One whose task waits in the queue gives it up. One whose task is with the
  worker goes on in \<^verbatim>\<open>except asyncio.CancelledError\<close> when the event loop resumes it, and sends the signal
  then; so does a caller whose future got a \<^verbatim>\<open>CancelledError\<close> from the worker.
\<close>

definition session_cancel :: "nat \<Rightarrow> ('f, 'v) session \<Rightarrow> ('f, 'v) session" where
  "session_cancel t s =
     (set_session_result t (Inl CancelledError) s)
       \<lparr>ss_cancelled := ss_cancelled s @ [t],
        ss_killers := ss_killers s + (if ss_handler s = Busy t then 1 else 0)\<rparr>"

definition session_kill :: "('f, 'v) session \<Rightarrow> ('f, 'v) session" where
  "session_kill s = s\<lparr>ss_killers := ss_killers s - 1, ss_signal := True\<rparr>"

text \<open>
  The steps. Python runs the handler of a signal before it goes on, so a worker with a pending signal does
  not take a request. The parameter says whether the handler may run between the writing of the result and
  the end of the \<^verbatim>\<open>try\<close>, which nothing prevents.
\<close>

inductive sig_step :: "bool \<Rightarrow> ('f \<Rightarrow> 'v result) \<Rightarrow> ('f, 'v) session \<Rightarrow> ('f, 'v) session \<Rightarrow> bool" for window run where
  sg_take: "ss_handler s = Idle \<Longrightarrow> ss_queue s \<noteq> [] \<Longrightarrow> sig_step window run s (session_takes s)"
| sg_receive: "ss_worker s = WRecv \<Longrightarrow> ss_requests s \<noteq> [] \<Longrightarrow> \<not> ss_signal s \<Longrightarrow> sig_step window run s (worker_receives s)"
| sg_return: "ss_worker s = WRun f \<Longrightarrow> run f = Inr v \<Longrightarrow> sig_step window run s (worker_returns v s)"
| sg_raise: "ss_worker s = WRun f \<Longrightarrow> run f = Inl e \<Longrightarrow> sig_step window run s (worker_raises e s)"
| sg_leave: "ss_worker s = WSent \<Longrightarrow> sig_step window run s (worker_leaves_try s)"
| sg_answer: "ss_worker s = WFail resp \<Longrightarrow> sig_step window run s (worker_answers resp s)"
| sg_kill: "0 < ss_killers s \<Longrightarrow> sig_step window run s (session_kill s)"
| sg_signal: "ss_signal s \<Longrightarrow> ss_worker s \<noteq> WDead \<Longrightarrow> window \<or> ss_worker s \<noteq> WSent \<Longrightarrow>
     sig_step window run s (on_cancel_signal s)"
| sg_response: "ss_handler s = Busy t \<Longrightarrow> ss_responses s \<noteq> [] \<Longrightarrow> sig_step window run s (session_response t s)"
| sg_lost: "ss_handler s = Busy t \<Longrightarrow> ss_responses s = [] \<Longrightarrow> ss_worker s = WDead \<Longrightarrow>
     sig_step window run s (session_lost t s)"
| sg_cancel: "t < length (ss_funcs s) \<Longrightarrow> ss_results s ! t = Pending \<Longrightarrow> sig_step window run s (session_cancel t s)"

section \<open>When the window is closed\<close>

text \<open>A response that is right for a function, and what a caller may get.\<close>

fun response_ok :: "('f \<Rightarrow> 'v result) \<Rightarrow> 'f \<Rightarrow> 'v response \<Rightarrow> bool" where
  "response_ok run f (Resp_RESULT v) \<longleftrightarrow> run f = Inr v"
| "response_ok run f (Resp_EXCEPTION e) \<longleftrightarrow> run f = Inl e"
| "response_ok run f Resp_CANCELLED \<longleftrightarrow> True"
| "response_ok run f Resp_other \<longleftrightarrow> False"

definition outcome_ok :: "('f \<Rightarrow> 'v result) \<Rightarrow> 'f \<Rightarrow> 'v fut \<Rightarrow> bool" where
  "outcome_ok run f r \<longleftrightarrow>
     r \<in> {Pending, Resolved (run f), Resolved (Inl CancelledError), Resolved (Inl ProcessError)}"

text \<open>Between tasks: the worker waits, has just answered, or is gone.\<close>

definition at_rest :: "('f, 'v) wphase \<Rightarrow> bool" where
  "at_rest w \<longleftrightarrow> w \<in> {WRecv, WSent, WDead}"

text \<open>The task with the worker is at exactly one place, and its response is right.\<close>

definition busy_ok :: "('f \<Rightarrow> 'v result) \<Rightarrow> 'f \<Rightarrow> ('f, 'v) session \<Rightarrow> bool" where
  "busy_ok run f s \<longleftrightarrow>
     ss_requests s = [f] \<and> ss_responses s = [] \<and> at_rest (ss_worker s) \<or>
     ss_requests s = [] \<and> ss_responses s = [] \<and>
       (ss_worker s = WRun f \<or> ss_worker s = WDead \<or> (\<exists>r. ss_worker s = WFail r \<and> response_ok run f r)) \<or>
     ss_requests s = [] \<and> at_rest (ss_worker s) \<and> (\<exists>r. ss_responses s = [r] \<and> response_ok run f r)"

definition session_inv :: "('f \<Rightarrow> 'v result) \<Rightarrow> ('f, 'v) session \<Rightarrow> bool" where
  "session_inv run s \<longleftrightarrow>
     length (ss_results s) = length (ss_funcs s) \<and> (\<forall>t \<in> set (ss_queue s). t < length (ss_funcs s)) \<and>
     (\<forall>t < length (ss_funcs s). outcome_ok run (ss_funcs s ! t) (ss_results s ! t)) \<and>
     (case ss_handler s of
        Idle \<Rightarrow> ss_requests s = [] \<and> ss_responses s = [] \<and> at_rest (ss_worker s)
      | Busy t \<Rightarrow> t < length (ss_funcs s) \<and> busy_ok run (ss_funcs s ! t) s
      | Left \<Rightarrow> ss_worker s = WDead)"

lemma outcome_ok_resolve:
  assumes "outcome_ok run f x" "r \<in> {run f, Inl CancelledError, Inl ProcessError}"
  shows "outcome_ok run f (resolve r x)"
  using assms by (cases x) (auto simp: outcome_ok_def resolve_def)

lemma results_ok_update:
  assumes "\<forall>t < length fs. outcome_ok run (fs ! t) (rs ! t)" "length rs = length fs"
    and "r \<in> {run (fs ! i), Inl CancelledError, Inl ProcessError}"
  shows "\<forall>t < length fs. outcome_ok run (fs ! t) (rs[i := resolve r (rs ! i)] ! t)"
proof (intro allI impI)
  fix t
  assume t: "t < length fs"
  show "outcome_ok run (fs ! t) (rs[i := resolve r (rs ! i)] ! t)"
  proof (cases "t = i")
    case True
    then show ?thesis using assms t outcome_ok_resolve [of run "fs ! i" "rs ! i" r] by simp
  next
    case False
    then show ?thesis using assms(1) t by simp
  qed
qed

lemma session_inv_takes:
  assumes "session_inv run s" "ss_handler s = Idle" "ss_queue s \<noteq> []"
  shows "session_inv run (session_takes s)"
  using assms by (cases "ss_queue s") (auto simp: session_inv_def session_takes_def busy_ok_def Let_def)

lemma session_inv_receives:
  assumes "session_inv run s" "ss_worker s = WRecv" "ss_requests s \<noteq> []"
  shows "session_inv run (worker_receives s)"
  using assms by (auto simp: session_inv_def worker_receives_def busy_ok_def at_rest_def split: wp_handler.splits)

lemma running_busy:
  assumes "session_inv run s" "ss_worker s = WRun f"
  shows "\<exists>t. ss_handler s = Busy t \<and> t < length (ss_funcs s) \<and> ss_funcs s ! t = f \<and>
    ss_requests s = [] \<and> ss_responses s = []"
  using assms by (auto simp: session_inv_def busy_ok_def at_rest_def split: wp_handler.splits)

lemma session_inv_returns:
  assumes "session_inv run s" "ss_worker s = WRun f" "run f = Inr v"
  shows "session_inv run (worker_returns v s)"
  using running_busy [OF assms(1,2)] assms
  by (auto simp: session_inv_def worker_returns_def busy_ok_def at_rest_def)

lemma raised_response:
  "worker_execute REQUEST (Inl e) = Inr resp \<Longrightarrow> run f = Inl e \<Longrightarrow> response_ok run f resp"
  by (auto simp: worker_execute_def split: if_splits)

lemma session_inv_raises:
  assumes "session_inv run s" "ss_worker s = WRun f" "run f = Inl e"
  shows "session_inv run (worker_raises e s)"
  using running_busy [OF assms(1,2)] assms raised_response [of e _ run f]
  by (auto simp: session_inv_def worker_raises_def busy_ok_def at_rest_def split: sum.splits)

lemma session_inv_leaves:
  assumes "session_inv run s" "ss_worker s = WSent"
  shows "session_inv run (worker_leaves_try s)"
  using assms by (auto simp: session_inv_def worker_leaves_try_def busy_ok_def at_rest_def split: wp_handler.splits)

lemma session_inv_answers:
  assumes "session_inv run s" "ss_worker s = WFail resp"
  shows "session_inv run (worker_answers resp s)"
  using assms by (auto simp: session_inv_def worker_answers_def busy_ok_def at_rest_def split: wp_handler.splits)

lemma session_inv_signal:
  assumes "session_inv run s" "ss_worker s \<noteq> WSent"
  shows "session_inv run (on_cancel_signal s)"
  using assms
  by (cases "ss_worker s")
    (auto simp: session_inv_def on_cancel_signal_def busy_ok_def at_rest_def split: wp_handler.splits)

lemma session_inv_response:
  assumes "session_inv run s" "ss_handler s = Busy t" "ss_responses s \<noteq> []"
  shows "session_inv run (session_response t s)"
proof -
  have t: "t < length (ss_funcs s)" "length (ss_results s) = length (ss_funcs s)"
      "\<forall>t < length (ss_funcs s). outcome_ok run (ss_funcs s ! t) (ss_results s ! t)"
    and b: "busy_ok run (ss_funcs s ! t) s" using assms by (simp_all add: session_inv_def)
  then obtain r where r: "ss_responses s = [r]" "response_ok run (ss_funcs s ! t) r"
      "ss_requests s = []" "at_rest (ss_worker s)"
    using assms(3) by (auto simp: busy_ok_def)
  note upd = results_ok_update [OF t(3,2), where i = t]
  show ?thesis
    using assms(1) r t
    by (cases r) (auto simp: session_inv_def session_response_def set_session_result_def upd)
qed

lemma session_inv_lost:
  assumes "session_inv run s" "ss_handler s = Busy t" "ss_worker s = WDead"
  shows "session_inv run (session_lost t s)"
proof -
  have "length (ss_results s) = length (ss_funcs s)"
      "\<forall>t < length (ss_funcs s). outcome_ok run (ss_funcs s ! t) (ss_results s ! t)"
    using assms by (simp_all add: session_inv_def)
  from results_ok_update [OF this(2,1), of "Inl ProcessError" t] assms show ?thesis
    by (simp add: session_inv_def session_lost_def set_session_result_def)
qed

lemma session_inv_cancel:
  assumes "session_inv run s"
  shows "session_inv run (session_cancel t s)"
proof -
  have "length (ss_results s) = length (ss_funcs s)"
      "\<forall>t < length (ss_funcs s). outcome_ok run (ss_funcs s ! t) (ss_results s ! t)"
    using assms by (simp_all add: session_inv_def)
  from results_ok_update [OF this(2,1), of "Inl CancelledError" t] assms show ?thesis
    by (auto simp: session_inv_def session_cancel_def set_session_result_def busy_ok_def split: wp_handler.splits)
qed

lemma sig_step_inv: "sig_step False run s s' \<Longrightarrow> session_inv run s \<Longrightarrow> session_inv run s'"
proof (induction rule: sig_step.induct)
  case (sg_kill s)
  then show ?case by (auto simp: session_inv_def session_kill_def busy_ok_def split: wp_handler.splits)
qed (simp_all add: session_inv_takes session_inv_receives session_inv_returns session_inv_raises
    session_inv_leaves session_inv_answers session_inv_signal session_inv_response session_inv_lost
    session_inv_cancel)

definition fresh_session :: "('f, 'v) session \<Rightarrow> bool" where
  "fresh_session s \<longleftrightarrow> (\<exists>fs. s = session_start fs)"

interpretation sessions: invariant_system fresh_session "sig_step False run" "session_inv run" for run
proof unfold_locales
  show "fresh_session s \<Longrightarrow> session_inv run s" for s
    by (auto simp: fresh_session_def session_start_def session_inv_def outcome_ok_def at_rest_def)
  show "session_inv run s \<Longrightarrow> sig_step False run s t \<Longrightarrow> session_inv run t" for s t
    by (rule sig_step_inv)
qed

text \<open>
  C37. As long as no signal is handled between the writing of a result and the end of the \<^verbatim>\<open>try\<close>, a caller
  gets the outcome of its own function, a cancellation or \<^verbatim>\<open>ProcessError\<close>, however cancellations,
  signals and packets interleave, and at most one response is under way.
\<close>

theorem cancelled_calls_results:
  assumes "reachable fresh_session (sig_step False run) s" "t < length (ss_funcs s)"
  shows "(\<forall>v. ss_results s ! t = Resolved (Inr v) \<longrightarrow> run (ss_funcs s ! t) = Inr v) \<and>
    (\<forall>e. ss_results s ! t = Resolved (Inl e) \<longrightarrow>
       run (ss_funcs s ! t) = Inl e \<or> e \<in> {CancelledError, ProcessError}) \<and>
    (ss_handler s \<noteq> Left \<longrightarrow> length (ss_responses s) \<le> 1)"
proof -
  have inv: "session_inv run s" by (rule sessions.reachable_inv [OF assms(1)])
  then have "outcome_ok run (ss_funcs s ! t) (ss_results s ! t)" using assms(2) by (simp add: session_inv_def)
  moreover have "length (ss_responses s) \<le> 1" if "ss_handler s \<noteq> Left"
    using inv that by (auto simp: session_inv_def busy_ok_def split: wp_handler.splits)
  ultimately show ?thesis by (auto simp: outcome_ok_def)
qed

text \<open>Three calls that return their arguments; the first one is cancelled when its result is written.\<close>

abbreviation ident :: "nat \<Rightarrow> nat result" where
  "ident \<equiv> Inr"

definition written :: "(nat, nat) session" where
  "written = session_cancel 0 (worker_returns 10 (worker_receives (session_takes (session_start [10, 20, 30]))))"

lemma written_eq:
  "written =
     \<lparr>ss_funcs = [10, 20, 30], ss_results = [Resolved (Inl CancelledError), Pending, Pending], ss_queue = [1, 2],
      ss_cancelled = [0], ss_handler = Busy 0, ss_worker = WSent, ss_requests = [],
      ss_responses = [Resp_RESULT 10], ss_killers = 1, ss_signal = False\<rparr>"
  by (simp add: written_def session_cancel_def worker_returns_def worker_receives_def session_takes_def
      session_start_def set_session_result_def upt_rec Let_def eval_nat_numeral)

lemmas session_ops = worker_receives_def worker_returns_def worker_leaves_try_def worker_answers_def
  on_cancel_signal_def set_session_result_def session_takes_def session_response_def session_lost_def
  session_cancel_def session_kill_def Let_def

lemma written_reachable: "reachable fresh_session (sig_step w ident) written"
proof -
  let ?r = "reachable fresh_session (sig_step w ident)" and ?s0 = "session_start [10, 20, 30] :: (nat, nat) session"
  have q: "ss_queue ?s0 = 0 # [1, 2]" by (simp add: session_start_def upt_rec eval_nat_numeral)
  have "?r ?s0" by (rule reach_init) (auto simp: fresh_session_def)
  then have "?r (session_takes ?s0)"
    by (rule reach_step) (rule sg_take, simp_all add: q, simp add: session_start_def)
  then have "?r (worker_receives (session_takes ?s0))"
    by (rule reach_step) (rule sg_receive, simp_all add: session_takes_def q Let_def, simp_all add: session_start_def)
  then have "?r (worker_returns 10 (worker_receives (session_takes ?s0)))"
    by (rule reach_step)
      (rule sg_return [of _ 10], simp_all add: worker_receives_def session_takes_def q Let_def, simp add: session_start_def)
  then show ?thesis
    unfolding written_def
    by (rule reach_step) (rule sg_cancel, simp_all add: session_ops q, simp_all add: session_start_def)
qed

lemma window_swaps_results:
  "\<exists>s. reachable fresh_session (sig_step True ident) s \<and> ss_funcs s = [10, 20, 30] \<and> ss_cancelled s = [0] \<and>
     ss_results s ! 1 = Resolved (Inl CancelledError) \<and> ss_results s ! 2 = Resolved (Inr 20)"
proof -
  let ?t = "reachable fresh_session (sig_step True ident)"
  let ?s1 = "worker_answers Resp_CANCELLED (on_cancel_signal (session_kill written))"
  have "?t (session_kill written)"
    by (rule reach_step [OF written_reachable]) (rule sg_kill, simp add: written_eq)
  then have "?t (on_cancel_signal (session_kill written))"
    by (rule reach_step) (rule sg_signal, simp_all add: session_ops written_eq)
  then have r1: "?t ?s1"
    by (rule reach_step) (rule sg_answer, simp add: session_ops written_eq)
  let ?s2 = "session_response 1 (session_takes (session_response 0 ?s1))"
  have "?t (session_response 0 ?s1)"
    by (rule reach_step [OF r1]) (rule sg_response, simp_all add: session_ops written_eq)
  then have "?t (session_takes (session_response 0 ?s1))"
    by (rule reach_step) (rule sg_take, simp_all add: session_ops written_eq)
  then have r2: "?t ?s2"
    by (rule reach_step) (rule sg_response, simp_all add: session_ops written_eq)
  have "?t (worker_receives ?s2)"
    by (rule reach_step [OF r2]) (rule sg_receive, simp_all add: session_ops written_eq)
  then have r3: "?t (worker_returns 20 (worker_receives ?s2))"
    by (rule reach_step) (rule sg_return [of _ 20], simp_all add: session_ops written_eq)
  let ?s3 = "worker_returns 20 (worker_receives ?s2)"
  have "?t (session_takes ?s3)"
    by (rule reach_step [OF r3]) (rule sg_take, simp_all add: session_ops written_eq)
  then have r4: "?t (session_response 2 (session_takes ?s3))"
    by (rule reach_step) (rule sg_response, simp_all add: session_ops written_eq)
  then show ?thesis
    by (intro exI conjI, assumption) (simp_all add: session_ops written_eq)
qed

lemma signal_ends_worker:
  "\<exists>s. reachable fresh_session (sig_step False ident) s \<and> ss_funcs s = [10, 20, 30] \<and> ss_cancelled s = [0] \<and>
     ss_results s ! 1 = Resolved (Inl ProcessError)"
proof -
  let ?f = "reachable fresh_session (sig_step False ident)"
  let ?u1 = "on_cancel_signal (session_kill (worker_leaves_try written))"
  have "?f (worker_leaves_try written)"
    by (rule reach_step [OF written_reachable]) (rule sg_leave, simp add: written_eq)
  then have "?f (session_kill (worker_leaves_try written))"
    by (rule reach_step) (rule sg_kill, simp add: session_ops written_eq)
  then have u1: "?f ?u1"
    by (rule reach_step) (rule sg_signal, simp_all add: session_ops written_eq)
  let ?u2 = "session_takes (session_response 0 ?u1)"
  have "?f (session_response 0 ?u1)"
    by (rule reach_step [OF u1]) (rule sg_response, simp_all add: session_ops written_eq)
  then have u2: "?f ?u2"
    by (rule reach_step) (rule sg_take, simp_all add: session_ops written_eq)
  then have "?f (session_lost 1 ?u2)"
    by (rule reach_step) (rule sg_lost, simp_all add: session_ops written_eq)
  then show ?thesis
    by (intro exI conjI, assumption) (simp_all add: session_ops written_eq)
qed

text \<open>
  C5. The window swaps results: with the signal of the cancelled call handled in it, the worker answers twice, the
  second call, which nobody has cancelled, gets the cancellation and the third call gets the value of the
  second one. And even without it, the signal may end the worker, and the second call gets
  \<^verbatim>\<open>ProcessError\<close>.
\<close>

theorem cancelled_call_harms_others:
  "(\<exists>s. reachable fresh_session (sig_step True ident) s \<and> ss_funcs s = [10, 20, 30] \<and> ss_cancelled s = [0] \<and>
     ss_results s ! 1 = Resolved (Inl CancelledError) \<and> ss_results s ! 2 = Resolved (Inr 20)) \<and>
   (\<exists>s. reachable fresh_session (sig_step False ident) s \<and> ss_funcs s = [10, 20, 30] \<and> ss_cancelled s = [0] \<and>
     ss_results s ! 1 = Resolved (Inl ProcessError))"
  using window_swaps_results signal_ends_worker by blast

text \<open>The second call, which nobody has cancelled, gets its own value.\<close>

theorem cancelled_calls_results_witness:
  "\<exists>s v. reachable fresh_session (sig_step False ident) s \<and> ss_cancelled s = [0] \<and>
     ss_results s ! 1 = Resolved (Inr v) \<and> ident (ss_funcs s ! 1) = Inr v \<and> length (ss_responses s) \<le> 1"
proof -
  let ?f = "reachable fresh_session (sig_step False ident)"
  let ?s1 = "session_takes (session_response 0 (worker_leaves_try written))"
  let ?s2 = "worker_leaves_try (worker_returns 20 (worker_receives ?s1))"
  let ?s3 = "session_response 1 ?s2"
  have "?f (worker_leaves_try written)"
    by (rule reach_step [OF written_reachable]) (rule sg_leave, simp add: written_eq)
  then have "?f (session_response 0 (worker_leaves_try written))"
    by (rule reach_step) (rule sg_response, simp_all add: session_ops written_eq)
  then have "?f ?s1"
    by (rule reach_step) (rule sg_take, simp_all add: session_ops written_eq)
  then have "?f (worker_receives ?s1)"
    by (rule reach_step) (rule sg_receive, simp_all add: session_ops written_eq)
  then have "?f (worker_returns 20 (worker_receives ?s1))"
    by (rule reach_step) (rule sg_return [of _ 20], simp_all add: session_ops written_eq)
  then have "?f ?s2"
    by (rule reach_step) (rule sg_leave, simp_all add: session_ops written_eq)
  then have r: "?f ?s3"
    by (rule reach_step) (rule sg_response, simp_all add: session_ops written_eq)
  have s: "ss_cancelled ?s3 = [0]" "ss_results ?s3 ! 1 = Resolved (Inr 20)" "1 < length (ss_funcs ?s3)"
      "ss_handler ?s3 \<noteq> Left"
    by (simp_all add: session_ops written_eq)
  show ?thesis
    using r s cancelled_calls_results [OF r s(3)] by blast
qed

section \<open>The end of the supervisors\<close>

text \<open>
  \<^verbatim>\<open>Worker.kill\<close>, \<^verbatim>\<open>Worker.close\<close> and \<^verbatim>\<open>at_exit\<close> of the process supervisor, and \<^verbatim>\<open>at_exit\<close> of the forking one: the
  processes that get a signal, and what is left in the table. \<^verbatim>\<open>os_kill\<close> says what sending a signal does;
  its exceptions are suppressed.
\<close>

definition worker_kill :: "(nat \<Rightarrow> bool) \<Rightarrow> (nat \<Rightarrow> unit result) \<Rightarrow> nat \<Rightarrow> nat list \<times> unit result" where
  "worker_kill is_running os_kill pid =
     (if \<not> is_running pid then ([], Inr ()) else ([pid], os_kill pid))"

definition worker_close :: "(nat \<Rightarrow> bool) \<Rightarrow> (nat \<Rightarrow> unit result) \<Rightarrow> nat \<Rightarrow> nat list \<times> unit result" where
  "worker_close is_running os_kill pid =
     (case worker_kill is_running os_kill pid of
        (sent, Inl e) \<Rightarrow> (sent, if is_Exception e then Inr () else Inl e)
      | (sent, Inr _) \<Rightarrow> (sent, Inr ()))"

fun close_all :: "(nat \<Rightarrow> nat list \<times> unit result) \<Rightarrow> nat list \<Rightarrow> nat list \<times> unit result" where
  "close_all close [] = ([], Inr ())"
| "close_all close (p # ps) =
     (case close p of
        (sent, Inl e) \<Rightarrow> (sent, Inl e)
      | (sent, Inr _) \<Rightarrow> (let (sent', r) = close_all close ps in (sent @ sent', r)))"

definition process_at_exit ::
  "(nat \<Rightarrow> bool) \<Rightarrow> (nat \<Rightarrow> unit result) \<Rightarrow> (nat \<times> 'id) list \<Rightarrow> (nat list \<times> unit result) \<times> (nat \<times> 'id) list" where
  "process_at_exit is_running os_kill processes =
     (close_all (worker_close is_running os_kill) (map fst processes), [])"

definition forking_at_exit ::
  "(nat \<Rightarrow> unit result) \<Rightarrow> (nat \<times> 'id) list \<Rightarrow> (nat list \<times> unit result) \<times> (nat \<times> 'id) list" where
  "forking_at_exit os_kill processes =
     (close_all (worker_close (\<lambda>_. True) os_kill) (map fst processes), [])"

text \<open>
  At exit the process supervisor signals every worker that still runs, and the forking one every child it
  knows, once each, even when a signal cannot be sent.
\<close>

lemma close_all_signals:
  assumes "\<forall>p e. os_kill p = Inl e \<longrightarrow> is_Exception e"
  shows "close_all (worker_close is_running os_kill) ps = (filter is_running ps, Inr ())"
  using assms
  by (induction ps) (auto simp: worker_close_def worker_kill_def split: sum.splits)

lemma at_exit_signals:
  assumes "\<forall>p e. os_kill p = Inl e \<longrightarrow> is_Exception e"
  shows "process_at_exit is_running os_kill processes = ((filter is_running (map fst processes), Inr ()), [])"
    and "forking_at_exit os_kill processes = ((map fst processes, Inr ()), [])"
  using close_all_signals [OF assms] by (simp_all add: process_at_exit_def forking_at_exit_def)

end
