(* ===== verification/ThreadHelpers.thy ===== *)
theory ThreadHelpers
  imports ThreadPool
begin

text \<open>
  The rest of \<^verbatim>\<open>aiomisc/thread_pool.py\<close>: the wait at the end of \<^verbatim>\<open>shutdown\<close>, \<^verbatim>\<open>run_in_executor\<close>, which
  submits at once or when it is awaited, and \<^verbatim>\<open>run_in_new_thread\<close>, which runs a work item in a thread
  of its own.
\<close>

section \<open>Waiting for the threads\<close>

text \<open>
  One iteration of the wait: whether all threads have ended when the condition is tested, and the
  clock after the sleep. The result says whether they have ended or the wait was given up.
\<close>

definition SHUTDOWN_TIMEOUT :: number where
  "SHUTDOWN_TIMEOUT = 10"

fun shutdown_wait :: "number \<Rightarrow> (bool \<times> number) list \<Rightarrow> bool option" where
  "shutdown_wait start_time [] = None"
| "shutdown_wait start_time ((all_set, now) # rest) =
     (if all_set then Some True
      else if now - start_time > SHUTDOWN_TIMEOUT then Some False
      else shutdown_wait start_time rest)"

lemma shutdown_wait_ends:
  assumes "(all_set, now) \<in> set polls" "all_set \<or> now - start_time > SHUTDOWN_TIMEOUT"
  shows "\<exists>b. shutdown_wait start_time polls = Some b"
  using assms by (induction polls) auto

section \<open>run_in_executor\<close>

text \<open>
  With a running loop the function is submitted; a \<^verbatim>\<open>RuntimeError\<close> of the submission is taken for
  the missing loop, as the code does, and gives the lazy coroutine.
\<close>

datatype 'f awaited = Submitted nat | LazyWrapper 'f

definition run_in_executor ::
  "bool \<Rightarrow> 'f \<Rightarrow> ('f, 'v) ThreadPoolExecutor \<Rightarrow> ('f awaited \<times> ('f, 'v) ThreadPoolExecutor) result" where
  "run_in_executor has_loop f p =
     (if \<not> has_loop then Inr (LazyWrapper f, p)
      else case submit (Some f) p of
             Inr p' \<Rightarrow> Inr (Submitted (length (tp_items p)), p')
           | Inl e \<Rightarrow> if isinstance_exc e ''RuntimeError'' then Inr (LazyWrapper f, p) else Inl e)"

definition lazy_wrapper ::
  "'f \<Rightarrow> ('f, 'v) ThreadPoolExecutor \<Rightarrow> (nat \<times> ('f, 'v) ThreadPoolExecutor) result" where
  "lazy_wrapper f p = bind_result (submit (Some f) p) (\<lambda>p'. Inr (length (tp_items p), p'))"

text \<open>What awaiting the result of \<^verbatim>\<open>run_in_executor\<close> waits for, with a running loop.\<close>

definition await_executor ::
  "'f awaited \<Rightarrow> ('f, 'v) ThreadPoolExecutor \<Rightarrow> (nat \<times> ('f, 'v) ThreadPoolExecutor) result" where
  "await_executor a p = (case a of Submitted i \<Rightarrow> Inr (i, p) | LazyWrapper f \<Rightarrow> lazy_wrapper f p)"

lemma start_threads_items:
  "start_threads n p = Inr p' \<Longrightarrow> tp_items p' = tp_items p"
proof (induction n p arbitrary: p' rule: start_threads.induct)
  case (1 p)
  then show ?case by simp
next
  case (2 n p)
  then show ?case by (fastforce simp: start_thread_def bind_result_Inr_iff split: if_splits)
qed

lemma submit_item:
  assumes "submit (Some f) p = Inr p'"
  shows "length (tp_items p') = Suc (length (tp_items p)) \<and>
    tp_items p' ! length (tp_items p) = \<lparr>it_func = f, it_future = Pending\<rparr>"
proof -
  have "tp_items p' = tp_items p @ [\<lparr>it_func = f, it_future = Pending\<rparr>]"
    using assms
    by (auto simp: submit_def bind_result_Inr_iff adjust_thread_count_def Let_def start_threads_items
        split: if_splits)
  then show ?thesis by simp
qed

text \<open>
  Whichever way it went, the future that is awaited is that of a new work item with the function; a pool
  that is shut down makes the await raise, not the call.
\<close>

theorem run_in_executor_submits:
  assumes "run_in_executor has_loop f p = Inr (a, p1)" "await_executor a p1 = Inr (i, p2)"
  shows "i = length (tp_items p) \<and> length (tp_items p2) = Suc i \<and>
    tp_items p2 ! i = \<lparr>it_func = f, it_future = Pending\<rparr>"
  using assms submit_item [of f p p2]
  by (auto simp: run_in_executor_def await_executor_def lazy_wrapper_def bind_result_Inr_iff
      split: if_splits sum.splits awaited.splits)

lemma run_in_executor_shutdown:
  assumes "tp_shutdown p"
  shows "run_in_executor has_loop f p = Inr (LazyWrapper f, p)"
    and "await_executor (LazyWrapper f) p = Inl (RuntimeError ''Pool is shutdown'')"
  using assms
  by (simp_all add: run_in_executor_def await_executor_def lazy_wrapper_def submit_def
      isinstance_exc_def RuntimeError_def mk_exc_def)

section \<open>run_in_new_thread\<close>

datatype new_thread_state = ThreadScheduled | ThreadRuns | ThreadReturned "unit result"

record ('f, 'v) new_thread =
  nt_func :: 'f
  nt_future :: "'v fut"
  nt_no_return :: bool
  nt_statistic :: ThreadPoolStatistic
  nt_state :: new_thread_state
  nt_callback :: "'v result option"

definition run_in_new_thread :: "'f \<Rightarrow> bool \<Rightarrow> ('f, 'v) new_thread" where
  "run_in_new_thread f no_return =
     \<lparr>nt_func = f, nt_future = Pending, nt_no_return = no_return,
      nt_statistic = new_ThreadPoolStatistic\<lparr>ts_threads := 1, ts_submitted := 1\<rparr>,
      nt_state = ThreadScheduled, nt_callback = None\<rparr>"

text \<open>The thread starts and the work item decides whether to run; it has run; the loop sets the result.\<close>

definition new_thread_start :: "bool \<Rightarrow> ('f, 'v) new_thread \<Rightarrow> ('f, 'v) new_thread" where
  "new_thread_start loop_closed n =
     (case workitem_start loop_closed (nt_future n) of
        SkipItem \<Rightarrow> n\<lparr>nt_state := ThreadReturned (Inr ())\<rparr>
      | LoopClosed \<Rightarrow>
          n\<lparr>nt_future := set_workitem_result (Inl CancelledError) (nt_future n),
            nt_state := ThreadReturned (Inl CancelledError)\<rparr>
      | RunItem \<Rightarrow> n\<lparr>nt_state := ThreadRuns\<rparr>)"

definition new_thread_end :: "'v result \<Rightarrow> number \<Rightarrow> bool \<Rightarrow> ('f, 'v) new_thread \<Rightarrow> ('f, 'v) new_thread" where
  "new_thread_end outcome delta loop_closed n =
     (let n1 = n\<lparr>nt_statistic := workitem_statistic outcome delta (nt_statistic n)\<rparr>
      in case workitem_end (nt_no_return n1) loop_closed of
           NoReturn \<Rightarrow> n1\<lparr>nt_state := ThreadReturned (Inr ())\<rparr>
         | LoopGone \<Rightarrow>
             n1\<lparr>nt_future := set_workitem_result (Inl CancelledError) (nt_future n1),
                nt_state := ThreadReturned (Inl CancelledError)\<rparr>
         | Schedule \<Rightarrow> n1\<lparr>nt_callback := Some outcome, nt_state := ThreadReturned (Inr ())\<rparr>)"

definition new_thread_callback :: "('f, 'v) new_thread \<Rightarrow> ('f, 'v) new_thread" where
  "new_thread_callback n =
     (case nt_callback n of
        None \<Rightarrow> n
      | Some r \<Rightarrow> n\<lparr>nt_future := set_workitem_result r (nt_future n), nt_callback := None\<rparr>)"

inductive nt_step :: "('f \<Rightarrow> 'v result) \<Rightarrow> ('f, 'v) new_thread \<Rightarrow> ('f, 'v) new_thread \<Rightarrow> bool"
  for run :: "'f \<Rightarrow> 'v result" where
  nt_start: "nt_state n = ThreadScheduled \<Longrightarrow> nt_step run n (new_thread_start loop_closed n)"
| nt_end: "nt_state n = ThreadRuns \<Longrightarrow>
    nt_step run n (new_thread_end (run (nt_func n)) delta loop_closed n)"
| nt_call: "nt_step run n (new_thread_callback n)"
| nt_cancel: "nt_step run n (n\<lparr>nt_future := resolve (Inl CancelledError) (nt_future n)\<rparr>)"

definition nt_inv :: "('f \<Rightarrow> 'v result) \<Rightarrow> ('f, 'v) new_thread \<Rightarrow> bool" where
  "nt_inv run n \<longleftrightarrow>
     (\<forall>r. nt_future n = Resolved r \<longrightarrow>
        r = Inl CancelledError \<or> r = run (nt_func n) \<and> \<not> nt_no_return n) \<and>
     (\<forall>r. nt_callback n = Some r \<longrightarrow>
        r = run (nt_func n) \<and> \<not> nt_no_return n \<and> nt_state n = ThreadReturned (Inr ())) \<and>
     ts_threads (nt_statistic n) = 1 \<and>
     (ts_done (nt_statistic n) = 0 \<or>
      ts_done (nt_statistic n) = 1 \<and> (\<exists>r. nt_state n = ThreadReturned r))"

lemma set_workitem_result_iff:
  "set_workitem_result r f = Resolved x \<longleftrightarrow> f = Resolved x \<or> f = Pending \<and> x = r"
  by (cases f) (auto simp: set_workitem_result_def)

lemma nt_step_inv:
  assumes "nt_step run n n'" "nt_inv run n"
  shows "nt_inv run n'"
  using assms(1)
proof cases
  case (nt_start loop_closed)
  with assms(2) show ?thesis
    by (auto simp: nt_inv_def new_thread_start_def set_workitem_result_iff split: item_start.splits)
next
  case (nt_end delta loop_closed)
  with assms(2) show ?thesis
    by (auto simp: nt_inv_def new_thread_end_def workitem_end_def workitem_statistic_def Let_def
        set_workitem_result_iff split: if_splits sum.splits)
next
  case nt_call
  with assms(2) show ?thesis
    by (auto simp: nt_inv_def new_thread_callback_def set_workitem_result_iff split: option.splits)
next
  case nt_cancel
  with assms(2) show ?thesis by (auto simp: nt_inv_def resolve_Resolved_iff)
qed

lemma nt_inv_new: "nt_inv run (run_in_new_thread f no_return)"
  by (simp add: nt_inv_def run_in_new_thread_def new_ThreadPoolStatistic_def)

interpretation new_thread: invariant_system
  "\<lambda>n. n = run_in_new_thread f no_return" "nt_step run" "nt_inv run"
  by unfold_locales (simp add: nt_inv_new, rule nt_step_inv)

text \<open>
  The future of \<^verbatim>\<open>run_in_new_thread\<close> gets the outcome of its function or a cancellation, the function runs
  at most once, and with \<^verbatim>\<open>no_return\<close> the future never gets an outcome. The thread stays in
  the statistic after it has ended.
\<close>

theorem new_thread_result:
  assumes "reachable (\<lambda>n. n = run_in_new_thread f no_return) (nt_step run) n"
  shows "(\<forall>r. nt_future n = Resolved r \<longrightarrow>
      r = Inl CancelledError \<or> r = run (nt_func n) \<and> \<not> nt_no_return n) \<and>
    ts_done (nt_statistic n) \<le> 1 \<and> ts_threads (nt_statistic n) = 1"
  using new_thread.reachable_inv [OF assms] by (auto simp: nt_inv_def)

end
