(* ===== verification/NetServices.thy ===== *)
theory NetServices
  imports Utils
begin

text \<open>
  The network services: constructors and sockets of the TCP, UDP and TLS servers, the clients that
  connect with several attempts and the robust clients that reconnect
  (\<^verbatim>\<open>aiomisc/service/tcp.py\<close>, \<^verbatim>\<open>udp.py\<close>, \<^verbatim>\<open>tls.py\<close>), and the TLS context that servers and
  clients use.

  The network is the environment: each attempt to connect and each handled connection has an
  outcome and takes some time. \<^verbatim>\<open>ssl.create_default_context\<close> is modelled by the settings of the
  standard library for the two purposes.
\<close>

section \<open>Sockets of the servers\<close>

datatype sock_arg = NoSock | SockObject | OtherSock

text \<open>Where \<^verbatim>\<open>make_socket\<close> takes the socket from.\<close>

datatype sock_source = GivenSocket | BindSocket "sock option" string int "(int \<times> int \<times> int) list" "string option"

definition server_init ::
  "(string \<Rightarrow> sock option) \<Rightarrow> string option \<Rightarrow> sock_arg \<Rightarrow> string option \<Rightarrow> int option \<Rightarrow>
     (int \<times> int \<times> int) list \<Rightarrow> sock_source result" where
  "server_init socket_args proto_name s address port options =
     (case s of
        NoSock \<Rightarrow>
          (case (address, port) of
             (Some a, Some p) \<Rightarrow> Inr (BindSocket (socket_args a) a p options proto_name)
           | _ \<Rightarrow> Inl (RuntimeError ''You should pass socket instance or \"address\" and \"port\" couple''))
      | OtherSock \<Rightarrow> Inl (ValueError ''sock must be socket instance'')
      | SockObject \<Rightarrow> Inr GivenSocket)"

definition TCPServer_init ::
  "sock_arg \<Rightarrow> string option \<Rightarrow> int option \<Rightarrow> (int \<times> int \<times> int) list \<Rightarrow> sock_source result" where
  "TCPServer_init = server_init (\<lambda>_. None) None"

definition TLSServer_init ::
  "sock_arg \<Rightarrow> string option \<Rightarrow> int option \<Rightarrow> (int \<times> int \<times> int) list \<Rightarrow> sock_source result" where
  "TLSServer_init = server_init (\<lambda>_. None) None"

definition UDPServer_init ::
  "sock_arg \<Rightarrow> string option \<Rightarrow> int option \<Rightarrow> (int \<times> int \<times> int) list \<Rightarrow> sock_source result" where
  "UDPServer_init =
     server_init
       (\<lambda>a. Some \<lparr>s_family = if CHR '':'' \<in> set a then AF_INET6 else AF_INET,
                 s_type = SOCK_DGRAM, s_proto = 0\<rparr>) (Some ''udp'')"

text \<open>\<^verbatim>\<open>UDPServer.sendto\<close>: the datagrams given to the transport, which exists once the server has started.\<close>

definition udp_sendto :: "'a \<Rightarrow> 'a list option \<Rightarrow> 'a list option result" where
  "udp_sendto datagram transport =
     (case transport of
        None \<Rightarrow> Inl (RuntimeError [])
      | Some sent \<Rightarrow> Inr (Some (sent @ [datagram])))"

section \<open>Clients\<close>

text \<open>An empty address and the port 0 are refused as well.\<close>

definition TCPClient_init :: "string option \<Rightarrow> int option \<Rightarrow> (string \<times> int) result" where
  "TCPClient_init address port =
     (case (address, port) of
        (Some a, Some p) \<Rightarrow>
          if a \<noteq> [] \<and> p \<noteq> 0 then Inr (a, p)
          else Inl (RuntimeError ''You should pass \"address\" and \"port\" couple'')
      | _ \<Rightarrow> Inl (RuntimeError ''You should pass \"address\" and \"port\" couple''))"

text \<open>
  An attempt to connect: its duration and outcome. A TLS client makes the context first, whose
  failure is that of the attempt.
\<close>

type_synonym 'c attempts = "nat \<Rightarrow> number \<times> 'c result"

definition tls_attempt :: "number \<Rightarrow> 'x result \<Rightarrow> number \<times> 'c result \<Rightarrow> number \<times> 'c result" where
  "tls_attempt context_time context open_connection =
     (case context of
        Inl e \<Rightarrow> (context_time, Inl e)
      | Inr _ \<Rightarrow> (context_time + fst open_connection, snd open_connection))"

text \<open>The loop of \<^verbatim>\<open>connect\<close>: the number of the attempt, the last error and the clock.\<close>

fun connect_loop ::
  "nat \<Rightarrow> number \<Rightarrow> 'c attempts \<Rightarrow> nat \<Rightarrow> pyexc option \<Rightarrow> number \<Rightarrow> 'c result \<times> nat \<times> number" where
  "connect_loop 0 retry f i last_error now =
     (Inl (case last_error of Some e \<Rightarrow> e | None \<Rightarrow> RuntimeError ''Unknown exception occurred''), i, now)"
| "connect_loop (Suc n) retry f i last_error now =
     (case f i of (d, r) \<Rightarrow>
        case r of
          Inr c \<Rightarrow> (Inr c, Suc i, now + d)
        | Inl e \<Rightarrow>
            if isinstance_exc e ''ConnectionError''
            then connect_loop n retry f (Suc i) (Some e) (now + d + max retry 0)
            else (Inl e, Suc i, now + d))"

definition connect :: "nat \<Rightarrow> number \<Rightarrow> 'c attempts \<Rightarrow> number \<Rightarrow> 'c result \<times> nat \<times> number" where
  "connect attempts retry f now = connect_loop attempts retry f 0 None now"

text \<open>
  \<^verbatim>\<open>TCPClient.start\<close>: whether the start event is set, and the result. Exceptions of the handler are
  logged.
\<close>

definition client_start :: "'c result \<Rightarrow> ('c \<Rightarrow> unit result) \<Rightarrow> bool \<times> unit result" where
  "client_start connection handle_connection =
     (case connection of
        Inl e \<Rightarrow> (False, Inl e)
      | Inr c \<Rightarrow>
          (True, case handle_connection c of
             Inr _ \<Rightarrow> Inr ()
           | Inl e \<Rightarrow> if is_Exception e then Inr () else Inl e))"

section \<open>The robust client\<close>

text \<open>One pass of its loop: how \<^verbatim>\<open>connect\<close> and the handled connection end, and how long they take.\<close>

record pass =
  pa_connect :: "unit result"
  pa_connect_time :: number
  pa_handle :: "unit result"
  pa_handle_time :: number

record robust =
  rb_connected :: bool
  rb_start_event :: bool
  rb_now :: number
  rb_connects :: "number list"

definition robust_init :: "bool \<Rightarrow> number \<Rightarrow> robust" where
  "robust_init started now =
     \<lparr>rb_connected = False, rb_start_event = started, rb_now = now, rb_connects = []\<rparr>"

text \<open>The body of the \<^verbatim>\<open>try\<close>: it begins by connecting, which is recorded.\<close>

definition robust_try :: "pass \<Rightarrow> robust \<Rightarrow> robust \<times> unit result" where
  "robust_try p s =
     (let s1 = s\<lparr>rb_connects := rb_connects s @ [rb_now s], rb_now := rb_now s + pa_connect_time p\<rparr> in
      case pa_connect p of
        Inl e \<Rightarrow> (s1, Inl e)
      | Inr _ \<Rightarrow>
          let s2 = s1\<lparr>rb_connected := True, rb_start_event := True,
                      rb_now := rb_now s1 + pa_handle_time p\<rparr>
          in case pa_handle p of
               Inl e \<Rightarrow> (s2, Inl e)
             | Inr _ \<Rightarrow> (s2\<lparr>rb_connected := False\<rparr>, Inr ()))"

text \<open>Exceptions are logged, cancellations raised, and the \<^verbatim>\<open>finally\<close> sleeps in both cases.\<close>

definition robust_pass :: "number \<Rightarrow> pass \<Rightarrow> robust \<Rightarrow> robust \<times> unit result" where
  "robust_pass reconnect_timeout p s =
     (let (s1, r) = robust_try p s;
          s2 = (if rb_connected s1 then s1\<lparr>rb_now := rb_now s1 + max reconnect_timeout 0\<rparr> else s1)
      in case r of
           Inr _ \<Rightarrow> (s2, Inr ())
         | Inl e \<Rightarrow>
             if isinstance_exc e ''CancelledError'' then (s2, Inl e)
             else if is_Exception e then (s2, Inr ())
             else (s2, Inl e))"

text \<open>The loop over the passes of the environment: \<^const>\<open>None\<close> when it is still running after them.\<close>

fun robust_loop :: "number \<Rightarrow> pass list \<Rightarrow> robust \<Rightarrow> robust \<times> pyexc option" where
  "robust_loop rt [] s = (s, None)"
| "robust_loop rt (p # ps) s =
     (case robust_pass rt p s of
        (s1, Inl e) \<Rightarrow> (s1, Some e)
      | (s1, Inr _) \<Rightarrow> robust_loop rt ps s1)"

section \<open>TLS contexts\<close>

datatype purpose = SERVER_AUTH | CLIENT_AUTH
datatype verify_mode = CERT_NONE | CERT_OPTIONAL | CERT_REQUIRED
datatype tls_version = TLSv1_2 | TLSv1_3

record SSLOptions =
  so_cert :: "string option"
  so_key :: "string option"
  so_ca :: "string option"
  so_verify :: bool
  so_require_client_cert :: bool
  so_purpose :: purpose
  so_minimum_version :: tls_version
  so_maximum_version :: tls_version
  so_ciphers :: "string list"

definition DEFAULT_SSL_CIPHERS :: "string list" where
  "DEFAULT_SSL_CIPHERS =
     [''ECDHE-RSA-AES256-GCM-SHA384'', ''ECDHE-ECDSA-AES256-GCM-SHA384'',
      ''ECDHE-RSA-CHACHA20-POLY1305'', ''ECDHE-ECDSA-CHACHA20-POLY1305'',
      ''ECDHE-RSA-AES128-GCM-SHA256'', ''ECDHE-ECDSA-AES128-GCM-SHA256'']"

text \<open>An empty path counts as none.\<close>

definition path_of :: "string option \<Rightarrow> string option" where
  "path_of p = (if p = Some [] then None else p)"

definition SSLOptions_init ::
  "string option \<Rightarrow> string option \<Rightarrow> string option \<Rightarrow> bool \<Rightarrow> bool \<Rightarrow> purpose \<Rightarrow> tls_version \<Rightarrow>
     tls_version \<Rightarrow> string list \<Rightarrow> SSLOptions" where
  "SSLOptions_init cert key ca verify require purpose minv maxv ciphers =
     \<lparr>so_cert = path_of cert, so_key = path_of key, so_ca = path_of ca, so_verify = verify,
      so_require_client_cert = require, so_purpose = purpose, so_minimum_version = minv,
      so_maximum_version = maxv, so_ciphers = ciphers\<rparr>"

record ssl_context =
  cx_check_hostname :: bool
  cx_verify_mode :: verify_mode
  cx_no_compression :: bool
  cx_post_handshake_auth :: bool
  cx_minimum_version :: tls_version
  cx_maximum_version :: tls_version
  cx_ciphers :: string
  cx_ca :: "string option"
  cx_chain :: "(string \<times> string) option"

definition create_default_context :: "purpose \<Rightarrow> ssl_context" where
  "create_default_context p =
     \<lparr>cx_check_hostname = (p = SERVER_AUTH),
      cx_verify_mode = (if p = SERVER_AUTH then CERT_REQUIRED else CERT_NONE),
      cx_no_compression = True, cx_post_handshake_auth = False,
      cx_minimum_version = TLSv1_2, cx_maximum_version = TLSv1_3, cx_ciphers = [],
      cx_ca = None, cx_chain = None\<rparr>"

text \<open>The steps of \<^verbatim>\<open>create_context\<close>: versions, ciphers and host names; the CA; client certificates.\<close>

definition context_base :: "SSLOptions \<Rightarrow> ssl_context" where
  "context_base o1 =
     (let c = (create_default_context (so_purpose o1))
                \<lparr>cx_no_compression := True, cx_maximum_version := so_maximum_version o1,
                 cx_minimum_version := so_minimum_version o1,
                 cx_ciphers := py_join '':'' (so_ciphers o1)\<rparr>
      in if \<not> so_verify o1 then c\<lparr>cx_check_hostname := False\<rparr> else c)"

definition context_ca ::
  "(string \<Rightarrow> bool) \<Rightarrow> (string \<Rightarrow> unit result) \<Rightarrow> SSLOptions \<Rightarrow> ssl_context \<Rightarrow> ssl_context result" where
  "context_ca exists load_ca o1 c =
     (case so_ca o1 of
        None \<Rightarrow> Inr c
      | Some ca \<Rightarrow>
          if \<not> exists ca
          then Inl (mk_exc [''FileNotFoundError'', ''OSError'', ''Exception'', ''BaseException''] [ca])
          else bind_result (load_ca ca) (\<lambda>_. Inr (c\<lparr>cx_ca := Some ca\<rparr>)))"

definition context_client_cert :: "SSLOptions \<Rightarrow> ssl_context \<Rightarrow> ssl_context" where
  "context_client_cert o1 c =
     (if so_require_client_cert o1
      then c\<lparr>cx_verify_mode := CERT_REQUIRED, cx_post_handshake_auth := True\<rparr>
      else c\<lparr>cx_check_hostname := False, cx_verify_mode := CERT_NONE\<rparr>)"

definition context_chain ::
  "(string \<Rightarrow> string \<Rightarrow> unit result) \<Rightarrow> SSLOptions \<Rightarrow> ssl_context \<Rightarrow> ssl_context result" where
  "context_chain load_chain o1 c =
     (case (so_key o1, so_cert o1) of
        (Some k, Some crt) \<Rightarrow> bind_result (load_chain crt k) (\<lambda>_. Inr (c\<lparr>cx_chain := Some (crt, k)\<rparr>))
      | _ \<Rightarrow> Inr c)"

text \<open>
  The parameters say whether the CA file exists, and what loading it and the chain of
  certificates does.
\<close>

definition create_context ::
  "(string \<Rightarrow> bool) \<Rightarrow> (string \<Rightarrow> unit result) \<Rightarrow> (string \<Rightarrow> string \<Rightarrow> unit result) \<Rightarrow> SSLOptions \<Rightarrow>
     ssl_context result" where
  "create_context exists load_ca load_chain o1 =
     bind_result (context_ca exists load_ca o1 (context_base o1))
       (\<lambda>c. context_chain load_chain o1 (context_client_cert o1 c))"

text \<open>The options of the servers and of the clients.\<close>

definition TLSServer_options ::
  "string \<Rightarrow> string \<Rightarrow> string option \<Rightarrow> bool \<Rightarrow> bool \<Rightarrow> tls_version \<Rightarrow> tls_version \<Rightarrow> string list \<Rightarrow> SSLOptions"
  where
  "TLSServer_options cert key ca require verify minv maxv ciphers =
     SSLOptions_init (Some cert) (Some key) ca verify require CLIENT_AUTH minv maxv ciphers"

definition TLSClient_options :: "string \<Rightarrow> string \<Rightarrow> string option \<Rightarrow> bool \<Rightarrow> SSLOptions" where
  "TLSClient_options cert key ca verify =
     SSLOptions_init (Some cert) (Some key) ca verify False SERVER_AUTH TLSv1_3 TLSv1_3
       DEFAULT_SSL_CIPHERS"

text \<open>
  \<^verbatim>\<open>RobustTLSClient\<close> has the same options and the same loop of attempts; the context is made within the
  call that opens the connection.
\<close>

definition RobustTLSClient_options :: "string \<Rightarrow> string \<Rightarrow> string option \<Rightarrow> bool \<Rightarrow> SSLOptions" where
  "RobustTLSClient_options cert key ca verify = TLSClient_options cert key ca verify"

definition robust_tls_connect ::
  "nat \<Rightarrow> number \<Rightarrow> (nat \<Rightarrow> number \<times> 'x result) \<Rightarrow> 'c attempts \<Rightarrow> number \<Rightarrow> 'c result \<times> nat \<times> number" where
  "robust_tls_connect attempts retry contexts f now =
     connect attempts retry (\<lambda>i. tls_attempt (fst (contexts i)) (snd (contexts i)) (f i)) now"

section \<open>Sockets\<close>

lemma server_init_result:
  "(\<exists>src. server_init sa pn s address port options = Inr src) \<longleftrightarrow>
     s = SockObject \<or> s = NoSock \<and> address \<noteq> None \<and> port \<noteq> None"
  by (cases s; cases address; cases port) (simp_all add: server_init_def)

text \<open>The socket of a UDP server is a datagram socket of the family of its address.\<close>

lemma UDPServer_socket:
  assumes "UDPServer_init NoSock (Some a) (Some p) options = Inr (BindSocket args a' p' options' pn)"
    and "bind_socket nd rp args a' p' options' ra reuse pn = (s, calls, name)"
  shows "s_type s = SOCK_DGRAM \<and> s_family s = (if CHR '':'' \<in> set a then AF_INET6 else AF_INET) \<and>
    last calls = BindInet a p \<and> name = ''udp''"
  using assms by (auto simp: UDPServer_init_def server_init_def bind_socket_def Let_def)

section \<open>Attempts to connect\<close>

lemma connect_loop_first:
  assumes "\<forall>j < k. \<exists>e. snd (f (i + j)) = Inl e \<and> isinstance_exc e ''ConnectionError''" "k < n"
    and "\<not> (\<exists>e. snd (f (i + k)) = Inl e \<and> isinstance_exc e ''ConnectionError'')"
  shows "fst (connect_loop n retry f i le now) = snd (f (i + k)) \<and>
    fst (snd (connect_loop n retry f i le now)) = i + k + 1"
  using assms
proof (induction n arbitrary: i k le now)
  case 0
  then show ?case by simp
next
  case (Suc n)
  obtain d r where fi: "f i = (d, r)" by fastforce
  show ?case
  proof (cases k)
    case 0
    with Suc.prems(3) fi show ?thesis by (cases r) auto
  next
    case (Suc j)
    have "\<exists>e. snd (f (i + 0)) = Inl e \<and> isinstance_exc e ''ConnectionError''"
      using Suc.prems(1) Suc by blast
    with fi obtain e where e: "r = Inl e" "isinstance_exc e ''ConnectionError''" by auto
    have "\<forall>l < j. \<exists>e. snd (f (Suc i + l)) = Inl e \<and> isinstance_exc e ''ConnectionError''"
      using Suc.prems(1) Suc by (metis Suc_less_eq add_Suc_shift)
    from Suc.IH [OF this, of "Some e" "now + d + max retry 0"] Suc.prems Suc e fi
    show ?thesis by simp
  qed
qed

lemma connect_loop_exhausted:
  assumes "\<forall>j < n. \<exists>e. snd (f (i + j)) = Inl e \<and> isinstance_exc e ''ConnectionError''" "0 < n"
  shows "fst (connect_loop n retry f i le now) = snd (f (i + n - 1)) \<and>
    fst (snd (connect_loop n retry f i le now)) = i + n \<and>
    snd (snd (connect_loop n retry f i le now)) =
      now + (\<Sum>j < n. fst (f (i + j))) + real n * max retry 0"
  using assms
proof (induction n arbitrary: i le now)
  case 0
  then show ?case by simp
next
  case (Suc n)
  obtain d r where fi: "f i = (d, r)" by fastforce
  have "\<exists>e. snd (f (i + 0)) = Inl e \<and> isinstance_exc e ''ConnectionError''"
    using Suc.prems(1) by blast
  with fi obtain e where e: "r = Inl e" "isinstance_exc e ''ConnectionError''" by auto
  show ?case
  proof (cases n)
    case 0
    with e fi show ?thesis by simp
  next
    case (Suc m)
    have "\<forall>l < n. \<exists>e. snd (f (Suc i + l)) = Inl e \<and> isinstance_exc e ''ConnectionError''"
      using Suc.prems(1) by (metis Suc_less_eq add_Suc_shift)
    from Suc.IH [OF this, of "Some e" "now + d + max retry 0"] Suc e fi
    show ?thesis
      by (simp add: sum.lessThan_Suc_shift algebra_simps del: sum.lessThan_Suc)
  qed
qed

text \<open>
  \<^verbatim>\<open>connect\<close> retries exactly the connection errors: it gives the outcome of the first attempt
  that does not end with one, a connection or another exception, after exactly that many
  attempts. When all attempts end with connection errors, the last of them is raised, after all
  attempts and one pause for each of them. Without attempts it is a \<^verbatim>\<open>RuntimeError\<close>.
\<close>

theorem connect_attempts:
  "(\<forall>k < attempts.
      (\<forall>j < k. \<exists>e. snd (f j) = Inl e \<and> isinstance_exc e ''ConnectionError'') \<and>
      \<not> (\<exists>e. snd (f k) = Inl e \<and> isinstance_exc e ''ConnectionError'') \<longrightarrow>
      fst (connect attempts retry f now) = snd (f k) \<and>
      fst (snd (connect attempts retry f now)) = k + 1) \<and>
   (0 < attempts \<and> (\<forall>j < attempts. \<exists>e. snd (f j) = Inl e \<and> isinstance_exc e ''ConnectionError'') \<longrightarrow>
      fst (connect attempts retry f now) = snd (f (attempts - 1)) \<and>
      snd (connect attempts retry f now) =
        (attempts, now + (\<Sum>j < attempts. fst (f j)) + real attempts * max retry 0)) \<and>
   (\<exists>e. fst (connect 0 retry f now) = Inl e \<and> isinstance_exc e ''RuntimeError'')"
  using connect_loop_first [of _ f 0 attempts retry None now]
    connect_loop_exhausted [of attempts f 0 retry None now]
  by (auto simp: connect_def py_simps prod_eq_iff)

theorem connect_attempts_witness:
  "fst (connect 3 2 (\<lambda>i. (1, if i = 0 then Inl (ConnectionError []) else Inr (5::nat))) 10) = Inr 5"
  using connect_attempts [of 3 "\<lambda>i. (1, if i = 0 then Inl (ConnectionError []) else Inr (5::nat))" 2 10]
  by (auto simp: py_simps dest!: spec [of _ "1::nat"])

section \<open>Reconnecting\<close>

definition ends_pass :: "pass \<Rightarrow> pyexc option" where
  "ends_pass p =
     (case pa_connect p of Inl e \<Rightarrow> Some e | Inr _ \<Rightarrow> (case pa_handle p of Inl e \<Rightarrow> Some e | Inr _ \<Rightarrow> None))"

definition goes_on :: "pass \<Rightarrow> bool" where
  "goes_on p \<longleftrightarrow> (\<forall>e. ends_pass p = Some e \<longrightarrow> is_Exception e \<and> \<not> isinstance_exc e ''CancelledError'')"

text \<open>Whether the client considers itself connected after a pass.\<close>

definition connected_after :: "pass \<Rightarrow> bool \<Rightarrow> bool" where
  "connected_after p before =
     (case pa_connect p of Inl _ \<Rightarrow> before | Inr _ \<Rightarrow> (case pa_handle p of Inl _ \<Rightarrow> True | Inr _ \<Rightarrow> False))"

definition pass_time :: "number \<Rightarrow> pass \<Rightarrow> bool \<Rightarrow> number" where
  "pass_time rt p before =
     pa_connect_time p + (case pa_connect p of Inl _ \<Rightarrow> 0 | Inr _ \<Rightarrow> pa_handle_time p) +
       (if connected_after p before then max rt 0 else 0)"

lemma robust_pass_effect:
  "fst (robust_pass rt p s) =
     \<lparr>rb_connected = connected_after p (rb_connected s),
      rb_start_event = (rb_start_event s \<or> pa_connect p = Inr ()),
      rb_now = rb_now s + pass_time rt p (rb_connected s),
      rb_connects = rb_connects s @ [rb_now s]\<rparr>"
  by (cases s; cases "pa_connect p"; cases "pa_handle p")
    (auto simp: robust_pass_def robust_try_def Let_def connected_after_def pass_time_def)

lemma robust_pass_result: "goes_on p \<Longrightarrow> snd (robust_pass rt p s) = Inr ()"
  by (cases "pa_connect p"; cases "pa_handle p")
    (auto simp: robust_pass_def robust_try_def Let_def goes_on_def ends_pass_def)

fun connected_state :: "pass list \<Rightarrow> bool \<Rightarrow> bool" where
  "connected_state [] b = b"
| "connected_state (p # ps) b = connected_state ps (connected_after p b)"

fun connect_moments :: "number \<Rightarrow> pass list \<Rightarrow> bool \<Rightarrow> number \<Rightarrow> number list" where
  "connect_moments rt [] b now = []"
| "connect_moments rt (p # ps) b now =
     now # connect_moments rt ps (connected_after p b) (now + pass_time rt p b)"

lemma robust_loop_goes_on:
  assumes "\<forall>p \<in> set ps. goes_on p"
  shows "snd (robust_loop rt ps s) = None \<and>
    rb_connects (fst (robust_loop rt ps s)) =
      rb_connects s @ connect_moments rt ps (rb_connected s) (rb_now s) \<and>
    rb_connected (fst (robust_loop rt ps s)) = connected_state ps (rb_connected s)"
  using assms
proof (induction ps arbitrary: s)
  case Nil
  then show ?case by simp
next
  case (Cons p ps)
  obtain s1 r where s1: "robust_pass rt p s = (s1, r)" by fastforce
  have "r = Inr ()" using robust_pass_result [of p rt s] Cons.prems s1 by simp
  moreover have "s1 = \<lparr>rb_connected = connected_after p (rb_connected s),
      rb_start_event = (rb_start_event s \<or> pa_connect p = Inr ()),
      rb_now = rb_now s + pass_time rt p (rb_connected s),
      rb_connects = rb_connects s @ [rb_now s]\<rparr>"
    using robust_pass_effect [of rt p s] by (simp add: s1)
  ultimately show ?case using Cons by (simp add: s1)
qed

lemma length_connect_moments [simp]: "length (connect_moments rt ps b now) = length ps"
  by (induction ps arbitrary: b now) simp_all

lemma connect_moments_gap:
  assumes "Suc i < length ps"
  shows "connect_moments rt ps b now ! Suc i =
    connect_moments rt ps b now ! i + pass_time rt (ps ! i) (connected_state (take i ps) b)"
  using assms
proof (induction ps arbitrary: i b now)
  case Nil
  then show ?case by simp
next
  case (Cons p ps)
  show ?case
  proof (cases i)
    case 0
    with Cons.prems show ?thesis by (cases ps) simp_all
  next
    case (Suc j)
    with Cons show ?thesis by simp
  qed
qed

text \<open>
  A robust client never gives up: as long as connecting and handling end with values or
  exceptions, it begins a new connection after each pass. After a connection whose handler
  failed, the next one begins at the earliest \<^verbatim>\<open>reconnect_timeout\<close> later; after one that ended
  normally, and after failures to connect before the first connection, it begins at once.
\<close>

theorem robust_client_reconnects:
  assumes "\<forall>p \<in> set ps. goes_on p" "robust_loop rt ps (robust_init started now) = (s, e)"
  shows "e = None \<and> length (rb_connects s) = length ps \<and>
    (\<forall>i. Suc i < length ps \<longrightarrow>
       rb_connects s ! Suc i =
         rb_connects s ! i + pa_connect_time (ps ! i) +
           (case pa_connect (ps ! i) of Inl _ \<Rightarrow> 0 | Inr _ \<Rightarrow> pa_handle_time (ps ! i)) +
           (if connected_state (take (Suc i) ps) False then max rt 0 else 0)) \<and>
    (\<forall>i. i < length ps \<and> pa_connect (ps ! i) = Inr () \<longrightarrow>
       connected_state (take (Suc i) ps) False = isl (pa_handle (ps ! i)))"
proof -
  note loop = robust_loop_goes_on [OF assms(1), of rt "robust_init started now"]
  have "e = None" and moments: "rb_connects s = connect_moments rt ps False now"
    using loop assms(2) by (simp_all add: robust_init_def)
  have after: "connected_state (take (Suc i) ps) False =
      connected_after (ps ! i) (connected_state (take i ps) False)" if "i < length ps" for i
  proof -
    have "connected_state (xs @ [p]) b = connected_after p (connected_state xs b)" for xs p b
      by (induction xs arbitrary: b) simp_all
    then show ?thesis using that by (simp add: take_Suc_conv_app_nth)
  qed
  have "rb_connects s ! Suc i =
      rb_connects s ! i + pa_connect_time (ps ! i) +
        (case pa_connect (ps ! i) of Inl _ \<Rightarrow> 0 | Inr _ \<Rightarrow> pa_handle_time (ps ! i)) +
        (if connected_state (take (Suc i) ps) False then max rt 0 else 0)"
    if "Suc i < length ps" for i
    using connect_moments_gap [OF that, of rt False now] after [of i] that
    by (simp add: moments pass_time_def)
  moreover have "connected_state (take (Suc i) ps) False = isl (pa_handle (ps ! i))"
    if "i < length ps" "pa_connect (ps ! i) = Inr ()" for i
    using after [OF that(1)] that(2) by (simp add: connected_after_def split: sum.splits)
  ultimately show ?thesis using \<open>e = None\<close> by (simp add: moments)
qed

definition example_pass :: "unit result \<Rightarrow> pass" where
  "example_pass r = \<lparr>pa_connect = Inr (), pa_connect_time = 1, pa_handle = r, pa_handle_time = 2\<rparr>"

theorem robust_client_reconnects_witness:
  "rb_connects (fst (robust_loop 5 [example_pass (Inl (ValueError [])), example_pass (Inr ())]
     (robust_init False 0))) ! 1 = 8"
proof -
  let ?ps = "[example_pass (Inl (ValueError [])), example_pass (Inr ())]"
  let ?r = "robust_loop 5 ?ps (robust_init False 0)"
  have "\<forall>p \<in> set ?ps. goes_on p" by (simp add: example_pass_def goes_on_def ends_pass_def py_simps)
  from robust_client_reconnects [OF this prod.collapse [symmetric], of 5 False 0]
  have "rb_connects (fst ?r) ! Suc 0 = rb_connects (fst ?r) ! 0 + 1 + 2 + 5"
    by (simp add: example_pass_def connected_after_def)
  moreover have "rb_connects (fst ?r) ! 0 = 0"
    by (simp add: robust_init_def robust_pass_def robust_try_def example_pass_def Let_def py_simps)
  ultimately show ?thesis by simp
qed

text \<open>A cancellation while the client is connected is delayed by the sleep of the \<^verbatim>\<open>finally\<close>.\<close>

lemma cancel_delayed:
  assumes "pa_connect p = Inr ()" "pa_handle p = Inl CancelledError" "0 \<le> rt"
  shows "robust_loop rt (p # ps) s = (fst (robust_pass rt p s), Some CancelledError) \<and>
    rb_now (fst (robust_pass rt p s)) = rb_now s + pa_connect_time p + pa_handle_time p + rt"
  using assms by (simp add: robust_pass_def robust_try_def Let_def py_simps)

section \<open>What a TLS context verifies\<close>

lemma context_ca_result:
  "context_ca ex lca o1 c = Inr c' \<Longrightarrow> cx_ca c = None \<Longrightarrow> c' = c\<lparr>cx_ca := so_ca o1\<rparr>"
  by (cases c) (auto simp: context_ca_def bind_result_Inr_iff split: option.splits if_splits)

lemma context_chain_result:
  "context_chain lch o1 c = Inr c' \<Longrightarrow> \<exists>ch. c' = c\<lparr>cx_chain := ch\<rparr>"
  by (cases c) (auto simp: context_chain_def bind_result_Inr_iff split: option.splits)

lemma create_context_verification:
  assumes "create_context ex lca lch o1 = Inr c"
  shows "cx_verify_mode c = (if so_require_client_cert o1 then CERT_REQUIRED else CERT_NONE)"
    and "cx_check_hostname c \<longleftrightarrow> so_verify o1 \<and> so_require_client_cert o1 \<and> so_purpose o1 = SERVER_AUTH"
    and "cx_no_compression c" "cx_minimum_version c = so_minimum_version o1"
    and "cx_maximum_version c = so_maximum_version o1"
    and "cx_ciphers c = py_join '':'' (so_ciphers o1)" "cx_ca c = so_ca o1"
proof -
  obtain c1 where c1: "context_ca ex lca o1 (context_base o1) = Inr c1"
      "context_chain lch o1 (context_client_cert o1 c1) = Inr c"
    using assms by (auto simp: create_context_def bind_result_Inr_iff)
  have "cx_ca (context_base o1) = None"
    by (simp add: context_base_def create_default_context_def Let_def)
  with c1 obtain ch where
    c: "c = (context_client_cert o1 ((context_base o1)\<lparr>cx_ca := so_ca o1\<rparr>))\<lparr>cx_chain := ch\<rparr>"
    using context_ca_result context_chain_result by metis
  note defs = c context_client_cert_def context_base_def create_default_context_def Let_def
  show "cx_verify_mode c = (if so_require_client_cert o1 then CERT_REQUIRED else CERT_NONE)"
    and "cx_check_hostname c \<longleftrightarrow> so_verify o1 \<and> so_require_client_cert o1 \<and> so_purpose o1 = SERVER_AUTH"
    and "cx_no_compression c" "cx_minimum_version c = so_minimum_version o1"
    and "cx_maximum_version c = so_maximum_version o1"
    and "cx_ciphers c = py_join '':'' (so_ciphers o1)" "cx_ca c = so_ca o1"
    by (simp_all add: defs)
qed

text \<open>
  A TLS server asks for client certificates exactly when it is told to, with the versions and
  ciphers it was given and without compression. The context of a TLS client never verifies the
  certificate of the server nor its host name, whatever its parameters \<^verbatim>\<open>verify\<close> and \<^verbatim>\<open>ca\<close> are.
\<close>

theorem tls_verification:
  "(create_context ex lca lch (TLSServer_options cert key ca require verify minv maxv ciphers) = Inr c \<longrightarrow>
      (cx_verify_mode c = CERT_REQUIRED \<longleftrightarrow> require) \<and> cx_no_compression c \<and>
      cx_minimum_version c = minv \<and> cx_maximum_version c = maxv \<and>
      cx_ciphers c = py_join '':'' ciphers) \<and>
   (create_context ex lca lch (TLSClient_options cert key ca verify) = Inr c \<longrightarrow>
      cx_verify_mode c = CERT_NONE \<and> \<not> cx_check_hostname c \<and> cx_minimum_version c = TLSv1_3)"
  by (auto simp: create_context_verification TLSServer_options_def TLSClient_options_def
      SSLOptions_init_def)

theorem tls_verification_witness:
  "\<exists>c. create_context (\<lambda>_. True) (\<lambda>_. Inr ()) (\<lambda>_ _. Inr ())
         (TLSClient_options ''cert'' ''key'' (Some ''ca'') True) = Inr c \<and>
       cx_verify_mode c = CERT_NONE"
proof -
  obtain c where c: "create_context (\<lambda>_. True) (\<lambda>_. Inr ()) (\<lambda>_ _. Inr ())
      (TLSClient_options ''cert'' ''key'' (Some ''ca'') True) = Inr c"
    by (simp add: create_context_def context_ca_def context_chain_def TLSClient_options_def
        SSLOptions_init_def path_of_def)
  then have "cx_verify_mode c = CERT_NONE"
    using tls_verification [of "\<lambda>_. True" "\<lambda>_. Inr ()" "\<lambda>_ _. Inr ()" "''cert''" "''key''" "Some ''ca''"
        False True TLSv1_3 TLSv1_3 "[]" c]
    by blast
  with c show ?thesis by blast
qed

text \<open>A CA file that does not exist is refused before the certificates are loaded.\<close>

lemma create_context_missing_ca:
  assumes "so_ca o1 = Some ca" "\<not> ex ca"
  shows "\<exists>e. create_context ex lca lch o1 = Inl e \<and> isinstance_exc e ''FileNotFoundError''"
  using assms by (simp add: create_context_def context_ca_def py_simps)

end
