(* ===== verification/Servers.thy ===== *)
theory Servers
  imports NetServices ServiceBase Streams
begin

text \<open>
  The life of a TCP, TLS or UDP server (\<^verbatim>\<open>aiomisc/service/tcp.py\<close>, \<^verbatim>\<open>tls.py\<close>, \<^verbatim>\<open>udp.py\<close>) on top of the task
  store of \<^verbatim>\<open>service/base.py\<close>: start, one task per connection or datagram, and stop, which cancels the
  tasks, waits for them and then closes the server. The operating system accepts connections and
  the tasks of the handlers end at any time in between.
\<close>

section \<open>Operations\<close>

datatype server_kind = TCP | TLS | UDP

datatype server_phase = Created | Serving | Stopping "nat list" nat | Stopped nat

record server =
  sv_kind :: server_kind
  sv_socket :: bool
  sv_transport :: "bool option"
  sv_store :: TaskStore
  sv_futures :: "unit fstore"
  sv_phase :: server_phase

definition server_new :: "server_kind \<Rightarrow> server" where
  "server_new k =
     \<lparr>sv_kind = k, sv_socket = False, sv_transport = None,
      sv_store = \<lparr>ts_tasks = [], ts_server_closed = None\<rparr>, sv_futures = [], sv_phase = Created\<rparr>"

text \<open>
  \<^verbatim>\<open>start\<close>: a TLS server makes its context first; then the socket is made; then the server, or for
  UDP the transport. Each of them may raise.
\<close>

definition server_endpoint :: "server \<Rightarrow> server" where
  "server_endpoint s =
     (if sv_kind s = UDP then s\<lparr>sv_transport := Some False\<rparr>
      else s\<lparr>sv_store := (sv_store s)\<lparr>ts_server_closed := Some False\<rparr>\<rparr>)"

definition server_start ::
  "'c result \<Rightarrow> unit result \<Rightarrow> unit result \<Rightarrow> server \<Rightarrow> unit result \<times> server" where
  "server_start ssl_context make_socket endpoint s =
     (case (if sv_kind s = TLS then bind_result ssl_context (\<lambda>_. Inr ()) else Inr ()) of
        Inl e \<Rightarrow> (Inl e, s)
      | Inr _ \<Rightarrow>
          (case make_socket of
             Inl e \<Rightarrow> (Inl e, s)
           | Inr _ \<Rightarrow>
               let s1 = s\<lparr>sv_socket := True\<rparr>
               in case endpoint of
                    Inl e \<Rightarrow> (Inl e, s1)
                  | Inr _ \<Rightarrow> (Inr (), (server_endpoint s1)\<lparr>sv_phase := Serving\<rparr>)))"

definition accepts :: "server \<Rightarrow> bool" where
  "accepts s \<longleftrightarrow>
     (if sv_kind s = UDP then sv_transport s = Some False
      else ts_server_closed (sv_store s) = Some False)"

text \<open>\<^verbatim>\<open>make_client_handler\<close> and \<^verbatim>\<open>datagram_received\<close>: a task for what has come in.\<close>

definition make_client_handler :: "server \<Rightarrow> server" where
  "make_client_handler s =
     (case create_task (sv_store s) (sv_futures s) of
        (st, fs) \<Rightarrow> s\<lparr>sv_store := st, sv_futures := fs\<rparr>)"

definition handler_done :: "nat \<Rightarrow> unit result \<Rightarrow> server \<Rightarrow> server" where
  "handler_done t r s =
     (case store_task_done t r (sv_store s) (sv_futures s) of
        (st, fs) \<Rightarrow> s\<lparr>sv_store := st, sv_futures := fs\<rparr>)"

text \<open>\<^verbatim>\<open>__client_handler\<close> and the handler of the datagram protocol: a plain function is made awaitable.\<close>

definition client_handler :: "bool \<Rightarrow> ('x \<Rightarrow> 'a returned) \<Rightarrow> 'x \<Rightarrow> 'a returned" where
  "client_handler is_coroutine_function handle_client = awaitable is_coroutine_function handle_client"

definition datagram_received :: "bool \<Rightarrow> (bytes \<times> 'd \<Rightarrow> 'a returned) \<Rightarrow> bytes \<Rightarrow> 'd \<Rightarrow> 'a returned" where
  "datagram_received is_coroutine_function handle_datagram data addr =
     awaitable is_coroutine_function handle_datagram (data, addr)"

text \<open>
  The names of the server's socket: a TCP or TLS server asks its socket, a UDP server its transport;
  before the start there is none.
\<close>

definition tcp_sockname :: "string \<times> int \<Rightarrow> server \<Rightarrow> (string \<times> int) option" where
  "tcp_sockname getsockname s = (if sv_socket s then Some getsockname else None)"

definition udp_sockname :: "string \<times> int \<Rightarrow> server \<Rightarrow> (string \<times> int) option" where
  "udp_sockname extra_info s = (if sv_transport s \<noteq> None then Some extra_info else None)"

definition server_sockname :: "string \<times> int \<Rightarrow> server \<Rightarrow> (string \<times> int) option" where
  "server_sockname name s = (if sv_kind s = UDP then udp_sockname name s else tcp_sockname name s)"

definition server_address :: "string \<times> int \<Rightarrow> server \<Rightarrow> string option" where
  "server_address name s = map_option fst (server_sockname name s)"

definition server_port :: "string \<times> int \<Rightarrow> server \<Rightarrow> int option" where
  "server_port name s = map_option snd (server_sockname name s)"

text \<open>A handler's result is always awaited, and a server that serves knows its address.\<close>

lemma handler_awaited:
  "is_coro \<longrightarrow> (\<exists>y. handle x = Awaitable y) \<Longrightarrow> \<exists>y. client_handler is_coro handle x = Awaitable y"
  by (auto simp: client_handler_def awaitable_def awaiter_def split: returned.splits)

lemma started_server_has_address:
  "server_start ctx sock ep s = (Inr (), s') \<Longrightarrow>
     server_address name s' = Some (fst name) \<and> server_port name s' = Some (snd name)"
  by (cases name) (auto simp: server_start_def server_endpoint_def server_address_def server_port_def server_sockname_def
      tcp_sockname_def udp_sockname_def Let_def split: sum.splits if_splits)

text \<open>\<^verbatim>\<open>stop\<close> up to the wait for the cancelled tasks, and after it.\<close>

definition server_stop :: "server \<Rightarrow> server" where
  "server_stop s =
     (case task_store_stop (sv_store s) (sv_futures s) of
        (ts, fs) \<Rightarrow> s\<lparr>sv_futures := fs, sv_phase := Stopping ts (length fs)\<rparr>)"

definition server_close :: "nat \<Rightarrow> server \<Rightarrow> server" where
  "server_close n s =
     s\<lparr>sv_store := simple_server_close (sv_store s),
       sv_transport := map_option (\<lambda>_. True) (sv_transport s), sv_phase := Stopped n\<rparr>"

text \<open>
  The last await of \<^verbatim>\<open>stop\<close>: \<^verbatim>\<open>wait_closed\<close> takes some time, or never ends (\<^const>\<open>None\<close>). A TCP
  server waits five seconds at most.
\<close>

definition wait_closed :: "server_kind \<Rightarrow> number option \<Rightarrow> number option" where
  "wait_closed k duration =
     (case k of
        TCP \<Rightarrow> Some (case duration of None \<Rightarrow> 5 | Some d \<Rightarrow> min d 5)
      | TLS \<Rightarrow> duration
      | UDP \<Rightarrow> Some 0)"

section \<open>Interleavings\<close>

inductive server_step :: "server \<Rightarrow> server \<Rightarrow> bool" where
  sv_start: "sv_phase s = Created \<Longrightarrow> server_start (ctx :: unit result) sock ep s = (r, s') \<Longrightarrow> server_step s s'"
| sv_accept: "accepts s \<Longrightarrow> server_step s (make_client_handler s)"
| sv_done: "t \<in> set (ts_tasks (sv_store s)) \<Longrightarrow> server_step s (handler_done t r s)"
| sv_stop: "sv_phase s = Serving \<Longrightarrow> server_step s (server_stop s)"
| sv_close: "sv_phase s = Stopping ts n \<Longrightarrow> waiter_done ts (sv_futures s) \<Longrightarrow>
    server_step s (server_close n s)"

section \<open>The invariant\<close>

definition phase_inv :: "server_phase \<Rightarrow> unit fstore \<Rightarrow> bool" where
  "phase_inv p fs \<longleftrightarrow>
     (case p of
        Stopping ts n \<Rightarrow> n \<le> length fs \<and> (\<forall>t < n. f_done (fs ! t) \<or> t \<in> set ts \<and> f_cancelling (fs ! t))
      | Stopped n \<Rightarrow> n \<le> length fs \<and> (\<forall>t < n. f_done (fs ! t))
      | _ \<Rightarrow> True)"

definition server_inv :: "server \<Rightarrow> bool" where
  "server_inv s \<longleftrightarrow>
     task_store_inv (sv_store s) (sv_futures s) \<and>
     (\<forall>t < length (sv_futures s). f_done (sv_futures s ! t) \<or> t \<in> set (ts_tasks (sv_store s))) \<and>
     phase_inv (sv_phase s) (sv_futures s) \<and>
     (accepts s \<longrightarrow> sv_phase s = Serving \<or> (\<exists>ts n. sv_phase s = Stopping ts n))"

lemma server_inv_new: "server_inv (server_new k)"
  by (simp add: server_inv_def server_new_def task_store_inv_def phase_inv_def accepts_def)

lemma server_inv_start:
  assumes "server_inv s" "sv_phase s = Created" "server_start ctx sock ep s = (r, s')"
  shows "server_inv s'"
  using assms
  by (auto simp: server_inv_def server_start_def server_endpoint_def task_store_inv_def phase_inv_def
      accepts_def Let_def split: sum.splits if_splits)

lemma server_inv_accept:
  assumes "server_inv s" "accepts s"
  shows "server_inv (make_client_handler s)"
proof -
  obtain st fs where c: "create_task (sv_store s) (sv_futures s) = (st, fs)" by fastforce
  have fs: "fs = sv_futures s @ [\<lparr>f_kind = Task, f_state = Pending, f_cancelling = False\<rparr>]"
    "ts_tasks st = ts_tasks (sv_store s) @ [length (sv_futures s)]"
    "ts_server_closed st = ts_server_closed (sv_store s)"
    using c by (auto simp: create_task_def)
  have "task_store_inv st fs"
    using assms(1) c task_store_inv_create by (auto simp: server_inv_def)
  moreover have "phase_inv (sv_phase s) fs"
    using assms(1) fs(1)
    by (auto simp: server_inv_def phase_inv_def nth_append split: server_phase.splits)
  moreover have "\<forall>t < length fs. f_done (fs ! t) \<or> t \<in> set (ts_tasks st)"
    using assms(1) fs by (auto simp: server_inv_def nth_append less_Suc_eq)
  ultimately show ?thesis using assms c fs(3)
    by (simp add: server_inv_def make_client_handler_def accepts_def)
qed

lemma server_inv_done:
  assumes "server_inv s" "t \<in> set (ts_tasks (sv_store s))"
  shows "server_inv (handler_done t r s)"
proof -
  obtain st fs where d: "store_task_done t r (sv_store s) (sv_futures s) = (st, fs)" by fastforce
  have fs: "fs = (sv_futures s)[t := (sv_futures s ! t)\<lparr>f_state := Resolved r\<rparr>]"
    "ts_tasks st = removeAll t (ts_tasks (sv_store s))"
    "ts_server_closed st = ts_server_closed (sv_store s)"
    using d by (auto simp: store_task_done_def)
  have t: "t < length (sv_futures s)" using assms by (auto simp: server_inv_def task_store_inv_def)
  have "task_store_inv st fs"
    using assms(1) d task_store_inv_done by (auto simp: server_inv_def)
  moreover have "phase_inv (sv_phase s) fs"
    using assms(1) fs(1) t
    by (auto simp: server_inv_def phase_inv_def nth_list_update f_done_def split: server_phase.splits)
  moreover have "\<forall>u < length fs. f_done (fs ! u) \<or> u \<in> set (ts_tasks st)"
    using assms(1) fs t by (auto simp: server_inv_def nth_list_update f_done_def)
  ultimately show ?thesis using assms d fs(3)
    by (simp add: server_inv_def handler_done_def accepts_def)
qed

lemma server_inv_stop:
  assumes "server_inv s" "sv_phase s = Serving"
  shows "server_inv (server_stop s)"
proof -
  obtain ts fs where c: "task_store_stop (sv_store s) (sv_futures s) = (ts, fs)" by fastforce
  have inv: "task_store_inv (sv_store s) (sv_futures s)" using assms(1) by (simp add: server_inv_def)
  note all = task_store_stop_all [OF inv c]
  have e: "set_exception CancelledError (ts_tasks (sv_store s)) (sv_futures s) = (ts, fs)"
    using c by (simp add: task_store_stop_def cancel_tasks_def split: if_splits)
  have "\<forall>i \<in> set (ts_tasks (sv_store s)). i < length (sv_futures s)"
    using inv by (simp add: task_store_inv_def)
  from set_exception_store [OF this e]
  have st: "length fs = length (sv_futures s)"
    "\<And>t. t < length fs \<Longrightarrow> f_done (sv_futures s ! t) \<Longrightarrow> f_done (fs ! t)"
    by (auto simp: cancelled_object_def f_done_def)
  have "f_done (fs ! t) \<or> t \<in> set ts \<and> f_cancelling (fs ! t)" if "t < length fs" for t
    using all st that assms(1) by (auto simp: server_inv_def)
  moreover have "\<forall>t < length fs. f_done (fs ! t) \<or> t \<in> set (ts_tasks (sv_store s))"
    using st assms(1) by (auto simp: server_inv_def)
  ultimately show ?thesis using all c
    by (simp add: server_inv_def server_stop_def phase_inv_def)
qed

lemma server_inv_close:
  assumes "server_inv s" "sv_phase s = Stopping ts n" "waiter_done ts (sv_futures s)"
  shows "server_inv (server_close n s)"
proof -
  have "\<not> accepts (server_close n s)"
    by (auto simp: accepts_def server_close_def simple_server_close_def split: option.splits)
  moreover have "ts_tasks (simple_server_close st) = ts_tasks st" for st
    by (simp add: simple_server_close_def split: option.splits)
  ultimately show ?thesis using assms
    by (auto simp: server_inv_def server_close_def phase_inv_def waiter_done_def task_store_inv_def)
qed

lemma server_step_inv: "server_step s s' \<Longrightarrow> server_inv s \<Longrightarrow> server_inv s'"
  by (induction rule: server_step.induct)
    (blast intro: server_inv_start server_inv_accept server_inv_done server_inv_stop server_inv_close)+

interpretation net_server: invariant_system "\<lambda>s. s = server_new k" server_step server_inv
  by unfold_locales (auto simp: server_inv_new server_step_inv)

section \<open>Properties\<close>

text \<open>
  A server that has been stopped accepts nothing any more, and every handler that was running
  when \<^verbatim>\<open>stop\<close> was called was asked for cancellation and has ended; while it waits, every handler
  that is not done has been asked.
\<close>

theorem server_stops_handlers:
  assumes "reachable (\<lambda>s. s = server_new k) server_step s"
  shows "(\<forall>n. sv_phase s = Stopped n \<longrightarrow> \<not> accepts s \<and> (\<forall>t < n. f_done (sv_futures s ! t))) \<and>
    (\<forall>ts n. sv_phase s = Stopping ts n \<longrightarrow>
       (\<forall>t < n. \<not> f_done (sv_futures s ! t) \<longrightarrow> f_cancelling (sv_futures s ! t)))"
  using net_server.reachable_inv [OF assms] by (auto simp: server_inv_def phase_inv_def)

text \<open>
  A connection that is accepted while \<^verbatim>\<open>stop\<close> waits is not among those tasks: its handler can still
  run, uncancelled, when the server has been stopped.
\<close>

lemma late_connection_survives:
  "\<exists>s n. reachable (\<lambda>s. s = server_new TCP) server_step s \<and> sv_phase s = Stopped n \<and>
     length (sv_futures s) = 1 \<and> \<not> f_done (sv_futures s ! 0) \<and> \<not> f_cancelling (sv_futures s ! 0)"
proof -
  let ?s0 = "server_new TCP"
  let ?s1 = "snd (server_start (Inr ()) (Inr ()) (Inr ()) ?s0)"
  let ?s3 = "make_client_handler (server_stop ?s1)"
  let ?reach = "reachable (\<lambda>s. s = ?s0) server_step"
  note defs = server_new_def server_start_def server_endpoint_def server_stop_def task_store_stop_def
    cancel_tasks_def make_client_handler_def create_task_def accepts_def waiter_done_def
    server_close_def simple_server_close_def f_done_def
  have "?reach ?s0" by (rule reach_init) simp
  then have "?reach ?s1" by (rule reach_step) (rule sv_start [OF _ surjective_pairing], simp add: defs)
  then have "?reach (server_stop ?s1)" by (rule reach_step) (rule sv_stop, simp add: defs)
  then have "?reach ?s3" by (rule reach_step) (rule sv_accept, simp add: defs)
  then have "?reach (server_close 0 ?s3)"
    by (rule reach_step) (rule sv_close [where ts = "[]"]; simp add: defs)
  then show ?thesis by (intro exI [of _ "server_close 0 ?s3"] exI [of _ 0]) (simp add: defs)
qed

end
