(* ===== verification/Adapters.thy ===== *)
theory Adapters
  imports Recurring NetServices "HOL-Library.AList"
begin

text \<open>
  The services that adapt other packages, as far as they have logic of their own: the HTTP service
  (\<^verbatim>\<open>aiomisc/service/aiohttp.py\<close>), the gRPC service (\<^verbatim>\<open>grpc_server.py\<close>), the memory tracer and the
  Carbon sender (\<^verbatim>\<open>tracer.py\<close>, \<^verbatim>\<open>carbon.py\<close>), and the loading of plugins
  (\<^verbatim>\<open>aiomisc/plugins/__init__.py\<close>). What the packages do is the environment.
\<close>

section \<open>The HTTP service\<close>

text \<open>\<^verbatim>\<open>dict.setdefault\<close>: a key that is there keeps its value.\<close>

definition setdefault :: "'k \<Rightarrow> 'v \<Rightarrow> ('k \<rightharpoonup> 'v) \<Rightarrow> ('k \<rightharpoonup> 'v)" where
  "setdefault k v m = (if m k = None then m(k \<mapsto> v) else m)"

datatype runner_option = LoggerClass | LoggerFormat | Cancellation bool | UserOption nat

definition runner_kwargs :: "(string \<rightharpoonup> runner_option) \<Rightarrow> bool \<Rightarrow> (string \<rightharpoonup> runner_option)" where
  "runner_kwargs given handler_cancellation =
     setdefault ''handler_cancellation'' (Cancellation handler_cancellation)
       (setdefault ''access_log_format'' LoggerFormat
         (setdefault ''access_log_class'' LoggerClass given))"

record AIOHTTPService =
  ah_socket :: sock_source
  ah_shutdown_timeout :: int
  ah_runner_kwargs :: "string \<rightharpoonup> runner_option"
  ah_runner :: bool
  ah_site :: bool

definition AIOHTTPService_init ::
  "sock_arg \<Rightarrow> string option \<Rightarrow> int option \<Rightarrow> int \<Rightarrow> bool \<Rightarrow> (string \<rightharpoonup> runner_option) \<Rightarrow>
   AIOHTTPService result" where
  "AIOHTTPService_init s address port shutdown_timeout handler_cancellation given =
     (let make = (\<lambda>source. Inr
        \<lparr>ah_socket = source, ah_shutdown_timeout = shutdown_timeout,
         ah_runner_kwargs = runner_kwargs given handler_cancellation, ah_runner = False,
         ah_site = False\<rparr>)
      in case s of
           NoSock \<Rightarrow>
             (case (address, port) of
                (Some a, Some p) \<Rightarrow>
                  if a \<noteq> [] \<and> p \<noteq> 0 then make (BindSocket None a p [] (Some ''http''))
                  else Inl (RuntimeError ''You should pass socket instance or \"address\" and \"port\" couple'')
              | _ \<Rightarrow> Inl (RuntimeError ''You should pass socket instance or \"address\" and \"port\" couple''))
         | OtherSock \<Rightarrow> Inl (ValueError ''sock must be socket instance'')
         | SockObject \<Rightarrow> make GivenSocket)"

text \<open>
  \<^verbatim>\<open>start\<close>: the application, the runner and its set-up, the site and its start; each of them may
  raise. The calls that were made are recorded.
\<close>

datatype http_call = CreateApplication | RunnerSetup | SiteStart | SiteStop | RunnerCleanup

definition http_start ::
  "unit result \<Rightarrow> unit result \<Rightarrow> unit result \<Rightarrow> unit result \<Rightarrow> AIOHTTPService \<Rightarrow>
   http_call list \<times> unit result \<times> AIOHTTPService" where
  "http_start application runner_setup create_site site_start s =
     (if ah_runner s then ([], Inl (RuntimeError ''Can not start twice''), s)
      else case application of
        Inl e \<Rightarrow> ([CreateApplication], Inl e, s)
      | Inr _ \<Rightarrow>
          let s1 = s\<lparr>ah_runner := True\<rparr>
          in case runner_setup of
               Inl e \<Rightarrow> ([CreateApplication, RunnerSetup], Inl e, s1)
             | Inr _ \<Rightarrow>
                 (case create_site of
                    Inl e \<Rightarrow> ([CreateApplication, RunnerSetup], Inl e, s1)
                  | Inr _ \<Rightarrow>
                      let s2 = s1\<lparr>ah_site := True\<rparr>
                      in ([CreateApplication, RunnerSetup, SiteStart], site_start, s2)))"

text \<open>
  \<^verbatim>\<open>stop\<close>: the site, then in any case the runner, whose \<^verbatim>\<open>AttributeError\<close> is suppressed. Without a
  site the attribute is missing. An exception of the clean-up takes the place of one of the site.
\<close>

definition http_stop ::
  "unit result \<Rightarrow> unit result \<Rightarrow> AIOHTTPService \<Rightarrow> http_call list \<times> unit result" where
  "http_stop site_stop cleanup s =
     (let (calls, r) =
        (if ah_site s then ([SiteStop], site_stop)
         else ([], Inl (mk_exc [''AttributeError'', ''Exception'', ''BaseException''] [''site''])))
      in if ah_runner s
         then (calls @ [RunnerCleanup],
               case cleanup of
                 Inl e \<Rightarrow> if isinstance_exc e ''AttributeError'' then r else Inl e
               | Inr _ \<Rightarrow> r)
         else (calls, r))"

section \<open>The gRPC service\<close>

text \<open>Port futures by number; the address says whether credentials were given.\<close>

record GRPCService =
  gr_services :: "nat list"
  gr_insecure :: "(string \<times> nat) list"
  gr_secure :: "(string \<times> nat) list"
  gr_registered :: "string \<rightharpoonup> (string \<rightharpoonup> nat)"
  gr_futures :: "nat fut list"
  gr_reflection :: bool

definition GRPCService_init :: "bool \<Rightarrow> GRPCService" where
  "GRPCService_init with_reflection =
     \<lparr>gr_services = [], gr_insecure = [], gr_secure = [], gr_registered = Map.empty, gr_futures = [],
      gr_reflection = with_reflection\<rparr>"

definition add_insecure_port :: "string \<Rightarrow> GRPCService \<Rightarrow> nat \<times> GRPCService" where
  "add_insecure_port address g =
     (length (gr_futures g),
      g\<lparr>gr_insecure := gr_insecure g @ [(address, length (gr_futures g))],
        gr_futures := gr_futures g @ [Pending]\<rparr>)"

definition add_secure_port :: "string \<Rightarrow> GRPCService \<Rightarrow> nat \<times> GRPCService" where
  "add_secure_port address g =
     (length (gr_futures g),
      g\<lparr>gr_secure := gr_secure g @ [(address, length (gr_futures g))],
        gr_futures := gr_futures g @ [Pending]\<rparr>)"

definition add_generic_rpc_handlers :: "nat list \<Rightarrow> GRPCService \<Rightarrow> GRPCService" where
  "add_generic_rpc_handlers hs g = g\<lparr>gr_services := fold List.insert hs (gr_services g)\<rparr>"

definition add_registered_method_handlers :: "string \<Rightarrow> (string \<rightharpoonup> nat) \<Rightarrow> GRPCService \<Rightarrow> GRPCService" where
  "add_registered_method_handlers name handlers g =
     g\<lparr>gr_registered := (gr_registered g)(name \<mapsto>
        (case gr_registered g name of None \<Rightarrow> Map.empty | Some m \<Rightarrow> m) ++ handlers)\<rparr>"

text \<open>
  \<^verbatim>\<open>start\<close>: the ports are opened one after the other, in the order in which the sets are iterated,
  and each future gets its port; setting a future twice raises.
\<close>

fun open_ports ::
  "(string \<Rightarrow> nat result) \<Rightarrow> (string \<times> nat) list \<Rightarrow> nat fut list \<Rightarrow> unit result \<times> nat fut list" where
  "open_ports add_port [] fs = (Inr (), fs)"
| "open_ports add_port ((address, i) # ports) fs =
     (case add_port address of
        Inl e \<Rightarrow> (Inl e, fs)
      | Inr port \<Rightarrow>
          if fs ! i \<noteq> Pending then (Inl InvalidStateError, fs)
          else open_ports add_port ports (fs[i := Resolved (Inr port)]))"

definition grpc_start ::
  "(string \<Rightarrow> nat result) \<Rightarrow> (string \<Rightarrow> nat result) \<Rightarrow> GRPCService \<Rightarrow> unit result \<times> GRPCService" where
  "grpc_start add_insecure add_secure g =
     (case open_ports add_insecure (gr_insecure g) (gr_futures g) of
        (Inl e, fs) \<Rightarrow> (Inl e, g\<lparr>gr_futures := fs\<rparr>)
      | (Inr _, fs) \<Rightarrow>
          (case open_ports add_secure (gr_secure g) fs of
             (r, fs') \<Rightarrow> (r, g\<lparr>gr_futures := fs'\<rparr>)))"

text \<open>The names that the reflection service announces.\<close>

definition reflection_names :: "(nat \<Rightarrow> string) \<Rightarrow> string \<Rightarrow> GRPCService \<Rightarrow> string list" where
  "reflection_names service_name reflection_name g =
     (if gr_reflection g then map service_name (gr_services g) @ [reflection_name] else [])"

section \<open>Memory tracer and Carbon sender\<close>

text \<open>The unit that \<^verbatim>\<open>humanize\<close> chooses and the number it prints with it.\<close>

fun humanize_loop :: "string list \<Rightarrow> number \<Rightarrow> number \<times> string" where
  "humanize_loop [] num = (num, ''Yi'')"
| "humanize_loop (u # us) num = (if \<bar>num\<bar> < 1024 then (num, u) else humanize_loop us (num / 1024))"

definition humanize :: "number \<Rightarrow> number \<times> string" where
  "humanize = humanize_loop ['''', ''Ki'', ''Mi'', ''Gi'', ''Ti'', ''Pi'', ''Ei'', ''Zi'']"

text \<open>\<^verbatim>\<open>log_diff\<close> shows a heading and the first differences.\<close>

definition log_diff :: "('d \<Rightarrow> string) \<Rightarrow> string \<Rightarrow> nat \<Rightarrow> 'd list \<Rightarrow> string" where
  "log_diff line heading top_results diff = heading @ concat (map line (take top_results diff))"

text \<open>
  \<^verbatim>\<open>strip_carbon_ns\<close>: runs of characters other than word characters and hyphens become one
  underscore, then the underscores at the ends go and letters become small. Only ASCII is considered.
\<close>

definition char_in :: "char \<Rightarrow> char \<Rightarrow> char \<Rightarrow> bool" where
  "char_in lo hi c \<longleftrightarrow> (of_char lo :: nat) \<le> of_char c \<and> (of_char c :: nat) \<le> of_char hi"

definition carbon_char :: "char \<Rightarrow> bool" where
  "carbon_char c \<longleftrightarrow>
     char_in CHR ''a'' CHR ''z'' c \<or> char_in CHR ''A'' CHR ''Z'' c \<or> char_in CHR ''0'' CHR ''9'' c \<or>
     c = CHR ''_'' \<or> c = CHR ''-''"

fun sub_runs :: "bool \<Rightarrow> string \<Rightarrow> string" where
  "sub_runs in_run [] = []"
| "sub_runs in_run (c # cs) =
     (if carbon_char c then c # sub_runs False cs
      else if in_run then sub_runs True cs
      else CHR ''_'' # sub_runs True cs)"

definition strip_carbon_ns :: "string \<Rightarrow> string" where
  "strip_carbon_ns s = py_lower (py_strip CHR ''_'' (sub_runs False s))"

definition carbon_namespace :: "string list \<Rightarrow> string" where
  "carbon_namespace ns = py_join ''.'' (map strip_carbon_ns ns)"

section \<open>Plugins\<close>

text \<open>
  \<^verbatim>\<open>setup_plugins\<close>: the entry points of the two groups are loaded in order, a later one replacing an
  earlier one of the same name and failing ones being skipped; then every plugin is set up, and the first
  failure is raised.
\<close>

fun load_plugins :: "('e \<Rightarrow> 'p result) \<Rightarrow> (string \<times> 'e) list \<Rightarrow> (string \<times> 'p) list \<Rightarrow> (string \<times> 'p) list" where
  "load_plugins load [] plugins = plugins"
| "load_plugins load ((name, e) # es) plugins =
     (case load e of
        Inl _ \<Rightarrow> load_plugins load es plugins
      | Inr p \<Rightarrow> load_plugins load es (AList.update name p plugins))"

fun run_setups :: "('p \<Rightarrow> unit result) \<Rightarrow> (string \<times> 'p) list \<Rightarrow> string list \<times> unit result" where
  "run_setups run [] = ([], Inr ())"
| "run_setups run ((name, p) # ps) =
     (case run p of
        Inl e \<Rightarrow> ([name], Inl e)
      | Inr _ \<Rightarrow> (let (names, r) = run_setups run ps in (name # names, r)))"

definition setup_plugins ::
  "string option \<Rightarrow> ('e \<Rightarrow> 'p result) \<Rightarrow> ('p \<Rightarrow> unit result) \<Rightarrow> (string \<times> 'e) list \<Rightarrow> (string \<times> 'e) list \<Rightarrow>
   (string \<times> 'p) list result" where
  "setup_plugins no_plugins load run group1 group2 =
     (if no_plugins \<noteq> None \<and> no_plugins \<noteq> Some [] then Inr []
      else let plugins = load_plugins load (group1 @ group2) []
           in bind_result (snd (run_setups run plugins)) (\<lambda>_. Inr plugins))"

section \<open>Properties\<close>

text \<open>Options that the user gives for the runner win over the defaults, and the defaults are there.\<close>

lemma runner_kwargs_lookup:
  "runner_kwargs given c k =
     (case given k of
        Some v \<Rightarrow> Some v
      | None \<Rightarrow>
          if k = ''access_log_class'' then Some LoggerClass
          else if k = ''access_log_format'' then Some LoggerFormat
          else if k = ''handler_cancellation'' then Some (Cancellation c) else None)"
  by (auto simp: runner_kwargs_def setdefault_def split: option.splits)

text \<open>
  The HTTP service starts once, and a started one cleans up its runner whatever stopping the site
  raises; when the start failed before the site was made, the runner is cleaned up as well, but
  \<^verbatim>\<open>stop\<close> raises an \<^verbatim>\<open>AttributeError\<close>.
\<close>

lemma http_lifecycle:
  assumes "\<not> ah_runner s" "\<not> ah_site s" "http_start app prep site start s = (calls, r, s')"
  shows "app = Inr () \<Longrightarrow>
      http_start app' prep' site' start' s' = ([], Inl (RuntimeError ''Can not start twice''), s')"
    and "app = Inr () \<Longrightarrow> RunnerCleanup \<in> set (fst (http_stop ss cl s'))"
    and "r = Inr () \<Longrightarrow> http_stop ss (Inr ()) s' = ([SiteStop, RunnerCleanup], ss)"
    and "prep = Inl e \<Longrightarrow> isl (snd (http_stop ss cl s'))"
  using assms
  by (auto simp: http_start_def http_stop_def Let_def split: sum.splits if_splits)

text \<open>
  When the gRPC service starts, every port future it has given out is resolved with the port of its
  address.
\<close>

definition ports_ok :: "GRPCService \<Rightarrow> bool" where
  "ports_ok g \<longleftrightarrow>
     distinct (map snd (gr_insecure g @ gr_secure g)) \<and>
     set (map snd (gr_insecure g @ gr_secure g)) = {..<length (gr_futures g)} \<and>
     (\<forall>f \<in> set (gr_futures g). f = Pending)"

lemma ports_ok_add:
  assumes "ports_ok g"
  shows "ports_ok (snd (add_insecure_port a g))" "ports_ok (snd (add_secure_port a g))"
  using assms
  by (auto simp: ports_ok_def add_insecure_port_def add_secure_port_def lessThan_Suc)

lemma open_ports_result:
  assumes "distinct (map snd ports)" "\<forall>(a, i) \<in> set ports. i < length fs \<and> fs ! i = Pending"
    and "\<forall>(a, i) \<in> set ports. \<exists>p. add_port a = Inr p"
  shows "\<exists>fs'. open_ports add_port ports fs = (Inr (), fs') \<and> length fs' = length fs \<and>
    (\<forall>(a, i) \<in> set ports. fs' ! i = Resolved (add_port a)) \<and>
    (\<forall>i. i \<notin> snd ` set ports \<longrightarrow> fs' ! i = fs ! i)"
  using assms
proof (induction ports arbitrary: fs)
  case Nil
  then show ?case by simp
next
  case (Cons ai ports)
  obtain a i where ai: "ai = (a, i)" by (cases ai)
  with Cons.prems(3) obtain p where p: "add_port a = Inr p" by auto
  let ?fs = "fs[i := Resolved (Inr p)]"
  have i: "i < length fs" "fs ! i = Pending" "i \<notin> snd ` set ports" using Cons.prems(1,2) ai by auto
  have "\<forall>(a, j) \<in> set ports. j < length ?fs \<and> ?fs ! j = Pending"
  proof (clarify)
    fix b j assume "(b, j) \<in> set ports"
    moreover from this have "j \<noteq> i" using i(3) by force
    ultimately show "j < length ?fs \<and> ?fs ! j = Pending" using Cons.prems(2) by auto
  qed
  from Cons.IH [OF _ this] Cons.prems(1,3) ai obtain fs' where
    fs': "open_ports add_port ports ?fs = (Inr (), fs')" "length fs' = length ?fs"
      "\<forall>(a, j) \<in> set ports. fs' ! j = Resolved (add_port a)"
      "\<forall>j. j \<notin> snd ` set ports \<longrightarrow> fs' ! j = ?fs ! j" by auto
  have "fs' ! i = Resolved (Inr p)" using fs'(4) i by simp
  with fs' i p ai show ?case by (intro exI [of _ fs']) (auto simp: nth_list_update)
qed

theorem grpc_ports_resolved:
  assumes "ports_ok g" "\<forall>a. \<exists>p. insecure a = Inr p" "\<forall>a. \<exists>p. secure a = Inr p"
    and "grpc_start insecure secure g = (r, g')"
  shows "r = Inr () \<and> (\<forall>(a, i) \<in> set (gr_insecure g). gr_futures g' ! i = Resolved (insecure a)) \<and>
    (\<forall>(a, i) \<in> set (gr_secure g). gr_futures g' ! i = Resolved (secure a))"
proof -
  let ?I = "gr_insecure g" and ?S = "gr_secure g" and ?fs = "gr_futures g"
  have ids: "distinct (map snd ?I)" "distinct (map snd ?S)" "snd ` set ?I \<inter> snd ` set ?S = {}"
    using assms(1) by (auto simp: ports_ok_def)
  have pend: "i < length ?fs \<and> ?fs ! i = Pending" if "i \<in> snd ` set ?I \<union> snd ` set ?S" for i
    using assms(1) that by (auto simp: ports_ok_def)
  from open_ports_result [OF ids(1), of ?fs insecure] pend assms(2) obtain fs1 where
    fs1: "open_ports insecure ?I ?fs = (Inr (), fs1)" "length fs1 = length ?fs"
      "\<forall>(a, i) \<in> set ?I. fs1 ! i = Resolved (insecure a)"
      "\<forall>i. i \<notin> snd ` set ?I \<longrightarrow> fs1 ! i = ?fs ! i" by force
  have "\<forall>(a, i) \<in> set ?S. i < length fs1 \<and> fs1 ! i = Pending"
    using fs1(2,4) pend ids(3) by force
  from open_ports_result [OF ids(2) this, of secure] assms(3) obtain fs2 where
    fs2: "open_ports secure ?S fs1 = (Inr (), fs2)"
      "\<forall>(a, i) \<in> set ?S. fs2 ! i = Resolved (secure a)"
      "\<forall>i. i \<notin> snd ` set ?S \<longrightarrow> fs2 ! i = fs1 ! i" by auto
  have "fs2 ! i = Resolved (insecure a)" if "(a, i) \<in> set ?I" for a i
  proof -
    have "i \<notin> snd ` set ?S" using that ids(3) by force
    then show ?thesis using fs2(3) fs1(3) that by auto
  qed
  then show ?thesis using assms(4) fs1(1) fs2(1,2) by (auto simp: grpc_start_def)
qed

text \<open>The printed number times its unit is the given number, and it is below 1024 but for the last unit.\<close>

definition unit_names :: "string list" where
  "unit_names = ['''', ''Ki'', ''Mi'', ''Gi'', ''Ti'', ''Pi'', ''Ei'', ''Zi'', ''Yi'']"

lemma humanize_loop_scale:
  "humanize_loop us num = (x, u) \<Longrightarrow>
     (\<exists>k \<le> length us. u = (us @ [''Yi'']) ! k \<and> x * 1024 ^ k = num \<and> (k < length us \<longrightarrow> \<bar>x\<bar> < 1024))"
proof (induction us arbitrary: num)
  case Nil
  then show ?case by simp
next
  case (Cons v us)
  show ?case
  proof (cases "\<bar>num\<bar> < 1024")
    case True
    with Cons.prems show ?thesis by (intro exI [of _ 0]) simp
  next
    case False
    with Cons.prems have "humanize_loop us (num / 1024) = (x, u)" by simp
    from Cons.IH [OF this] obtain k where
      "k \<le> length us" "u = (us @ [''Yi'']) ! k" "x * 1024 ^ k = num / 1024"
      "k < length us \<longrightarrow> \<bar>x\<bar> < 1024" by blast
    then show ?thesis by (intro exI [of _ "Suc k"]) (simp add: field_simps)
  qed
qed

theorem humanize_scale:
  assumes "humanize num = (x, u)"
  shows "\<exists>k \<le> 8. u = unit_names ! k \<and> x * 1024 ^ k = num \<and> (k < 8 \<longrightarrow> \<bar>x\<bar> < 1024)"
  using humanize_loop_scale [OF assms [unfolded humanize_def]]
  by (simp add: unit_names_def eval_nat_numeral)

lemma load_plugins_lookup:
  "map_of (load_plugins load es ps) n =
     or_else (map_of (rev (concat (map (\<lambda>(k, e). case load e of Inl _ \<Rightarrow> [] | Inr p \<Rightarrow> [(k, p)]) es))) n)
       (map_of ps n)"
proof (induction load es ps rule: load_plugins.induct)
  case (1 load ps)
  then show ?case by simp
next
  case (2 load name e es ps)
  then show ?case
    by (cases "load e") (auto simp: AList.update_conv' map_add_def or_else_def split: option.splits)
qed

lemma py_strip_set: "set (py_strip c s) \<subseteq> set s"
  by (auto simp: py_strip_def dest!: set_dropWhileD)

text \<open>A namespace part has small letters, digits, underscores and hyphens only.\<close>

lemma sub_runs_chars: "c \<in> set (sub_runs b s) \<Longrightarrow> carbon_char c"
proof (induction b s rule: sub_runs.induct)
  case (1 b)
  then show ?case by simp
next
  case (2 b x xs)
  have "carbon_char CHR ''_''" by (simp add: carbon_char_def)
  with 2 show ?case by (auto split: if_splits)
qed

lemma lower_char_small: "\<not> char_in CHR ''A'' CHR ''Z'' (lower_char c)"
proof (cases "char_in CHR ''A'' CHR ''Z'' c")
  case True
  then have "(of_char c :: nat) + 32 < 256" "(90 :: nat) < of_char c + 32" by (simp_all add: char_in_def)
  then show ?thesis using True by (simp add: lower_char_def char_in_def)
next
  case False
  then show ?thesis by (simp add: lower_char_def char_in_def)
qed

lemma carbon_ns_chars:
  assumes "c \<in> set (strip_carbon_ns s)"
  shows "(\<exists>d. carbon_char d \<and> c = lower_char d) \<and> \<not> char_in CHR ''A'' CHR ''Z'' c"
proof -
  from assms obtain d where d: "d \<in> set (py_strip CHR ''_'' (sub_runs False s))" "c = lower_char d"
    by (auto simp: strip_carbon_ns_def py_lower_def)
  with py_strip_set have "d \<in> set (sub_runs False s)" by blast
  from sub_runs_chars [OF this] d(2) lower_char_small show ?thesis by blast
qed

end
