(* ===== verification/WebServices.thy ===== *)
theory WebServices
  imports Adapters ServiceBase
begin

text \<open>
  The services for web applications: the site and the runner of the HTTP service and the HTTPS
  service (\<^verbatim>\<open>aiomisc/service/aiohttp.py\<close>), the ASGI services (\<^verbatim>\<open>aiomisc/service/asgi.py\<close>) and the
  service for uvicorn (\<^verbatim>\<open>aiomisc/service/uvicorn.py\<close>). What aiohttp, aiohttp-asgi and uvicorn do is
  given as the results of the calls made to them.
\<close>

section \<open>Sites and runners\<close>

text \<open>
  \<^verbatim>\<open>create_site\<close> of the HTTP service. \<^verbatim>\<open>make_runner\<close> passes the timeout beside the options of the user,
  which Python refuses when they hold a timeout too.
\<close>

definition create_site :: "AIOHTTPService \<Rightarrow> sock_source result" where
  "create_site s =
     (if \<not> ah_runner s then Inl (RuntimeError ''runner already created'') else Inr (ah_socket s))"

definition make_runner ::
  "'app \<Rightarrow> AIOHTTPService \<Rightarrow> ('app \<times> int \<times> (string \<rightharpoonup> runner_option)) result" where
  "make_runner application s =
     (if ''shutdown_timeout'' \<in> dom (ah_runner_kwargs s)
      then Inl (TypeError ''got multiple values for keyword argument'')
      else Inr (application, ah_shutdown_timeout s, ah_runner_kwargs s))"

section \<open>The HTTPS service\<close>

record AIOHTTPSSLService =
  hs_base :: AIOHTTPService
  hs_ssl_options :: SSLOptions

definition DEFAULT_SSL_MIN_VERSION :: tls_version where
  "DEFAULT_SSL_MIN_VERSION = TLSv1_3"

definition DEFAULT_SSL_MAX_VERSION :: tls_version where
  "DEFAULT_SSL_MAX_VERSION = TLSv1_3"

definition AIOHTTPSSLService_init ::
  "string \<Rightarrow> string \<Rightarrow> string option \<Rightarrow> string option \<Rightarrow> int option \<Rightarrow> bool \<Rightarrow> sock_arg \<Rightarrow> int \<Rightarrow> bool \<Rightarrow>
   bool \<Rightarrow> (string \<rightharpoonup> runner_option) \<Rightarrow> AIOHTTPSSLService result" where
  "AIOHTTPSSLService_init cert key ca address port verify sock shutdown_timeout require_client_cert
       handler_cancellation given =
     bind_result (AIOHTTPService_init sock address port shutdown_timeout handler_cancellation given)
       (\<lambda>s. Inr \<lparr>hs_base = s, hs_ssl_options =
          SSLOptions_init (Some cert) (Some key) ca verify require_client_cert CLIENT_AUTH
            DEFAULT_SSL_MIN_VERSION DEFAULT_SSL_MAX_VERSION DEFAULT_SSL_CIPHERS\<rparr>)"

text \<open>
  \<^verbatim>\<open>create_site\<close> makes the context in the executor; the parameters say what the files hold.
\<close>

definition ssl_create_site ::
  "(string \<Rightarrow> bool) \<Rightarrow> (string \<Rightarrow> unit result) \<Rightarrow> (string \<Rightarrow> string \<Rightarrow> unit result) \<Rightarrow> AIOHTTPSSLService \<Rightarrow>
   (sock_source \<times> ssl_context) result" where
  "ssl_create_site exists load_ca load_chain s =
     (if \<not> ah_runner (hs_base s) then Inl (AssertionError [])
      else bind_result (create_context exists load_ca load_chain (hs_ssl_options s))
             (\<lambda>c. Inr (ah_socket (hs_base s), c)))"

text \<open>
  \<^verbatim>\<open>start\<close> as both services inherit it, with the runner of \<^const>\<open>make_runner\<close> and a site made when
  the runner is there. The last component is the site that was made.
\<close>

definition site_of :: "'site result \<Rightarrow> AIOHTTPService \<Rightarrow> 'site option" where
  "site_of site s = (if ah_site s then (case site of Inr a \<Rightarrow> Some a | Inl _ \<Rightarrow> None) else None)"

definition start_with ::
  "'site result \<Rightarrow> 'app result \<Rightarrow> unit result \<Rightarrow> unit result \<Rightarrow> AIOHTTPService \<Rightarrow>
   http_call list \<times> unit result \<times> AIOHTTPService \<times> 'site option" where
  "start_with site application runner_setup site_start s =
     (let runner = bind_result application (\<lambda>app. bind_result (make_runner app s) (\<lambda>_. Inr ()));
          (calls, r, s1) = http_start runner runner_setup (bind_result site (\<lambda>_. Inr ())) site_start s
      in (calls, r, s1, site_of site s1))"

definition http_service_start ::
  "'app result \<Rightarrow> unit result \<Rightarrow> unit result \<Rightarrow> AIOHTTPService \<Rightarrow>
   http_call list \<times> unit result \<times> AIOHTTPService \<times> sock_source option" where
  "http_service_start application runner_setup site_start s =
     start_with (create_site (s\<lparr>ah_runner := True\<rparr>)) application runner_setup site_start s"

definition https_service_start ::
  "(string \<Rightarrow> bool) \<Rightarrow> (string \<Rightarrow> unit result) \<Rightarrow> (string \<Rightarrow> string \<Rightarrow> unit result) \<Rightarrow>
   'app result \<Rightarrow> unit result \<Rightarrow> unit result \<Rightarrow> AIOHTTPSSLService \<Rightarrow>
   http_call list \<times> unit result \<times> AIOHTTPSSLService \<times> (sock_source \<times> ssl_context) option" where
  "https_service_start exists load_ca load_chain application runner_setup site_start s =
     (let (calls, r, b, site) =
        start_with (ssl_create_site exists load_ca load_chain (s\<lparr>hs_base := (hs_base s)\<lparr>ah_runner := True\<rparr>\<rparr>))
          application runner_setup site_start (hs_base s)
      in (calls, r, s\<lparr>hs_base := b\<rparr>, site))"

section \<open>ASGI applications\<close>

text \<open>
  The aiohttp application that \<^verbatim>\<open>_create_app\<close> builds around an ASGI application, and
  \<^verbatim>\<open>create_application\<close> of the two ASGI services.
\<close>

record 'a Application =
  ap_resources :: "('a \<times> string) list"
  ap_lifespans :: "'a list"

definition create_app :: "'a \<Rightarrow> 'a Application" where
  "create_app asgi_app =
     (let app = \<lparr>ap_resources = [], ap_lifespans = []\<rparr>;
          app = app\<lparr>ap_resources := ap_resources app @ [(asgi_app, ''/'')]\<rparr>
      in app\<lparr>ap_lifespans := ap_lifespans app @ [asgi_app]\<rparr>)"

definition NotImplementedError :: "string \<Rightarrow> pyexc" where
  "NotImplementedError m =
     mk_exc [''NotImplementedError'', ''RuntimeError'', ''Exception'', ''BaseException''] [m]"

definition base_create_asgi_app :: "'a result" where
  "base_create_asgi_app = Inl (NotImplementedError ''You must implement \"create_asgi_app\" method'')"

definition asgi_create_application :: "'a result \<Rightarrow> 'a Application result" where
  "asgi_create_application create_asgi_app = bind_result create_asgi_app (\<lambda>a. Inr (create_app a))"

section \<open>Uvicorn\<close>

text \<open>
  Attributes of the service: the values its class declares and whatever the user passes. A socket is
  an object, which counts as true.
\<close>

datatype uv_value = UNone | UBool bool | UInt int | UNumber number | UStr string | UObject nat

fun uv_true :: "uv_value \<Rightarrow> bool" where
  "uv_true UNone = False"
| "uv_true (UBool b) = b"
| "uv_true (UInt i) = (i \<noteq> 0)"
| "uv_true (UNumber x) = (x \<noteq> 0)"
| "uv_true (UStr s) = (s \<noteq> [])"
| "uv_true (UObject _) = True"

definition uvicorn_attributes :: "uv_value \<Rightarrow> (string \<times> uv_value) list" where
  "uvicorn_attributes SSL_PROTOCOL_VERSION =
     [(''sock'', UNone), (''host'', UStr ''127.0.0.1''), (''port'', UInt 8080), (''uds'', UNone),
      (''fd'', UNone), (''http'', UStr ''auto''), (''ws'', UStr ''auto''),
      (''ws_max_size'', UInt (16 * 1024 * 1024)), (''ws_ping_interval'', UNumber 20),
      (''ws_ping_timeout'', UNumber 20), (''ws_per_message_deflate'', UBool True),
      (''lifespan'', UStr ''auto''), (''access_log'', UBool True), (''interface'', UStr ''auto''),
      (''proxy_headers'', UBool True), (''server_header'', UBool True), (''date_header'', UBool True),
      (''forwarded_allow_ips'', UNone), (''root_path'', UStr []), (''limit_concurrency'', UNone),
      (''limit_max_requests'', UNone), (''backlog'', UInt 2048), (''timeout_keep_alive'', UInt 5),
      (''timeout_notify'', UInt 30), (''timeout_graceful_shutdown'', UNone),
      (''callback_notify'', UNone), (''ssl_keyfile'', UNone), (''ssl_certfile'', UNone),
      (''ssl_keyfile_password'', UNone), (''ssl_version'', SSL_PROTOCOL_VERSION),
      (''ssl_cert_reqs'', UInt 0), (''ssl_ca_certs'', UNone), (''ssl_ciphers'', UStr ''TLSv1''),
      (''headers'', UNone), (''factory'', UBool False), (''h11_max_incomplete_event_size'', UNone)]"

text \<open>The names of the keyword arguments that \<^verbatim>\<open>start\<close> takes from the attributes, in its order.\<close>

definition config_names :: "string list" where
  "config_names =
     [''host'', ''port'', ''uds'', ''fd'', ''http'', ''ws'', ''ws_max_size'', ''ws_ping_interval'',
      ''ws_ping_timeout'', ''ws_per_message_deflate'', ''lifespan'', ''access_log'', ''interface'',
      ''proxy_headers'', ''server_header'', ''date_header'', ''forwarded_allow_ips'', ''root_path'',
      ''limit_concurrency'', ''limit_max_requests'', ''backlog'', ''timeout_keep_alive'',
      ''timeout_notify'', ''timeout_graceful_shutdown'', ''callback_notify'', ''ssl_keyfile'',
      ''ssl_certfile'', ''ssl_keyfile_password'', ''ssl_version'', ''ssl_cert_reqs'', ''ssl_ca_certs'',
      ''ssl_ciphers'', ''headers'', ''factory'', ''h11_max_incomplete_event_size'']"

fun read_attributes :: "string list \<Rightarrow> 'v Service \<Rightarrow> (string \<times> 'v) list result" where
  "read_attributes [] s = Inr []"
| "read_attributes (n # ns) s =
     bind_result (service_getattr n s)
       (\<lambda>v. bind_result (read_attributes ns s) (\<lambda>kvs. Inr ((n, v) # kvs)))"

definition uvicorn_config :: "uv_value Service \<Rightarrow> (string \<times> uv_value) list result" where
  "uvicorn_config s =
     bind_result (read_attributes config_names s)
       (\<lambda>kvs. Inr (kvs @ [(''log_config'', UNone), (''use_colors'', UBool False)]))"

text \<open>
  The server and the task that serves it: the configuration it was made with, its sockets, the flag
  \<^verbatim>\<open>should_exit\<close> and the future of the task.
\<close>

record uv_server =
  us_config :: "(string \<times> uv_value) list"
  us_sockets :: "uv_value list"
  us_should_exit :: bool
  us_task :: "unit fut"

record UvicornService =
  uv_service :: "uv_value Service"
  uv_servers :: "uv_server list"
  uv_server :: "nat option"

definition UvicornService_init :: "uv_value \<Rightarrow> (string \<times> uv_value) list \<Rightarrow> UvicornService result" where
  "UvicornService_init version kwargs =
     bind_result
       (Service_init [] kwargs (Service_new\<lparr>sv_attributes := map_of (uvicorn_attributes version)\<rparr>))
       (\<lambda>s. Inr \<lparr>uv_service = s, uv_servers = [], uv_server = None\<rparr>)"

text \<open>
  \<^verbatim>\<open>start\<close>, given what making the application, the configuration and a socket do. The second component
  says whether a socket was bound.
\<close>

definition uvicorn_start ::
  "unit result \<Rightarrow> ((string \<times> uv_value) list \<Rightarrow> unit result) \<Rightarrow> nat result \<Rightarrow> UvicornService \<Rightarrow>
   unit result \<times> bool \<times> UvicornService" where
  "uvicorn_start application make_config bound s =
     (case bind_result application (\<lambda>_. bind_result (uvicorn_config (uv_service s))
             (\<lambda>kw. bind_result (make_config kw) (\<lambda>_.
                bind_result (service_getattr ''sock'' (uv_service s)) (\<lambda>v. Inr (kw, v))))) of
        Inl e \<Rightarrow> (Inl e, False, s)
      | Inr (kw, v) \<Rightarrow>
          (let serve = (\<lambda>sock s. s\<lparr>uv_server := Some (length (uv_servers s)),
             uv_servers := uv_servers s @
               [\<lparr>us_config = kw, us_sockets = [sock], us_should_exit = False, us_task = Pending\<rparr>]\<rparr>)
           in if uv_true v then (Inr (), False, serve v s)
              else case bound of
                     Inl e \<Rightarrow> (Inl e, True, s)
                   | Inr n \<Rightarrow>
                       (Inr (), True,
                        serve (UObject n) (s\<lparr>uv_service := service_setattr ''sock'' (UObject n) (uv_service s)\<rparr>))))"

text \<open>
  \<^verbatim>\<open>stop\<close> up to its await: the server is told to exit and its task is waited for. Without a server
  the attribute is missing.
\<close>

definition uvicorn_stop :: "UvicornService \<Rightarrow> nat result \<times> UvicornService" where
  "uvicorn_stop s =
     (case uv_server s of
        None \<Rightarrow> (Inl (AttributeError ''server''), s)
      | Some i \<Rightarrow> (Inr i, s\<lparr>uv_servers := (uv_servers s)[i := (uv_servers s ! i)\<lparr>us_should_exit := True\<rparr>]\<rparr>))"

text \<open>
  uvicorn's \<^verbatim>\<open>serve\<close> ends: because it was told to, or by itself when it fails or a limit of requests
  is reached.
\<close>

definition serve_ends :: "nat \<Rightarrow> unit result \<Rightarrow> UvicornService \<Rightarrow> UvicornService" where
  "serve_ends i r s = s\<lparr>uv_servers := (uv_servers s)[i := (uv_servers s ! i)\<lparr>us_task := Resolved r\<rparr>]\<rparr>"

section \<open>Sites\<close>

lemma start_with_result:
  assumes "\<not> ah_runner s" "\<not> ah_site s"
  shows "start_with site app prep start s = (calls, Inr (), s', x) \<Longrightarrow>
      \<exists>a. site = Inr a \<and> x = Some a \<and> calls = [CreateApplication, RunnerSetup, SiteStart] \<and>
        s' = s\<lparr>ah_runner := True, ah_site := True\<rparr>"
    and "\<lbrakk>site = Inl e; app = Inr a; prep = Inr (); ''shutdown_timeout'' \<notin> dom (ah_runner_kwargs s)\<rbrakk> \<Longrightarrow>
      start_with site app prep start s =
        ([CreateApplication, RunnerSetup], Inl e, s\<lparr>ah_runner := True\<rparr>, None)"
  using assms
  by (auto simp: start_with_def http_start_def site_of_def make_runner_def Let_def bind_result_Inr_iff
      split: sum.splits if_splits)

lemma https_init_state:
  assumes "AIOHTTPSSLService_init cert key ca address port verify sock timeout require hc given = Inr s"
  shows "\<not> ah_runner (hs_base s)" "\<not> ah_site (hs_base s)"
    "ah_runner_kwargs (hs_base s) = runner_kwargs given hc"
    "hs_ssl_options s = TLSServer_options cert key ca require verify TLSv1_3 TLSv1_3 DEFAULT_SSL_CIPHERS"
  using assms
  by (auto simp: AIOHTTPSSLService_init_def AIOHTTPService_init_def bind_result_Inr_iff Let_def
      TLSServer_options_def DEFAULT_SSL_MIN_VERSION_def DEFAULT_SSL_MAX_VERSION_def
      split: sock_arg.splits option.splits if_splits)

lemma https_start_parts:
  assumes "https_service_start ex lca lch app prep start s = (calls, r, s', site)"
  shows "start_with (ssl_create_site ex lca lch (s\<lparr>hs_base := (hs_base s)\<lparr>ah_runner := True\<rparr>\<rparr>)) app prep start
    (hs_base s) = (calls, r, hs_base s', site)"
  using assms by (auto simp: https_service_start_def Let_def split: prod.splits)

lemma https_context_chain:
  assumes "AIOHTTPSSLService_init cert key ca address port verify sock timeout require hc given = Inr s"
    and "cert \<noteq> []" "key \<noteq> []" "create_context ex lca lch (hs_ssl_options s) = Inr c"
  shows "cx_chain c = Some (cert, key)"
  using assms(2-4)
  by (auto simp: https_init_state [OF assms(1)] create_context_def bind_result_Inr_iff context_chain_def
      TLSServer_options_def SSLOptions_init_def path_of_def)

lemma https_context_fails:
  assumes init: "AIOHTTPSSLService_init cert key ca address port verify sock timeout require hc given = Inr s"
    and "given ''shutdown_timeout'' = None"
    and start: "https_service_start ex lca lch app prep start s = (calls, r, s', site)"
    and e: "app = Inr a" "prep = Inr ()" "create_context ex lca lch (hs_ssl_options s) = Inl e"
  shows "calls = [CreateApplication, RunnerSetup] \<and> r = Inl e \<and>
    hs_base s' = (hs_base s)\<lparr>ah_runner := True\<rparr> \<and> site = None"
proof -
  let ?s1 = "s\<lparr>hs_base := (hs_base s)\<lparr>ah_runner := True\<rparr>\<rparr>"
  note i = https_init_state [OF init]
  have "ssl_create_site ex lca lch ?s1 = Inl e" using e by (simp add: ssl_create_site_def)
  moreover have "''shutdown_timeout'' \<notin> dom (ah_runner_kwargs (hs_base s))"
    using assms(2) by (simp add: i domIff runner_kwargs_lookup)
  ultimately have "start_with (ssl_create_site ex lca lch ?s1) app prep start (hs_base s) =
      ([CreateApplication, RunnerSetup], Inl e, (hs_base s)\<lparr>ah_runner := True\<rparr>, None)"
    using e by (intro start_with_result(2) [OF i(1,2)]) simp_all
  with https_start_parts [OF start] show ?thesis by simp
qed

text \<open>
  A started HTTPS service serves its socket over TLS 1.3 with its own certificate and asks for client
  certificates exactly when it was told to, and stopping it stops the site and then cleans the runner
  up. When the certificates cannot be loaded, no site is started and the start raises the error; the
  stop that follows cleans the runner up and raises \<^verbatim>\<open>AttributeError\<close>.
\<close>

theorem https_service:
  assumes "AIOHTTPSSLService_init cert key ca address port verify sock timeout require hc given = Inr s"
    and "cert \<noteq> []" "key \<noteq> []" "given ''shutdown_timeout'' = None"
    and "https_service_start ex lca lch app prep start s = (calls, r, s', site)"
  shows "(r = Inr () \<longrightarrow>
      calls = [CreateApplication, RunnerSetup, SiteStart] \<and>
      (\<exists>c. site = Some (ah_socket (hs_base s), c) \<and> cx_chain c = Some (cert, key) \<and>
        (cx_verify_mode c = CERT_REQUIRED \<longleftrightarrow> require) \<and> cx_minimum_version c = TLSv1_3) \<and>
      (\<forall>ss. http_stop ss (Inr ()) (hs_base s') = ([SiteStop, RunnerCleanup], ss))) \<and>
    (\<forall>e. app = Inr a \<and> prep = Inr () \<and> create_context ex lca lch (hs_ssl_options s) = Inl e \<longrightarrow>
      r = Inl e \<and> site = None \<and> SiteStart \<notin> set calls \<and>
      (\<forall>ss. \<exists>e'. http_stop ss (Inr ()) (hs_base s') = ([RunnerCleanup], Inl e') \<and>
        isinstance_exc e' ''AttributeError''))"
proof (intro conjI impI allI)
  note init = https_init_state [OF assms(1)]
  let ?s1 = "s\<lparr>hs_base := (hs_base s)\<lparr>ah_runner := True\<rparr>\<rparr>"
  {
    assume r: "r = Inr ()"
    obtain a where site: "ssl_create_site ex lca lch ?s1 = Inr a" "site = Some a"
      and calls: "calls = [CreateApplication, RunnerSetup, SiteStart]"
      and b: "hs_base s' = (hs_base s)\<lparr>ah_runner := True, ah_site := True\<rparr>"
      using start_with_result(1) [OF init(1,2) https_start_parts [OF assms(5), unfolded r]] by blast
    obtain c where c: "create_context ex lca lch (hs_ssl_options s) = Inr c"
        "a = (ah_socket (hs_base s), c)"
      using site(1) by (auto simp: ssl_create_site_def bind_result_Inr_iff)
    show "calls = [CreateApplication, RunnerSetup, SiteStart]" by (rule calls)
    show "\<exists>c. site = Some (ah_socket (hs_base s), c) \<and> cx_chain c = Some (cert, key) \<and>
        (cx_verify_mode c = CERT_REQUIRED \<longleftrightarrow> require) \<and> cx_minimum_version c = TLSv1_3"
      using c https_context_chain [OF assms(1-3) c(1)] site(2) create_context_verification [OF c(1)]
      by (auto simp: init TLSServer_options_def SSLOptions_init_def)
    show "http_stop ss (Inr ()) (hs_base s') = ([SiteStop, RunnerCleanup], ss)" for ss
      by (cases ss) (simp_all add: http_stop_def b)
  }
  {
    fix e
    assume e: "app = Inr a \<and> prep = Inr () \<and> create_context ex lca lch (hs_ssl_options s) = Inl e"
    then have eq: "calls = [CreateApplication, RunnerSetup]" "r = Inl e"
        "hs_base s' = (hs_base s)\<lparr>ah_runner := True\<rparr>" "site = None"
      using https_context_fails [OF assms(1,4,5)] by blast+
    show "r = Inl e" "site = None" "SiteStart \<notin> set calls" by (simp_all add: eq)
    show "\<exists>e'. http_stop ss (Inr ()) (hs_base s') = ([RunnerCleanup], Inl e') \<and>
        isinstance_exc e' ''AttributeError''" for ss
      by (simp add: http_stop_def eq init(2) py_simps)
  }
qed

theorem https_service_witness:
  "\<exists>s c calls s'. AIOHTTPSSLService_init ''c'' ''k'' None (Some ''h'') (Some 443) True NoSock 5 True True Map.empty = Inr s \<and>
     https_service_start (\<lambda>_. True) (\<lambda>_. Inr ()) (\<lambda>_ _. Inr ()) (Inr ()) (Inr ()) (Inr ()) s =
       (calls, Inr (), s', Some (ah_socket (hs_base s), c)) \<and> cx_verify_mode c = CERT_REQUIRED"
proof -
  obtain s where s: "AIOHTTPSSLService_init ''c'' ''k'' None (Some ''h'') (Some 443) True NoSock 5 True True Map.empty = Inr s"
    by (simp add: AIOHTTPSSLService_init_def AIOHTTPService_init_def Let_def)
  note init = https_init_state [OF s]
  obtain calls r s' site where st: "https_service_start (\<lambda>_. True) (\<lambda>_. Inr ()) (\<lambda>_ _. Inr ())
      (Inr ()) (Inr ()) (Inr ()) s = (calls, r, s', site)"
    by (metis prod_cases4)
  then have "r = Inr ()"
    by (auto simp: https_service_start_def start_with_def http_start_def make_runner_def Let_def init
        domIff runner_kwargs_lookup ssl_create_site_def create_context_def context_ca_def context_chain_def
        TLSServer_options_def SSLOptions_init_def path_of_def split: prod.splits)
  then show ?thesis
    using https_service [OF s _ _ _ st] st s by fastforce
qed

section \<open>The configuration of uvicorn\<close>

lemma read_attributes_total:
  assumes "\<forall>n \<in> set ns. \<exists>v. service_getattr n s = Inr v"
  shows "\<exists>kvs. read_attributes ns s = Inr kvs \<and> map fst kvs = ns"
  using assms by (induction ns) auto

lemma read_attributes_values:
  "read_attributes ns s = Inr kvs \<Longrightarrow> map fst kvs = ns \<and> (\<forall>(n, v) \<in> set kvs. service_getattr n s = Inr v)"
  by (induction ns arbitrary: kvs) (auto simp: bind_result_Inr_iff)

lemma read_attributes_lookup:
  assumes "read_attributes ns s = Inr kvs" "n \<in> set ns"
  shows "\<exists>v. map_of kvs n = Some v \<and> service_getattr n s = Inr v"
proof -
  have "map fst kvs = ns" "\<forall>(n, v) \<in> set kvs. service_getattr n s = Inr v"
    using read_attributes_values [OF assms(1)] by auto
  moreover have "map_of kvs n \<noteq> None"
    using assms(2) calculation(1) by (metis list.set_map map_of_eq_None_iff)
  ultimately show ?thesis
    by (auto dest: map_of_SomeD)
qed

text \<open>Every name of the configuration is an attribute of the class.\<close>

lemma config_names_declared: "set config_names \<subseteq> fst ` set (uvicorn_attributes v)"
  by (simp add: config_names_def uvicorn_attributes_def)

lemma config_names_fresh: "''log_config'' \<notin> set config_names" "''use_colors'' \<notin> set config_names"
  by (simp_all add: config_names_def)

lemma uvicorn_getattr:
  assumes "distinct (map fst kwargs)" "UvicornService_init v kwargs = Inr s"
    and "n \<in> fst ` set (uvicorn_attributes v)"
  shows "\<exists>x. service_getattr n (uv_service s) = Inr x \<and>
    or_else (map_of kwargs n) (map_of (uvicorn_attributes v) n) = Some x"
proof -
  obtain d where d: "map_of (uvicorn_attributes v) n = Some d"
    using assms(3) by (metis map_of_eq_None_iff not_None_eq)
  have "sv_attributes (uv_service s) = map_of (uvicorn_attributes v) ++ map_of kwargs"
    using assms(2) by (auto simp: UvicornService_init_def Service_init_def set_params_effect [OF assms(1)])
  with d show ?thesis
    by (cases "map_of kwargs n") (auto simp: service_getattr_def map_add_def or_else_def)
qed

lemma uvicorn_readable:
  assumes "distinct (map fst kwargs)" "UvicornService_init v kwargs = Inr s"
  shows "\<exists>kvs. read_attributes config_names (uv_service s) = Inr kvs"
proof -
  have "\<exists>x. service_getattr n (uv_service s) = Inr x" if "n \<in> set config_names" for n
    using uvicorn_getattr [OF assms subsetD [OF config_names_declared that]] by (elim exE conjE) (rule exI)
  then show ?thesis using read_attributes_total [of config_names "uv_service s"] by blast
qed

lemma uvicorn_start_success:
  assumes "uvicorn_start app mk bound s = (Inr (), binds, s')"
  obtains kvs v sock where "read_attributes config_names (uv_service s) = Inr kvs"
    and "service_getattr ''sock'' (uv_service s) = Inr v" and "binds \<longleftrightarrow> \<not> uv_true v"
    and "if uv_true v then sock = v else (\<exists>n. bound = Inr n \<and> sock = UObject n)"
    and "uv_server s' = Some (length (uv_servers s))"
    and "uv_servers s' = uv_servers s @
      [\<lparr>us_config = kvs @ [(''log_config'', UNone), (''use_colors'', UBool False)], us_sockets = [sock],
        us_should_exit = False, us_task = Pending\<rparr>]"
    and "uv_service s' = (if uv_true v then uv_service s else service_setattr ''sock'' sock (uv_service s))"
  using assms
  by (auto simp: uvicorn_start_def uvicorn_config_def Let_def bind_result_Inr_iff
      split: sum.splits if_splits)

text \<open>
  uvicorn gets exactly the options that the service declares, each with the value given to the
  constructor or else the default of the class, without a configuration of logging and without colours;
  a socket is bound only when none was given, and is kept.
\<close>

theorem uvicorn_configuration:
  assumes "distinct (map fst kwargs)" "UvicornService_init version kwargs = Inr s"
    and "uvicorn_start app mk bound s = (Inr (), binds, s')"
  shows "\<exists>config sock. uv_server s' = Some 0 \<and>
    uv_servers s' = [\<lparr>us_config = config, us_sockets = [sock], us_should_exit = False, us_task = Pending\<rparr>] \<and>
    map fst config = config_names @ [''log_config'', ''use_colors''] \<and>
    (\<forall>n \<in> set config_names.
       map_of config n = or_else (map_of kwargs n) (map_of (uvicorn_attributes version) n)) \<and>
    map_of config ''log_config'' = Some UNone \<and> map_of config ''use_colors'' = Some (UBool False) \<and>
    (if binds then \<exists>n. bound = Inr n \<and> sock = UObject n else map_of kwargs ''sock'' = Some sock) \<and>
    service_getattr ''sock'' (uv_service s') = Inr sock"
proof -
  obtain kvs v sock where
    kvs: "read_attributes config_names (uv_service s) = Inr kvs"
    and v: "service_getattr ''sock'' (uv_service s) = Inr v" "binds \<longleftrightarrow> \<not> uv_true v"
      "if uv_true v then sock = v else (\<exists>n. bound = Inr n \<and> sock = UObject n)"
    and server: "uv_server s' = Some (length (uv_servers s))" "uv_servers s' = uv_servers s @
      [\<lparr>us_config = kvs @ [(''log_config'', UNone), (''use_colors'', UBool False)], us_sockets = [sock],
        us_should_exit = False, us_task = Pending\<rparr>]"
    and serv: "uv_service s' = (if uv_true v then uv_service s else service_setattr ''sock'' sock (uv_service s))"
    by (rule uvicorn_start_success [OF assms(3)])
  let ?config = "kvs @ [(''log_config'', UNone), (''use_colors'', UBool False)]"
  have names: "map fst kvs = config_names" using read_attributes_values [OF kvs] by blast
  have nil: "uv_servers s = []" using assms(2) by (auto simp: UvicornService_init_def bind_result_Inr_iff)
  have lookup: "map_of ?config n = or_else (map_of kwargs n) (map_of (uvicorn_attributes version) n)"
    if n: "n \<in> set config_names" for n
  proof -
    obtain x where x: "map_of kvs n = Some x" "service_getattr n (uv_service s) = Inr x"
      using read_attributes_lookup [OF kvs n] by blast
    have "n \<in> fst ` set (uvicorn_attributes version)" using n config_names_declared by blast
    with uvicorn_getattr [OF assms(1,2)] x(2)
    have "or_else (map_of kwargs n) (map_of (uvicorn_attributes version) n) = Some x" by fastforce
    with x show ?thesis by (simp add: map_of_append)
  qed
  have fresh: "map_of kvs n = None" if "n \<notin> set config_names" for n
    using that by (simp add: map_of_eq_None_iff flip: names)
  note fresh [OF config_names_fresh(1)] fresh [OF config_names_fresh(2)]
  then have fixed: "map_of ?config ''log_config'' = Some UNone" "map_of ?config ''use_colors'' = Some (UBool False)"
    by (simp_all add: map_of_append map_add_def)
  have "''sock'' \<in> fst ` set (uvicorn_attributes version)" "map_of (uvicorn_attributes version) ''sock'' = Some UNone"
    by (simp_all add: uvicorn_attributes_def)
  with uvicorn_getattr [OF assms(1,2), of "''sock''"] v(1)
  have "or_else (map_of kwargs ''sock'') (Some UNone) = Some v" by fastforce
  then have given: "map_of kwargs ''sock'' = Some v" if "uv_true v"
    using that by (cases "map_of kwargs ''sock''") auto
  have kept: "service_getattr ''sock'' (uv_service s') = Inr sock"
    using v serv by (auto simp: service_setattr_def service_getattr_def Let_def split: if_splits)
  show ?thesis
    using server nil names lookup fixed given kept v
    by (intro exI [of _ ?config] exI [of _ sock]) (auto split: if_splits)
qed

theorem uvicorn_configuration_witness:
  "\<exists>s s' config. UvicornService_init UNone [(''port'', UInt 80), (''sock'', UObject 7)] = Inr s \<and>
     uvicorn_start (Inr ()) (\<lambda>_. Inr ()) (Inr 3) s = (Inr (), False, s') \<and>
     uv_servers s' = [\<lparr>us_config = config, us_sockets = [UObject 7], us_should_exit = False, us_task = Pending\<rparr>] \<and>
     map_of config ''port'' = Some (UInt 80) \<and> map_of config ''backlog'' = Some (UInt 2048)"
proof -
  let ?kw = "[(''port'', UInt 80), (''sock'', UObject 7)]"
  obtain s where s: "UvicornService_init UNone ?kw = Inr s"
    by (simp add: UvicornService_init_def Service_init_def)
  have d: "distinct (map fst ?kw)" by simp
  obtain kvs where kvs: "read_attributes config_names (uv_service s) = Inr kvs"
    using uvicorn_readable [OF d s] by (rule exE)
  have sock: "service_getattr ''sock'' (uv_service s) = Inr (UObject 7)"
    using uvicorn_getattr [OF d s, of "''sock''"] by (simp add: uvicorn_attributes_def)
  obtain s' where st: "uvicorn_start (Inr ()) (\<lambda>_. Inr ()) (Inr 3) s = (Inr (), False, s')"
    by (simp add: uvicorn_start_def uvicorn_config_def kvs sock Let_def)
  have opts: "''port'' \<in> set config_names" "''backlog'' \<in> set config_names"
    by (simp_all add: config_names_def)
  have vals: "or_else (map_of ?kw ''port'') (map_of (uvicorn_attributes UNone) ''port'') = Some (UInt 80)"
    "or_else (map_of ?kw ''backlog'') (map_of (uvicorn_attributes UNone) ''backlog'') = Some (UInt 2048)"
    "map_of ?kw ''sock'' = Some (UObject 7)"
    by (simp_all add: uvicorn_attributes_def)
  obtain config sk where c: "uv_servers s' = [\<lparr>us_config = config, us_sockets = [sk], us_should_exit = False, us_task = Pending\<rparr>]"
      "\<forall>n \<in> set config_names.
       map_of config n = or_else (map_of ?kw n) (map_of (uvicorn_attributes UNone) n)"
      "map_of ?kw ''sock'' = Some sk"
    using uvicorn_configuration [OF d s st] by (simp only: if_False) blast
  then show ?thesis
    using s st opts vals by (metis option.inject)
qed

text \<open>
  \<^verbatim>\<open>stop\<close> waits for the task of the last server that was started, after telling it to exit; an earlier
  one, which serves the same socket, is not told.
\<close>

lemma uvicorn_start_twice:
  assumes "uvicorn_start app mk bound s = (Inr (), b1, s1)"
    and "uvicorn_start app' mk' bound' s1 = (Inr (), b2, s2)" "uvicorn_stop s2 = (r, s3)"
  shows "\<not> b2 \<and> r = Inr (length (uv_servers s) + 1) \<and>
    \<not> us_should_exit (uv_servers s3 ! length (uv_servers s)) \<and>
    us_should_exit (uv_servers s3 ! (length (uv_servers s) + 1)) \<and>
    us_sockets (uv_servers s3 ! length (uv_servers s)) =
      us_sockets (uv_servers s3 ! (length (uv_servers s) + 1))"
proof -
  obtain v sock where v: "service_getattr ''sock'' (uv_service s) = Inr v"
      "if uv_true v then sock = v else (\<exists>n. bound = Inr n \<and> sock = UObject n)"
    and s1: "\<exists>config. uv_servers s1 = uv_servers s @
      [\<lparr>us_config = config, us_sockets = [sock], us_should_exit = False, us_task = Pending\<rparr>]"
      "uv_service s1 = (if uv_true v then uv_service s else service_setattr ''sock'' sock (uv_service s))"
    using uvicorn_start_success [OF assms(1)] by metis
  have "service_getattr ''sock'' (uv_service s1) = Inr sock" "uv_true sock"
    using v s1(2) by (auto simp: service_setattr_def service_getattr_def Let_def split: if_splits)
  then have s2: "\<not> b2" "uv_server s2 = Some (length (uv_servers s1))" "\<exists>config. uv_servers s2 = uv_servers s1 @
      [\<lparr>us_config = config, us_sockets = [sock], us_should_exit = False, us_task = Pending\<rparr>]"
    using uvicorn_start_success [OF assms(2)] by (metis sum.inject(2))+
  then show ?thesis
    using s1(1) assms(3) by (auto simp: uvicorn_stop_def nth_append)
qed

end
