(* ===== verification/Profiling.thy ===== *)
theory Profiling
  imports Adapters ServiceBase
begin

text \<open>
  The services that look at the running program: the profiler (\<^verbatim>\<open>aiomisc/service/profiler.py\<close>), the
  memory tracer (\<^verbatim>\<open>tracer.py\<close>) and the sender of Carbon metrics (\<^verbatim>\<open>carbon.py\<close>). All three run a
  periodic callback of Recurring; cProfile, tracemalloc and aiocarbon are the environment, whose results
  are arguments.
\<close>

section \<open>The profiler\<close>

text \<open>
  The profiler's state is whether cProfile collects (\<^const>\<open>None\<close> before the start, when there is no such
  attribute); the texts that were logged and the paths it tried to write are recorded.
\<close>

record Profiler =
  pf_order :: string
  pf_path :: "string option"
  pf_interval :: number
  pf_top_results :: nat
  pf_enabled :: "bool option"
  pf_periodic :: "callback option"
  pf_log :: "string list"
  pf_dumps :: "string list"

definition new_profiler :: Profiler where
  "new_profiler =
     \<lparr>pf_order = ''cumulative'', pf_path = None, pf_interval = 10, pf_top_results = 10,
      pf_enabled = None, pf_periodic = None, pf_log = [], pf_dumps = []\<rparr>"

definition profiler_start :: "Profiler \<Rightarrow> unit result \<times> Profiler" where
  "profiler_start p =
     (let p1 = p\<lparr>pf_enabled := Some False, pf_periodic := Some new_callback\<rparr>;
          p2 = p1\<lparr>pf_enabled := Some True\<rparr>
      in case periodic_start (pf_interval p2) new_callback of
           Inl e \<Rightarrow> (Inl e, p2)
         | Inr c \<Rightarrow> (Inr (), p2\<lparr>pf_periodic := Some c\<rparr>))"

text \<open>
  \<^verbatim>\<open>save_stats\<close>: making the statistics stops the collection. \<^verbatim>\<open>stats\<close> is what making, sorting and
  printing them gives for the order and the number of results, \<^verbatim>\<open>dump\<close> what writing them to a path
  gives. Only the writing is within the \<^verbatim>\<open>try\<close> that resumes the collection.
\<close>

definition save_stats ::
  "(string \<Rightarrow> nat \<Rightarrow> string result) \<Rightarrow> (string \<Rightarrow> unit result) \<Rightarrow> Profiler \<Rightarrow> unit result \<times> Profiler" where
  "save_stats stats dump p =
     (let p1 = p\<lparr>pf_enabled := Some False\<rparr>
      in case stats (pf_order p1) (pf_top_results p1) of
           Inl e \<Rightarrow> (Inl e, p1)
         | Inr text \<Rightarrow>
             let p2 = p1\<lparr>pf_log := pf_log p1 @ [text]\<rparr>;
                 (r, p3) = (case pf_path p2 of
                     None \<Rightarrow> (Inr (), p2)
                   | Some path \<Rightarrow> (dump path, p2\<lparr>pf_dumps := pf_dumps p2 @ [path]\<rparr>))
             in (r, p3\<lparr>pf_enabled := Some True\<rparr>))"

text \<open>\<^verbatim>\<open>stop\<close>, up to its await of the callback's task, and after it.\<close>

definition profiler_stop :: "Profiler \<Rightarrow> nat result \<times> Profiler" where
  "profiler_stop p =
     (case pf_periodic p of
        None \<Rightarrow> (Inl (AttributeError ''logger''), p)
      | Some c \<Rightarrow> (let (c1, r) = periodic_stop c in (r, p\<lparr>pf_periodic := Some c1\<rparr>)))"

definition profiler_stopped :: "Profiler \<Rightarrow> Profiler" where
  "profiler_stopped p = p\<lparr>pf_enabled := Some False\<rparr>"

section \<open>The memory tracer\<close>

datatype GroupBy = lineno | filename | traceback

fun GroupBy_value :: "GroupBy \<Rightarrow> string" where
  "GroupBy_value lineno = ''lineno''"
| "GroupBy_value filename = ''filename''"
| "GroupBy_value traceback = ''traceback''"

text \<open>
  \<^verbatim>\<open>mt_tracing\<close> is the state of tracemalloc, \<^verbatim>\<open>mt_snapshot\<close> the attribute \<^verbatim>\<open>_snapshot_on_start\<close>, which may
  be missing or \<^verbatim>\<open>None\<close>.
\<close>

record 's MemoryTracer =
  mt_interval :: number
  mt_top_results :: nat
  mt_group_by :: GroupBy
  mt_tracing :: bool
  mt_tracer :: "callback option"
  mt_snapshot :: "'s option option"
  mt_log :: "string list"

definition new_tracer :: "'s MemoryTracer" where
  "new_tracer =
     \<lparr>mt_interval = 5, mt_top_results = 20, mt_group_by = lineno, mt_tracing = False,
      mt_tracer = None, mt_snapshot = None, mt_log = []\<rparr>"

text \<open>tracemalloc raises when it does not trace; the argument is the heap at the moment of the call.\<close>

definition take_snapshot :: "'s \<Rightarrow> 's MemoryTracer \<Rightarrow> 's result" where
  "take_snapshot heap m =
     (if mt_tracing m then Inr heap
      else Inl (RuntimeError ''the tracemalloc module must be tracing memory allocations to take a snapshot''))"

definition tracer_start :: "'s \<Rightarrow> 's MemoryTracer \<Rightarrow> unit result \<times> 's MemoryTracer" where
  "tracer_start heap m =
     (let m1 = m\<lparr>mt_tracing := True, mt_tracer := Some new_callback\<rparr>
      in case take_snapshot heap m1 of
           Inl e \<Rightarrow> (Inl e, m1)
         | Inr snapshot \<Rightarrow>
             let m2 = m1\<lparr>mt_snapshot := Some (Some snapshot)\<rparr>
             in case periodic_start (mt_interval m2) new_callback of
                  Inl e \<Rightarrow> (Inl e, m2)
                | Inr c \<Rightarrow> (Inr (), m2\<lparr>mt_tracer := Some c\<rparr>))"

definition compare_snapshot ::
  "('s \<Rightarrow> 's \<Rightarrow> string \<Rightarrow> 'd list) \<Rightarrow> 's \<Rightarrow> 's \<Rightarrow> 's MemoryTracer \<Rightarrow> 'd list" where
  "compare_snapshot compare_to snapshot_from snapshot_to m =
     compare_to snapshot_to snapshot_from (GroupBy_value (mt_group_by m))"

definition show_stats ::
  "('s \<Rightarrow> 's \<Rightarrow> string \<Rightarrow> 'd list) \<Rightarrow> ('d \<Rightarrow> string) \<Rightarrow> string \<Rightarrow> 's \<Rightarrow> 's MemoryTracer \<Rightarrow>
   unit result \<times> 's MemoryTracer" where
  "show_stats compare_to line heading heap m =
     (case mt_snapshot m of
        None \<Rightarrow> (Inl (AttributeError ''_snapshot_on_start''), m)
      | Some None \<Rightarrow> (Inl (RuntimeError []), m)
      | Some (Some first) \<Rightarrow>
          (case take_snapshot heap m of
             Inl e \<Rightarrow> (Inl e, m)
           | Inr snapshot \<Rightarrow>
               (Inr (), m\<lparr>mt_log := mt_log m @
                  [log_diff line heading (mt_top_results m) (compare_snapshot compare_to first snapshot m)]\<rparr>)))"

definition tracer_stop :: "'s MemoryTracer \<Rightarrow> 's MemoryTracer" where
  "tracer_stop m = m\<lparr>mt_tracing := False\<rparr>"

section \<open>The Carbon sender\<close>

datatype carbon_client = UDPClient | TCPClient | PickleClient

definition PROTOCOLS :: "string \<rightharpoonup> carbon_client" where
  "PROTOCOLS = [''udp'' \<mapsto> UDPClient, ''tcp'' \<mapsto> TCPClient, ''pickle'' \<mapsto> PickleClient]"

text \<open>\<^verbatim>\<open>cs_client\<close> is the client that \<^verbatim>\<open>set_client\<close> has installed: its class, host, port and namespace.\<close>

record CarbonSender =
  cs_host :: string
  cs_port :: int
  cs_send_interval :: number
  cs_protocol :: string
  cs_namespace :: "string list"
  cs_handle :: "callback option"
  cs_client :: "(carbon_client \<times> string \<times> int \<times> string) option"

definition new_carbon_sender :: CarbonSender where
  "new_carbon_sender =
     \<lparr>cs_host = ''127.0.0.1'', cs_port = 2003, cs_send_interval = 5, cs_protocol = ''udp'',
      cs_namespace = [[]], cs_handle = None, cs_client = None\<rparr>"

definition carbon_start :: "CarbonSender \<Rightarrow> unit result \<times> CarbonSender" where
  "carbon_start c =
     (let namespace = carbon_namespace (cs_namespace c)
      in case PROTOCOLS (cs_protocol c) of
           None \<Rightarrow> (Inl (KeyError (cs_protocol c)), c)
         | Some cls \<Rightarrow>
             let c1 = c\<lparr>cs_client := Some (cls, cs_host c, cs_port c, namespace)\<rparr>;
                 c2 = c1\<lparr>cs_handle := Some new_callback\<rparr>
             in case periodic_start (cs_send_interval c2) new_callback of
                  Inl e \<Rightarrow> (Inl e, c2)
                | Inr h \<Rightarrow> (Inr (), c2\<lparr>cs_handle := Some h\<rparr>))"

definition carbon_stop :: "CarbonSender \<Rightarrow> nat result \<times> CarbonSender" where
  "carbon_stop c =
     (case cs_handle c of
        None \<Rightarrow> (Inl (AttributeError ''_handle''), c)
      | Some h \<Rightarrow> (let (h1, r) = periodic_stop h in (r, c\<lparr>cs_handle := Some h1\<rparr>)))"

section \<open>Their callbacks\<close>

text \<open>The callback of a service that has been started: one task, which runs and is not cancelled.\<close>

definition running_callback :: callback where
  "running_callback = \<lparr>cb_task = Some 0, cb_tasks = [Pending], cb_cancelled = [], cb_cleaning = []\<rparr>"

lemma periodic_start_new:
  "periodic_start interval new_callback =
     (if interval = 0 then Inl (AssertionError []) else Inr running_callback)"
  by (simp add: periodic_start_def new_callback_def recurring_start_def running_callback_def)

lemma periodic_stop_running:
  "periodic_stop running_callback = (running_callback\<lparr>cb_task := None, cb_cancelled := [0]\<rparr>, Inr 0)"
  by (simp add: periodic_stop_def running_callback_def cancel_pending_def pending_task_def)

text \<open>A run of calls of \<^verbatim>\<open>save_stats\<close> by the periodic callback, which goes on whatever they raise.\<close>

definition saves ::
  "((string \<Rightarrow> nat \<Rightarrow> string result) \<times> (string \<Rightarrow> unit result)) list \<Rightarrow> Profiler \<Rightarrow> Profiler" where
  "saves outcomes p = fold (\<lambda>(stats, dump) q. snd (save_stats stats dump q)) outcomes p"

lemma save_stats_fields:
  "pf_order (snd (save_stats st du p)) = pf_order p"
  "pf_top_results (snd (save_stats st du p)) = pf_top_results p"
  "pf_periodic (snd (save_stats st du p)) = pf_periodic p"
  "pf_enabled (snd (save_stats st du p)) = Some (\<not> isl (st (pf_order p) (pf_top_results p)))"
  "pf_log (snd (save_stats st du p)) =
     pf_log p @ (case st (pf_order p) (pf_top_results p) of Inl _ \<Rightarrow> [] | Inr text \<Rightarrow> [text])"
  by (auto simp: save_stats_def Let_def split: sum.splits option.splits)

lemma saves_fields:
  "pf_order (saves os p) = pf_order p \<and> pf_top_results (saves os p) = pf_top_results p \<and>
   pf_periodic (saves os p) = pf_periodic p \<and>
   pf_log (saves os p) = pf_log p @ concat (map (\<lambda>(st, du).
      case st (pf_order p) (pf_top_results p) of Inl _ \<Rightarrow> [] | Inr text \<Rightarrow> [text]) os)"
proof (induction os arbitrary: p)
  case Nil
  then show ?case by (simp add: saves_def)
next
  case (Cons o1 os)
  obtain st du where o1: "o1 = (st, du)" by (cases o1)
  from Cons [of "snd (save_stats st du p)"] show ?case
    by (simp add: saves_def o1 save_stats_fields)
qed

text \<open>
  Between start and stop the profiler logs the statistics of every call that can print them, and it
  collects unless the last call could not print them; an error of writing the file does not stop it.
  The stop cancels the callback's task and ends the collection.
\<close>

theorem profiler_collects:
  assumes "profiler_start p = (Inr (), p0)"
  shows "pf_enabled (saves os p0) =
      Some (os = [] \<or> \<not> isl (fst (last os) (pf_order p) (pf_top_results p))) \<and>
    pf_log (saves os p0) = pf_log p @ concat (map (\<lambda>(st, du).
      case st (pf_order p) (pf_top_results p) of Inl _ \<Rightarrow> [] | Inr text \<Rightarrow> [text]) os) \<and>
    (\<exists>c q. profiler_stop (saves os p0) = (Inr 0, q) \<and> pf_periodic q = Some c \<and>
      cb_cancelled c = [0] \<and> length (cb_tasks c) = 1 \<and> pf_enabled (profiler_stopped q) = Some False)"
proof -
  have p0: "p0 = p\<lparr>pf_enabled := Some True, pf_periodic := Some running_callback\<rparr>"
    using assms by (auto simp: profiler_start_def periodic_start_new Let_def split: if_splits)
  note f = saves_fields [of os p0]
  have "pf_enabled (saves os p0) =
      Some (os = [] \<or> \<not> isl (fst (last os) (pf_order p) (pf_top_results p)))"
  proof (cases os rule: rev_cases)
    case Nil
    then show ?thesis by (simp add: saves_def p0)
  next
    case (snoc os' o1)
    then have "saves os p0 = snd (save_stats (fst o1) (snd o1) (saves os' p0))"
      by (simp add: saves_def case_prod_beta)
    with snoc saves_fields [of os' p0] show ?thesis by (simp add: save_stats_fields p0)
  qed
  moreover have "\<exists>c q. profiler_stop (saves os p0) = (Inr 0, q) \<and> pf_periodic q = Some c \<and>
      cb_cancelled c = [0] \<and> length (cb_tasks c) = 1 \<and> pf_enabled (profiler_stopped q) = Some False"
    using f by (simp add: profiler_stop_def p0 periodic_stop_running profiler_stopped_def)
      (simp add: running_callback_def)
  ultimately show ?thesis using f by (simp add: p0)
qed

theorem profiler_collects_witness:
  "\<exists>p0. profiler_start new_profiler = (Inr (), p0) \<and>
    pf_enabled (saves [(\<lambda>_ _. Inr ''top'', \<lambda>_. Inr ()), (\<lambda>_ _. Inl (KeyError ''order''), \<lambda>_. Inr ())] p0) = Some False \<and>
    pf_log (saves [(\<lambda>_ _. Inr ''top'', \<lambda>_. Inr ()), (\<lambda>_ _. Inl (KeyError ''order''), \<lambda>_. Inr ())] p0) = [''top'']"
proof -
  obtain p0 where p0: "profiler_start new_profiler = (Inr (), p0)"
    by (simp add: profiler_start_def new_profiler_def periodic_start_new Let_def)
  from profiler_collects [OF this, of "[(\<lambda>_ _. Inr ''top'', \<lambda>_. Inr ()), (\<lambda>_ _. Inl (KeyError ''order''), \<lambda>_. Inr ())]"]
  show ?thesis using p0 by (simp add: new_profiler_def)
qed

text \<open>
  While the tracer runs, every report compares the heap with the one at the start. After \<^verbatim>\<open>stop\<close> the task of
  the periodic callback goes on, neither ended nor cancelled, and every report raises \<^verbatim>\<open>RuntimeError\<close> and
  logs nothing.
\<close>

theorem tracer_reports:
  assumes "tracer_start first m = (Inr (), m0)"
  shows "show_stats compare_to line heading heap m0 =
      (Inr (), m0\<lparr>mt_log := mt_log m @ [log_diff line heading (mt_top_results m)
         (compare_to heap first (GroupBy_value (mt_group_by m)))]\<rparr>) \<and>
    mt_tracer (tracer_stop m0) = Some running_callback \<and>
    (\<exists>e. show_stats compare_to line heading heap (tracer_stop m0) = (Inl e, tracer_stop m0) \<and>
      isinstance_exc e ''RuntimeError'')"
proof -
  have m0: "m0 = m\<lparr>mt_tracing := True, mt_snapshot := Some (Some first), mt_tracer := Some running_callback\<rparr>"
    using assms
    by (auto simp: tracer_start_def take_snapshot_def periodic_start_new Let_def split: if_splits)
  then show ?thesis
    by (simp add: show_stats_def take_snapshot_def compare_snapshot_def tracer_stop_def py_simps)
qed

theorem tracer_reports_witness:
  "\<exists>m0 :: nat MemoryTracer. tracer_start 1 new_tracer = (Inr (), m0) \<and>
     snd (show_stats (\<lambda>x y _. [x - y]) (\<lambda>d. replicate d CHR ''+'') ''memory: '' 3 m0) =
       m0\<lparr>mt_log := [''memory: ++'']\<rparr>"
proof -
  obtain m0 :: "nat MemoryTracer" where m0: "tracer_start 1 new_tracer = (Inr (), m0)"
    by (simp add: tracer_start_def new_tracer_def take_snapshot_def periodic_start_new Let_def)
  from tracer_reports [OF this, of "\<lambda>x y _. [x - y]" "\<lambda>d. replicate d CHR ''+''" "''memory: ''" 3]
  show ?thesis using m0
    by (simp add: new_tracer_def log_diff_def numeral_2_eq_2)
qed

text \<open>
  The Carbon sender starts exactly when its protocol is known and its interval is not zero; then the
  client of the protocol is installed, for its host, its port and the joined namespace, and \<^verbatim>\<open>stop\<close>
  cancels the task.
\<close>

lemma carbon_lifecycle:
  shows "(\<exists>c'. carbon_start c = (Inr (), c')) \<longleftrightarrow>
      cs_protocol c \<in> {''udp'', ''tcp'', ''pickle''} \<and> cs_send_interval c \<noteq> 0"
    and "carbon_start c = (Inr (), c') \<Longrightarrow>
      cs_client c' = Some (the (PROTOCOLS (cs_protocol c)), cs_host c, cs_port c,
        carbon_namespace (cs_namespace c)) \<and>
      fst (carbon_stop c') = Inr 0"
  by (auto simp: carbon_start_def PROTOCOLS_def periodic_start_new carbon_stop_def
      periodic_stop_running Let_def split: if_splits)

end
