(* ===== verification/LogHooks.thy ===== *)
theory LogHooks
  imports Logging
begin

text \<open>
  The hooks for unhandled exceptions (\<^verbatim>\<open>aiomisc_log/__init__.py\<close>, \<^verbatim>\<open>aiomisc/log.py\<close>), with the loggers of
  the \<^verbatim>\<open>logging\<close> module that they write to, the configuration of both packages together, and the
  rest of the JSON formatter (\<^verbatim>\<open>aiomisc_log/formatter/json.py\<close>).
\<close>

section \<open>Loggers and hooks\<close>

text \<open>Loggers by name, the root logger being the empty name; \<^verbatim>\<open>getLogger\<close> makes those that are missing.\<close>

record logger =
  lg_handlers :: "handler list"
  lg_propagate :: bool

type_synonym loggers = "string \<Rightarrow> logger"

record UnhandledHook =
  uh_logger :: string
  uh_logger_name :: string
  uh_default_message :: string

text \<open>The class attributes of the dataclass.\<close>

definition default_logger_name :: string where
  "default_logger_name = ''unhandled''"

definition default_logger_message :: string where
  "default_logger_message = ''Unhandled exception''"

text \<open>
  \<^verbatim>\<open>UnhandledHook.__init__\<close> looks the logger up before the dataclass sets the attributes from the
  arguments, so it sees the name that the class declares.
\<close>

definition UnhandledHook_init :: "string option \<Rightarrow> loggers \<Rightarrow> UnhandledHook \<times> loggers" where
  "UnhandledHook_init logger_name loggers =
     (let name = default_logger_name;
          loggers1 = loggers(name := (loggers name)\<lparr>lg_propagate := False\<rparr>);
          loggers2 = loggers1(name := (loggers1 name)\<lparr>lg_handlers := []\<rparr>)
      in (\<lparr>uh_logger = name,
           uh_logger_name = (case logger_name of Some n \<Rightarrow> n | None \<Rightarrow> default_logger_name),
           uh_default_message = default_logger_message\<rparr>, loggers2))"

definition add_handler :: "UnhandledHook \<Rightarrow> handler \<Rightarrow> loggers \<Rightarrow> loggers" where
  "add_handler hook h loggers =
     loggers(uh_logger hook := (loggers (uh_logger hook))
       \<lparr>lg_handlers := lg_handlers (loggers (uh_logger hook)) @ [h]\<rparr>)"

text \<open>
  A record that is logged goes to the handlers of its logger and, when it propagates, to those of the
  root logger.
\<close>

definition receivers :: "loggers \<Rightarrow> string \<Rightarrow> handler list" where
  "receivers loggers name =
     lg_handlers (loggers name) @
     (if lg_propagate (loggers name) \<and> name \<noteq> [] then lg_handlers (loggers []) else [])"

definition python_hook_call :: "UnhandledHook \<Rightarrow> 'x \<Rightarrow> loggers \<Rightarrow> (handler \<times> string \<times> 'x) list" where
  "python_hook_call hook exc_info loggers =
     map (\<lambda>h. (h, uh_default_message hook, exc_info)) (receivers loggers (uh_logger hook))"

text \<open>The hook of the event loop logs what \<^const>\<open>unhandled_loop_hook\<close> makes of the context.\<close>

definition loop_hook_call ::
  "UnhandledHook \<Rightarrow> loop_context \<Rightarrow> loggers \<Rightarrow> (handler \<times> string \<times> string option) list" where
  "loop_hook_call hook context loggers =
     (case unhandled_loop_hook context of
        (message, exception, _, source_tb) \<Rightarrow>
          map (\<lambda>h. (h, message, exception)) (receivers loggers (uh_logger hook)) @
          (if source_tb \<noteq> []
           then map (\<lambda>h. (h, concat source_tb, None)) (receivers loggers (uh_logger hook)) else []))"

definition pass_wrapper :: "handler \<Rightarrow> handler" where
  "pass_wrapper h = h"

text \<open>\<^verbatim>\<open>suppressor\<close>: the wrapped callback swallows the given exceptions.\<close>

definition suppressor :: "unit result \<Rightarrow> string list \<Rightarrow> unit result" where
  "suppressor callback exceptions =
     (case callback of
        Inl e \<Rightarrow> if except_matches exceptions e then Inr () else Inl e
      | Inr _ \<Rightarrow> Inr ())"

section \<open>Configuration\<close>

text \<open>
  \<^verbatim>\<open>aiomisc_log.basic_config\<close> with its hook: the hook is made when level and format are known, and gets
  the handlers when they could be made. The root logger gets the same handlers.
\<close>

definition configure_hook ::
  "platform \<Rightarrow> int named \<Rightarrow> LogFormat named \<Rightarrow> (handler \<Rightarrow> handler) \<Rightarrow> handler list \<Rightarrow> string option \<Rightarrow>
     logging_state \<times> loggers \<Rightarrow> (logging_state \<times> loggers) \<times> unit result" where
  "configure_hook pl level log_format wrapper handlers date_format = (\<lambda>(s, loggers).
     (let (s1, r) = basic_config pl level log_format wrapper handlers date_format s;
          loggers1 = (if isl (level_of level) then loggers
                      else loggers([] := (loggers [])\<lparr>lg_handlers := []\<rparr>))
      in if isl (level_of level) \<or> isl (format_of log_format) then ((s1, loggers1), r)
         else let (hook, loggers2) = UnhandledHook_init None loggers1
              in if isl r then ((s1, loggers2), r)
                 else let loggers3 = loggers2([] := (loggers2 [])\<lparr>lg_handlers := root_handlers s1\<rparr>)
                      in ((s1, fold (add_handler hook) (root_handlers s1) loggers3), r)))"

text \<open>\<^verbatim>\<open>aiomisc.log.basic_config\<close>: the hook of the loop with the threaded handlers, then the above.\<close>

definition configure_loop ::
  "platform \<Rightarrow> int named \<Rightarrow> LogFormat named \<Rightarrow> nat list \<Rightarrow> string option \<Rightarrow>
     logging_state \<times> loggers \<Rightarrow> UnhandledHook \<times> (logging_state \<times> loggers) \<times> unit result" where
  "configure_loop pl level log_format handlers date_format = (\<lambda>(s, loggers).
     (let (hook, loggers1) = UnhandledHook_init (Some ''asyncio.unhandled'') loggers;
          log_handlers = snd (log_basic_config handlers);
          loggers2 = fold (add_handler hook) log_handlers loggers1
      in (hook, configure_hook pl level log_format pass_wrapper log_handlers date_format (s, loggers2))))"

section \<open>The JSON formatter\<close>

datatype datefmt_arg = EllipsisArg | DateFormat "string option"

record JSONLogFormatter =
  jf_fmt :: "string option"
  jf_datefmt :: "string option"
  jf_style :: char

definition JSONLogFormatter_init :: "string option \<Rightarrow> datefmt_arg \<Rightarrow> char \<Rightarrow> JSONLogFormatter" where
  "JSONLogFormatter_init fmt datefmt style =
     \<lparr>jf_fmt = fmt,
      jf_datefmt = (case datefmt of EllipsisArg \<Rightarrow> None | DateFormat d \<Rightarrow> d),
      jf_style = style\<rparr>"

text \<open>
  \<^verbatim>\<open>formatTime\<close> gives the moment of the record itself for the format \<^verbatim>\<open>%s\<close>, and otherwise the text of
  the standard formatter.
\<close>

definition format_time :: "jvalue \<Rightarrow> (string \<Rightarrow> string) \<Rightarrow> string \<Rightarrow> jvalue" where
  "format_time created strftime datefmt =
     (if datefmt = ''%s'' then created else JStr (strftime datefmt))"

definition format_exception :: "string list \<Rightarrow> string" where
  "format_exception tb_lines = py_join [CHR 0x0A] tb_lines"

text \<open>The stream and the formatter of \<^verbatim>\<open>json_handler\<close>; a missing stream is the standard output.\<close>

datatype log_stream = Stdout | GivenStream nat

definition json_handler :: "nat option \<Rightarrow> string option \<Rightarrow> log_stream \<times> JSONLogFormatter" where
  "json_handler strm date_format =
     ((case strm of None \<Rightarrow> Stdout | Some n \<Rightarrow> GivenStream n),
      JSONLogFormatter_init None (DateFormat date_format) CHR ''%'')"

section \<open>Who hears of unhandled exceptions\<close>

lemma add_handlers:
  "fold (add_handler hook) hs loggers =
     loggers(uh_logger hook := (loggers (uh_logger hook))
       \<lparr>lg_handlers := lg_handlers (loggers (uh_logger hook)) @ hs\<rparr>)"
  by (induction hs arbitrary: loggers) (simp_all add: add_handler_def)

lemma hook_init:
  "UnhandledHook_init name loggers = (hook, loggers') \<Longrightarrow>
     uh_logger hook = ''unhandled'' \<and>
     loggers' = loggers(''unhandled'' := (loggers ''unhandled'')\<lparr>lg_propagate := False, lg_handlers := []\<rparr>)"
  by (auto simp: UnhandledHook_init_def default_logger_name_def Let_def)

text \<open>
  When the configuration of the loop succeeds, an exception nobody handled, of the loop or of the
  program, reaches exactly the handlers of the root logger, once each: the handler of the format and a
  threaded handler for each of the user's. The hook of the loop was given the logger name
  \<^verbatim>\<open>asyncio.unhandled\<close>, but that logger is never touched.
\<close>

theorem unhandled_reach_root_handlers:
  assumes "configure_loop pl level fmt handlers date (s, loggers) = (hook, (s', loggers'), Inr ())"
  shows "receivers loggers' (uh_logger hook) = root_handlers s' \<and>
    receivers loggers' [] = root_handlers s' \<and>
    (\<exists>f h. format_of fmt = Inr f \<and> create_logging_handler pl f date = Inr h \<and>
      root_handlers s' = (case h of None \<Rightarrow> [] | Some x \<Rightarrow> [x]) @ map Threaded handlers) \<and>
    uh_logger_name hook = ''asyncio.unhandled'' \<and>
    loggers' ''asyncio.unhandled'' = loggers ''asyncio.unhandled''"
proof -
  define l1 where "l1 = loggers(''unhandled'' :=
    (loggers ''unhandled'')\<lparr>lg_propagate := False, lg_handlers := map Threaded handlers\<rparr>)"
  have hook: "uh_logger hook = ''unhandled''" "uh_logger_name hook = ''asyncio.unhandled''"
    and conf: "configure_hook pl level fmt pass_wrapper (map Threaded handlers) date (s, l1) =
      ((s', loggers'), Inr ())"
    using assms
    by (auto simp: configure_loop_def UnhandledHook_init_def default_logger_name_def Let_def add_handlers
        log_basic_config_def l1_def)
  obtain lv f where lf: "level_of level = Inr lv" "format_of fmt = Inr f"
    and bc: "basic_config pl level fmt pass_wrapper (map Threaded handlers) date s = (s', Inr ())"
    using conf
    by (auto simp: configure_hook_def basic_config_def Let_def split: sum.splits prod.splits if_splits)
  have l': "loggers' = l1([] := (l1 [])\<lparr>lg_handlers := root_handlers s'\<rparr>,
      ''unhandled'' := (l1 ''unhandled'')\<lparr>lg_propagate := False, lg_handlers := root_handlers s'\<rparr>)"
    using conf
    by (auto simp: configure_hook_def lf bc UnhandledHook_init_def default_logger_name_def Let_def
        add_handlers fun_upd_twist)
  have "\<exists>h. create_logging_handler pl f date = Inr h \<and>
      root_handlers s' = (case h of None \<Rightarrow> [] | Some x \<Rightarrow> [x]) @ map Threaded handlers"
    using bc lf by (auto simp: basic_config_def Let_def pass_wrapper_def split: sum.splits option.splits)
  with lf show ?thesis
    by (simp add: hook l' receivers_def) (simp add: l1_def)
qed
theorem unhandled_reach_root_handlers_witness:
  "\<exists>hook s' loggers'.
     configure_loop \<lparr>has_journald = False, journald_socket = False, has_rich = False, has_dev_log = False\<rparr>
       (Name ''info'') (Name ''plain'') [7] None
       (\<lparr>root_level = 0, root_handlers = [], hook_handlers = [], LOG_LEVEL = 0, LOG_FORMAT = None\<rparr>,
        \<lambda>_. \<lparr>lg_handlers = [], lg_propagate = True\<rparr>) = (hook, (s', loggers'), Inr ()) \<and>
     receivers loggers' (uh_logger hook) = [StreamHandler ''%(message)s'' None, Threaded 7]"
proof -
  let ?pl = "\<lparr>has_journald = False, journald_socket = False, has_rich = False, has_dev_log = False\<rparr>"
  let ?s = "\<lparr>root_level = 0, root_handlers = [], hook_handlers = [], LOG_LEVEL = 0, LOG_FORMAT = None\<rparr>"
  let ?l = "\<lambda>_ :: string. \<lparr>lg_handlers = [], lg_propagate = True\<rparr>"
  obtain hook s' loggers' where c: "configure_loop ?pl (Name ''info'') (Name ''plain'') [7] None (?s, ?l) =
      (hook, (s', loggers'), Inr ())"
    by (simp add: configure_loop_def configure_hook_def basic_config_def Let_def LogLevel_of_def
        level_names_def LogFormat_of_def format_names_def create_logging_handler_def UnhandledHook_init_def
        default_logger_name_def log_basic_config_def)
  from unhandled_reach_root_handlers [OF this] c show ?thesis
    by (fastforce simp: LogFormat_of_def format_names_def create_logging_handler_def)
qed

text \<open>
  A formatter whose date format is the one of JSON logs passes the moment of the record on unchanged,
  so that \<^verbatim>\<open>@timestamp\<close> is a number; other formats make it a text.
\<close>

lemma json_timestamp:
  assumes "json_format to_str to_int digits (Some d) (r\<lparr>lr_time := format_time created strftime\<rparr>) = Inr payload"
    and "d \<noteq> []"
  shows "map_of payload ''@timestamp'' = Some (if d = ''%s'' then created else JStr (strftime d))"
  using assms by (auto simp: json_format_def bind_result_Inr_iff Let_def given_def format_time_def neq_Nil_conv split: if_splits)

end
