(* ===== verification/PluginsCommand.thy ===== *)
theory PluginsCommand
  imports Adapters LogHooks "HOL-Library.Multiset" "HOL-Library.List_Lexorder" "HOL-Library.Char_ord"
begin

text \<open>
  The command that lists the installed plugins (\<^verbatim>\<open>aiomisc/plugins/__main__.py\<close>): the table of its
  options, and \<^verbatim>\<open>main\<close> on the parsed arguments and the loaded plugins.
\<close>

datatype action = StoreTrue | Choice "string list" string

definition parser :: "bool \<Rightarrow> bool \<Rightarrow> bool \<Rightarrow> (string list \<times> action) list" where
  "parser check_journal_stream isatty rich_installed =
     [([''-q'', ''-s'', ''--quiet'', ''--silent''], StoreTrue),
      ([''-n'', ''--no-output''], StoreTrue),
      ([''-l'', ''--log-level''], Choice level_choices LogLevel_default),
      ([''-F'', ''--log-format''],
         Choice format_choices (LogFormat_default check_journal_stream isatty rich_installed))]"

record arguments =
  ar_quiet :: bool
  ar_no_output :: bool
  ar_log_level :: string
  ar_log_format :: string

text \<open>What \<^verbatim>\<open>parse_args\<close> lets through: one of the choices, or the default.\<close>

definition parsed :: "arguments \<Rightarrow> bool" where
  "parsed a \<longleftrightarrow> ar_log_level a \<in> set level_choices \<and> ar_log_format a \<in> set format_choices"

definition parsed_defaults :: "bool \<Rightarrow> bool \<Rightarrow> bool \<Rightarrow> arguments" where
  "parsed_defaults j t r =
     \<lparr>ar_quiet = False, ar_no_output = False, ar_log_level = LogLevel_default,
      ar_log_format = LogFormat_default j t r\<rparr>"

text \<open>
  \<^verbatim>\<open>main\<close>: the printed lines, the logged messages (the number of plugins, then a name and a text each),
  and the logging state.
\<close>

datatype plugin_message = Available nat | Plugin string string

definition plugins_main ::
  "platform \<Rightarrow> ('p \<Rightarrow> string) \<Rightarrow> (string \<times> 'p) list \<Rightarrow> arguments \<Rightarrow> logging_state \<times> loggers \<Rightarrow>
   string list \<times> plugin_message list \<times> (logging_state \<times> loggers) \<times> unit result" where
  "plugins_main pl doc plugins a st =
     (let a1 = (if ar_quiet a then a\<lparr>ar_log_level := ''critical''\<rparr> else a);
          (st1, r) = configure_hook pl (Name (ar_log_level a1)) (Name (ar_log_format a1)) pass_wrapper [] None st
      in if isl r then ([], [], st1, r)
         else let items = sort_key fst plugins
              in (if ar_no_output a1 then [] else map fst items,
                  Available (length plugins) # map (\<lambda>(name, p). Plugin name (doc p)) items,
                  st1, Inr ()))"

section \<open>The list\<close>

lemma not_isl: "\<not> isl (r :: unit result) \<longleftrightarrow> r = Inr ()"
  by (cases r) simp_all

lemma load_plugins_distinct:
  "distinct (map fst ps) \<Longrightarrow> distinct (map fst (load_plugins load es ps))"
  by (induction load es ps rule: load_plugins.induct)
    (auto simp: distinct_update split: sum.splits)

lemma setup_plugins_distinct:
  "setup_plugins np load run g1 g2 = Inr plugins \<Longrightarrow> distinct (map fst plugins)"
  by (auto simp: setup_plugins_def Let_def bind_result_Inr_iff intro: load_plugins_distinct split: if_splits)

text \<open>
  Unless a handler for the logs cannot be made, the command prints the name of every loaded plugin once, in
  alphabetical order, or nothing when told so; quiet or not makes no difference to what it prints but sets
  the level of the root logger to that of critical messages.
\<close>

theorem plugins_listed:
  assumes "setup_plugins np load run g1 g2 = Inr plugins"
    and "plugins_main pl doc plugins a st = (printed, logged, (s', l'), Inr ())"
  shows "printed = (if ar_no_output a then [] else sorted_list_of_set (fst ` set plugins)) \<and>
    (ar_quiet a \<longrightarrow> root_level s' = 50) \<and> hd logged = Available (card (fst ` set plugins)) \<and>
    (\<forall>name. (\<exists>text. Plugin name text \<in> set logged) \<longleftrightarrow> name \<in> fst ` set plugins)"
proof -
  let ?level = "if ar_quiet a then ''critical'' else ar_log_level a"
  have d: "distinct (map fst plugins)" by (rule setup_plugins_distinct [OF assms(1)])
  have conf: "configure_hook pl (Name ?level) (Name (ar_log_format a)) pass_wrapper [] None st = ((s', l'), Inr ())"
    and out: "printed = (if ar_no_output a then [] else map fst (sort_key fst plugins))"
      "logged = Available (length plugins) # map (\<lambda>(name, p). Plugin name (doc p)) (sort_key fst plugins)"
    using assms(2) by (auto simp: plugins_main_def Let_def not_isl split: prod.splits if_splits)
  have "mset (map fst (sort_key fst plugins)) = mset (map fst plugins)" by simp
  then have "distinct (map fst (sort_key fst plugins))"
    using d mset_eq_imp_distinct_iff by blast
  then have sorted: "map fst (sort_key fst plugins) = sorted_list_of_set (fst ` set plugins)"
    by (intro sorted_distinct_set_unique) auto
  have "root_level s' = 50" if "ar_quiet a"
    using conf that
    by (auto simp: configure_hook_def basic_config_def Let_def LogLevel_of_def level_names_def
        split: prod.splits sum.splits if_splits)
  moreover have "length plugins = card (fst ` set plugins)"
    using d by (metis distinct_card length_map set_map)
  moreover have "(\<exists>text. Plugin name text \<in> set logged) \<longleftrightarrow> name \<in> fst ` set plugins" for name
    by (force simp: out)
  ultimately show ?thesis using out sorted by simp
qed

theorem plugins_listed_witness:
  "\<exists>plugins logged s' l'.
     setup_plugins None (\<lambda>e :: nat. Inr e) (\<lambda>_. Inr ()) [(''b'', 1)] [(''a'', 2), (''b'', 3)] = Inr plugins \<and>
     plugins_main \<lparr>has_journald = False, journald_socket = False, has_rich = False, has_dev_log = False\<rparr>
       (\<lambda>_. ''doc'') plugins (parsed_defaults False False False)
       (\<lparr>root_level = 0, root_handlers = [], hook_handlers = [], LOG_LEVEL = 0, LOG_FORMAT = None\<rparr>,
        \<lambda>_. \<lparr>lg_handlers = [], lg_propagate = True\<rparr>) = ([''a'', ''b''], logged, (s', l'), Inr ())"
proof -
  let ?pl = "\<lparr>has_journald = False, journald_socket = False, has_rich = False, has_dev_log = False\<rparr>"
  let ?st = "(\<lparr>root_level = 0, root_handlers = [], hook_handlers = [], LOG_LEVEL = 0, LOG_FORMAT = None\<rparr>,
        \<lambda>_ :: string. \<lparr>lg_handlers = [], lg_propagate = True\<rparr>)"
  have p: "setup_plugins None (\<lambda>e :: nat. Inr e) (\<lambda>_. Inr ()) [(''b'', 1)] [(''a'', 2), (''b'', 3)] =
      Inr [(''b'', 3), (''a'', 2)]"
    by (simp add: setup_plugins_def)
  obtain printed logged s' l' where m: "plugins_main ?pl (\<lambda>_. ''doc'') [(''b'', 3 :: nat), (''a'', 2)]
      (parsed_defaults False False False) ?st = (printed, logged, (s', l'), Inr ())"
    by (simp add: plugins_main_def parsed_defaults_def configure_hook_def basic_config_def Let_def
        LogLevel_of_def LogLevel_default_def LogFormat_default_def level_names_def LogFormat_of_def
        format_names_def create_logging_handler_def UnhandledHook_init_def)
  have "sorted_list_of_set {''b'', ''a''} = [''a'', ''b'']"
    by (simp add: list_less_def)
  with plugins_listed [OF p m] have "printed = [''a'', ''b'']" by (simp add: parsed_defaults_def)
  with p m show ?thesis by blast
qed

text \<open>The default arguments are among the choices.\<close>

lemma defaults_parsed: "parsed (parsed_defaults j t r)"
  by (simp add: parsed_def parsed_defaults_def LogLevel_default_def LogFormat_default_def level_choices_def
      level_names_def format_choices_def format_names_def)

end
