(* ===== verification/Counters.thy ===== *)
theory Counters
  imports Prelude "HOL-Library.AList"
begin

text \<open>
  The statistics of \<^verbatim>\<open>aiomisc/counters.py\<close>: which annotations of a class become metrics, the
  instances with their counters, and \<^verbatim>\<open>get_statistics\<close>.

  The attribute of a metric holds a \<^verbatim>\<open>Metric\<close> object, so that \<^verbatim>\<open>statistic.x += 1\<close> changes the
  counter; an assignment \<^verbatim>\<open>statistic.x = value\<close> replaces that object by a plain number.
\<close>

section \<open>Classes\<close>

text \<open>The annotated type of an attribute, as far as \<^verbatim>\<open>MetaStatistic\<close> looks at it.\<close>

datatype annotation = IntKind | FloatKind | OtherKind

record stat_class =
  sc_name :: string
  sc_annotations :: "(string \<times> annotation) list"

text \<open>Whether a base class is a subclass of \<^verbatim>\<open>AbstractStatistic\<close>, and its own annotations.\<close>

type_synonym base_class = "bool \<times> (string \<times> annotation) list option"

fun base_metrics :: "base_class list \<Rightarrow> string list" where
  "base_metrics [] = []"
| "base_metrics ((is_statistic, annotations) # bases) =
     (if \<not> is_statistic then base_metrics bases
      else case annotations of
        None \<Rightarrow> base_metrics bases
      | Some as \<Rightarrow>
          map fst (filter (\<lambda>(prop, kind). kind \<noteq> OtherKind \<and> \<not> py_startswith prop ''_'') as)
            @ base_metrics bases)"

definition own_metrics :: "stat_class \<Rightarrow> string list" where
  "own_metrics c = map fst (filter (\<lambda>(prop, kind). kind \<noteq> OtherKind) (sc_annotations c))"

definition class_metrics :: "base_class list \<Rightarrow> stat_class \<Rightarrow> string list" where
  "class_metrics bases c = remdups (base_metrics bases @ own_metrics c)"

text \<open>\<^verbatim>\<open>MetaStatistic.__new__\<close>: a class with metrics enters the store of classes.\<close>

definition MetaStatistic_new ::
  "base_class list \<Rightarrow> stat_class \<Rightarrow> (string \<times> string list) list \<Rightarrow> (string \<times> string list) list" where
  "MetaStatistic_new bases c store =
     (let metrics = class_metrics bases c
      in if metrics \<noteq> [] then store @ [(sc_name c, metrics)] else store)"

section \<open>Instances\<close>

text \<open>What the attribute of a metric holds.\<close>

datatype slot = MetricSlot | PlainSlot number

record Statistic =
  st_class :: string
  st_name :: "string option"
  st_counter :: "(string \<times> number) list"
  st_slots :: "string \<rightharpoonup> slot"

definition counter_get :: "string \<Rightarrow> (string \<times> number) list \<Rightarrow> number" where
  "counter_get m c = (case map_of c m of Some v \<Rightarrow> v | None \<Rightarrow> 0)"

text \<open>\<^verbatim>\<open>Metric.__init__\<close> sets the default 0.\<close>

definition Statistic_init :: "string \<Rightarrow> string list \<Rightarrow> string option \<Rightarrow> Statistic" where
  "Statistic_init cls metrics name =
     \<lparr>st_class = cls, st_name = name,
      st_counter = fold (\<lambda>m c. AList.update m 0 c) metrics [],
      st_slots = (\<lambda>m. if m \<in> set metrics then Some MetricSlot else None)\<rparr>"

text \<open>\<^verbatim>\<open>statistic.m += v\<close>: \<^verbatim>\<open>Metric.__iadd__\<close>, or plain addition when the metric was replaced.\<close>

definition stat_iadd :: "string \<Rightarrow> number \<Rightarrow> Statistic \<Rightarrow> Statistic result" where
  "stat_iadd m v s =
     (case st_slots s m of
        None \<Rightarrow> Inl (mk_exc [''AttributeError'', ''Exception'', ''BaseException''] [m])
      | Some MetricSlot \<Rightarrow>
          Inr (s\<lparr>st_counter := AList.update m (counter_get m (st_counter s) + v) (st_counter s)\<rparr>)
      | Some (PlainSlot x) \<Rightarrow> Inr (s\<lparr>st_slots := (st_slots s)(m \<mapsto> PlainSlot (x + v))\<rparr>))"

definition stat_isub :: "string \<Rightarrow> number \<Rightarrow> Statistic \<Rightarrow> Statistic result" where
  "stat_isub m v s = stat_iadd m (- v) s"

text \<open>\<^verbatim>\<open>statistic.m = v\<close>.\<close>

definition stat_assign :: "string \<Rightarrow> number \<Rightarrow> Statistic \<Rightarrow> Statistic" where
  "stat_assign m v s = s\<lparr>st_slots := (st_slots s)(m \<mapsto> PlainSlot v)\<rparr>"

text \<open>\<^verbatim>\<open>Metric.__eq__\<close>.\<close>

definition metric_eq :: "string \<Rightarrow> number \<Rightarrow> Statistic \<Rightarrow> bool" where
  "metric_eq m other s \<longleftrightarrow> counter_get m (st_counter s) = other"

section \<open>Reading the statistics\<close>

record StatisticResult =
  sr_kind :: string
  sr_name :: "string option"
  sr_metric :: string
  sr_value :: number

definition instance_results :: "Statistic \<Rightarrow> StatisticResult list" where
  "instance_results s =
     map (\<lambda>(metric, value). \<lparr>sr_kind = st_class s, sr_name = st_name s, sr_metric = metric,
       sr_value = value\<rparr>) (st_counter s)"

text \<open>
  \<^verbatim>\<open>get_statistics(*kind)\<close>: without arguments all classes of the store, otherwise the subclasses of
  one of them.
\<close>

definition get_statistics ::
  "(string \<Rightarrow> string \<Rightarrow> bool) \<Rightarrow> string list \<Rightarrow> (string \<times> string list) list \<Rightarrow> Statistic list \<Rightarrow>
     StatisticResult list" where
  "get_statistics issubclass kind store instances =
     concat (map (\<lambda>(klass, _).
       if kind \<noteq> [] \<and> \<not> (\<exists>k \<in> set kind. issubclass klass k) then []
       else concat (map instance_results (filter (\<lambda>s. st_class s = klass) instances))) store)"

section \<open>Which annotations are metrics\<close>

lemma base_metrics_iff:
  "m \<in> set (base_metrics bases) \<longleftrightarrow>
     (\<exists>as k. (True, Some as) \<in> set bases \<and> (m, k) \<in> set as \<and> k \<noteq> OtherKind \<and> \<not> py_startswith m ''_'')"
proof (induction bases)
  case Nil
  then show ?case by simp
next
  case (Cons b bases)
  obtain st annots where b: "b = (st, annots)" by fastforce
  have "m \<in> fst ` {x \<in> set xs. case x of (prop, kind) \<Rightarrow> kind \<noteq> OtherKind \<and> \<not> py_startswith prop ''_''} \<longleftrightarrow>
      (\<exists>k. (m, k) \<in> set xs \<and> k \<noteq> OtherKind \<and> \<not> py_startswith m ''_'')" for xs
    by force
  then show ?case using Cons b by (cases st; cases annots) auto
qed

lemma own_metrics_iff:
  "m \<in> set (own_metrics c) \<longleftrightarrow> (\<exists>k. (m, k) \<in> set (sc_annotations c) \<and> k \<noteq> OtherKind)"
  by (force simp: own_metrics_def)

lemma class_metrics_iff:
  "m \<in> set (class_metrics bases c) \<longleftrightarrow>
     (\<exists>k. (m, k) \<in> set (sc_annotations c) \<and> k \<noteq> OtherKind) \<or>
     (\<exists>as k. (True, Some as) \<in> set bases \<and> (m, k) \<in> set as \<and> k \<noteq> OtherKind \<and> \<not> py_startswith m ''_'')"
  by (auto simp: class_metrics_def own_metrics_iff base_metrics_iff)

lemma distinct_class_metrics [simp]: "distinct (class_metrics bases c)"
  by (simp add: class_metrics_def)

section \<open>Counting\<close>

lemma counter_get_update: "counter_get m' (AList.update m v c) = (if m' = m then v else counter_get m' c)"
  by (simp add: counter_get_def update_conv')

lemma init_counter:
  "map_of (fold (\<lambda>m c. AList.update m 0 c) ms c0) m = (if m \<in> set ms then Some 0 else map_of c0 m)"
  by (induction ms arbitrary: c0) (auto simp: update_conv')

text \<open>The sum of the increments of a metric in a run of operations on one instance.\<close>

datatype stat_op = Iadd string number | Assign string number

fun stat_run :: "stat_op list \<Rightarrow> Statistic \<Rightarrow> Statistic result" where
  "stat_run [] s = Inr s"
| "stat_run (Iadd m v # ops) s = bind_result (stat_iadd m v s) (stat_run ops)"
| "stat_run (Assign m v # ops) s = stat_run ops (stat_assign m v s)"

fun increments :: "string \<Rightarrow> stat_op list \<Rightarrow> number" where
  "increments m [] = 0"
| "increments m (Iadd m' v # ops) = (if m' = m then v else 0) + increments m ops"
| "increments m (Assign m' v # ops) = (if m' = m then 0 else increments m ops)"

definition metric_live :: "string \<Rightarrow> Statistic \<Rightarrow> bool" where
  "metric_live m s \<longleftrightarrow> st_slots s m = Some MetricSlot"

text \<open>What an operation on one metric does to the counter of a metric.\<close>

lemma stat_iadd_counter:
  assumes "stat_iadd m v s = Inr s'"
  shows "counter_get m' (st_counter s') =
      counter_get m' (st_counter s) + (if m' = m \<and> metric_live m s then v else 0)"
    and "metric_live m' s' = metric_live m' s"
    and "st_slots s' m' = None \<longleftrightarrow> st_slots s m' = None"
  using assms
  by (auto simp: stat_iadd_def metric_live_def counter_get_update
      split: option.splits slot.splits if_splits)

definition counted :: "Statistic \<Rightarrow> string set" where
  "counted s = dom (map_of (st_counter s))"

lemma stat_iadd_keeps:
  "stat_iadd k v s = Inr s' \<Longrightarrow>
     st_class s' = st_class s \<and> counted s \<subseteq> counted s'"
  by (auto simp: stat_iadd_def counted_def update_conv' split: option.splits slot.splits)

lemma stat_run_keeps:
  "stat_run ops s = Inr s' \<Longrightarrow>
     st_class s' = st_class s \<and> counted s \<subseteq> counted s'"
proof (induction ops arbitrary: s)
  case Nil
  then show ?case by simp
next
  case (Cons op ops)
  show ?case
  proof (cases op)
    case (Iadd k v)
    with Cons.prems obtain s1 where s1: "stat_iadd k v s = Inr s1" "stat_run ops s1 = Inr s'"
      by (auto simp: bind_result_Inr_iff)
    from Cons.IH [OF s1(2)] stat_iadd_keeps [OF s1(1)] show ?thesis by auto
  next
    case (Assign k v)
    with Cons.prems Cons.IH [of "stat_assign k v s"] show ?thesis
      by (simp add: stat_assign_def counted_def)
  qed
qed

lemma stat_run_dead:
  assumes "stat_run ops s = Inr s'" "\<not> metric_live m s"
  shows "counter_get m (st_counter s') = counter_get m (st_counter s)"
  using assms
proof (induction ops arbitrary: s)
  case Nil
  then show ?case by simp
next
  case (Cons op ops)
  show ?case
  proof (cases op)
    case (Iadd k v)
    with Cons.prems obtain s1 where s1: "stat_iadd k v s = Inr s1" "stat_run ops s1 = Inr s'"
      by (auto simp: bind_result_Inr_iff)
    with Cons.IH [OF s1(2)] Cons.prems(2) show ?thesis
      by (auto simp: stat_iadd_counter [OF s1(1)])
  next
    case (Assign k v)
    with Cons show ?thesis
      by (auto simp: stat_assign_def metric_live_def)
  qed
qed

lemma stat_run_live:
  assumes "stat_run ops s = Inr s'" "metric_live m s"
  shows "counter_get m (st_counter s') = counter_get m (st_counter s) + increments m ops"
  using assms
proof (induction ops arbitrary: s)
  case Nil
  then show ?case by simp
next
  case (Cons op ops)
  show ?case
  proof (cases op)
    case (Iadd k v)
    with Cons.prems obtain s1 where s1: "stat_iadd k v s = Inr s1" "stat_run ops s1 = Inr s'"
      by (auto simp: bind_result_Inr_iff)
    with Cons.IH [OF s1(2)] Cons.prems(2) Iadd show ?thesis
      by (auto simp: stat_iadd_counter [OF s1(1)])
  next
    case (Assign k v)
    show ?thesis
    proof (cases "k = m")
      case True
      with Assign Cons.prems show ?thesis
        using stat_run_dead [of ops "stat_assign m v s" s' m]
        by (simp add: stat_assign_def metric_live_def)
    next
      case False
      with Assign Cons.prems Cons.IH [of "stat_assign k v s"] show ?thesis
        by (simp add: stat_assign_def metric_live_def)
    qed
  qed
qed

text \<open>
  What \<^verbatim>\<open>get_statistics\<close> shows of an instance: each metric of its class exactly once, with the
  sum of its increments. An assignment to the metric ends the counting: increments after it are
  not shown.
\<close>

theorem statistics_show_increments:
  assumes "distinct metrics" "m \<in> set metrics"
    and "stat_run ops (Statistic_init cls metrics name) = Inr s"
    and "store = [(cls, metrics)]"
  shows "map_of (map (\<lambda>r. (sr_metric r, sr_value r)) (get_statistics issub [] store [s])) m =
    Some (increments m ops)"
proof -
  have live: "metric_live m (Statistic_init cls metrics name)"
    using assms(2) by (simp add: metric_live_def Statistic_init_def)
  have zero: "counter_get m (st_counter (Statistic_init cls metrics name)) = 0"
    using assms(2) by (simp add: Statistic_init_def counter_get_def init_counter)
  have "m \<in> counted (Statistic_init cls metrics name)"
    using assms(2) by (simp add: Statistic_init_def counted_def init_counter dom_def)
  with stat_run_keeps [OF assms(3)]
  have s: "m \<in> counted s" "st_class s = cls"
    by (auto simp: Statistic_init_def)
  have "map (\<lambda>r. (sr_metric r, sr_value r)) (get_statistics issub [] store [s]) = st_counter s"
    using s(2) by (simp add: get_statistics_def assms(4) instance_results_def o_def case_prod_unfold)
  moreover obtain v where "map_of (st_counter s) m = Some v"
    using s(1) by (auto simp: counted_def)
  ultimately show ?thesis
    using stat_run_live [OF assms(3) live] zero by (simp add: counter_get_def)
qed

theorem statistics_show_increments_witness:
  "\<exists>s. stat_run [Iadd ''a'' 1, Iadd ''b'' 1, Iadd ''a'' 2, Assign ''a'' 0, Iadd ''a'' 9]
          (Statistic_init ''S'' [''a'', ''b''] None) = Inr s \<and>
        map_of (map (\<lambda>r. (sr_metric r, sr_value r))
          (get_statistics (\<lambda>_ _. False) [] [(''S'', [''a'', ''b''])] [s])) ''a'' = Some 3"
proof -
  let ?ops = "[Iadd ''a'' 1, Iadd ''b'' 1, Iadd ''a'' 2, Assign ''a'' 0, Iadd ''a'' 9]"
  obtain s where s: "stat_run ?ops (Statistic_init ''S'' [''a'', ''b''] None) = Inr s"
    by (simp add: Statistic_init_def stat_iadd_def stat_assign_def)
  from statistics_show_increments [of "[''a'', ''b'']" "''a''", OF _ _ s refl] s
  show ?thesis by (intro exI [of _ s]) simp
qed

end
