(* ===== verification/Io.thy ===== *)
theory Io
  imports Prelude
begin

text \<open>
  Asynchronous files (\<^verbatim>\<open>aiomisc/io.py\<close>): the wrapper around a file object, its operations, which
  run in an executor, iteration over lines and the choice of the class and the mode in
  \<^verbatim>\<open>async_open\<close>.

  The file object of the standard library is modelled as its contents and a position; a character
  stands for a byte in binary mode and for a character in text mode. Text is not decoded and line
  ends are not translated. Compression (gzip, bz2, lzma) only chooses the opener.
\<close>

section \<open>File objects\<close>

record fileobj =
  fo_name :: string
  fo_mode :: string
  fo_data :: string
  fo_pos :: nat
  fo_closed :: bool

definition ValueError_closed :: pyexc where
  "ValueError_closed = ValueError ''I/O operation on closed file.''"

definition file_op :: "(fileobj \<Rightarrow> 'a \<times> fileobj) \<Rightarrow> fileobj \<Rightarrow> 'a result \<times> fileobj" where
  "file_op f fo =
     (if fo_closed fo then (Inl ValueError_closed, fo) else let (x, fo') = f fo in (Inr x, fo'))"

definition rest :: "fileobj \<Rightarrow> string" where
  "rest fo = drop (fo_pos fo) (fo_data fo)"

text \<open>The line at the head of a string, with its line end.\<close>

fun first_line :: "string \<Rightarrow> string" where
  "first_line [] = []"
| "first_line (c # cs) = (if c = CHR 0x0A then [c] else c # first_line cs)"

definition limited :: "int \<Rightarrow> string \<Rightarrow> string" where
  "limited n s = (if n < 0 then s else take (nat n) s)"

definition advance :: "string \<Rightarrow> fileobj \<Rightarrow> fileobj" where
  "advance s fo = fo\<lparr>fo_pos := fo_pos fo + length s\<rparr>"

definition fp_read :: "int \<Rightarrow> fileobj \<Rightarrow> string result \<times> fileobj" where
  "fp_read n = file_op (\<lambda>fo. let s = limited n (rest fo) in (s, advance s fo))"

definition fp_readline :: "int \<Rightarrow> fileobj \<Rightarrow> string result \<times> fileobj" where
  "fp_readline limit = file_op (\<lambda>fo. let s = limited limit (first_line (rest fo)) in (s, advance s fo))"

lemma first_line_length: "length (first_line s) \<le> length s"
  by (induction s) auto

lemma first_line_nonempty [simp]: "first_line s = [] \<longleftrightarrow> s = []"
  by (cases s) auto

function lines_of :: "string \<Rightarrow> string list" where
  "lines_of s = (if s = [] then [] else first_line s # lines_of (drop (length (first_line s)) s))"
  by pat_completeness auto
termination
  by (relation "measure length") (auto simp: neq_Nil_conv)

declare lines_of.simps [simp del]

text \<open>\<^verbatim>\<open>readlines\<close> with a positive hint stops after the line with which the hint is reached.\<close>

fun hinted :: "int \<Rightarrow> string list \<Rightarrow> string list" where
  "hinted n [] = []"
| "hinted n (l # ls) = (if int (length l) \<ge> n then [l] else l # hinted (n - int (length l)) ls)"

definition fp_readlines :: "int \<Rightarrow> fileobj \<Rightarrow> string list result \<times> fileobj" where
  "fp_readlines hint = file_op (\<lambda>fo.
     let ls = (if hint \<le> 0 then lines_of (rest fo) else hinted hint (lines_of (rest fo)))
     in (ls, advance (concat ls) fo))"

text \<open>Writing at a position behind the end fills the gap with zeros.\<close>

definition write_at :: "nat \<Rightarrow> string \<Rightarrow> string \<Rightarrow> string" where
  "write_at p s d =
     (if s = [] then d
      else take p d @ replicate (p - length d) (CHR 0x00) @ s @ drop (p + length s) d)"

definition fp_write :: "string \<Rightarrow> fileobj \<Rightarrow> int result \<times> fileobj" where
  "fp_write s = file_op (\<lambda>fo.
     (int (length s), advance s (fo\<lparr>fo_data := write_at (fo_pos fo) s (fo_data fo)\<rparr>)))"

definition fp_seek :: "int \<Rightarrow> nat \<Rightarrow> fileobj \<Rightarrow> int result \<times> fileobj" where
  "fp_seek offset whence fo =
     (if fo_closed fo then (Inl ValueError_closed, fo)
      else
        let base = (if whence = 0 then 0 else if whence = 1 then int (fo_pos fo)
                    else int (length (fo_data fo)));
            p = base + offset
        in if whence > 2 then (Inl (ValueError ''invalid whence''), fo)
           else if p < 0 then (Inl (ValueError ''negative seek position''), fo)
           else (Inr p, fo\<lparr>fo_pos := nat p\<rparr>))"

definition fp_tell :: "fileobj \<Rightarrow> int result \<times> fileobj" where
  "fp_tell = file_op (\<lambda>fo. (int (fo_pos fo), fo))"

definition fp_truncate :: "nat option \<Rightarrow> fileobj \<Rightarrow> int result \<times> fileobj" where
  "fp_truncate n = file_op (\<lambda>fo.
     let k = (case n of None \<Rightarrow> fo_pos fo | Some k \<Rightarrow> k)
     in (int k, fo\<lparr>fo_data := take k (fo_data fo) @ replicate (k - length (fo_data fo)) (CHR 0x00)\<rparr>))"

definition fp_close :: "fileobj \<Rightarrow> unit result \<times> fileobj" where
  "fp_close fo = (Inr (), fo\<lparr>fo_closed := True\<rparr>)"

section \<open>Asynchronous files\<close>

datatype io_class = AsyncBinaryIO | AsyncTextIO

datatype opener = OpenPlain | OpenGzip | OpenBz2 | OpenLzma

record AsyncFileIO =
  af_class :: io_class
  af_opener :: opener
  af_fname :: string
  af_mode :: string
  af_fp :: "fileobj option"
  af_iterator_lock :: bool

definition AsyncFileIO_init :: "io_class \<Rightarrow> opener \<Rightarrow> string \<Rightarrow> string \<Rightarrow> AsyncFileIO" where
  "AsyncFileIO_init cls op fname mode =
     \<lparr>af_class = cls, af_opener = op, af_fname = fname, af_mode = mode, af_fp = None,
      af_iterator_lock = False\<rparr>"

definition open_fp :: "io_class \<Rightarrow> opener \<Rightarrow> fileobj \<Rightarrow> AsyncFileIO" where
  "open_fp cls op fp = (AsyncFileIO_init cls op (fo_name fp) (fo_mode fp))\<lparr>af_fp := Some fp\<rparr>"

text \<open>
  \<^verbatim>\<open>open\<close> up to the executor and after it: a file that is not open is opened with the arguments of
  the constructor.
\<close>

definition must_open :: "AsyncFileIO \<Rightarrow> bool" where
  "must_open f \<longleftrightarrow> af_fp f = None"

definition opened :: "fileobj result \<Rightarrow> AsyncFileIO \<Rightarrow> AsyncFileIO \<times> unit result" where
  "opened r f = (case r of Inl e \<Rightarrow> (f, Inl e) | Inr fp \<Rightarrow> (f\<lparr>af_fp := Some fp\<rparr>, Inr ()))"

definition async_file_open ::
  "(opener \<Rightarrow> string \<Rightarrow> string \<Rightarrow> fileobj result) \<Rightarrow> AsyncFileIO \<Rightarrow> AsyncFileIO \<times> unit result" where
  "async_file_open fs f =
     (if must_open f then opened (fs (af_opener f) (af_fname f) (af_mode f)) f else (f, Inr ()))"

text \<open>
  The property \<^verbatim>\<open>fp\<close>; a text file gives \<^verbatim>\<open>None\<close> instead of raising when it is not open, and the
  use of its methods then raises an \<^verbatim>\<open>AttributeError\<close>.
\<close>

definition get_fp :: "string \<Rightarrow> AsyncFileIO \<Rightarrow> fileobj result" where
  "get_fp name f =
     (case af_fp f of
        Some fp \<Rightarrow> Inr fp
      | None \<Rightarrow>
          (case af_class f of
             AsyncBinaryIO \<Rightarrow> Inl (RuntimeError ''file is not opened'')
           | AsyncTextIO \<Rightarrow>
               Inl (mk_exc [''AttributeError'', ''Exception'', ''BaseException''] [name])))"

text \<open>An operation of the file object, run in the executor.\<close>

definition execute ::
  "string \<Rightarrow> (fileobj \<Rightarrow> 'a result \<times> fileobj) \<Rightarrow> AsyncFileIO \<Rightarrow> 'a result \<times> AsyncFileIO" where
  "execute name m f =
     (case get_fp name f of
        Inl e \<Rightarrow> (Inl e, f)
      | Inr fp \<Rightarrow> (let (r, fp') = m fp in (r, f\<lparr>af_fp := Some fp'\<rparr>)))"

definition aio_read :: "int \<Rightarrow> AsyncFileIO \<Rightarrow> string result \<times> AsyncFileIO" where
  "aio_read n = execute ''read'' (fp_read n)"

definition aio_readline :: "int \<Rightarrow> AsyncFileIO \<Rightarrow> string result \<times> AsyncFileIO" where
  "aio_readline limit = execute ''readline'' (fp_readline limit)"

definition aio_readlines :: "int \<Rightarrow> AsyncFileIO \<Rightarrow> string list result \<times> AsyncFileIO" where
  "aio_readlines limit = execute ''readlines'' (fp_readlines limit)"

definition aio_write :: "string \<Rightarrow> AsyncFileIO \<Rightarrow> int result \<times> AsyncFileIO" where
  "aio_write s = execute ''write'' (fp_write s)"

definition aio_writelines :: "string list \<Rightarrow> AsyncFileIO \<Rightarrow> unit result \<times> AsyncFileIO" where
  "aio_writelines ls = execute ''writelines'' (\<lambda>fo. (case fp_write (concat ls) fo of
     (Inl e, fo') \<Rightarrow> (Inl e, fo') | (Inr _, fo') \<Rightarrow> (Inr (), fo')))"

definition aio_seek :: "int \<Rightarrow> nat \<Rightarrow> AsyncFileIO \<Rightarrow> int result \<times> AsyncFileIO" where
  "aio_seek offset whence = execute ''seek'' (fp_seek offset whence)"

definition aio_tell :: "AsyncFileIO \<Rightarrow> int result \<times> AsyncFileIO" where
  "aio_tell = execute ''tell'' fp_tell"

definition aio_truncate :: "nat option \<Rightarrow> AsyncFileIO \<Rightarrow> int result \<times> AsyncFileIO" where
  "aio_truncate n = execute ''truncate'' (fp_truncate n)"

definition aio_close :: "AsyncFileIO \<Rightarrow> unit result \<times> AsyncFileIO" where
  "aio_close = execute ''close'' fp_close"

definition aio_closed :: "AsyncFileIO \<Rightarrow> bool result" where
  "aio_closed f = bind_result (get_fp ''closed'' f) (\<lambda>fp. Inr (fo_closed fp))"

text \<open>\<^verbatim>\<open>__aexit__\<close> closes the file object and keeps it.\<close>

definition aio_aexit :: "AsyncFileIO \<Rightarrow> unit result \<times> AsyncFileIO" where
  "aio_aexit f =
     (if af_fp f = None then (Inl (RuntimeError ''file is not opened''), f)
      else execute ''__exit__'' fp_close f)"

text \<open>\<^verbatim>\<open>__anext__\<close>: a line read under the lock of the iterator; \<^const>\<open>None\<close> is the end of the iteration.\<close>

definition anext :: "AsyncFileIO \<Rightarrow> string option result \<times> AsyncFileIO" where
  "anext f =
     (let (r, f') = aio_readline (-1) f
      in (bind_result r (\<lambda>line. Inr (if line = [] then None else Some line)), f'))"

text \<open>
  \<^verbatim>\<open>__eq__\<close>: both sides of the comparison hold the same second component.
\<close>

definition aio_eq :: "AsyncFileIO \<Rightarrow> AsyncFileIO \<Rightarrow> bool" where
  "aio_eq f g \<longleftrightarrow> af_class f = af_class g \<and> af_opener f = af_opener g"

text \<open>\<^verbatim>\<open>__await__\<close> and \<^verbatim>\<open>__aenter__\<close>: open and give the object itself.\<close>

definition aio_await ::
  "(opener \<Rightarrow> string \<Rightarrow> string \<Rightarrow> fileobj result) \<Rightarrow> AsyncFileIO \<Rightarrow> AsyncFileIO result \<times> AsyncFileIO" where
  "aio_await fs f =
     (case async_file_open fs f of (f', r) \<Rightarrow> (bind_result r (\<lambda>_. Inr f'), f'))"

definition aio_aenter ::
  "(opener \<Rightarrow> string \<Rightarrow> string \<Rightarrow> fileobj result) \<Rightarrow> AsyncFileIO \<Rightarrow> AsyncFileIO result \<times> AsyncFileIO" where
  "aio_aenter fs f =
     (case async_file_open fs f of (f', r) \<Rightarrow> (bind_result r (\<lambda>_. Inr f'), f'))"

text \<open>
  \<^verbatim>\<open>__del__\<close>, with the file object that it leaves behind. A binary file that was never opened raises,
  which the interpreter ignores.
\<close>

definition aio_del :: "AsyncFileIO \<Rightarrow> unit result \<times> fileobj option" where
  "aio_del f =
     (case af_fp f of
        None \<Rightarrow> (if af_class f = AsyncTextIO then Inr () else Inl (RuntimeError ''file is not opened''), None)
      | Some fp \<Rightarrow> if fo_closed fp then (Inr (), Some fp) else (Inr (), Some (snd (fp_close fp))))"

text \<open>\<^verbatim>\<open>__lt__\<close>: file objects have no order, so the comparison raises.\<close>

definition aio_lt :: "AsyncFileIO \<Rightarrow> AsyncFileIO \<Rightarrow> bool result" where
  "aio_lt f g =
     bind_result (get_fp ''fp'' f) (\<lambda>_. bind_result (get_fp ''fp'' g) (\<lambda>_.
       Inl (TypeError ''< not supported between file objects'')))"

text \<open>\<^verbatim>\<open>__hash__\<close>; \<^verbatim>\<open>id_hash\<close> is the hash of file objects, \<^verbatim>\<open>pair_hash\<close> that of a pair.\<close>

definition aio_hash ::
  "(io_class \<Rightarrow> int option \<Rightarrow> int) \<Rightarrow> (fileobj \<Rightarrow> int) \<Rightarrow> AsyncFileIO \<Rightarrow> int result" where
  "aio_hash pair_hash id_hash f =
     (case af_fp f of
        Some fp \<Rightarrow> Inr (pair_hash (af_class f) (Some (id_hash fp)))
      | None \<Rightarrow> if af_class f = AsyncTextIO then Inr (pair_hash (af_class f) None)
                else Inl (RuntimeError ''file is not opened''))"

definition aio_mode :: "AsyncFileIO \<Rightarrow> string result" where
  "aio_mode f = bind_result (get_fp ''mode'' f) (\<lambda>fp. Inr (fo_mode fp))"

definition aio_name :: "AsyncFileIO \<Rightarrow> string result" where
  "aio_name f = bind_result (get_fp ''name'' f) (\<lambda>fp. Inr (fo_name fp))"

definition aio_fileno :: "(fileobj \<Rightarrow> int result) \<Rightarrow> AsyncFileIO \<Rightarrow> int result" where
  "aio_fileno fileno f = bind_result (get_fp ''fileno'' f) fileno"

definition aio_isatty :: "(fileobj \<Rightarrow> bool result) \<Rightarrow> AsyncFileIO \<Rightarrow> bool result" where
  "aio_isatty isatty f = bind_result (get_fp ''isatty'' f) isatty"

text \<open>What the mode of a file object allows.\<close>

definition fp_readable :: "fileobj \<Rightarrow> bool" where
  "fp_readable fo \<longleftrightarrow> CHR ''r'' \<in> set (fo_mode fo) \<or> CHR ''+'' \<in> set (fo_mode fo)"

definition fp_writable :: "fileobj \<Rightarrow> bool" where
  "fp_writable fo \<longleftrightarrow>
     CHR ''w'' \<in> set (fo_mode fo) \<or> CHR ''a'' \<in> set (fo_mode fo) \<or> CHR ''x'' \<in> set (fo_mode fo) \<or>
     CHR ''+'' \<in> set (fo_mode fo)"

definition aio_readable :: "AsyncFileIO \<Rightarrow> bool result \<times> AsyncFileIO" where
  "aio_readable = execute ''readable'' (file_op (\<lambda>fo. (fp_readable fo, fo)))"

definition aio_seekable :: "(fileobj \<Rightarrow> bool) \<Rightarrow> AsyncFileIO \<Rightarrow> bool result \<times> AsyncFileIO" where
  "aio_seekable can_seek = execute ''seekable'' (file_op (\<lambda>fo. (can_seek fo, fo)))"

definition aio_writable :: "AsyncFileIO \<Rightarrow> bool result \<times> AsyncFileIO" where
  "aio_writable = execute ''writable'' (file_op (\<lambda>fo. (fp_writable fo, fo)))"

definition aio_flush :: "AsyncFileIO \<Rightarrow> unit result \<times> AsyncFileIO" where
  "aio_flush = execute ''flush'' (file_op (\<lambda>fo. ((), fo)))"

text \<open>
  \<^verbatim>\<open>__getattr__\<close> gives a coroutine function for every name; only awaiting its result looks the name
  up. An attribute of the file object is missing, a method, or another value.
\<close>

datatype 'v attribute = Missing | Method "fileobj \<Rightarrow> 'v result \<times> fileobj" | Value 'v

definition aio_getattr ::
  "(fileobj \<Rightarrow> string \<Rightarrow> 'v attribute) \<Rightarrow> string \<Rightarrow> AsyncFileIO \<Rightarrow> 'v result \<times> AsyncFileIO" where
  "aio_getattr lookup name f =
     (case get_fp name f of
        Inl e \<Rightarrow> (Inl e, f)
      | Inr fp \<Rightarrow>
          (case lookup fp name of
             Missing \<Rightarrow> (Inl (mk_exc [''AttributeError'', ''Exception'', ''BaseException''] [name]), f)
           | Method m \<Rightarrow> execute name m f
           | Value v \<Rightarrow> (Inr v, f)))"

text \<open>The attributes of a text file object, and \<^verbatim>\<open>buffer\<close>, which wraps its binary file.\<close>

record text_attributes =
  ta_newlines :: "string option"
  ta_errors :: "string option"
  ta_line_buffering :: bool
  ta_encoding :: string
  ta_buffer :: fileobj

definition text_attribute ::
  "string \<Rightarrow> (text_attributes \<Rightarrow> 'v) \<Rightarrow> (fileobj \<Rightarrow> text_attributes) \<Rightarrow> AsyncFileIO \<Rightarrow> 'v result" where
  "text_attribute name sel attrs f = bind_result (get_fp name f) (\<lambda>fp. Inr (sel (attrs fp)))"

definition aio_newlines :: "(fileobj \<Rightarrow> text_attributes) \<Rightarrow> AsyncFileIO \<Rightarrow> string option result" where
  "aio_newlines = text_attribute ''newlines'' ta_newlines"

definition aio_errors :: "(fileobj \<Rightarrow> text_attributes) \<Rightarrow> AsyncFileIO \<Rightarrow> string option result" where
  "aio_errors = text_attribute ''errors'' ta_errors"

definition aio_line_buffering :: "(fileobj \<Rightarrow> text_attributes) \<Rightarrow> AsyncFileIO \<Rightarrow> bool result" where
  "aio_line_buffering = text_attribute ''line_buffering'' ta_line_buffering"

definition aio_encoding :: "(fileobj \<Rightarrow> text_attributes) \<Rightarrow> AsyncFileIO \<Rightarrow> string result" where
  "aio_encoding = text_attribute ''encoding'' ta_encoding"

definition aio_buffer :: "(fileobj \<Rightarrow> text_attributes) \<Rightarrow> AsyncFileIO \<Rightarrow> AsyncFileIO result" where
  "aio_buffer attrs f =
     bind_result (text_attribute ''buffer'' ta_buffer attrs f) (\<lambda>fp. Inr (open_fp AsyncBinaryIO OpenPlain fp))"

text \<open>
  \<^verbatim>\<open>proxy_method_async\<close>: the future of a call made in the executor or in a callback of the loop. An
  exception of the callback that is no \<^verbatim>\<open>Exception\<close> is not caught, and its future stays pending.
\<close>

definition proxy_method_async :: "bool \<Rightarrow> 'r result \<Rightarrow> 'r fut" where
  "proxy_method_async in_executor out =
     (if in_executor then Resolved out
      else case out of
             Inr v \<Rightarrow> Resolved (Inr v)
           | Inl e \<Rightarrow> if is_Exception e then Resolved (Inl e) else Pending)"

section \<open>Opening\<close>

datatype Compression = NONE | GZIP | BZ2 | LZMA

fun get_opener :: "Compression \<Rightarrow> opener" where
  "get_opener NONE = OpenPlain"
| "get_opener GZIP = OpenGzip"
| "get_opener BZ2 = OpenBz2"
| "get_opener LZMA = OpenLzma"

definition async_open :: "string \<Rightarrow> string \<Rightarrow> Compression \<Rightarrow> AsyncFileIO" where
  "async_open fname mode compression =
     (if CHR ''b'' \<in> set mode then AsyncFileIO_init AsyncBinaryIO (get_opener compression) fname mode
      else
        let mode' = (if CHR ''t'' \<notin> set mode then CHR ''t'' # mode else mode)
        in AsyncFileIO_init AsyncTextIO (get_opener compression) fname mode')"

section \<open>Lines\<close>

lemma first_line_prefix: "first_line s = take (length (first_line s)) s"
  by (induction s) auto

lemma first_line_append_drop: "first_line s @ drop (length (first_line s)) s = s"
  by (metis append_take_drop_id first_line_prefix)

lemma lines_of_Nil [simp]: "lines_of [] = []"
  by (simp add: lines_of.simps)

lemma lines_of_step:
  "s \<noteq> [] \<Longrightarrow> lines_of s = first_line s # lines_of (drop (length (first_line s)) s)"
  by (subst lines_of.simps) simp

lemma concat_lines_of: "concat (lines_of s) = s"
proof (induction s rule: lines_of.induct)
  case (1 s)
  show ?case
  proof (cases "s = []")
    case False
    from 1 [OF False] show ?thesis
      by (simp add: lines_of_step [OF False] first_line_append_drop)
  qed simp
qed

lemma lines_of_nonempty: "l \<in> set (lines_of s) \<Longrightarrow> l \<noteq> []"
proof (induction s rule: lines_of.induct)
  case (1 s)
  show ?case
  proof (cases "s = []")
    case False
    have "l = first_line s \<or> l \<in> set (lines_of (drop (length (first_line s)) s))"
      using 1(2) by (simp add: lines_of_step [OF False])
    then show ?thesis using 1(1) [OF False] False by (elim disjE) simp_all
  qed (use 1(2) in simp)
qed

section \<open>Reading and writing\<close>

lemma execute_open:
  "af_fp f = Some fp \<Longrightarrow> m fp = (r, fp') \<Longrightarrow> execute name m f = (r, f\<lparr>af_fp := Some fp'\<rparr>)"
  by (simp add: execute_def get_fp_def)

text \<open>No operation works before the file is open, or after it was closed.\<close>

lemma execute_not_open: "af_fp f = None \<Longrightarrow> \<exists>e. execute name m f = (Inl e, f) \<and> is_Exception e"
  by (cases "af_class f") (auto simp: execute_def get_fp_def py_simps)

lemma closed_file:
  assumes "af_fp f = Some fp" "fo_closed fp"
  shows "aio_read n f = (Inl ValueError_closed, f)" "aio_readline n f = (Inl ValueError_closed, f)"
    "aio_write s f = (Inl ValueError_closed, f)" "aio_seek o1 w f = (Inl ValueError_closed, f)"
  using assms
  by (simp_all add: aio_read_def aio_readline_def aio_write_def aio_seek_def execute_def get_fp_def
      fp_read_def fp_readline_def fp_write_def fp_seek_def file_op_def)

lemma write_at_read:
  "take (length s) (drop p (write_at p s d)) = s"
  by (cases "s = []") (simp_all add: write_at_def min_def)

text \<open>
  What was written at a position of an open file is read back from it, and the rest of the
  file is kept.
\<close>

theorem file_write_read:
  assumes "af_fp f = Some fp" "\<not> fo_closed fp"
  shows "\<exists>f1 f2 f3 f4.
    aio_seek (int p) 0 f = (Inr (int p), f1) \<and>
    aio_write s f1 = (Inr (int (length s)), f2) \<and>
    aio_seek (int p) 0 f2 = (Inr (int p), f3) \<and>
    aio_read (int (length s)) f3 = (Inr s, f4) \<and>
    (\<exists>fp4. af_fp f4 = Some fp4 \<and> fo_pos fp4 = p + length s \<and>
       (\<forall>i < length (fo_data fp). i < p \<or> p + length s \<le> i \<longrightarrow> fo_data fp4 ! i = fo_data fp ! i))"
proof -
  let ?d = "write_at p s (fo_data fp)"
  let ?fp1 = "fp\<lparr>fo_pos := p\<rparr>"
  let ?fp2 = "fp\<lparr>fo_data := ?d, fo_pos := p + length s\<rparr>"
  let ?fp3 = "fp\<lparr>fo_data := ?d, fo_pos := p\<rparr>"
  have keep: "?d ! i = fo_data fp ! i"
    if "i < length (fo_data fp)" "i < p \<or> p + length s \<le> i" for i
    using that by (auto simp: write_at_def nth_append min_def)
  have "aio_seek (int p) 0 f = (Inr (int p), f\<lparr>af_fp := Some ?fp1\<rparr>)"
    unfolding aio_seek_def by (rule execute_open [OF assms(1)]) (simp add: fp_seek_def assms(2))
  moreover have "aio_write s (f\<lparr>af_fp := Some ?fp1\<rparr>) = (Inr (int (length s)), f\<lparr>af_fp := Some ?fp2\<rparr>)"
    by (simp add: aio_write_def execute_def get_fp_def fp_write_def file_op_def assms(2) advance_def)
  moreover have "aio_seek (int p) 0 (f\<lparr>af_fp := Some ?fp2\<rparr>) = (Inr (int p), f\<lparr>af_fp := Some ?fp3\<rparr>)"
    by (simp add: aio_seek_def execute_def get_fp_def fp_seek_def assms(2))
  moreover have "limited (int (length s)) (rest ?fp3) = s"
    by (simp add: limited_def rest_def write_at_read)
  then have "aio_read (int (length s)) (f\<lparr>af_fp := Some ?fp3\<rparr>) = (Inr s, f\<lparr>af_fp := Some ?fp2\<rparr>)"
    by (simp add: aio_read_def execute_def get_fp_def fp_read_def file_op_def assms(2) Let_def
        advance_def)
  ultimately show ?thesis using keep by (intro exI conjI) auto
qed

definition example_file :: AsyncFileIO where
  "example_file = open_fp AsyncBinaryIO OpenPlain
     \<lparr>fo_name = ''x'', fo_mode = ''rb+'', fo_data = ''abcdef'', fo_pos = 0, fo_closed = False\<rparr>"

theorem file_write_read_witness:
  "\<exists>f1 f2 f3 f4. aio_seek 2 0 example_file = (Inr 2, f1) \<and> aio_write ''xy'' f1 = (Inr 2, f2) \<and>
     aio_seek 2 0 f2 = (Inr 2, f3) \<and> aio_read 2 f3 = (Inr ''xy'', f4)"
proof -
  let ?fp = "\<lparr>fo_name = ''x'', fo_mode = ''rb+'', fo_data = ''abcdef'', fo_pos = 0, fo_closed = False\<rparr>"
  have "af_fp example_file = Some ?fp" "\<not> fo_closed ?fp" by (simp_all add: example_file_def open_fp_def)
  from file_write_read [OF this, of 2 "''xy''"] show ?thesis by auto
qed

section \<open>Iterating over lines\<close>

text \<open>
  Consumers of one file take turns in any order: the schedule gives the consumer of each call of
  \<^verbatim>\<open>__anext__\<close>, and the result who got what.
\<close>

fun consume :: "nat list \<Rightarrow> AsyncFileIO \<Rightarrow> (nat \<times> string option result) list \<times> AsyncFileIO" where
  "consume [] f = ([], f)"
| "consume (c # cs) f =
     (let (r, f1) = anext f; (rs, f2) = consume cs f1 in ((c, r) # rs, f2))"

lemma anext_open:
  assumes "af_fp f = Some fp" "\<not> fo_closed fp"
  shows "anext f =
    (Inr (case lines_of (rest fp) of [] \<Rightarrow> None | l # _ \<Rightarrow> Some l),
     f\<lparr>af_fp := Some (advance (first_line (rest fp)) fp)\<rparr>)"
  using assms lines_of_step [of "rest fp"]
  by (auto simp: anext_def aio_readline_def execute_def get_fp_def fp_readline_def file_op_def
      limited_def Let_def split: list.splits)

lemma rest_advance: "rest (advance s fp) = drop (length s) (rest fp)"
  by (simp add: rest_def advance_def add.commute)

lemma lines_after_first: "lines_of (drop (length (first_line s)) s) = tl (lines_of s)"
  using lines_of_step [of s] by (cases "s = []") simp_all

definition line_at :: "string list \<Rightarrow> nat \<Rightarrow> string option" where
  "line_at ls i = (if i < length ls then Some (ls ! i) else None)"

lemma consume_lines:
  assumes "af_fp f = Some fp" "\<not> fo_closed fp"
  shows "fst (consume cs f) =
    map (\<lambda>i. (cs ! i, Inr (line_at (lines_of (rest fp)) i))) [0..<length cs]"
  using assms
proof (induction cs arbitrary: f fp)
  case Nil
  then show ?case by simp
next
  case (Cons c cs)
  let ?fp = "advance (first_line (rest fp)) fp"
  have "\<not> fo_closed ?fp" using Cons.prems(2) by (simp add: advance_def)
  from Cons.IH [OF _ this, of "f\<lparr>af_fp := Some ?fp\<rparr>"]
  have ih: "fst (consume cs (f\<lparr>af_fp := Some ?fp\<rparr>)) =
      map (\<lambda>i. (cs ! i, Inr (line_at (tl (lines_of (rest fp))) i))) [0..<length cs]"
    by (simp add: rest_advance lines_after_first)
  have shift: "line_at (tl ls) i = line_at ls (Suc i)" for ls :: "string list" and i
    by (cases ls) (simp_all add: line_at_def)
  have head: "(case lines_of (rest fp) of [] \<Rightarrow> None | l # _ \<Rightarrow> Some l) = line_at (lines_of (rest fp)) 0"
    by (simp add: line_at_def split: list.splits)
  show ?case
    using ih
    by (simp add: anext_open [OF Cons.prems] Let_def case_prod_unfold head shift upt_conv_Cons
        map_Suc_upt [symmetric] del: upt_Suc)
qed

text \<open>
  However many consumers iterate over one open file, and in whatever order their calls take
  the lock: the \<open>i\<close>-th call gets the \<open>i\<close>-th line, so that every line goes to exactly one consumer,
  in the order of the file; calls after the last line end their iteration. The lines are the
  contents of the file from the current position on, and none of them is empty.
\<close>

theorem lines_in_order:
  assumes "af_fp f = Some fp" "\<not> fo_closed fp"
  shows "map snd (fst (consume schedule f)) =
      map (\<lambda>i. Inr (line_at (lines_of (rest fp)) i)) [0..<length schedule] \<and>
    map fst (fst (consume schedule f)) = schedule \<and>
    concat (lines_of (rest fp)) = rest fp \<and>
    (\<forall>l \<in> set (lines_of (rest fp)). l \<noteq> [])"
  using consume_lines [OF assms, of schedule]
  by (simp add: concat_lines_of o_def map_nth) (blast dest: lines_of_nonempty)

theorem lines_in_order_witness:
  "map snd (fst (consume [0, 1, 0] example_file)) = [Inr (Some ''abcdef''), Inr None, Inr None]"
proof -
  let ?fp = "\<lparr>fo_name = ''x'', fo_mode = ''rb+'', fo_data = ''abcdef'', fo_pos = 0, fo_closed = False\<rparr>"
  have "af_fp example_file = Some ?fp" "\<not> fo_closed ?fp" by (simp_all add: example_file_def open_fp_def)
  from lines_in_order [OF this, of "[0, 1, 0]"] show ?thesis
    by (simp add: rest_def lines_of_step line_at_def)
qed

section \<open>Opening and comparing\<close>

text \<open>The class follows the letter \<^verbatim>\<open>b\<close>, and a text mode is always explicit.\<close>

lemma async_open_class:
  "af_class (async_open fname mode c) = (if CHR ''b'' \<in> set mode then AsyncBinaryIO else AsyncTextIO)"
  "CHR ''b'' \<notin> set mode \<Longrightarrow> CHR ''t'' \<in> set (af_mode (async_open fname mode c))"
  by (simp_all add: async_open_def AsyncFileIO_init_def Let_def)

lemma open_idempotent:
  "af_fp f = Some fp \<Longrightarrow> async_file_open fs f = (f, Inr ())"
  by (simp add: async_file_open_def must_open_def)

text \<open>A file that was left by \<^verbatim>\<open>async with\<close> is closed and is not opened again.\<close>

lemma reopen_after_exit:
  assumes "af_fp f = Some fp" "aio_aexit f = (r, f')"
  shows "async_file_open fs f' = (f', Inr ()) \<and> aio_closed f' = Inr True"
  using assms
  by (auto simp: aio_aexit_def execute_def get_fp_def fp_close_def async_file_open_def must_open_def
      aio_closed_def)

text \<open>Two calls of \<^verbatim>\<open>open\<close> that overlap both open the file, and the first file object is lost unclosed.\<close>

lemma overlapping_open_loses:
  assumes "must_open f" "opened (Inr a) f = (f1, Inr ())" "opened (Inr b) f1 = (f2, Inr ())"
  shows "af_fp f2 = Some b"
  using assms by (auto simp: opened_def)

text \<open>Files of the same class compare equal whatever files they are.\<close>

lemma aio_eq_any: "aio_eq (open_fp cls op a) (open_fp cls op b)"
  by (simp add: aio_eq_def open_fp_def AsyncFileIO_init_def)

text \<open>
  Two open files of the same class compare equal although their hashes differ whenever the hashes of
  their file objects do, so sets and dictionaries may hold both.
\<close>

lemma equal_files_differ_in_hash:
  assumes "inj (pair_hash cls)" "id_hash a \<noteq> id_hash b"
  shows "aio_eq (open_fp cls op a) (open_fp cls op b) \<and>
    aio_hash pair_hash id_hash (open_fp cls op a) \<noteq> aio_hash pair_hash id_hash (open_fp cls op b)"
  using assms aio_eq_any by (auto simp: aio_hash_def open_fp_def AsyncFileIO_init_def dest: injD)

text \<open>A file that goes away is closed, and its finalizer does nothing twice.\<close>

lemma finalizer_closes:
  "aio_del f = (r, Some fp) \<Longrightarrow> r = Inr () \<and> fo_closed fp"
  by (auto simp: aio_del_def fp_close_def split: option.splits if_splits)

lemma unknown_attribute_raises_late:
  "af_fp f = Some fp \<Longrightarrow> lookup fp name = Missing \<Longrightarrow>
     \<exists>e. aio_getattr lookup name f = (Inl e, f) \<and> isinstance_exc e ''AttributeError''"
  by (simp add: aio_getattr_def get_fp_def py_simps)

end
