(* ===== verification/ProcessServices.thy ===== *)
theory ProcessServices
  imports Recurring
begin

text \<open>
  Services around processes: the process services of \<^verbatim>\<open>aiomisc/service/process.py\<close>, the systemd
  watchdog of \<^verbatim>\<open>aiomisc/service/sdwatchdog.py\<close>, which sends its heartbeat from a periodic
  callback, and the statistic of the process pool of \<^verbatim>\<open>aiomisc/process_pool.py\<close>.

  Processes are numbered in the order in which they are spawned. The operating system decides
  when they end and what a signal does.
\<close>

section \<open>Process services\<close>

text \<open>
  A process: whether it is alive, and whether its function has ended (the stop event is set in
  the \<^verbatim>\<open>finally\<close> of \<^verbatim>\<open>_process_inner\<close>, so it is also set when the function raised).
\<close>

record proc =
  pr_alive :: bool
  pr_stop_event :: bool

record ProcessService =
  pv_procs :: "proc list"
  pv_process :: "nat option"
  pv_starting :: "nat option"
  pv_stopped :: bool
  pv_orphans :: "nat list"

definition ProcessService_init :: ProcessService where
  "ProcessService_init =
     \<lparr>pv_procs = [], pv_process = None, pv_starting = None, pv_stopped = False, pv_orphans = []\<rparr>"

text \<open>\<^verbatim>\<open>start\<close> up to its await: the process runs, the attribute is not set yet.\<close>

definition start_begin :: "ProcessService \<Rightarrow> ProcessService" where
  "start_begin s =
     s\<lparr>pv_procs := pv_procs s @ [\<lparr>pr_alive = True, pr_stop_event = False\<rparr>],
       pv_starting := Some (length (pv_procs s))\<rparr>"

text \<open>After the start event was set.\<close>

definition start_end :: "ProcessService \<Rightarrow> ProcessService" where
  "start_end s = s\<lparr>pv_process := pv_starting s, pv_starting := None\<rparr>"

text \<open>A cancellation while it waits: nothing refers to the new process any more.\<close>

definition start_cancelled :: "ProcessService \<Rightarrow> ProcessService" where
  "start_cancelled s =
     (case pv_starting s of
        None \<Rightarrow> s
      | Some i \<Rightarrow> s\<lparr>pv_starting := None, pv_orphans := pv_orphans s @ [i]\<rparr>)"

definition is_alive :: "ProcessService \<Rightarrow> bool" where
  "is_alive s =
     (case pv_process s of None \<Rightarrow> False | Some i \<Rightarrow> pr_alive (pv_procs s ! i))"

definition set_proc :: "nat \<Rightarrow> proc \<Rightarrow> ProcessService \<Rightarrow> ProcessService" where
  "set_proc i p s = s\<lparr>pv_procs := (pv_procs s)[i := p]\<rparr>"

text \<open>The function of a process ends and sets the stop event; the process ends.\<close>

definition function_ends :: "nat \<Rightarrow> ProcessService \<Rightarrow> ProcessService" where
  "function_ends i s = set_proc i ((pv_procs s ! i)\<lparr>pr_stop_event := True\<rparr>) s"

definition process_ends :: "nat \<Rightarrow> ProcessService \<Rightarrow> ProcessService" where
  "process_ends i s = set_proc i ((pv_procs s ! i)\<lparr>pr_alive := False\<rparr>) s"

text \<open>
  \<^verbatim>\<open>stop\<close>, by what the environment does: whether the process is found by \<^verbatim>\<open>os.kill\<close>, whether the stop
  event is set within the timeout, and whether the process has ended after that (for a set event
  after the join). A process whose stop event was not set in time is killed when it is alive.
\<close>

record stop_env =
  se_found :: bool
  se_stop_event :: bool
  se_ended :: bool

definition process_stop :: "stop_env \<Rightarrow> ProcessService \<Rightarrow> ProcessService" where
  "process_stop env s =
     (if \<not> is_alive s then s
      else case pv_process s of
        None \<Rightarrow> s
      | Some i \<Rightarrow>
          let s1 = s\<lparr>pv_process := None\<rparr> in
          if \<not> se_found env then process_ends i s1
          else
            let s2 = (if se_stop_event env then function_ends i s1 else s1);
                s3 = (if se_ended env then process_ends i s2 else s2)
            in if \<not> se_stop_event env \<and> pr_alive (pv_procs s3 ! i) then process_ends i s3 else s3)"

text \<open>
  \<^verbatim>\<open>__supervise\<close> of the respawning service up to the await of \<^verbatim>\<open>start\<close>: a process that has ended is
  replaced.
\<close>

definition supervise :: "ProcessService \<Rightarrow> ProcessService" where
  "supervise s =
     (case pv_process s of
        None \<Rightarrow> s
      | Some i \<Rightarrow> if pr_alive (pv_procs s ! i) then s else start_begin s)"

text \<open>\<^verbatim>\<open>RespawningProcessService.stop\<close>: the supervisor is cancelled first, then the process stopped.\<close>

definition respawning_stop :: "stop_env \<Rightarrow> ProcessService \<Rightarrow> ProcessService" where
  "respawning_stop env s = (process_stop env (start_cancelled s))\<lparr>pv_stopped := True\<rparr>"

inductive respawn_step :: "ProcessService \<Rightarrow> ProcessService \<Rightarrow> bool" where
  rs_first: "pv_procs s = [] \<Longrightarrow> \<not> pv_stopped s \<Longrightarrow> respawn_step s (start_begin s)"
| rs_started: "pv_starting s \<noteq> None \<Longrightarrow> respawn_step s (start_end s)"
| rs_supervise: "\<not> pv_stopped s \<Longrightarrow> pv_starting s = None \<Longrightarrow> respawn_step s (supervise s)"
| rs_function_ends: "i < length (pv_procs s) \<Longrightarrow> respawn_step s (function_ends i s)"
| rs_process_ends: "i < length (pv_procs s) \<Longrightarrow> respawn_step s (process_ends i s)"
| rs_stop: "\<not> pv_stopped s \<Longrightarrow> respawn_step s (respawning_stop env s)"

section \<open>The systemd watchdog\<close>

text \<open>\<^verbatim>\<open>_get_watchdog_interval\<close> and \<^verbatim>\<open>_get_socket_addr\<close>, with the conversion of the language.\<close>

definition get_watchdog_interval :: "(string \<Rightarrow> int result) \<Rightarrow> string option \<Rightarrow> number option result" where
  "get_watchdog_interval to_int value =
     (case value of
        None \<Rightarrow> Inr None
      | Some v \<Rightarrow> bind_result (to_int v) (\<lambda>i. Inr (Some (of_int i / 1000000))))"

definition get_socket_addr :: "string option \<Rightarrow> string option result" where
  "get_socket_addr addr =
     (case addr of
        None \<Rightarrow> Inr None
      | Some [] \<Rightarrow> Inl (mk_exc [''IndexError'', ''LookupError'', ''Exception'', ''BaseException''] [])
      | Some (c # cs) \<Rightarrow> Inr (Some (if c = CHR ''@'' then CHR 0x00 # cs else c # cs)))"

datatype notification = Starting nat | Started nat | ReadyNow | WatchdogUsec int | Watchdog | Stopping nat
  | StoppingNow

record SDWatchdogService =
  sd_socket_addr :: "string option"
  sd_connected :: bool
  sd_interval :: "number option"
  sd_sent :: "notification list"
  sd_start_event :: bool
  sd_timer :: "number option"

definition SDWatchdogService_init :: "string option \<Rightarrow> number option \<Rightarrow> SDWatchdogService" where
  "SDWatchdogService_init addr interval =
     \<lparr>sd_socket_addr = addr, sd_connected = False, sd_interval = interval, sd_sent = [],
      sd_start_event = False, sd_timer = None\<rparr>"

text \<open>\<^verbatim>\<open>send\<close>: nothing without a socket; errors of the socket are logged.\<close>

definition sd_send :: "notification \<Rightarrow> SDWatchdogService \<Rightarrow> SDWatchdogService" where
  "sd_send n s = (if \<not> sd_connected s then s else s\<lparr>sd_sent := sd_sent s @ [n]\<rparr>)"

definition sd_connect :: "unit result \<Rightarrow> SDWatchdogService \<Rightarrow> SDWatchdogService \<times> bool result" where
  "sd_connect os s =
     (case sd_socket_addr s of
        None \<Rightarrow> (s, Inr False)
      | Some _ \<Rightarrow>
          let s1 = s\<lparr>sd_connected := True\<rparr>
          in case os of Inl e \<Rightarrow> (s1, Inl e) | Inr _ \<Rightarrow> (s1, Inr True))"

definition sd_disconnect :: "SDWatchdogService \<Rightarrow> SDWatchdogService" where
  "sd_disconnect s =
     (if \<not> sd_connected s then s else s\<lparr>sd_connected := False, sd_socket_addr := None\<rparr>)"

definition sd_pre_start :: "unit result \<Rightarrow> nat \<Rightarrow> SDWatchdogService \<Rightarrow> SDWatchdogService \<times> unit result" where
  "sd_pre_start os n s =
     (if sd_socket_addr s = None \<or> sd_socket_addr s = Some [] then (s, Inr ())
      else case sd_connect os s of
        (s1, Inl e) \<Rightarrow> (s1, Inl e)
      | (s1, Inr True) \<Rightarrow> (sd_send (Starting n) s1, Inr ())
      | (s1, Inr False) \<Rightarrow> (s1, Inr ()))"

definition sd_post_start :: "nat \<Rightarrow> SDWatchdogService \<Rightarrow> SDWatchdogService" where
  "sd_post_start n s = sd_send ReadyNow (sd_send (Started n) s)"

definition sd_pre_stop :: "nat \<Rightarrow> SDWatchdogService \<Rightarrow> SDWatchdogService" where
  "sd_pre_stop n s = sd_send (Stopping n) s"

definition sd_post_stop :: "SDWatchdogService \<Rightarrow> SDWatchdogService" where
  "sd_post_stop s = sd_disconnect (sd_send StoppingNow s)"

text \<open>
  \<^verbatim>\<open>start\<close>, with the interval of the environment; the timer runs with half the interval.
\<close>

definition sd_start :: "number option \<Rightarrow> SDWatchdogService \<Rightarrow> SDWatchdogService result" where
  "sd_start WATCHDOG_INTERVAL s =
     (if sd_connected s
      then case sd_interval s of
             None \<Rightarrow> Inr s
           | Some i \<Rightarrow>
               let s1 = (if Some i \<noteq> WATCHDOG_INTERVAL
                         then sd_send (WatchdogUsec \<lfloor>i * 1000000\<rfloor>) s else s);
                   s2 = s1\<lparr>sd_start_event := True\<rparr>
               in bind_result (periodic_start (i / 2) new_callback)
                    (\<lambda>_. Inr (s2\<lparr>sd_timer := Some (i / 2)\<rparr>))
      else Inr s)"

text \<open>\<^verbatim>\<open>filter_services\<close>: the watchdogs among the services of the entrypoint.\<close>

definition filter_services :: "(nat \<Rightarrow> bool) \<Rightarrow> nat list \<Rightarrow> nat list" where
  "filter_services is_watchdog services = filter is_watchdog services"

section \<open>The process pool\<close>

record ProcessPool =
  pp_submitted :: nat
  pp_done :: nat
  pp_error :: nat
  pp_success :: nat
  pp_sum_time :: number
  pp_futures :: "(number \<times> unit fut) list"

definition ProcessPool_init :: ProcessPool where
  "ProcessPool_init =
     \<lparr>pp_submitted = 0, pp_done = 0, pp_error = 0, pp_success = 0, pp_sum_time = 0, pp_futures = []\<rparr>"

definition pp_submit :: "number \<Rightarrow> ProcessPool \<Rightarrow> ProcessPool" where
  "pp_submit now p =
     p\<lparr>pp_submitted := pp_submitted p + 1, pp_futures := pp_futures p @ [(now, Pending)]\<rparr>"

text \<open>
  \<^verbatim>\<open>_statistic_callback\<close> of a finished future; \<^verbatim>\<open>future.exception()\<close> raises for a cancelled one, which
  ends the callback.
\<close>

definition statistic_callback :: "number \<Rightarrow> number \<Rightarrow> unit result \<Rightarrow> ProcessPool \<Rightarrow> ProcessPool" where
  "statistic_callback start_time now r p =
     (if r = Inl CancelledError then p
      else
        let p1 = (case r of Inl _ \<Rightarrow> p\<lparr>pp_error := pp_error p + 1\<rparr>
                          | Inr _ \<Rightarrow> p\<lparr>pp_success := pp_success p + 1\<rparr>)
        in p1\<lparr>pp_done := pp_done p1 + 1, pp_sum_time := pp_sum_time p1 + (now - start_time)\<rparr>)"

definition future_done :: "nat \<Rightarrow> number \<Rightarrow> unit result \<Rightarrow> ProcessPool \<Rightarrow> ProcessPool" where
  "future_done i now r p =
     (let start = fst (pp_futures p ! i)
      in statistic_callback start now r (p\<lparr>pp_futures := (pp_futures p)[i := (start, Resolved r)]\<rparr>))"

inductive pool_step :: "ProcessPool \<Rightarrow> ProcessPool \<Rightarrow> bool" where
  pp_step_submit: "pool_step p (pp_submit now p)"
| pp_step_done: "i < length (pp_futures p) \<Longrightarrow> snd (pp_futures p ! i) = Pending \<Longrightarrow>
     pool_step p (future_done i now r p)"

section \<open>Stopping a process\<close>

text \<open>
  After \<^verbatim>\<open>stop\<close> the process that was running has ended, or its function has.
\<close>

lemma process_stop_effect:
  assumes "pv_process s = Some i" "i < length (pv_procs s)" "pr_alive (pv_procs s ! i)"
  shows "pv_process (process_stop env s) = None \<and>
    (\<not> pr_alive (pv_procs (process_stop env s) ! i) \<or> pr_stop_event (pv_procs (process_stop env s) ! i)) \<and>
    (\<forall>j. j \<noteq> i \<longrightarrow> pv_procs (process_stop env s) ! j = pv_procs s ! j) \<and>
    length (pv_procs (process_stop env s)) = length (pv_procs s) \<and>
    pv_starting (process_stop env s) = pv_starting s \<and> pv_orphans (process_stop env s) = pv_orphans s"
  using assms
  by (simp add: process_stop_def is_alive_def Let_def process_ends_def function_ends_def set_proc_def)

lemma process_stop_idle: "\<not> is_alive s \<Longrightarrow> process_stop env s = s"
  by (simp add: process_stop_def)

section \<open>Respawning\<close>

text \<open>A process that nothing accounts for: neither an orphan nor one whose function has ended.\<close>

definition active :: "ProcessService \<Rightarrow> nat \<Rightarrow> bool" where
  "active s i \<longleftrightarrow>
     i < length (pv_procs s) \<and> pr_alive (pv_procs s ! i) \<and> \<not> pr_stop_event (pv_procs s ! i) \<and>
     i \<notin> set (pv_orphans s)"

definition current_dead :: "ProcessService \<Rightarrow> bool" where
  "current_dead s \<longleftrightarrow> (\<forall>i. pv_process s = Some i \<longrightarrow> \<not> pr_alive (pv_procs s ! i))"

definition respawn_inv :: "ProcessService \<Rightarrow> bool" where
  "respawn_inv s \<longleftrightarrow>
     (\<forall>i. pv_process s = Some i \<or> pv_starting s = Some i \<longrightarrow> i < length (pv_procs s)) \<and>
     (\<forall>i. active s i \<longrightarrow> pv_process s = Some i \<or> pv_starting s = Some i) \<and>
     (pv_starting s \<noteq> None \<longrightarrow> current_dead s) \<and>
     (pv_stopped s \<longrightarrow> pv_starting s = None \<and> current_dead s)"

lemma respawn_invI:
  assumes "\<And>i. pv_process s = Some i \<Longrightarrow> i < length (pv_procs s)"
    and "\<And>i. pv_starting s = Some i \<Longrightarrow> i < length (pv_procs s)"
    and "\<And>i. active s i \<Longrightarrow> pv_process s = Some i \<or> pv_starting s = Some i"
    and "pv_starting s \<noteq> None \<Longrightarrow> current_dead s"
    and "pv_stopped s \<Longrightarrow> pv_starting s = None \<and> current_dead s"
  shows "respawn_inv s"
  using assms by (auto simp: respawn_inv_def)

lemma respawn_invD:
  assumes "respawn_inv s"
  shows "pv_process s = Some i \<Longrightarrow> i < length (pv_procs s)"
    and "pv_starting s = Some i \<Longrightarrow> i < length (pv_procs s)"
    and "active s i \<Longrightarrow> pv_process s = Some i \<or> pv_starting s = Some i"
    and "pv_starting s \<noteq> None \<Longrightarrow> current_dead s"
    and "pv_stopped s \<Longrightarrow> pv_starting s = None \<and> current_dead s"
  using assms by (simp_all add: respawn_inv_def)

lemma current_deadD: "current_dead s \<Longrightarrow> pv_process s = Some i \<Longrightarrow> \<not> pr_alive (pv_procs s ! i)"
  by (simp add: current_dead_def)

lemma respawn_inv_init: "respawn_inv ProcessService_init"
  by (simp add: respawn_inv_def ProcessService_init_def active_def)

lemma respawn_inv_start_begin:
  assumes "respawn_inv s" "current_dead s" "\<not> pv_stopped s" "pv_starting s = None"
  shows "respawn_inv (start_begin s)"
proof (rule respawn_invI)
  show "i < length (pv_procs (start_begin s))" if "pv_process (start_begin s) = Some i" for i
    using respawn_invD(1) [OF assms(1)] that by (simp add: start_begin_def less_Suc_eq)
  show "i < length (pv_procs (start_begin s))" if "pv_starting (start_begin s) = Some i" for i
    using that by (simp add: start_begin_def)
  show "pv_process (start_begin s) = Some i \<or> pv_starting (start_begin s) = Some i"
    if "active (start_begin s) i" for i
  proof (cases "i = length (pv_procs s)")
    case False
    with that have "active s i" by (auto simp: active_def start_begin_def nth_append less_Suc_eq)
    from respawn_invD(3) [OF assms(1) this] assms(4) show ?thesis by (simp add: start_begin_def)
  qed (simp add: start_begin_def)
  show "current_dead (start_begin s)"
    using assms(2) respawn_invD(1) [OF assms(1)]
    by (simp add: current_dead_def start_begin_def nth_append)
qed (use assms(3) in \<open>simp add: start_begin_def\<close>)

lemma respawn_inv_start_end:
  assumes "respawn_inv s" "pv_starting s \<noteq> None"
  shows "respawn_inv (start_end s)"
proof (rule respawn_invI)
  show "i < length (pv_procs (start_end s))" if "pv_process (start_end s) = Some i" for i
    using respawn_invD(2) [OF assms(1)] that by (simp add: start_end_def)
  show "pv_process (start_end s) = Some i \<or> pv_starting (start_end s) = Some i"
    if "active (start_end s) i" for i
  proof -
    have "active s i" using that by (simp add: active_def start_end_def)
    moreover have "current_dead s" using respawn_invD(4) [OF assms(1)] assms(2) .
    ultimately have "pv_starting s = Some i"
      using respawn_invD(3) [OF assms(1)] current_deadD by (auto simp: active_def)
    then show ?thesis by (simp add: start_end_def)
  qed
  show "pv_starting (start_end s) = None \<and> current_dead (start_end s)" if "pv_stopped (start_end s)"
    using respawn_invD(5) [OF assms(1)] assms(2) that by (simp add: start_end_def)
qed (simp_all add: start_end_def)

lemma respawn_inv_weaken:
  assumes "respawn_inv s" "length (pv_procs t) = length (pv_procs s)"
    and "pv_process t = pv_process s" "pv_starting t = pv_starting s" "pv_stopped t = pv_stopped s"
    and "\<And>i. active t i \<Longrightarrow> active s i"
    and "\<And>i. pr_alive (pv_procs t ! i) \<Longrightarrow> pr_alive (pv_procs s ! i)"
  shows "respawn_inv t"
proof -
  have dead: "current_dead s \<Longrightarrow> current_dead t"
    using assms(3,7) by (auto simp: current_dead_def)
  show ?thesis
    using respawn_invD [OF assms(1)] assms(2-6) dead by (intro respawn_invI) auto
qed

lemma set_proc_nth:
  "pv_procs (set_proc i p s) ! j = (if j = i \<and> i < length (pv_procs s) then p else pv_procs s ! j)"
  by (cases "i < length (pv_procs s)") (simp_all add: set_proc_def nth_list_update list_update_beyond)

lemma set_proc_simps [simp]:
  "length (pv_procs (set_proc i p s)) = length (pv_procs s)" "pv_process (set_proc i p s) = pv_process s"
  "pv_starting (set_proc i p s) = pv_starting s" "pv_stopped (set_proc i p s) = pv_stopped s"
  "pv_orphans (set_proc i p s) = pv_orphans s"
  by (simp_all add: set_proc_def)

lemma respawn_inv_set_proc:
  assumes "respawn_inv s" "pr_alive p \<Longrightarrow> pr_alive (pv_procs s ! i)"
    and "pr_alive p \<Longrightarrow> \<not> pr_stop_event p \<Longrightarrow> \<not> pr_stop_event (pv_procs s ! i)"
  shows "respawn_inv (set_proc i p s)"
  using assms(1)
proof (rule respawn_inv_weaken)
  show "pr_alive (pv_procs s ! j)" if "pr_alive (pv_procs (set_proc i p s) ! j)" for j
    using that assms(2) by (auto simp: set_proc_nth split: if_splits)
  show "active s j" if "active (set_proc i p s) j" for j
    using that assms(2,3) by (auto simp: active_def set_proc_nth split: if_splits)
qed simp_all

lemma respawn_inv_start_cancelled:
  assumes "respawn_inv s"
  shows "respawn_inv (start_cancelled s)"
proof (cases "pv_starting s")
  case None
  with assms show ?thesis by (simp add: start_cancelled_def)
next
  case (Some i)
  let ?t = "s\<lparr>pv_starting := None, pv_orphans := pv_orphans s @ [i]\<rparr>"
  have "pv_process ?t = Some j \<or> pv_starting ?t = Some j" if "active ?t j" for j
  proof -
    from that have "active s j" "j \<noteq> i" by (auto simp: active_def)
    with respawn_invD(3) [OF assms] Some show ?thesis by auto
  qed
  moreover have "current_dead ?t" if "pv_stopped s"
    using respawn_invD(5) [OF assms that] by (simp add: current_dead_def)
  ultimately have "respawn_inv ?t"
    using respawn_invD(1) [OF assms] by (intro respawn_invI) simp_all
  with Some show ?thesis by (simp add: start_cancelled_def)
qed

lemma start_cancelled_none [simp]: "pv_starting (start_cancelled s) = None"
  by (simp add: start_cancelled_def split: option.splits)

lemma respawn_inv_stop:
  assumes "respawn_inv s"
  shows "respawn_inv (respawning_stop env s)"
proof -
  let ?s = "start_cancelled s"
  let ?t = "process_stop env ?s"
  have inv: "respawn_inv ?s" using assms by (rule respawn_inv_start_cancelled)
  have "current_dead ?t \<and> (\<forall>i. pv_process ?t = Some i \<longrightarrow> i < length (pv_procs ?t)) \<and>
      (\<forall>i. \<not> active ?t i) \<and> pv_starting ?t = None"
  proof (cases "is_alive ?s")
    case False
    then have dead: "current_dead ?s" by (auto simp: is_alive_def current_dead_def split: option.splits)
    then have "\<not> active ?s i" for i
      using respawn_invD(3) [OF inv, of i] current_deadD [OF dead, of i] by (auto simp: active_def)
    with dead False respawn_invD(1) [OF inv] show ?thesis by (simp add: process_stop_idle)
  next
    case True
    then obtain i where i: "pv_process ?s = Some i" "pr_alive (pv_procs ?s ! i)"
      by (auto simp: is_alive_def split: option.splits)
    note eff = process_stop_effect [OF i(1) respawn_invD(1) [OF inv i(1)] i(2), of env]
    have "\<not> active ?t j" for j
    proof (cases "j = i")
      case True
      then show ?thesis using eff by (auto simp: active_def)
    next
      case False
      then have "active ?t j = active ?s j" using eff by (simp add: active_def)
      then show ?thesis using respawn_invD(3) [OF inv, of j] i(1) False by auto
    qed
    then show ?thesis using eff by (simp add: current_dead_def)
  qed
  moreover have "active (?t\<lparr>pv_stopped := True\<rparr>) = active ?t"
    "current_dead (?t\<lparr>pv_stopped := True\<rparr>) = current_dead ?t"
    by (simp_all add: active_def current_dead_def fun_eq_iff)
  ultimately show ?thesis
    unfolding respawning_stop_def by (intro respawn_invI) simp_all
qed

lemma respawn_step_inv: "respawn_step s t \<Longrightarrow> respawn_inv s \<Longrightarrow> respawn_inv t"
proof (induction rule: respawn_step.induct)
  case (rs_first s)
  have "pv_process s = None" "pv_starting s = None"
    using respawn_invD(1,2) [OF rs_first(3)] rs_first(1) by (cases "pv_process s"; cases "pv_starting s"; fastforce)+
  with rs_first show ?case by (simp add: respawn_inv_start_begin current_dead_def)
next
  case (rs_started s)
  then show ?case by (simp add: respawn_inv_start_end)
next
  case (rs_supervise s)
  then show ?case
    by (cases "pv_process s") (simp_all add: supervise_def respawn_inv_start_begin current_dead_def)
next
  case (rs_function_ends i s)
  then show ?case unfolding function_ends_def by (intro respawn_inv_set_proc) simp_all
next
  case (rs_process_ends i s)
  then show ?case unfolding process_ends_def by (intro respawn_inv_set_proc) simp_all
next
  case (rs_stop s env)
  then show ?case by (simp add: respawn_inv_stop)
qed

interpretation respawn: invariant_system "\<lambda>s. s = ProcessService_init" respawn_step respawn_inv
  by unfold_locales (auto simp: respawn_inv_init respawn_step_inv)



text \<open>A process that ended is replaced by the next pass of the supervisor.\<close>

lemma supervise_respawns:
  assumes "pv_process s = Some i" "\<not> pr_alive (pv_procs s ! i)"
  shows "is_alive (start_end (supervise s))"
  using assms by (simp add: supervise_def start_begin_def start_end_def is_alive_def)

text \<open>
  A stop that cancels the supervisor while it waits for a new process leaves that process running
  with nothing that refers to it.
\<close>

lemma stop_orphans_process:
  assumes "pv_process s = Some i" "\<not> pr_alive (pv_procs s ! i)" "i < length (pv_procs s)"
  shows "let t = respawning_stop env (supervise s); n = length (pv_procs s)
    in n \<in> set (pv_orphans t) \<and> pr_alive (pv_procs t ! n) \<and> pv_stopped t"
  using assms
  by (simp add: supervise_def start_begin_def respawning_stop_def start_cancelled_def
      process_stop_def is_alive_def nth_append)

section \<open>Notifications of the watchdog\<close>

lemma sd_send_simps [simp]:
  "sd_connected (sd_send n s) = sd_connected s" "sd_socket_addr (sd_send n s) = sd_socket_addr s"
  "sd_interval (sd_send n s) = sd_interval s"
  "sd_sent (sd_send n s) = (if sd_connected s then sd_sent s @ [n] else sd_sent s)"
  by (simp_all add: sd_send_def)

text \<open>A service without an address of the socket never sends anything.\<close>

lemma sd_silent:
  assumes "sd_pre_start os n (SDWatchdogService_init None interval) = (s, r)"
  shows "s = SDWatchdogService_init None interval \<and> r = Inr () \<and> sd_sent (sd_post_start n s) = [] \<and>
    sd_start w s = Inr s"
  using assms
  by (auto simp: sd_pre_start_def sd_post_start_def sd_start_def SDWatchdogService_init_def)

text \<open>The notifications of a whole life, with \<open>k\<close> heartbeats.\<close>

lemma sd_life:
  assumes "a \<noteq> []" "sd_pre_start (Inr ()) n (SDWatchdogService_init (Some a) (Some i)) = (s1, r)"
    and "sd_start w s1 = Inr s2" "s3 = (sd_send Watchdog ^^ k) (sd_post_start n s2)"
  shows "sd_sent (sd_post_stop (sd_pre_stop n s3)) =
    [Starting n] @ (if Some i \<noteq> w then [WatchdogUsec \<lfloor>i * 1000000\<rfloor>] else []) @ [Started n, ReadyNow] @
      replicate k Watchdog @ [Stopping n, StoppingNow] \<and>
    \<not> sd_connected (sd_post_stop (sd_pre_stop n s3))"
proof -
  have s1: "sd_connected s1" "sd_sent s1 = [Starting n]" "sd_interval s1 = Some i"
    using assms(1,2) by (auto simp: sd_pre_start_def sd_connect_def SDWatchdogService_init_def)
  have s2: "sd_connected s2"
      "sd_sent s2 = [Starting n] @ (if Some i \<noteq> w then [WatchdogUsec \<lfloor>i * 1000000\<rfloor>] else [])"
    using assms(3) s1 by (auto simp: sd_start_def Let_def bind_result_Inr_iff)
  have beats: "sd_connected ((sd_send Watchdog ^^ k) s) = sd_connected s \<and>
      sd_sent ((sd_send Watchdog ^^ k) s) = sd_sent s @ (if sd_connected s then replicate k Watchdog else [])"
    for s
    by (induction k) (auto simp: replicate_append_same)
  show ?thesis
    using s2 beats [of "sd_post_start n s2"]
    by (simp add: assms(4) sd_post_start_def sd_post_stop_def sd_pre_stop_def sd_disconnect_def)
qed

text \<open>
  The watchdog is in time: with an interval that systemd expects, and sending a heartbeat and
  the overhead of the event loop taking at most a quarter of it each, the first heartbeat is sent
  within a quarter of the interval after the start, two heartbeats are never further apart than
  the interval, and they never end.
\<close>

theorem watchdog_in_time:
  assumes "sd_connected s" "sd_interval s = Some i" "0 < i" "sd_start w s = Inr s'"
    and "sd_timer s' = Some t"
    and "\<forall>r \<in> set rounds. undisturbed r \<and> r_duration r \<le> i / 4 \<and> overhead r \<le> i / 4"
    and "start_loop (periodic_strategy t 0) False [] rounds False now new_recurring = (c, e)"
  shows "(\<exists>st x. e = Running st x) \<and> length (rc_trace c) = length rounds \<and>
    (rounds \<noteq> [] \<longrightarrow> fst (rc_trace c ! 0) \<le> now + i / 4) \<and>
    (\<forall>k. Suc k < length rounds \<longrightarrow> fst (rc_trace c ! Suc k) - fst (rc_trace c ! k) \<le> i)"
proof -
  have t: "t = i / 2" using assms(1-5) by (auto simp: sd_start_def Let_def bind_result_Inr_iff)
  have u: "\<forall>r \<in> set rounds. undisturbed r" using assms(6) by blast
  have tr: "rc_trace c = timeline (periodic_wait t 0) rounds False now"
      and e: "\<exists>st x. e = Running st x"
    using periodic.fresh_timeline [OF u assms(7)] by simp_all
  have first: "fst (rc_trace c ! 0) \<le> now + i / 4" if "rounds \<noteq> []"
  proof -
    have "overhead (rounds ! 0) \<le> i / 4" using assms(6) that by simp
    moreover have "fst (rc_trace c ! 0) = now + overhead (rounds ! 0)"
      using that by (simp add: tr periodic_timeline take_Suc hd_conv_nth)
    ultimately show ?thesis by simp
  qed
  have gap: "fst (rc_trace c ! Suc k) - fst (rc_trace c ! k) \<le> i" if "Suc k < length rounds" for k
  proof -
    have m: "rounds ! k \<in> set rounds" "rounds ! Suc k \<in> set rounds" using that by auto
    then have "r_duration (rounds ! k) + overhead (rounds ! Suc k) \<le> i / 2"
      using bspec [OF assms(6), of "rounds ! k"] bspec [OF assms(6), of "rounds ! Suc k"] by simp
    moreover have "fst (rc_trace c ! Suc k) - fst (rc_trace c ! k) =
        max t 0 + r_duration (rounds ! k) + overhead (rounds ! Suc k)"
      using that
      by (simp add: tr periodic_timeline take_Suc_conv_app_nth [of k rounds]
          take_Suc_conv_app_nth [of "Suc k" rounds] algebra_simps)
    ultimately show ?thesis using assms(3) by (simp add: t)
  qed
  show ?thesis using e first gap by (simp add: tr)
qed

theorem watchdog_in_time_witness:
  "\<exists>s'. sd_start (Some 20) ((SDWatchdogService_init (Some ''x'') (Some 20))\<lparr>sd_connected := True\<rparr>) = Inr s' \<and>
     fst (rc_trace (fst (start_loop (periodic_strategy 10 0) False []
       [example_round (Inr ()), example_round (Inr ())] False 0 new_recurring)) ! Suc 0) -
     fst (rc_trace (fst (start_loop (periodic_strategy 10 0) False []
       [example_round (Inr ()), example_round (Inr ())] False 0 new_recurring)) ! 0) \<le> 20"
proof -
  let ?s = "(SDWatchdogService_init (Some ''x'') (Some 20))\<lparr>sd_connected := True\<rparr>"
  let ?s' = "?s\<lparr>sd_start_event := True, sd_timer := Some 10\<rparr>"
  let ?rs = "[example_round (Inr ()), example_round (Inr ())]"
  have a: "sd_connected ?s" "sd_interval ?s = Some 20" "(0::real) < 20" "sd_start (Some 20) ?s = Inr ?s'"
      "sd_timer ?s' = Some 10"
    by (simp_all add: SDWatchdogService_init_def sd_start_def periodic_start_def new_callback_def Let_def)
  have "\<forall>r \<in> set ?rs. undisturbed r \<and> r_duration r \<le> 20 / 4 \<and> overhead r \<le> 20 / 4"
    by (simp add: example_round_def undisturbed_def overhead_def)
  from watchdog_in_time [OF a this prod.collapse [symmetric], of 0] a(4)
  show ?thesis by auto
qed

section \<open>The statistic of the process pool\<close>

definition cancelled_future :: "number \<times> unit fut \<Rightarrow> bool" where
  "cancelled_future f \<longleftrightarrow> snd f = Resolved (Inl CancelledError)"

definition pending_future :: "number \<times> unit fut \<Rightarrow> bool" where
  "pending_future f \<longleftrightarrow> snd f = Pending"

definition count :: "('a \<Rightarrow> bool) \<Rightarrow> 'a list \<Rightarrow> nat" where
  "count P xs = (\<Sum>x\<leftarrow>xs. if P x then 1 else 0)"

definition pool_inv :: "ProcessPool \<Rightarrow> bool" where
  "pool_inv p \<longleftrightarrow>
     pp_submitted p = length (pp_futures p) \<and> pp_done p = pp_error p + pp_success p \<and>
     pp_submitted p = pp_done p + count cancelled_future (pp_futures p) + count pending_future (pp_futures p)"

lemma count_update:
  "i < length xs \<Longrightarrow>
     count P (xs[i := y]) + (if P (xs ! i) then 1 else 0) = count P xs + (if P y then 1 else 0)"
  unfolding count_def by (rule sum_list_map_update)

lemma pool_step_inv: "pool_step p q \<Longrightarrow> pool_inv p \<Longrightarrow> pool_inv q"
proof (induction rule: pool_step.induct)
  case (pp_step_submit p now)
  then show ?case
    by (simp add: pool_inv_def pp_submit_def count_def cancelled_future_def pending_future_def)
next
  case (pp_step_done i p now r)
  let ?f = "(fst (pp_futures p ! i), Resolved r)"
  have "pending_future (pp_futures p ! i)" "\<not> cancelled_future (pp_futures p ! i)" "\<not> pending_future ?f"
    using pp_step_done by (simp_all add: pending_future_def cancelled_future_def)
  then have "count pending_future ((pp_futures p)[i := ?f]) + 1 = count pending_future (pp_futures p)"
      "count cancelled_future ((pp_futures p)[i := ?f]) =
         count cancelled_future (pp_futures p) + (if r = Inl CancelledError then 1 else 0)"
    using count_update [OF pp_step_done(1), of pending_future ?f]
      count_update [OF pp_step_done(1), of cancelled_future ?f]
    by (simp_all add: cancelled_future_def)
  then show ?case
    using pp_step_done(3)
    by (cases r) (auto simp: pool_inv_def future_done_def statistic_callback_def Let_def)
qed

interpretation pp: invariant_system "\<lambda>p. p = ProcessPool_init" pool_step pool_inv
proof
  show "pool_inv p" if "p = ProcessPool_init" for p
    using that by (simp add: pool_inv_def ProcessPool_init_def count_def)
qed (rule pool_step_inv)

text \<open>
  Every submitted call is done, cancelled or pending; only the done ones are counted as successes
  or errors.
\<close>

lemma process_pool_statistic:
  assumes "reachable (\<lambda>p. p = ProcessPool_init) pool_step p"
  shows "pp_done p = pp_error p + pp_success p \<and>
     pp_submitted p = pp_done p + count cancelled_future (pp_futures p) + count pending_future (pp_futures p)"
  using pp.reachable_inv [OF assms] by (simp add: pool_inv_def)

end
