(* ===== verification/Identifiers.thy ===== *)
theory Identifiers
  imports Prelude "HOL-Library.Word"
begin

unbundle bit_operations_syntax

text \<open>
  The identifiers of \<^verbatim>\<open>aiomisc/utils.py\<close>: \<^verbatim>\<open>fast_uuid4\<close> and \<^verbatim>\<open>fast_uuid1\<close>. A UUID is a word of 128 bits,
  and the constructor of the standard library writes the version and the variant into it. Random
  bits, the clock and the node are arguments.
\<close>

section \<open>UUIDs\<close>

type_synonym uuid = "128 word"

text \<open>\<^verbatim>\<open>uuid.UUID(int=value, version=version)\<close>.\<close>

definition UUID :: "nat \<Rightarrow> nat \<Rightarrow> uuid result" where
  "UUID value version =
     (if 2 ^ 128 \<le> value then Inl (ValueError ''int is out of range (need a 128-bit value)'')
      else if version < 1 \<or> 8 < version then Inl (ValueError ''illegal version number'')
      else
        let w0 = word_of_nat value :: uuid;
            w1 = (w0 AND NOT (push_bit 48 0xC000)) OR push_bit 48 0x8000;
            w2 = (w1 AND NOT (push_bit 64 0xF000)) OR push_bit 76 (word_of_nat version)
        in Inr w2)"

definition fast_uuid4 :: "nat \<Rightarrow> uuid result" where
  "fast_uuid4 random128 = UUID random128 4"

definition fast_uuid1 :: "nat \<Rightarrow> nat \<Rightarrow> nat \<Rightarrow> uuid result" where
  "fast_uuid1 time_ns random16 node =
     (let value = push_bit 16 time_ns + random16;
          value = push_bit 48 value + node
      in UUID value 1)"

section \<open>Bits\<close>

lemma uuid_masks:
  "(push_bit 48 0xC000 :: uuid) = push_bit 62 (mask 2)"
  "(push_bit 48 0x8000 :: uuid) = push_bit 63 1"
  "(push_bit 64 0xF000 :: uuid) = push_bit 76 (mask 4)"
  by (simp_all add: mask_eq_exp_minus_1 push_bit_eq_mult)

lemma bit_variant: "bit (9223372036854775808 :: int) n \<longleftrightarrow> n = 63"
proof -
  have "(9223372036854775808 :: int) = 2 ^ 63" by simp
  then show ?thesis by (simp only: bit_exp_iff) simp
qed

text \<open>The bits of a UUID: version and variant at their places, everything else from the value.\<close>

lemma UUID_bits:
  assumes "UUID value version = Inr u" "n < 128"
  shows "bit u n \<longleftrightarrow>
    (if n = 62 then False else if n = 63 then True
     else if 76 \<le> n \<and> n < 80 then bit version (n - 76) else bit value n)"
proof -
  have v: "version \<le> 8" and u: "u =
    (((word_of_nat value AND NOT (push_bit 62 (mask 2))) OR push_bit 63 1)
       AND NOT (push_bit 76 (mask 4))) OR push_bit 76 (word_of_nat version)"
    using assms(1) [unfolded UUID_def Let_def uuid_masks] by (auto split: if_splits)
  have "\<not> bit version m" if "4 \<le> m" for m
  proof -
    have "(16::nat) = 2 ^ 4" by simp
    also have "\<dots> \<le> 2 ^ m" using that by (rule power_increasing) simp
    finally have "version < 2 ^ m" using v by simp
    then show ?thesis by (simp add: bit_iff_odd)
  qed
  then show ?thesis using assms(2) unfolding u by (auto simp: bit_simps bit_variant)
qed

text \<open>The fields that tell the kind of a UUID.\<close>

definition uuid_version :: "uuid \<Rightarrow> nat" where
  "uuid_version u = unat (take_bit 4 (drop_bit 76 u))"

definition uuid_variant :: "uuid \<Rightarrow> nat" where
  "uuid_variant u = unat (take_bit 2 (drop_bit 62 u))"

lemma nat_eq_bits: "(\<And>i. bit (m::nat) i = bit m' i) \<Longrightarrow> m = m'"
  by (simp add: bit_eq_iff)

lemma UUID_fields:
  assumes "UUID value version = Inr u"
  shows "uuid_version u = version" "uuid_variant u = 2"
proof -
  have "version \<le> 8" using assms by (auto simp: UUID_def Let_def split: if_splits)
  then have "take_bit 4 version = version" by (simp add: take_bit_nat_eq_self_iff)
  then have v: "bit version i \<longleftrightarrow> i < 4 \<and> bit version i" for i by (metis bit_take_bit_iff)
  have "bit (uuid_version u) i = bit version i" for i
    using UUID_bits [OF assms, of "76 + i"] v [of i]
    by (auto simp: uuid_version_def bit_simps)
  then show "uuid_version u = version" by (rule nat_eq_bits)
  have "bit (uuid_variant u) i = bit (2::nat) i" for i
  proof -
    consider "i = 0" | "i = 1" | "2 \<le> i" by linarith
    then show ?thesis
      using UUID_bits [OF assms, of "62 + i"]
      by cases (auto simp: uuid_variant_def bit_simps bit_2_iff)
  qed
  then show "uuid_variant u = 2" by (rule nat_eq_bits)
qed

text \<open>The value that \<^verbatim>\<open>fast_uuid1\<close> puts together, bit by bit.\<close>

lemma uuid1_value_bits:
  fixes random16 node time_ns :: nat
  assumes "random16 < 2 ^ 16" "node < 2 ^ 48"
  shows "bit (push_bit 48 (push_bit 16 time_ns + random16) + node) n \<longleftrightarrow>
    (if n < 48 then bit node n else if n < 64 then bit random16 (n - 48) else bit time_ns (n - 64))"
proof -
  have disj: "push_bit k x + y = push_bit k x OR y" if "y < 2 ^ k" for k x y :: nat
  proof -
    have "take_bit k y = y" using that by (simp add: take_bit_nat_eq_self_iff)
    then have "bit y i \<Longrightarrow> i < k" for i by (metis bit_take_bit_iff)
    then show ?thesis by (intro disjunctive_add) (fastforce simp: bit_simps dest: leD)
  qed
  have "take_bit 16 random16 = random16" "take_bit 48 node = node"
    using assms by (simp_all add: take_bit_nat_eq_self_iff)
  then have "\<not> 16 \<le> n - 48 \<or> \<not> bit random16 (n - 48)" "\<not> 48 \<le> n \<or> \<not> bit node n"
    by (metis bit_take_bit_iff leD)+
  then show ?thesis
    unfolding disj [OF assms(1)] disj [OF assms(2)] by (auto simp: bit_simps)
qed

lemma uuid1_value_bound:
  assumes "time_ns < 2 ^ 64" "random16 < 2 ^ 16" "node < 2 ^ 48"
  shows "push_bit 48 (push_bit 16 time_ns + random16) + node < (2::nat) ^ 128"
  using assms by (simp add: push_bit_eq_mult)

section \<open>Properties\<close>

text \<open>
  A fast UUID4 is a UUID of version 4 with the RFC's variant, and its other 122 bits are the random
  ones. A fast UUID1 has version 1 and the variant, the node in its low 48 bits, 14 of the random bits
  and the clock's 64 bits without the four that the version replaces; it exists exactly while the
  clock fits into 64 bits.
\<close>

theorem fast_uuid_fields:
  assumes "random128 < 2 ^ 128" "random16 < 2 ^ 16" "node < 2 ^ 48"
  shows "(\<exists>u. fast_uuid4 random128 = Inr u \<and> uuid_version u = 4 \<and> uuid_variant u = 2 \<and>
      (\<forall>n < 128. n \<notin> {62, 63, 76, 77, 78, 79} \<longrightarrow> bit u n = bit random128 n)) \<and>
    (if time_ns < 2 ^ 64
     then \<exists>u. fast_uuid1 time_ns random16 node = Inr u \<and> uuid_version u = 1 \<and> uuid_variant u = 2 \<and>
       unat (take_bit 48 u) = node \<and> (\<forall>n < 14. bit u (48 + n) = bit random16 n) \<and>
       (\<forall>n < 64. n \<notin> {12, 13, 14, 15} \<longrightarrow> bit u (64 + n) = bit time_ns n)
     else \<exists>e. fast_uuid1 time_ns random16 node = Inl e \<and> isinstance_exc e ''ValueError'')"
proof (rule conjI)
  let ?v = "push_bit 48 (push_bit 16 time_ns + random16) + node"
  obtain u where u: "UUID random128 4 = Inr u" using assms(1) by (simp add: UUID_def Let_def)
  with UUID_fields [OF u] UUID_bits [OF u]
  show "\<exists>u. fast_uuid4 random128 = Inr u \<and> uuid_version u = 4 \<and> uuid_variant u = 2 \<and>
      (\<forall>n < 128. n \<notin> {62, 63, 76, 77, 78, 79} \<longrightarrow> bit u n = bit random128 n)"
    by (auto simp: fast_uuid4_def)
  show "if time_ns < 2 ^ 64
     then \<exists>u. fast_uuid1 time_ns random16 node = Inr u \<and> uuid_version u = 1 \<and> uuid_variant u = 2 \<and>
       unat (take_bit 48 u) = node \<and> (\<forall>n < 14. bit u (48 + n) = bit random16 n) \<and>
       (\<forall>n < 64. n \<notin> {12, 13, 14, 15} \<longrightarrow> bit u (64 + n) = bit time_ns n)
     else \<exists>e. fast_uuid1 time_ns random16 node = Inl e \<and> isinstance_exc e ''ValueError''"
  proof (cases "time_ns < 2 ^ 64")
    case True
    obtain u where u: "UUID ?v 1 = Inr u"
      using uuid1_value_bound [OF True assms(2,3)] by (simp add: UUID_def Let_def)
    note bits = UUID_bits [OF u, unfolded uuid1_value_bits [OF assms(2,3)]]
    have "take_bit 48 node = node" using assms(3) by (simp add: take_bit_nat_eq_self_iff)
    then have node: "bit node i \<longleftrightarrow> i < 48 \<and> bit node i" for i by (metis bit_take_bit_iff)
    have "bit (unat (take_bit 48 u)) i = bit node i" for i
      using bits [of i] node [of i] by (auto simp: bit_simps)
    then have "unat (take_bit 48 u) = node" by (rule nat_eq_bits)
    with True u UUID_fields [OF u] bits show ?thesis
      by (auto simp: fast_uuid1_def Let_def)
  next
    case False
    then have "2 ^ 128 \<le> ?v" by (simp add: push_bit_eq_mult)
    with False show ?thesis by (simp add: fast_uuid1_def UUID_def Let_def py_simps)
  qed
qed

theorem fast_uuid_fields_witness:
  "\<exists>u. fast_uuid1 1700000000000000000 5 7 = Inr u \<and> uuid_version u = 1 \<and> unat (take_bit 48 u) = 7"
  using fast_uuid_fields [of 0 5 7 1700000000000000000] by auto

end
