(* ===== verification/WorkerPoolLife.thy ===== *)
theory WorkerPoolLife
  imports Compat Identifiers
begin

text \<open>
  The life of a process pool outside its tasks (\<^verbatim>\<open>aiomisc/worker_pool.py\<close>): its socket, \<^verbatim>\<open>start\<close>, the
  sets of handler tasks and of futures, the signal to the supervisor, and \<^verbatim>\<open>close\<close>, cut at its
  suspension points. Handlers and callers run between them. The supervisor process is the
  environment: starting it may raise, and it may end by itself.
\<close>

section \<open>The socket\<close>

text \<open>\<^verbatim>\<open>_create_socket\<close>, by whether the platform has Unix sockets; then the address is the path.\<close>

definition create_pool_socket ::
  "bool \<Rightarrow> bool \<Rightarrow> bool \<Rightarrow> family \<Rightarrow> string \<Rightarrow> sock \<times> sock_call list \<times> string" where
  "create_pool_socket has_unix has_nodelay has_reuseport INET_AF path =
     (if has_unix
      then bind_socket has_nodelay has_reuseport
             (Some \<lparr>s_family = AF_UNIX, s_type = SOCK_STREAM, s_proto = 0\<rparr>) path 0 [] True False None
      else bind_socket has_nodelay has_reuseport
             (Some \<lparr>s_family = INET_AF, s_type = SOCK_STREAM, s_proto = 0\<rparr>) ''localhost'' 0 [] False False None)"

section \<open>Operations\<close>

datatype close_phase =
  NotClosing
| ClosingServer
| ClosingTasks "nat list" nat
| Closed nat nat

record 'r pool_life =
  pl_socket :: bool
  pl_server :: "bool option"
  pl_worker_ids :: "uuid list"
  pl_supervisor :: "(nat \<times> bool) option"
  pl_signals :: "nat list"
  pl_closing :: bool
  pl_phase :: close_phase
  pl_task_store :: "nat set"
  pl_futures :: "nat set"
  pl_objects :: "'r fstore"
  pl_task_added :: nat

definition pool_new :: "'r pool_life" where
  "pool_new =
     \<lparr>pl_socket = True, pl_server = None, pl_worker_ids = [], pl_supervisor = None, pl_signals = [],
      pl_closing = False, pl_phase = NotClosing, pl_task_store = {}, pl_futures = {}, pl_objects = [],
      pl_task_added = 0\<rparr>"

text \<open>
  \<^verbatim>\<open>start\<close>: the server takes the socket over, every worker gets an identifier, and the supervisor is
  started, which a closing pool refuses.
\<close>

definition pool_start ::
  "unit result \<Rightarrow> nat list \<Rightarrow> nat result \<Rightarrow> 'r pool_life \<Rightarrow> unit result \<times> 'r pool_life" where
  "pool_start endpoint randoms spawn p =
     (case endpoint of
        Inl e \<Rightarrow> (Inl e, p)
      | Inr _ \<Rightarrow>
          (case fold_result (\<lambda>r ids. bind_result (fast_uuid4 r) (\<lambda>u. Inr (ids @ [u]))) randoms [] of
             Inl e \<Rightarrow> (Inl e, p\<lparr>pl_server := Some True, pl_socket := False\<rparr>)
           | Inr ids \<Rightarrow>
               let p1 = p\<lparr>pl_server := Some True, pl_socket := False, pl_worker_ids := ids\<rparr>
               in case (if pl_closing p1 then Inl (RuntimeError ''Pool closed'') else spawn) of
                    Inl e \<Rightarrow> (Inl e, p1)
                  | Inr pid \<Rightarrow> (Inr (), p1\<lparr>pl_supervisor := Some (pid, True)\<rparr>)))"

text \<open>\<^verbatim>\<open>__start_handler\<close> with \<^verbatim>\<open>__task\<close> and \<^verbatim>\<open>__task_add\<close>.\<close>

definition pool_task :: "'r pool_life \<Rightarrow> 'r pool_life" where
  "pool_task p =
     p\<lparr>pl_objects := pl_objects p @ [\<lparr>f_kind = Task, f_state = Pending, f_cancelling = False\<rparr>],
       pl_task_store := insert (length (pl_objects p)) (pl_task_store p),
       pl_task_added := pl_task_added p + 1\<rparr>"

definition pool_create_future :: "'r pool_life \<Rightarrow> 'r pool_life" where
  "pool_create_future p =
     p\<lparr>pl_objects := pl_objects p @ [\<lparr>f_kind = Future, f_state = Pending, f_cancelling = False\<rparr>],
       pl_futures := insert (length (pl_objects p)) (pl_futures p)\<rparr>"

text \<open>A task or a future gets its result, and its callback takes it from its set.\<close>

definition pool_object_done :: "nat \<Rightarrow> 'r result \<Rightarrow> 'r pool_life \<Rightarrow> 'r pool_life" where
  "pool_object_done i r p =
     p\<lparr>pl_objects := (pl_objects p)[i := (pl_objects p ! i)\<lparr>f_state := Resolved r\<rparr>],
       pl_task_store := pl_task_store p - {i}, pl_futures := pl_futures p - {i}\<rparr>"

definition supervisor_ended :: "'r pool_life \<Rightarrow> 'r pool_life" where
  "supervisor_ended p =
     p\<lparr>pl_supervisor := map_option (\<lambda>(pid, _). (pid, False)) (pl_supervisor p)\<rparr>"

text \<open>\<^verbatim>\<open>_kill_supervisor\<close>: a supervisor that runs gets the interrupt signal.\<close>

definition kill_supervisor :: "'r pool_life \<Rightarrow> 'r pool_life" where
  "kill_supervisor p =
     (case pl_supervisor p of
        Some (pid, True) \<Rightarrow> p\<lparr>pl_signals := pl_signals p @ [pid]\<rparr>
      | _ \<Rightarrow> p)"

text \<open>\<^verbatim>\<open>_kill_process\<close>: whether a process with that return code is killed.\<close>

definition kill_process :: "int option \<Rightarrow> bool" where
  "kill_process returncode \<longleftrightarrow> returncode = None"

text \<open>
  \<^verbatim>\<open>close\<close>, which is shielded and runs under a lock: up to the wait for the server, up to the wait for
  the cancelled tasks, and to the end. \<^verbatim>\<open>self.server\<close> exists once the pool was started.
\<close>

definition close_begin :: "'r pool_life \<Rightarrow> unit result \<times> 'r pool_life" where
  "close_begin p =
     (if pl_closing p then (Inr (), p)
      else
        let p1 = (kill_supervisor p)\<lparr>pl_closing := True\<rparr>
        in case pl_server p1 of
             None \<Rightarrow> (Inl (mk_exc [''AttributeError'', ''Exception'', ''BaseException''] [''server'']), p1)
           | Some _ \<Rightarrow> (Inr (), p1\<lparr>pl_server := Some False, pl_phase := ClosingServer\<rparr>))"

definition close_cancel_tasks :: "'r pool_life \<Rightarrow> 'r pool_life" where
  "close_cancel_tasks p =
     (case cancel_tasks (sorted_list_of_set (pl_task_store p)) (pl_objects p) of
        (ts, fs) \<Rightarrow> p\<lparr>pl_objects := fs, pl_phase := ClosingTasks ts (length fs)\<rparr>)"

definition close_end :: "nat \<Rightarrow> 'r pool_life \<Rightarrow> 'r pool_life" where
  "close_end n p =
     (case cancel_tasks (sorted_list_of_set (pl_futures p)) (pl_objects p) of
        (_, fs) \<Rightarrow> p\<lparr>pl_objects := fs, pl_futures := {}, pl_phase := Closed n (length fs)\<rparr>)"

inductive life_step :: "'r pool_life \<Rightarrow> 'r pool_life \<Rightarrow> bool" where
  life_start: "pl_supervisor p = None \<Longrightarrow> pl_socket p \<Longrightarrow> life_step p (snd (pool_start endpoint randoms spawn p))"
| life_task: "pl_server p \<noteq> None \<Longrightarrow> life_step p (pool_task p)"
| life_future: "life_step p (pool_create_future p)"
| life_done: "i < length (pl_objects p) \<Longrightarrow> \<not> f_done (pl_objects p ! i) \<Longrightarrow>
    life_step p (pool_object_done i r p)"
| life_supervisor: "life_step p (supervisor_ended p)"
| life_close: "pl_phase p = NotClosing \<Longrightarrow> life_step p (snd (close_begin p))"
| life_server: "pl_phase p = ClosingServer \<Longrightarrow> life_step p (close_cancel_tasks p)"
| life_end: "pl_phase p = ClosingTasks ts n \<Longrightarrow> waiter_done ts (pl_objects p) \<Longrightarrow>
    life_step p (close_end n p)"

section \<open>The invariant\<close>

text \<open>The sets hold exactly the tasks and futures that are not done.\<close>

definition sets_ok :: "'r pool_life \<Rightarrow> bool" where
  "sets_ok p \<longleftrightarrow>
     pl_task_store p = {i. i < length (pl_objects p) \<and> f_kind (pl_objects p ! i) = Task \<and>
       \<not> f_done (pl_objects p ! i)} \<and>
     pl_futures p = {i. i < length (pl_objects p) \<and> f_kind (pl_objects p ! i) = Future \<and>
       \<not> f_done (pl_objects p ! i)}"

definition all_done :: "fkind \<Rightarrow> nat \<Rightarrow> 'r fstore \<Rightarrow> bool" where
  "all_done k n fs \<longleftrightarrow> n \<le> length fs \<and> (\<forall>i < n. f_kind (fs ! i) = k \<longrightarrow> f_done (fs ! i))"

definition phase_ok :: "'r pool_life \<Rightarrow> bool" where
  "phase_ok p \<longleftrightarrow>
     (case pl_phase p of
        NotClosing \<Rightarrow> True
      | ClosingServer \<Rightarrow> pl_closing p
      | ClosingTasks ts n \<Rightarrow> pl_closing p \<and> n \<le> length (pl_objects p) \<and>
          (\<forall>i < n. f_kind (pl_objects p ! i) = Task \<longrightarrow> f_done (pl_objects p ! i) \<or> i \<in> set ts)
      | Closed n m \<Rightarrow> pl_closing p \<and> all_done Task n (pl_objects p) \<and> all_done Future m (pl_objects p))"

definition life_inv :: "'r pool_life \<Rightarrow> bool" where
  "life_inv p \<longleftrightarrow>
     sets_ok p \<and> phase_ok p \<and> length (pl_signals p) \<le> (if pl_closing p then 1 else 0)"

lemma all_done_append [simp]: "all_done k n fs \<Longrightarrow> all_done k n (fs @ gs)"
  by (auto simp: all_done_def nth_append)

lemma phase_ok_append:
  assumes "phase_ok p" "pl_objects q = pl_objects p @ [x]" "pl_phase q = pl_phase p"
    "pl_closing q = pl_closing p"
  shows "phase_ok q"
  using assms by (cases "pl_phase p") (auto simp: phase_ok_def nth_append)

lemma Collect_nth_append:
  "{i. i < length (xs @ [x]) \<and> P ((xs @ [x]) ! i)} =
     {i. i < length xs \<and> P (xs ! i)} \<union> (if P x then {length xs} else {})"
  by (auto simp: nth_append less_Suc_eq split: if_splits)

lemma sets_ok_append:
  assumes "sets_ok p" "pl_objects q = pl_objects p @ [x]" "\<not> f_done x"
    and "pl_task_store q = pl_task_store p \<union> (if f_kind x = Task then {length (pl_objects p)} else {})"
    and "pl_futures q = pl_futures p \<union> (if f_kind x = Future then {length (pl_objects p)} else {})"
  shows "sets_ok q"
  using assms Collect_nth_append [of "pl_objects p" x "\<lambda>y. f_kind y = Task \<and> \<not> f_done y"]
    Collect_nth_append [of "pl_objects p" x "\<lambda>y. f_kind y = Future \<and> \<not> f_done y"]
  by (simp add: sets_ok_def)

lemma life_inv_task: "life_inv p \<Longrightarrow> life_inv (pool_task p)"
  unfolding life_inv_def
  by (intro conjI; (elim conjE)?)
    (auto simp: pool_task_def f_done_def intro: sets_ok_append phase_ok_append)

lemma life_inv_future: "life_inv p \<Longrightarrow> life_inv (pool_create_future p)"
  unfolding life_inv_def
  by (intro conjI; (elim conjE)?)
    (auto simp: pool_create_future_def f_done_def intro: sets_ok_append phase_ok_append)

lemma life_inv_cong:
  assumes "pl_objects q = pl_objects p" "pl_task_store q = pl_task_store p" "pl_futures q = pl_futures p"
    "pl_phase q = pl_phase p" "pl_closing q = pl_closing p" "pl_signals q = pl_signals p"
  shows "life_inv q = life_inv p"
  unfolding life_inv_def sets_ok_def phase_ok_def by (simp only: assms)

lemma all_done_update:
  "all_done k n fs \<Longrightarrow> all_done k n (fs[i := (fs ! i)\<lparr>f_state := Resolved r\<rparr>])"
  by (cases "i < length fs") (auto simp: all_done_def f_done_def nth_list_update)

lemma life_inv_done:
  assumes "life_inv p" "i < length (pl_objects p)"
  shows "life_inv (pool_object_done i r p)"
proof -
  have "sets_ok (pool_object_done i r p)"
    using assms by (auto simp: life_inv_def sets_ok_def pool_object_done_def f_done_def nth_list_update)
  moreover have "phase_ok (pool_object_done i r p)"
    using assms all_done_update
    by (auto simp: life_inv_def phase_ok_def pool_object_done_def f_done_def nth_list_update
        split: close_phase.splits)
  ultimately show ?thesis using assms(1) by (simp add: life_inv_def pool_object_done_def)
qed

lemma kill_supervisor_fields [simp]:
  "pl_objects (kill_supervisor p) = pl_objects p" "pl_task_store (kill_supervisor p) = pl_task_store p"
  "pl_futures (kill_supervisor p) = pl_futures p" "pl_closing (kill_supervisor p) = pl_closing p"
  "pl_server (kill_supervisor p) = pl_server p" "pl_phase (kill_supervisor p) = pl_phase p"
  "length (pl_signals (kill_supervisor p)) \<le> Suc (length (pl_signals p))"
  by (auto simp: kill_supervisor_def split: option.splits bool.splits)

lemma life_inv_close:
  assumes "life_inv p" "pl_phase p = NotClosing"
  shows "life_inv (snd (close_begin p))"
proof (cases "pl_closing p")
  case True
  then show ?thesis using assms(1) by (simp add: close_begin_def)
next
  case False
  then have "length (pl_signals (kill_supervisor p)) \<le> 1"
    using assms(1) kill_supervisor_fields(7) [of p] by (simp add: life_inv_def)
  with False assms show ?thesis
    by (auto simp: close_begin_def Let_def life_inv_def sets_ok_def phase_ok_def split: option.splits)
qed

text \<open>Cancelling a set of pending objects of one kind.\<close>

lemma cancel_set:
  assumes "cancel_tasks (sorted_list_of_set A) fs = (ts, fs')" "A \<subseteq> {i. i < length fs}"
  shows "length fs' = length fs"
    "\<And>j. j < length fs \<Longrightarrow> fs' ! j = (if j \<in> A then cancelled_object CancelledError (fs ! j) else fs ! j)"
    "set ts = {j \<in> A. f_kind (fs ! j) = Task \<and> \<not> f_done (fs ! j)}"
proof -
  have "finite A" using assms(2) by (rule finite_subset) simp
  then have A: "set (sorted_list_of_set A) = A" by simp
  have "set_exception CancelledError (sorted_list_of_set A) fs = (ts, fs')"
    using assms(1) by (simp add: cancel_tasks_def split: if_splits)
  moreover have "\<forall>i \<in> set (sorted_list_of_set A). i < length fs" using assms(2) A by auto
  ultimately have *: "length fs' = length fs \<and>
      (\<forall>j < length fs. fs' ! j = (if j \<in> A then cancelled_object CancelledError (fs ! j) else fs ! j)) \<and>
      set ts = {j \<in> A. f_kind (fs ! j) = Task \<and> \<not> f_done (fs ! j)}"
    using set_exception_store [of "sorted_list_of_set A" fs CancelledError ts fs'] A by simp
  then show "length fs' = length fs"
    "\<And>j. j < length fs \<Longrightarrow> fs' ! j = (if j \<in> A then cancelled_object CancelledError (fs ! j) else fs ! j)"
    "set ts = {j \<in> A. f_kind (fs ! j) = Task \<and> \<not> f_done (fs ! j)}" by auto
qed

lemma life_inv_cancel_tasks:
  assumes "life_inv p" "pl_phase p = ClosingServer"
  shows "life_inv (close_cancel_tasks p)"
proof -
  obtain ts fs where c: "cancel_tasks (sorted_list_of_set (pl_task_store p)) (pl_objects p) = (ts, fs)"
    by fastforce
  have ok: "sets_ok p" "pl_closing p" using assms by (simp_all add: life_inv_def phase_ok_def)
  have "pl_task_store p \<subseteq> {i. i < length (pl_objects p)}" using ok(1) by (auto simp: sets_ok_def)
  note cs = cancel_set [OF c this]
  have kind: "f_kind (fs ! j) = f_kind (pl_objects p ! j)" if "j < length (pl_objects p)" for j
    using cs(2) [OF that] by simp
  have dn: "f_done (fs ! j) = f_done (pl_objects p ! j)" if "j < length (pl_objects p)" for j
    using cs(2) [OF that] ok(1) that by (auto simp: sets_ok_def)
  have e: "close_cancel_tasks p = p\<lparr>pl_objects := fs, pl_phase := ClosingTasks ts (length fs)\<rparr>"
    by (simp add: close_cancel_tasks_def c)
  have "sets_ok (close_cancel_tasks p)"
    using ok(1) cs(1) kind dn unfolding e by (auto simp: sets_ok_def)
  moreover have "phase_ok (close_cancel_tasks p)"
    using ok cs(1,3) kind dn unfolding e by (auto simp: phase_ok_def sets_ok_def)
  ultimately show ?thesis using assms(1) unfolding e by (simp add: life_inv_def)
qed

lemma life_inv_end:
  assumes "life_inv p" "pl_phase p = ClosingTasks ts n" "waiter_done ts (pl_objects p)"
  shows "life_inv (close_end n p)"
proof -
  obtain us fs where c: "cancel_tasks (sorted_list_of_set (pl_futures p)) (pl_objects p) = (us, fs)"
    by fastforce
  have ok: "sets_ok p" "phase_ok p" "pl_closing p" using assms by (simp_all add: life_inv_def phase_ok_def)
  have "pl_futures p \<subseteq> {i. i < length (pl_objects p)}" using ok(1) by (auto simp: sets_ok_def)
  note cs = cancel_set [OF c this]
  have kind: "f_kind (fs ! j) = f_kind (pl_objects p ! j)" if "j < length (pl_objects p)" for j
    using cs(2) [OF that] by simp
  have dn: "f_done (fs ! j) \<longleftrightarrow> f_done (pl_objects p ! j) \<or> f_kind (pl_objects p ! j) = Future"
    if "j < length (pl_objects p)" for j
    using cs(2) [OF that] ok(1) that
    by (auto simp: sets_ok_def cancelled_object_def f_done_def split: fkind.splits)
  have e: "close_end n p = p\<lparr>pl_objects := fs, pl_futures := {}, pl_phase := Closed n (length fs)\<rparr>"
    by (simp add: close_end_def c)
  have "sets_ok (close_end n p)"
    using ok(1) cs(1) kind dn unfolding e by (auto simp: sets_ok_def)
  moreover have "phase_ok (close_end n p)"
    using ok(2,3) assms(2,3) cs(1) kind dn unfolding e
    by (auto simp: phase_ok_def all_done_def waiter_done_def)
  ultimately show ?thesis using assms(1) unfolding e by (simp add: life_inv_def)
qed

lemma life_inv_start:
  assumes "life_inv p"
  shows "life_inv (snd (pool_start endpoint randoms spawn p))"
proof -
  have "life_inv (snd (pool_start endpoint randoms spawn p)) = life_inv p"
    by (rule life_inv_cong) (auto simp: pool_start_def Let_def split: sum.splits)
  with assms show ?thesis by simp
qed

lemma life_step_inv: "life_step p q \<Longrightarrow> life_inv p \<Longrightarrow> life_inv q"
proof (induction rule: life_step.induct)
  case (life_supervisor p)
  have "life_inv (supervisor_ended p) = life_inv p"
    by (rule life_inv_cong) (simp_all add: supervisor_ended_def)
  with life_supervisor show ?case by simp
qed (auto intro: life_inv_start life_inv_task life_inv_future life_inv_done life_inv_close
    life_inv_cancel_tasks life_inv_end)

interpretation pool_system:
  invariant_system "\<lambda>p. p = pool_new" "life_step :: 'r pool_life \<Rightarrow> _" life_inv
proof unfold_locales
  show "life_inv p" if "p = pool_new" for p :: "'r pool_life"
    using that by (simp add: pool_new_def life_inv_def sets_ok_def phase_ok_def)
qed (rule life_step_inv)

section \<open>Properties\<close>

text \<open>
  However handlers, callers and the supervisor interleave with \<^verbatim>\<open>close\<close>: the supervisor gets at most one
  signal, and none before \<^verbatim>\<open>close\<close>; when \<^verbatim>\<open>close\<close> has returned, every handler task and every future that
  existed when it came to cancel them is done; a second \<^verbatim>\<open>close\<close> changes nothing.
\<close>

theorem pool_close_complete:
  assumes "reachable (\<lambda>p. p = pool_new) life_step p"
  shows "length (pl_signals p) \<le> (if pl_closing p then 1 else 0) \<and>
    (pl_closing p \<longrightarrow> close_begin p = (Inr (), p)) \<and>
    (\<forall>n m i. pl_phase p = Closed n m \<and> i < length (pl_objects p) \<longrightarrow>
       (f_kind (pl_objects p ! i) = Task \<and> i < n \<or> f_kind (pl_objects p ! i) = Future \<and> i < m \<longrightarrow>
        f_done (pl_objects p ! i)))"
proof -
  have "life_inv p" using pool_system.reachable_inv [OF assms] .
  then show ?thesis by (auto simp: life_inv_def phase_ok_def all_done_def close_begin_def)
qed

theorem pool_close_complete_witness:
  "\<exists>p :: nat pool_life. reachable (\<lambda>p. p = pool_new) life_step p \<and> pl_phase p = Closed 1 1 \<and>
     f_done (pl_objects p ! 0) \<and> length (pl_signals p) \<le> 1"
proof -
  let ?R = "reachable (\<lambda>p. p = pool_new) (life_step :: nat pool_life \<Rightarrow> _)"
  let ?p1 = "snd (pool_start (Inr ()) [] (Inr 9) pool_new) :: nat pool_life"
  let ?p2 = "pool_create_future ?p1"
  let ?p3 = "snd (close_begin ?p2)"
  let ?p4 = "close_cancel_tasks ?p3"
  let ?p5 = "close_end 1 ?p4"
  note ev = pool_start_def pool_new_def pool_create_future_def close_begin_def kill_supervisor_def
    close_cancel_tasks_def close_end_def cancel_tasks_def waiter_done_def f_done_def
  have "?R pool_new" by (rule reach_init) simp
  then have "?R ?p1" by (rule reach_step) (intro life_start, simp_all add: pool_new_def)
  then have "?R ?p2" by (rule reach_step) (rule life_future)
  then have "?R ?p3" by (rule reach_step) (intro life_close, simp add: ev)
  then have "?R ?p4" by (rule reach_step) (intro life_server, simp add: ev)
  then have r: "?R ?p5" by (rule reach_step) (rule life_end [where ts = "[]"], simp_all add: ev)
  have p5: "pl_phase ?p5 = Closed 1 1" "f_kind (pl_objects ?p5 ! 0) = Future" "length (pl_objects ?p5) = 1"
    by (simp_all add: ev)
  from pool_close_complete [OF r] p5 have "f_done (pl_objects ?p5 ! 0)" "length (pl_signals ?p5) \<le> 1"
    by (auto split: if_splits)
  with r p5(1) show ?thesis by blast
qed

end
