(* ===== verification/RpcProtocol.thy ===== *)
theory RpcProtocol
  imports WorkerProtocol
begin

text \<open>
  The messages and the framing of the RPC example (\<^verbatim>\<open>examples/rpc/rpc/spec.py\<close>): the message
  structs, the class \<^verbatim>\<open>Protocol\<close> that writes and iterates over length-prefixed payloads, and the
  operations of \<^verbatim>\<open>RPCBase\<close> on its futures and its queue.

  The msgpack encoder and decoder of msgspec are the arguments \<^verbatim>\<open>enc\<close> and \<^verbatim>\<open>dec\<close>; both may raise.
  A value that crosses the wire is a \<^verbatim>\<open>pval\<close>, with \<^verbatim>\<open>PNone\<close> for Python's \<^verbatim>\<open>None\<close>.
\<close>

section \<open>Messages\<close>

datatype pval = PNone | PBool bool | PInt int | PStr string | PList "pval list"
  | PDict "(string \<times> pval) list"

record request =
  rq_id :: int
  rq_method :: string
  rq_params :: "(string \<times> pval) list"

record rpc_error =
  er_type :: string
  er_args :: pval

record response =
  rs_id :: int
  rs_result :: pval
  rs_error :: "rpc_error option"

record payload =
  pl_request :: "request option"
  pl_response :: "response option"

definition request_payload :: "request \<Rightarrow> payload" where
  "request_payload q = \<lparr>pl_request = Some q, pl_response = None\<rparr>"

definition response_payload :: "response \<Rightarrow> payload" where
  "response_payload r = \<lparr>pl_request = None, pl_response = Some r\<rparr>"

lemma payload_simps [simp]:
  "pl_request (request_payload q) = Some q" "pl_response (request_payload q) = None"
  "pl_request (response_payload r) = None" "pl_response (response_payload r) = Some r"
  by (simp_all add: request_payload_def response_payload_def)

text \<open>What \<^verbatim>\<open>*args\<close> unpacks: a list, the characters of a string, the keys of a dict.\<close>

fun py_iter :: "pval \<Rightarrow> pval list result" where
  "py_iter (PList xs) = Inr xs"
| "py_iter (PStr s) = Inr (map (\<lambda>c. PStr [c]) s)"
| "py_iter (PDict kvs) = Inr (map (PStr \<circ> fst) kvs)"
| "py_iter _ = Inl (TypeError ''argument after * must be an iterable'')"

section \<open>The framed stream\<close>

definition rpc_header_size :: nat where
  "rpc_header_size = 4"

text \<open>The packet that \<^verbatim>\<open>send\<close> builds in its buffer, and \<^verbatim>\<open>send\<close> itself on the bytes written so far.\<close>

definition rpc_packet :: "(payload \<Rightarrow> bytes result) \<Rightarrow> payload \<Rightarrow> bytes result" where
  "rpc_packet enc p =
     bind_result (enc p) (\<lambda>payload_bytes.
       bind_result (struct_pack rpc_header_size (length payload_bytes)) (\<lambda>header.
         Inr (header @ payload_bytes)))"

definition rpc_send :: "(payload \<Rightarrow> bytes result) \<Rightarrow> payload \<Rightarrow> bytes \<Rightarrow> bytes result" where
  "rpc_send enc p written = bind_result (rpc_packet enc p) (\<lambda>packet. Inr (written @ packet))"

definition at_eof :: "reader \<Rightarrow> bool" where
  "at_eof r \<longleftrightarrow> rd_buf r = [] \<and> rd_chunks r = []"

text \<open>The body of the \<^verbatim>\<open>try\<close> in \<^verbatim>\<open>__anext__\<close> is \<^const>\<open>receive\<close>; \<^const>\<open>None\<close> is \<^verbatim>\<open>StopAsyncIteration\<close>.\<close>

definition rpc_anext ::
  "(bytes \<Rightarrow> payload result) \<Rightarrow> reader \<Rightarrow> payload option result \<times> reader" where
  "rpc_anext dec r =
     (if at_eof r then (Inr None, r)
      else (case receive readexactly dec r of
              (Inr p, r') \<Rightarrow> (Inr (Some p), r')
            | (Inl e, r') \<Rightarrow>
                if isinstance_exc e ''IncompleteReadError'' then (Inr None, r') else (Inl e, r')))"

lemma receive_consumes:
  assumes "receive readexactly dec r = (Inr p, r')"
  shows "length (rd_bytes r') < length (rd_bytes r)"
proof -
  from assms obtain h r1 n b where
    "readexactly PACKET_HEADER_size r = (Inr h, r1)" "readexactly n r1 = (Inr b, r')"
    by (auto simp: receive_def split: prod.splits sum.splits)
  from this [THEN readexactly_InrD] show ?thesis by (auto simp: PACKET_HEADER_size_def)
qed

lemma rpc_anext_consumes:
  "rpc_anext dec r = (Inr (Some p), r') \<Longrightarrow> length (rd_bytes r') < length (rd_bytes r)"
  by (auto simp: rpc_anext_def intro: receive_consumes split: if_splits prod.splits sum.splits)

text \<open>
  \<^verbatim>\<open>async for payload in protocol\<close>, when nothing in the loop's body raises: the payloads that it
  sees and the exception that ends it, if one does.
\<close>

function rpc_iterate ::
  "(bytes \<Rightarrow> payload result) \<Rightarrow> reader \<Rightarrow> payload list \<times> pyexc option" where
  "rpc_iterate dec r =
     (case rpc_anext dec r of
        (Inl e, _) \<Rightarrow> ([], Some e)
      | (Inr None, _) \<Rightarrow> ([], None)
      | (Inr (Some p), r') \<Rightarrow> apfst (Cons p) (rpc_iterate dec r'))"
  by pat_completeness auto

termination rpc_iterate
  by (relation "measure (\<lambda>(_, r). length (rd_bytes r))") (auto dest: rpc_anext_consumes [OF sym])

declare rpc_iterate.simps [simp del]

text \<open>
  A codec: what the encoder produces, the decoder reads back. The framing turns one into a
  stream of packets that can be read one by one.
\<close>

definition codec :: "(payload \<Rightarrow> bytes result) \<Rightarrow> (bytes \<Rightarrow> payload result) \<Rightarrow> bool" where
  "codec enc dec \<longleftrightarrow> (\<forall>p bs. enc p = Inr bs \<longrightarrow> dec bs = Inr p)"

lemma codecD: "codec enc dec \<Longrightarrow> enc p = Inr bs \<Longrightarrow> dec bs = Inr p"
  by (simp add: codec_def)

lemma receive_frame:
  assumes "codec enc dec" "rpc_packet enc p = Inr packet" "rd_bytes r = packet @ rest"
  shows "\<exists>r'. receive readexactly dec r = (Inr p, r') \<and> rd_bytes r' = rest"
proof -
  from assms(2) obtain bs where bs: "enc p = Inr bs"
    "pack (\<lambda>_. bs) p = Inr packet"
    by (auto simp: rpc_packet_def pack_def rpc_header_size_def PACKET_HEADER_size_def Let_def
        bind_result_Inr_iff)
  from stream.receive_packet [OF bs(2) _ assms(3), of dec] codecD [OF assms(1) bs(1)] show ?thesis by simp
qed

lemma packet_nonempty: "rpc_packet enc p = Inr packet \<Longrightarrow> packet \<noteq> []"
  using struct_roundtrip [of rpc_header_size]
  by (fastforce simp: rpc_packet_def bind_result_Inr_iff rpc_header_size_def)

lemma anext_frame:
  assumes "codec enc dec" "rpc_packet enc p = Inr packet" "rd_bytes r = packet @ rest"
  shows "\<exists>r'. rpc_anext dec r = (Inr (Some p), r') \<and> rd_bytes r' = rest"
proof -
  have "\<not> at_eof r" using packet_nonempty [OF assms(2)] assms(3)
    by (auto simp: at_eof_def rd_bytes_def)
  with receive_frame [OF assms] show ?thesis by (auto simp: rpc_anext_def)
qed

lemma iterate_frames:
  assumes "codec enc dec" "list_all2 (\<lambda>p packet. rpc_packet enc p = Inr packet) ps packets"
    and "rd_bytes r = concat packets @ rest"
  shows "\<exists>r'. rd_bytes r' = rest \<and> rpc_iterate dec r = apfst ((@) ps) (rpc_iterate dec r')"
  using assms(2,3)
proof (induction ps packets arbitrary: r rule: list_all2_induct)
  case Nil
  then show ?case by (auto intro!: exI [of _ r] simp: apfst_def map_prod_def split: prod.splits)
next
  case (Cons p ps packet packets)
  from anext_frame [OF assms(1) Cons(1), of r "concat packets @ rest"] Cons.prems obtain r1 where
    r1: "rpc_anext dec r = (Inr (Some p), r1)" "rd_bytes r1 = concat packets @ rest" by auto
  from Cons.IH [OF r1(2)] obtain r' where
    "rd_bytes r' = rest" "rpc_iterate dec r1 = apfst ((@) ps) (rpc_iterate dec r')" by blast
  with r1(1) show ?case
    by (intro exI [of _ r'], subst rpc_iterate.simps) (simp add: apfst_def map_prod_def split: prod.splits)
qed

text \<open>Bytes that end within a frame: too few for a header, or for the length it announces.\<close>

definition cut_frame :: "bytes \<Rightarrow> bool" where
  "cut_frame bs \<longleftrightarrow>
     length bs < rpc_header_size \<or>
     length bs < rpc_header_size + be_value (take rpc_header_size bs)"

lemma IncompleteReadError_instance [simp]: "isinstance_exc IncompleteReadError ''IncompleteReadError''"
  by (simp add: IncompleteReadError_def py_simps)

lemma receive_cut:
  assumes "cut_frame (rd_bytes r)"
  shows "fst (receive readexactly dec r) = Inl IncompleteReadError"
proof -
  obtain res r1 where h: "readexactly PACKET_HEADER_size r = (res, r1)" by fastforce
  note hs = readexactly_spec [OF h]
  show ?thesis
  proof (cases "length (rd_bytes r) < 4")
    case True
    with hs h show ?thesis by (simp add: receive_def PACKET_HEADER_size_def)
  next
    case False
    let ?n = "be_value (take 4 (rd_bytes r))"
    have res: "res = Inr (take 4 (rd_bytes r))" "rd_bytes r1 = drop 4 (rd_bytes r)"
      using hs False by (auto simp: PACKET_HEADER_size_def)
    obtain res2 r2 where b: "readexactly ?n r1 = (res2, r2)" by fastforce
    have "\<not> ?n \<le> length (rd_bytes r1)"
      using assms False res(2) by (auto simp: cut_frame_def rpc_header_size_def)
    with readexactly_spec [OF b] have "res2 = Inl IncompleteReadError" by simp
    with h b res False show ?thesis
      by (simp add: receive_def PACKET_HEADER_size_def struct_unpack_def)
  qed
qed

lemma rpc_iterate_cut:
  assumes "cut_frame (rd_bytes r)"
  shows "rpc_iterate dec r = ([], None)"
proof (cases "at_eof r")
  case True
  then show ?thesis by (simp add: rpc_iterate.simps rpc_anext_def)
next
  case False
  obtain r' where "receive readexactly dec r = (Inl IncompleteReadError, r')"
    using receive_cut [OF assms, of dec] by (metis prod.collapse)
  with False show ?thesis by (simp add: rpc_iterate.simps rpc_anext_def)
qed

section \<open>Futures and the queue\<close>

datatype rpc_fut = FPending | FResult pval | FError "pval list" | FCancelled

definition fut_done :: "rpc_fut \<Rightarrow> bool" where
  "fut_done f \<longleftrightarrow> f \<noteq> FPending"

text \<open>
  An \<^verbatim>\<open>RPCBase\<close>: the futures that wait for a response, the last serial, the request queue, and the
  futures of the loop in the order of their creation, to which the first refer by position.
\<close>

record rpc_base =
  rpc_futures :: "int \<rightharpoonup> nat"
  rpc_serial :: int
  rpc_queue :: "payload list"
  rpc_objs :: "rpc_fut list"

text \<open>\<^verbatim>\<open>start\<close>; futures of an earlier start stay with their callers.\<close>

definition rpc_start :: "rpc_fut list \<Rightarrow> rpc_base" where
  "rpc_start objs = \<lparr>rpc_futures = Map.empty, rpc_serial = 0, rpc_queue = [], rpc_objs = objs\<rparr>"

text \<open>
  \<^verbatim>\<open>_on_response\<close>: an unknown id gives \<^verbatim>\<open>None\<close>, which has no \<^verbatim>\<open>done\<close>. The arguments of an error
  are unpacked, which raises when they cannot be iterated over.
\<close>

definition NoneType_no_attribute :: "string \<Rightarrow> pyexc" where
  "NoneType_no_attribute a = mk_exc [''AttributeError'', ''Exception'', ''BaseException''] [a]"

definition rpc_on_response :: "response \<Rightarrow> rpc_base \<Rightarrow> unit result \<times> rpc_base" where
  "rpc_on_response r s =
     (case rpc_futures s (rs_id r) of
        None \<Rightarrow> (Inl (NoneType_no_attribute ''done''), s)
      | Some f \<Rightarrow>
          let s' = s\<lparr>rpc_futures := (rpc_futures s)(rs_id r := None)\<rparr>
          in if fut_done (rpc_objs s ! f) then (Inr (), s')
             else (case rs_error r of
                     Some e \<Rightarrow>
                       (case py_iter (er_args e) of
                          Inl x \<Rightarrow> (Inl x, s')
                        | Inr as \<Rightarrow>
                            (Inr (), s'\<lparr>rpc_objs := (rpc_objs s)[f := FError (PStr (er_type e) # as)]\<rparr>))
                   | None \<Rightarrow> (Inr (), s'\<lparr>rpc_objs := (rpc_objs s)[f := FResult (rs_result r)]\<rparr>)))"

text \<open>\<^verbatim>\<open>__call__\<close>: the future that it returns is the last one created.\<close>

definition rpc_call :: "string \<Rightarrow> (string \<times> pval) list \<Rightarrow> rpc_base \<Rightarrow> nat \<times> rpc_base" where
  "rpc_call meth kwargs s =
     (let serial = rpc_serial s + 1; future = length (rpc_objs s)
      in (future,
          s\<lparr>rpc_serial := serial,
            rpc_objs := rpc_objs s @ [FPending],
            rpc_futures := (rpc_futures s)(serial \<mapsto> future),
            rpc_queue := rpc_queue s @
              [request_payload \<lparr>rq_id = serial, rq_method = meth, rq_params = kwargs\<rparr>]\<rparr>))"

text \<open>\<^verbatim>\<open>execute\<close>: the payload with the outcome of the handler. \<^verbatim>\<open>str(type(e))\<close> is the printed class.\<close>

definition str_type :: "pyexc \<Rightarrow> string" where
  "str_type e = ''<class '' @ [CHR 0x27] @ hd (exc_mro e) @ [CHR 0x27] @ ''>''"

definition rpc_response :: "request \<Rightarrow> pval result \<Rightarrow> payload result" where
  "rpc_response q out =
     (case out of
        Inr v \<Rightarrow> Inr (response_payload \<lparr>rs_id = rq_id q, rs_result = v, rs_error = None\<rparr>)
      | Inl e \<Rightarrow>
          if is_Exception e
          then Inr (response_payload \<lparr>rs_id = rq_id q, rs_result = PNone,
                 rs_error = Some \<lparr>er_type = str_type e, er_args = PList (map PStr (exc_args e))\<rparr>\<rparr>)
          else Inl e)"

lemma rpc_response_plain: "rpc_response q out = Inr x \<Longrightarrow> \<exists>r. x = response_payload r"
  by (auto simp: rpc_response_def split: sum.splits if_splits)

section \<open>A small codec\<close>

text \<open>A small codec with two payloads for the witnesses.\<close>

definition demo_request :: request where
  "demo_request = \<lparr>rq_id = 1, rq_method = ''ping'', rq_params = []\<rparr>"

definition demo_response :: response where
  "demo_response = \<lparr>rs_id = 1, rs_result = PInt 7, rs_error = None\<rparr>"

definition demo_enc :: "payload \<Rightarrow> bytes result" where
  "demo_enc x =
     (if x = request_payload demo_request then Inr [1]
      else if x = response_payload demo_response then Inr [2] else Inl (TypeError []))"

definition demo_dec :: "bytes \<Rightarrow> payload result" where
  "demo_dec bs =
     (if bs = [1] then Inr (request_payload demo_request)
      else if bs = [2] then Inr (response_payload demo_response) else Inl (ValueError []))"

lemma demo_codec: "codec demo_enc demo_dec"
  by (auto simp: codec_def demo_enc_def demo_dec_def split: if_splits)

end
