(* ===== verification/Rpc.thy ===== *)
theory Rpc
  imports RpcProtocol "HOL-Library.Multiset"
begin

text \<open>
  Two peers of the RPC example over one connection (\<^verbatim>\<open>examples/rpc/rpc/spec.py\<close>, \<^verbatim>\<open>communicate\<close>
  with \<^verbatim>\<open>client.py\<close> on one side and \<^verbatim>\<open>server.py\<close> on the other). Both call and both answer. The
  pieces between two suspension points of the request writer, of the reading loop and of the
  executions are one operation each, and a step relation interleaves them with the calls and
  cancellations of the users.

  A peer's wire is what it has written and the other has not read. The last five fields record the
  history for the theorems: the payloads in the wire, the requests made, what handlers gave, and
  the requests and responses that an exception or a closed writer made disappear.
\<close>

section \<open>A peer\<close>

record peer =
  pe_base :: rpc_base
  pe_tasks :: "(request \<times> bool) list"
  pe_wire :: bytes
  pe_writer :: bool
  pe_open :: bool
  pe_error :: "pyexc option"
  pe_sent :: "payload list"
  pe_issued :: "request list"
  pe_log :: "(request \<times> pval result) list"
  pe_lost_requests :: "request list"
  pe_lost_responses :: "int list"

text \<open>\<^verbatim>\<open>communicate\<close> up to its loop: the protocol and the task of the request writer.\<close>

definition peer_connect :: "rpc_base \<Rightarrow> peer" where
  "peer_connect base =
     \<lparr>pe_base = base, pe_tasks = [], pe_wire = [], pe_writer = True, pe_open = True,
      pe_error = None, pe_sent = [], pe_issued = [], pe_log = [], pe_lost_requests = [],
      pe_lost_responses = []\<rparr>"

definition peer_call :: "string \<Rightarrow> (string \<times> pval) list \<Rightarrow> peer \<Rightarrow> peer" where
  "peer_call meth kwargs p =
     (let base = snd (rpc_call meth kwargs (pe_base p))
      in p\<lparr>pe_base := base,
           pe_issued := pe_issued p @
             [\<lparr>rq_id = rpc_serial base, rq_method = meth, rq_params = kwargs\<rparr>]\<rparr>)"

text \<open>A caller cancels the future that it got, for instance by a timeout.\<close>

definition peer_cancel :: "nat \<Rightarrow> peer \<Rightarrow> peer option" where
  "peer_cancel f p =
     (let b = pe_base p
      in if f < length (rpc_objs b) \<and> \<not> fut_done (rpc_objs b ! f)
         then Some (p\<lparr>pe_base := b\<lparr>rpc_objs := (rpc_objs b)[f := FCancelled]\<rparr>\<rparr>) else None)"

text \<open>
  One round of \<^verbatim>\<open>_request_writer\<close>. An exception of \<^verbatim>\<open>send\<close> ends the task, after the payload has
  been taken from the queue.
\<close>

definition peer_write_request :: "(payload \<Rightarrow> bytes result) \<Rightarrow> peer \<Rightarrow> peer option" where
  "peer_write_request enc p =
     (let b = pe_base p
      in if \<not> pe_writer p then None
         else (case rpc_queue b of
                 [] \<Rightarrow> None
               | x # xs \<Rightarrow>
                   let p' = p\<lparr>pe_base := b\<lparr>rpc_queue := xs\<rparr>\<rparr>
                   in Some (case rpc_send enc x (pe_wire p) of
                              Inl _ \<Rightarrow> p'\<lparr>pe_writer := False,
                                pe_lost_requests := pe_lost_requests p @ List.map_filter pl_request [x]\<rparr>
                            | Inr w \<Rightarrow> p'\<lparr>pe_wire := w, pe_sent := pe_sent p @ [x]\<rparr>)))"

text \<open>
  The rest of an \<^verbatim>\<open>execute\<close> once the handler's outcome is known. What is written to a closed
  writer disappears; a failed task has no effect beyond itself.
\<close>

definition peer_respond ::
  "(payload \<Rightarrow> bytes result) \<Rightarrow> request \<Rightarrow> pval result \<Rightarrow> peer \<Rightarrow> peer" where
  "peer_respond enc q out p =
     (let p' = p\<lparr>pe_log := pe_log p @ [(q, out)]\<rparr>;
          dropped = p'\<lparr>pe_lost_responses := pe_lost_responses p @ [rq_id q]\<rparr>
      in case rpc_response q out of
           Inl _ \<Rightarrow> dropped
         | Inr payload \<Rightarrow>
             (case rpc_send enc payload (pe_wire p) of
                Inl _ \<Rightarrow> dropped
              | Inr w \<Rightarrow>
                  if pe_open p then p'\<lparr>pe_wire := w, pe_sent := pe_sent p @ [payload]\<rparr>
                  else dropped))"

text \<open>
  The start of the \<^verbatim>\<open>i\<close>th execution, with the handlers by name (\<^const>\<open>True\<close> marks a coroutine
  function): an unknown method and a plain function are answered at once,
  a coroutine function is awaited.
\<close>

definition peer_execute ::
  "(string \<rightharpoonup> bool) \<Rightarrow> (payload \<Rightarrow> bytes result) \<Rightarrow> nat \<Rightarrow> pval result \<Rightarrow> peer \<Rightarrow> peer option" where
  "peer_execute handlers enc i out p =
     (if i < length (pe_tasks p) \<and> \<not> snd (pe_tasks p ! i)
      then let q = fst (pe_tasks p ! i); done = p\<lparr>pe_tasks := take i (pe_tasks p) @ drop (Suc i) (pe_tasks p)\<rparr>
           in Some (case handlers (rq_method q) of
                      None \<Rightarrow> peer_respond enc q (Inl (KeyError (rq_method q))) done
                    | Some False \<Rightarrow> peer_respond enc q out done
                    | Some True \<Rightarrow> p\<lparr>pe_tasks := (pe_tasks p)[i := (q, True)]\<rparr>)
      else None)"

text \<open>The awaited coroutine of the \<^verbatim>\<open>i\<close>th execution ends; a cancellation of the task is such an end.\<close>

definition peer_executed ::
  "(payload \<Rightarrow> bytes result) \<Rightarrow> nat \<Rightarrow> pval result \<Rightarrow> peer \<Rightarrow> peer option" where
  "peer_executed enc i out p =
     (if i < length (pe_tasks p) \<and> snd (pe_tasks p ! i)
      then Some (peer_respond enc (fst (pe_tasks p ! i)) out
             (p\<lparr>pe_tasks := take i (pe_tasks p) @ drop (Suc i) (pe_tasks p)\<rparr>))
      else None)"

text \<open>The \<^verbatim>\<open>finally\<close> of \<^verbatim>\<open>communicate\<close>: the writer is closed and the request writer cancelled.\<close>

definition peer_finish :: "pyexc option \<Rightarrow> peer \<Rightarrow> peer" where
  "peer_finish e p = p\<lparr>pe_open := False, pe_writer := False, pe_error := e\<rparr>"

text \<open>The body of the loop for one payload; an exception leaves the loop.\<close>

definition peer_dispatch :: "payload \<Rightarrow> peer \<Rightarrow> peer" where
  "peer_dispatch x p =
     (let p' = (case pl_request x of
                  Some q \<Rightarrow> p\<lparr>pe_tasks := pe_tasks p @ [(q, False)]\<rparr> | None \<Rightarrow> p)
      in case pl_response x of
           None \<Rightarrow> p'
         | Some r \<Rightarrow>
             (case rpc_on_response r (pe_base p') of
                (Inr _, b) \<Rightarrow> p'\<lparr>pe_base := b\<rparr>
              | (Inl e, b) \<Rightarrow> peer_finish (Some e) (p'\<lparr>pe_base := b\<rparr>)))"

text \<open>
  One round of the loop, on what the other peer has written. While the other's writer is open and
  no whole frame has come, the loop waits.
\<close>

definition peer_receive ::
  "(bytes \<Rightarrow> payload result) \<Rightarrow> peer \<Rightarrow> peer \<Rightarrow> (peer \<times> peer) option" where
  "peer_receive dec p other =
     (if \<not> pe_open p then None
      else (case rpc_anext dec \<lparr>rd_buf = pe_wire other, rd_chunks = []\<rparr> of
              (Inr (Some x), r) \<Rightarrow>
                Some (peer_dispatch x p, other\<lparr>pe_wire := rd_bytes r, pe_sent := tl (pe_sent other)\<rparr>)
            | (Inr None, _) \<Rightarrow> if pe_open other then None else Some (peer_finish None p, other)
            | (Inl e, r) \<Rightarrow> Some (peer_finish (Some e) p, other\<lparr>pe_wire := rd_bytes r\<rparr>)))"

section \<open>The two peers\<close>

text \<open>\<^verbatim>\<open>ha\<close> are the handlers of the acting peer; the last rule lets the other peer act.\<close>

inductive peer_step ::
  "(payload \<Rightarrow> bytes result) \<Rightarrow> (bytes \<Rightarrow> payload result) \<Rightarrow> (string \<rightharpoonup> bool) \<Rightarrow>
     peer \<times> peer \<Rightarrow> peer \<times> peer \<Rightarrow> bool"
  for enc dec ha where
  step_call: "peer_step enc dec ha (a, b) (peer_call meth kwargs a, b)"
| step_cancel: "peer_cancel f a = Some a' \<Longrightarrow> peer_step enc dec ha (a, b) (a', b)"
| step_write: "peer_write_request enc a = Some a' \<Longrightarrow> peer_step enc dec ha (a, b) (a', b)"
| step_execute: "peer_execute ha enc i out a = Some a' \<Longrightarrow> peer_step enc dec ha (a, b) (a', b)"
| step_executed: "peer_executed enc i out a = Some a' \<Longrightarrow> peer_step enc dec ha (a, b) (a', b)"
| step_receive: "peer_receive dec a b = Some (a', b') \<Longrightarrow> peer_step enc dec ha (a, b) (a', b')"
| step_stop: "pe_open a \<Longrightarrow> peer_step enc dec ha (a, b) (peer_finish None a, b)"

inductive rpc_step ::
  "(payload \<Rightarrow> bytes result) \<Rightarrow> (bytes \<Rightarrow> payload result) \<Rightarrow> (string \<rightharpoonup> bool) \<Rightarrow> (string \<rightharpoonup> bool) \<Rightarrow>
     peer \<times> peer \<Rightarrow> peer \<times> peer \<Rightarrow> bool"
  for enc dec ha hb where
  rpc_first: "peer_step enc dec ha (a, b) (a', b') \<Longrightarrow> rpc_step enc dec ha hb (a, b) (a', b')"
| rpc_second: "peer_step enc dec hb (b, a) (b', a') \<Longrightarrow> rpc_step enc dec ha hb (a, b) (a', b')"

definition rpc_init :: "peer \<times> peer \<Rightarrow> bool" where
  "rpc_init s \<longleftrightarrow> s = (peer_connect (rpc_start []), peer_connect (rpc_start []))"

abbreviation rpc_reachable ::
  "(payload \<Rightarrow> bytes result) \<Rightarrow> (bytes \<Rightarrow> payload result) \<Rightarrow> (string \<rightharpoonup> bool) \<Rightarrow> (string \<rightharpoonup> bool) \<Rightarrow>
     peer \<times> peer \<Rightarrow> bool" where
  "rpc_reachable enc dec ha hb \<equiv> reachable rpc_init (rpc_step enc dec ha hb)"

section \<open>The flow of requests in one direction\<close>

text \<open>What the future of a request holds when the handler's outcome has been delivered.\<close>

fun outcome_fut :: "pval result \<Rightarrow> rpc_fut" where
  "outcome_fut (Inr v) = FResult v"
| "outcome_fut (Inl e) = FError (PStr (str_type e) # map PStr (exc_args e))"

lemma rpc_response_shape:
  assumes "rpc_response q out = Inr (response_payload r)"
  shows "rs_id r = rq_id q"
    "(case rs_error r of None \<Rightarrow> FResult (rs_result r)
      | Some e \<Rightarrow> FError (PStr (er_type e) # projr (py_iter (er_args e)))) = outcome_fut out"
    "rs_error r = Some e \<Longrightarrow> \<exists>xs. er_args e = PList xs"
  using assms
  by (cases out; auto simp: rpc_response_def response_payload_def split: if_splits)+

text \<open>
  The requests \<^verbatim>\<open>I\<close> of one peer with its futures \<^verbatim>\<open>F\<close> and \<^verbatim>\<open>Fs\<close>: \<^verbatim>\<open>W\<close> still wait for their execution,
  \<^verbatim>\<open>L\<close> have been executed, \<^verbatim>\<open>X\<close> are lost before; of the executed ones, \<^verbatim>\<open>R\<close> are responses on their
  way back and \<^verbatim>\<open>Y\<close> the ids of lost responses. The rest has been delivered.
\<close>

definition flow ::
  "(int \<rightharpoonup> nat) \<Rightarrow> request list \<Rightarrow> rpc_fut list \<Rightarrow> request multiset \<Rightarrow> (request \<times> pval result) list \<Rightarrow>
     response list \<Rightarrow> request multiset \<Rightarrow> int multiset \<Rightarrow> bool" where
  "flow F I Fs W L R X Y \<longleftrightarrow>
     (\<forall>i < length I. rq_id (I ! i) = int i + 1) \<and> length Fs = length I \<and>
     mset I = W + image_mset fst (mset L) + X \<and>
     image_mset (rq_id \<circ> fst) (mset L) =
       image_mset rs_id (mset R) + Y + mset_set (rq_id ` set I - dom F) \<and>
     dom F \<subseteq> rq_id ` set I \<and> (\<forall>k f. F k = Some f \<longrightarrow> int f + 1 = k) \<and>
     (\<forall>r \<in> set R. \<exists>(q, out) \<in> set L. rpc_response q out = Inr (response_payload r)) \<and>
     (\<forall>i < length I. (Fs ! i = FPending \<longrightarrow> int i + 1 \<in> dom F) \<and>
        (Fs ! i \<noteq> FPending \<longrightarrow> Fs ! i = FCancelled \<or>
           (\<exists>out. (I ! i, out) \<in> set L \<and> Fs ! i = outcome_fut out)))"


lemma flow_ids:
  assumes "flow F I Fs W L R X Y"
  shows "distinct (map rq_id I)" "inj_on rq_id (set I)" "distinct I"
    "set_mset (image_mset fst (mset L)) \<subseteq> set I"
proof -
  have "\<forall>i < length I. rq_id (I ! i) = int i + 1" using assms by (simp add: flow_def)
  then show d: "distinct (map rq_id I)" by (auto simp: distinct_conv_nth)
  then show "inj_on rq_id (set I)" "distinct I" by (simp_all add: distinct_map)
  have "mset I = W + image_mset fst (mset L) + X" using assms by (simp add: flow_def)
  then have "set_mset (mset I) = set_mset (W + image_mset fst (mset L) + X)" by simp
  then show "set_mset (image_mset fst (mset L)) \<subseteq> set I" by auto
qed

lemma flow_init: "flow Map.empty [] [] {#} [] [] {#} {#}"
  by (simp add: flow_def)

lemma flow_call:
  assumes "flow F I Fs W L R X Y" "rq_id q = int (length I) + 1"
  shows "flow (F(rq_id q \<mapsto> length Fs)) (I @ [q]) (Fs @ [FPending]) (add_mset q W) L R X Y"
proof -
  have len: "length Fs = length I" and ids: "\<And>i. i < length I \<Longrightarrow> rq_id (I ! i) = int i + 1"
    using assms(1) by (simp_all add: flow_def)
  have new: "rq_id q \<notin> rq_id ` set I"
    using ids assms(2) by (auto simp: in_set_conv_nth)
  then have "rq_id ` set (I @ [q]) - dom (F(rq_id q \<mapsto> length Fs)) = rq_id ` set I - dom F"
    by auto
  with assms len new show ?thesis
    unfolding flow_def
    by (intro conjI) (auto simp: nth_append less_Suc_eq)
qed

lemma flow_cancel:
  assumes "flow F I Fs W L R X Y" "i < length Fs"
  shows "flow F I (Fs[i := FCancelled]) W L R X Y"
  using assms by (auto simp: flow_def nth_list_update)

lemma flow_lose_request:
  "flow F I Fs (add_mset q W) L R X Y \<Longrightarrow> flow F I Fs W L R (add_mset q X) Y"
  by (simp add: flow_def)

lemma flow_execute:
  assumes "flow F I Fs (add_mset q W) L R X Y" "rpc_response q out = Inr (response_payload r)"
  shows "flow F I Fs W (L @ [(q, out)]) (R @ [r]) X Y"
proof -
  from rpc_response_shape(1) [OF assms(2)] assms show ?thesis unfolding flow_def by (intro conjI) (auto 0 4)
qed

lemma flow_lose_response:
  assumes "flow F I Fs (add_mset q W) L R X Y"
  shows "flow F I Fs W (L @ [(q, out)]) R X (add_mset (rq_id q) Y)"
  using assms unfolding flow_def by (intro conjI) (auto 0 4)

text \<open>A response that comes back finds its future.\<close>

lemma flow_response_known:
  assumes "flow F I Fs W L (r # R) X Y"
  shows "rs_id r \<in> dom F"
proof -
  let ?D = "rq_id ` set I - dom F"
  have L: "image_mset (rq_id \<circ> fst) (mset L) = image_mset rs_id (mset (r # R)) + Y + mset_set ?D"
    and I: "mset I = W + image_mset fst (mset L) + X" using assms by (simp_all add: flow_def)
  have "image_mset (rq_id \<circ> fst) (mset L) \<subseteq># image_mset rq_id (mset I)"
    unfolding I by (simp add: multiset.map_comp)
  then have le: "count (image_mset (rq_id \<circ> fst) (mset L)) k \<le> count (mset (map rq_id I)) k" for k
    by (simp add: subseteq_mset_def)
  have in_L: "rs_id r \<in># image_mset (rq_id \<circ> fst) (mset L)" unfolding L by simp
  then have "rs_id r \<in># image_mset rq_id (mset I)"
    unfolding I by (auto simp: multiset.map_comp)
  then have r: "rs_id r \<in> rq_id ` set I" by auto
  have "rs_id r \<notin> ?D"
  proof
    assume "rs_id r \<in> ?D"
    then have "2 \<le> count (image_mset (rq_id \<circ> fst) (mset L)) (rs_id r)"
      unfolding L by simp
    with le [of "rs_id r"] flow_ids(1) [OF assms] show False
      using r by (simp add: distinct_count_atmost_1 split: if_splits)
  qed
  with r show ?thesis by blast
qed

lemma flow_deliver:
  assumes "flow F I Fs W L (r # R) X Y"
  shows "\<exists>f. F (rs_id r) = Some f \<and> f < length Fs \<and>
     flow (F(rs_id r := None)) I
       (if Fs ! f = FPending
        then Fs[f := (case rs_error r of None \<Rightarrow> FResult (rs_result r)
                      | Some e \<Rightarrow> FError (PStr (er_type e) # projr (py_iter (er_args e))))]
        else Fs) W L R X Y"
proof -
  note defs = assms [unfolded flow_def]
  from flow_response_known [OF assms] obtain f where f: "F (rs_id r) = Some f" by blast
  then have k: "int f + 1 = rs_id r" using defs by blast
  have rI: "rs_id r \<in> rq_id ` set I" using defs f by blast
  then obtain i where "i < length I" "rq_id (I ! i) = rs_id r" by (auto simp: in_set_conv_nth)
  with defs k have fl: "f < length I" "rq_id (I ! f) = rs_id r" by auto
  obtain q out where qo: "(q, out) \<in> set L" "rpc_response q out = Inr (response_payload r)"
    using defs by auto
  have "q \<in> set I" using flow_ids(4) [OF assms] qo(1) by force
  with rpc_response_shape(1) [OF qo(2)] have q: "q = I ! f"
    using flow_ids(2) [OF assms] fl by (metis inj_onD nth_mem)
  note out = rpc_response_shape(2) [OF qo(2)]
  let ?Fs = "if Fs ! f = FPending then Fs[f := outcome_fut out] else Fs"
  have "rq_id ` set I - dom (F(rs_id r := None)) = insert (rs_id r) (rq_id ` set I - dom F)"
    using rI f by auto
  moreover have "rs_id r \<notin> rq_id ` set I - dom F" using f by blast
  ultimately have D: "mset_set (rq_id ` set I - dom (F(rs_id r := None))) =
      add_mset (rs_id r) (mset_set (rq_id ` set I - dom F))" by simp
  have "outcome_fut out \<noteq> FPending" by (cases out) auto
  then have Fs: "(?Fs ! i = FPending \<longrightarrow> int i + 1 \<in> dom (F(rs_id r := None))) \<and>
      (?Fs ! i \<noteq> FPending \<longrightarrow> ?Fs ! i = FCancelled \<or>
         (\<exists>out. (I ! i, out) \<in> set L \<and> ?Fs ! i = outcome_fut out))" if "i < length I" for i
    using that defs k qo(1) unfolding q by (cases "i = f") (auto split: if_splits)
  have "flow (F(rs_id r := None)) I ?Fs W L R X Y"
    unfolding flow_def D using defs Fs by (intro conjI) (auto split: if_splits)
  then show ?thesis using f fl defs unfolding out by auto
qed

lemma flow_on_response:
  assumes "flow (rpc_futures s) I (rpc_objs s) W L (r # R) X Y"
  shows "\<exists>F Fs. rpc_on_response r s = (Inr (), s\<lparr>rpc_futures := F, rpc_objs := Fs\<rparr>) \<and>
    flow F I Fs W L R X Y"
proof -
  let ?Fs = "\<lambda>f. if rpc_objs s ! f = FPending
    then (rpc_objs s)[f := (case rs_error r of None \<Rightarrow> FResult (rs_result r)
                      | Some e \<Rightarrow> FError (PStr (er_type e) # projr (py_iter (er_args e))))]
    else rpc_objs s"
  from flow_deliver [OF assms] obtain f where f: "rpc_futures s (rs_id r) = Some f"
    "flow ((rpc_futures s)(rs_id r := None)) I (?Fs f) W L R X Y" by blast
  have "\<exists>q out. rpc_response q out = Inr (response_payload r)"
    using assms unfolding flow_def by auto
  then have "rs_error r = Some e \<Longrightarrow> \<exists>xs. er_args e = PList xs" for e
    using rpc_response_shape(3) by blast
  then have "rpc_on_response r s =
      (Inr (), s\<lparr>rpc_futures := (rpc_futures s)(rs_id r := None), rpc_objs := ?Fs f\<rparr>)"
    using f(1) by (cases s; cases "rs_error r") (fastforce simp: rpc_on_response_def fut_done_def Let_def)+
  with f(2) show ?thesis by blast
qed

section \<open>The invariant of the two peers\<close>

definition reqs :: "payload list \<Rightarrow> request list" where
  "reqs xs = List.map_filter pl_request xs"

definition resps :: "payload list \<Rightarrow> response list" where
  "resps xs = List.map_filter pl_response xs"

lemma reqs_simps [simp]:
  "reqs [] = []" "reqs (request_payload q # xs) = q # reqs xs"
  "reqs (response_payload r # xs) = reqs xs" "reqs (xs @ ys) = reqs xs @ reqs ys"
  by (simp_all add: reqs_def List.map_filter_def)

lemma resps_simps [simp]:
  "resps [] = []" "resps (request_payload q # xs) = resps xs"
  "resps (response_payload r # xs) = r # resps xs" "resps (xs @ ys) = resps xs @ resps ys"
  by (simp_all add: resps_def List.map_filter_def)

definition plain :: "payload \<Rightarrow> bool" where
  "plain x \<longleftrightarrow> (\<exists>q. x = request_payload q) \<or> (\<exists>r. x = response_payload r)"

text \<open>The requests of a peer between their creation and their execution by the other.\<close>

definition waiting :: "peer \<Rightarrow> peer \<Rightarrow> request list" where
  "waiting a b = reqs (rpc_queue (pe_base a)) @ reqs (pe_sent a) @ map fst (pe_tasks b)"

definition rpc_dir :: "peer \<Rightarrow> peer \<Rightarrow> bool" where
  "rpc_dir a b \<longleftrightarrow>
     flow (rpc_futures (pe_base a)) (pe_issued a) (rpc_objs (pe_base a)) (mset (waiting a b))
       (pe_log b) (resps (pe_sent b)) (mset (pe_lost_requests a)) (mset (pe_lost_responses b))"

definition peer_ok :: "(payload \<Rightarrow> bytes result) \<Rightarrow> peer \<Rightarrow> bool" where
  "peer_ok enc p \<longleftrightarrow>
     (\<exists>packets. list_all2 (\<lambda>x packet. rpc_packet enc x = Inr packet) (pe_sent p) packets \<and>
        pe_wire p = concat packets) \<and>
     (\<forall>x \<in> set (pe_sent p). plain x) \<and>
     (\<forall>x \<in> set (rpc_queue (pe_base p)). \<exists>q. x = request_payload q) \<and>
     rpc_serial (pe_base p) = int (length (pe_issued p)) \<and> pe_error p = None"

definition rpc_inv :: "(payload \<Rightarrow> bytes result) \<Rightarrow> peer \<times> peer \<Rightarrow> bool" where
  "rpc_inv enc = (\<lambda>(a, b). peer_ok enc a \<and> peer_ok enc b \<and> rpc_dir a b \<and> rpc_dir b a)"

lemma rpc_dir_cong:
  assumes "pe_base a' = pe_base a" "pe_issued a' = pe_issued a" "pe_sent a' = pe_sent a"
    "pe_lost_requests a' = pe_lost_requests a"
    "map fst (pe_tasks b') = map fst (pe_tasks b)" "pe_log b' = pe_log b"
    "pe_sent b' = pe_sent b" "pe_lost_responses b' = pe_lost_responses b"
  shows "rpc_dir a' b' = rpc_dir a b"
  using assms by (simp add: rpc_dir_def waiting_def)

lemma rpc_inv_call:
  assumes "rpc_inv enc (a, b)"
  shows "rpc_inv enc (peer_call meth kwargs a, b)"
proof -
  let ?q = "\<lparr>rq_id = rpc_serial (pe_base a) + 1, rq_method = meth, rq_params = kwargs\<rparr>"
  have ok: "peer_ok enc a" "rpc_dir a b" "rpc_dir b a" "peer_ok enc b"
    using assms by (simp_all add: rpc_inv_def)
  have "rq_id ?q = int (length (pe_issued a)) + 1" using ok(1) by (simp add: peer_ok_def)
  from flow_call [OF ok(2) [unfolded rpc_dir_def] this]
  have "rpc_dir (peer_call meth kwargs a) b"
    by (simp add: rpc_dir_def waiting_def peer_call_def rpc_call_def Let_def ac_simps)
  moreover have "rpc_dir b (peer_call meth kwargs a) = rpc_dir b a"
    by (rule rpc_dir_cong) (simp_all add: peer_call_def Let_def)
  moreover have "peer_ok enc (peer_call meth kwargs a)"
    using ok(1) by (auto simp: peer_ok_def peer_call_def rpc_call_def Let_def)
  ultimately show ?thesis using ok by (simp add: rpc_inv_def)
qed

lemma rpc_inv_cancel:
  assumes "rpc_inv enc (a, b)" "peer_cancel f a = Some a'"
  shows "rpc_inv enc (a', b)"
proof -
  have ok: "peer_ok enc a" "rpc_dir a b" "rpc_dir b a" "peer_ok enc b"
    using assms by (simp_all add: rpc_inv_def)
  have f: "f < length (rpc_objs (pe_base a))"
    and a': "a' = a\<lparr>pe_base := (pe_base a)\<lparr>rpc_objs := (rpc_objs (pe_base a))[f := FCancelled]\<rparr>\<rparr>"
    using assms(2) by (auto simp: peer_cancel_def Let_def split: if_splits)
  from flow_cancel [OF ok(2) [unfolded rpc_dir_def] f] have "rpc_dir a' b"
    by (simp add: rpc_dir_def waiting_def a')
  moreover have "rpc_dir b a' = rpc_dir b a" by (rule rpc_dir_cong) (simp_all add: a')
  moreover have "peer_ok enc a'" using ok(1) by (simp add: peer_ok_def a')
  ultimately show ?thesis using ok by (simp add: rpc_inv_def)
qed

lemma peer_ok_send:
  assumes "peer_ok enc p" "rpc_send enc x (pe_wire p) = Inr w" "plain x"
  shows "peer_ok enc (p\<lparr>pe_wire := w, pe_sent := pe_sent p @ [x]\<rparr>)"
proof -
  from assms(1) obtain packets where pk:
    "list_all2 (\<lambda>x packet. rpc_packet enc x = Inr packet) (pe_sent p) packets"
    "pe_wire p = concat packets" by (auto simp: peer_ok_def)
  from assms(2) obtain packet where "rpc_packet enc x = Inr packet" "w = pe_wire p @ packet"
    by (auto simp: rpc_send_def bind_result_Inr_iff)
  then have "list_all2 (\<lambda>x packet. rpc_packet enc x = Inr packet) (pe_sent p @ [x]) (packets @ [packet])"
    "w = concat (packets @ [packet])" using pk by (auto intro: list_all2_appendI)
  with assms(1,3) show ?thesis unfolding peer_ok_def by auto
qed

lemma rpc_inv_write:
  assumes "rpc_inv enc (a, b)" "peer_write_request enc a = Some a'"
  shows "rpc_inv enc (a', b)"
proof -
  have ok: "peer_ok enc a" "rpc_dir a b" "rpc_dir b a" "peer_ok enc b"
    using assms by (simp_all add: rpc_inv_def)
  let ?b = "pe_base a"
  from assms(2) obtain x xs where x: "rpc_queue ?b = x # xs"
    by (auto simp: peer_write_request_def Let_def split: if_splits list.splits)
  then obtain q where q: "x = request_payload q" using ok(1) by (auto simp: peer_ok_def)
  let ?p = "a\<lparr>pe_base := ?b\<lparr>rpc_queue := xs\<rparr>\<rparr>"
  have p: "peer_ok enc ?p" using ok(1) x by (auto simp: peer_ok_def)
  show ?thesis
  proof (cases "rpc_send enc x (pe_wire a)")
    case (Inl e)
    then have a': "a' = ?p\<lparr>pe_writer := False, pe_lost_requests := pe_lost_requests a @ [q]\<rparr>"
      using assms(2) x q
      by (auto simp: peer_write_request_def Let_def List.map_filter_def split: if_splits)
    have "rpc_dir a' b"
      using ok(2) flow_lose_request by (fastforce simp: rpc_dir_def waiting_def a' x q)
    moreover have "rpc_dir b a' = rpc_dir b a" by (rule rpc_dir_cong) (simp_all add: a')
    moreover have "peer_ok enc a'" using p by (simp add: peer_ok_def a')
    ultimately show ?thesis using ok by (simp add: rpc_inv_def)
  next
    case (Inr w)
    then have a': "a' = ?p\<lparr>pe_wire := w, pe_sent := pe_sent ?p @ [x]\<rparr>"
      using assms(2) x by (auto simp: peer_write_request_def Let_def split: if_splits)
    have "mset (waiting a' b) = mset (waiting a b)" by (simp add: waiting_def a' x q)
    then have "rpc_dir a' b = rpc_dir a b" by (simp add: rpc_dir_def a' x q)
    moreover have "rpc_dir b a' = rpc_dir b a" by (simp add: rpc_dir_def waiting_def a' q)
    moreover have "peer_ok enc a'"
      using peer_ok_send [OF p, of x w] Inr by (auto simp: a' plain_def q)
    ultimately show ?thesis using ok by (simp add: rpc_inv_def)
  qed
qed

lemma mset_remove_nth:
  assumes "i < length xs"
  shows "mset xs = add_mset (xs ! i) (mset (take i xs @ drop (Suc i) xs))"
proof -
  have "mset xs = mset (take i xs @ xs ! i # drop (Suc i) xs)"
    using id_take_nth_drop [OF assms] by simp
  then show ?thesis by simp
qed

lemma peer_respond_cases:
  obtains (sent) r w where "rpc_response q out = Inr (response_payload r)"
    "rpc_send enc (response_payload r) (pe_wire p) = Inr w"
    "peer_respond enc q out p =
       p\<lparr>pe_log := pe_log p @ [(q, out)], pe_wire := w, pe_sent := pe_sent p @ [response_payload r]\<rparr>"
  | (dropped) "peer_respond enc q out p =
       p\<lparr>pe_log := pe_log p @ [(q, out)], pe_lost_responses := pe_lost_responses p @ [rq_id q]\<rparr>"
proof (cases "rpc_response q out")
  case (Inl e)
  with dropped show ?thesis by (simp add: peer_respond_def Let_def)
next
  case (Inr x)
  from rpc_response_plain [OF this] obtain r where "x = response_payload r" ..
  with Inr sent dropped show ?thesis
    by (cases "rpc_send enc x (pe_wire p)"; cases "pe_open p") (simp_all add: peer_respond_def Let_def)
qed

text \<open>An execution ends: its request leaves the tasks and its outcome enters the log.\<close>

lemma rpc_inv_respond:
  assumes "rpc_inv enc (a, b)" "i < length (pe_tasks a)"
  shows "rpc_inv enc (peer_respond enc (fst (pe_tasks a ! i)) out
    (a\<lparr>pe_tasks := take i (pe_tasks a) @ drop (Suc i) (pe_tasks a)\<rparr>), b)"
proof -
  have ok: "peer_ok enc a" "rpc_dir a b" "rpc_dir b a" "peer_ok enc b"
    using assms by (simp_all add: rpc_inv_def)
  let ?q = "fst (pe_tasks a ! i)"
  let ?p = "a\<lparr>pe_tasks := take i (pe_tasks a) @ drop (Suc i) (pe_tasks a)\<rparr>"
  let ?r = "peer_respond enc ?q out ?p"
  have "image_mset fst (mset (pe_tasks a)) = add_mset ?q (image_mset fst (mset (pe_tasks ?p)))"
    by (subst mset_remove_nth [OF assms(2)]) simp
  then have "mset (waiting b a) = add_mset ?q (mset (waiting b ?p))" by (simp add: waiting_def)
  then have flow: "flow (rpc_futures (pe_base b)) (pe_issued b) (rpc_objs (pe_base b))
      (add_mset ?q (mset (waiting b ?p))) (pe_log a) (resps (pe_sent a))
      (mset (pe_lost_requests b)) (mset (pe_lost_responses a))"
    using ok(3) by (simp add: rpc_dir_def)
  show ?thesis
  proof (cases rule: peer_respond_cases [of ?q out enc ?p])
    case (sent r w)
    let ?p' = "?p\<lparr>pe_log := pe_log a @ [(?q, out)]\<rparr>"
    have "rpc_dir b ?r"
      using flow_execute [OF flow sent(1)] by (simp add: rpc_dir_def waiting_def sent(3))
    moreover have "rpc_dir ?r b = rpc_dir a b" by (simp add: rpc_dir_def waiting_def sent(3))
    moreover have "peer_ok enc ?p'" using ok(1) by (simp add: peer_ok_def)
    then have "peer_ok enc ?r"
      using peer_ok_send [of enc ?p' "response_payload r" w] sent(2) by (auto simp: sent(3) plain_def)
    ultimately show ?thesis using ok by (simp add: rpc_inv_def)
  next
    case dropped
    have "rpc_dir b ?r"
      using flow_lose_response [OF flow] by (simp add: rpc_dir_def waiting_def dropped)
    moreover have "rpc_dir ?r b = rpc_dir a b" by (simp add: rpc_dir_def waiting_def dropped)
    moreover have "peer_ok enc ?r" using ok(1) by (simp add: peer_ok_def dropped)
    ultimately show ?thesis using ok by (simp add: rpc_inv_def)
  qed
qed

lemma rpc_inv_execute:
  assumes "rpc_inv enc (a, b)" "peer_execute ha enc i out a = Some a'"
  shows "rpc_inv enc (a', b)"
proof -
  have i: "i < length (pe_tasks a)" using assms(2) by (auto simp: peer_execute_def split: if_splits)
  let ?p = "a\<lparr>pe_tasks := (pe_tasks a)[i := (fst (pe_tasks a ! i), True)]\<rparr>"
  have "map fst (pe_tasks ?p) = map fst (pe_tasks a)"
    using i by (simp add: map_update list_update_same_conv)
  then have "rpc_dir ?p b = rpc_dir a b" "rpc_dir b ?p = rpc_dir b a"
    by (simp_all add: rpc_dir_def waiting_def)
  then have "rpc_inv enc (?p, b)" using assms(1) by (simp add: rpc_inv_def peer_ok_def)
  moreover from assms(2) have "a' = ?p \<or> (\<exists>o'. a' = peer_respond enc (fst (pe_tasks a ! i)) o'
      (a\<lparr>pe_tasks := take i (pe_tasks a) @ drop (Suc i) (pe_tasks a)\<rparr>))"
    by (auto simp: peer_execute_def Let_def split: if_splits option.splits bool.splits)
  ultimately show ?thesis using rpc_inv_respond [OF assms(1) i] by auto
qed

lemma rpc_inv_executed:
  assumes "rpc_inv enc (a, b)" "peer_executed enc i out a = Some a'"
  shows "rpc_inv enc (a', b)"
  using assms rpc_inv_respond by (auto simp: peer_executed_def split: if_splits)

lemma rpc_inv_finish: "rpc_inv enc (a, b) \<Longrightarrow> rpc_inv enc (peer_finish None a, b)"
  by (auto simp: rpc_inv_def peer_ok_def peer_finish_def rpc_dir_def waiting_def)

text \<open>The loop reads the oldest payload of the wire, or finds the wire empty.\<close>

lemma anext_wire:
  assumes "codec enc dec" "peer_ok enc b"
  shows "case pe_sent b of
      [] \<Rightarrow> fst (rpc_anext dec \<lparr>rd_buf = pe_wire b, rd_chunks = []\<rparr>) = Inr None
    | x # xs \<Rightarrow> \<exists>r. rpc_anext dec \<lparr>rd_buf = pe_wire b, rd_chunks = []\<rparr> = (Inr (Some x), r) \<and>
        peer_ok enc (b\<lparr>pe_wire := rd_bytes r, pe_sent := xs\<rparr>)"
proof -
  from assms(2) obtain packets where pk:
    "list_all2 (\<lambda>x packet. rpc_packet enc x = Inr packet) (pe_sent b) packets"
    "pe_wire b = concat packets" by (auto simp: peer_ok_def)
  show ?thesis
  proof (cases "pe_sent b")
    case Nil
    with pk show ?thesis by (simp add: rpc_anext_def at_eof_def)
  next
    case (Cons x xs)
    with pk(1) obtain packet rest where p: "packets = packet # rest" "rpc_packet enc x = Inr packet"
      "list_all2 (\<lambda>x packet. rpc_packet enc x = Inr packet) xs rest"
      by (auto simp: list_all2_Cons1)
    have "rd_bytes \<lparr>rd_buf = pe_wire b, rd_chunks = []\<rparr> = packet @ concat rest"
      by (simp add: rd_bytes_def pk(2) p(1))
    from anext_frame [OF assms(1) p(2) this] obtain r where
      "rpc_anext dec \<lparr>rd_buf = pe_wire b, rd_chunks = []\<rparr> = (Inr (Some x), r)"
      "rd_bytes r = concat rest" by blast
    moreover from this(2) p(3) assms(2) have "peer_ok enc (b\<lparr>pe_wire := rd_bytes r, pe_sent := xs\<rparr>)"
      unfolding peer_ok_def by (auto simp: Cons)
    ultimately show ?thesis by (simp add: Cons)
  qed
qed

lemma rpc_inv_dispatch:
  assumes "rpc_inv enc (a, b)" "pe_sent b = x # xs"
    and ok': "peer_ok enc (b\<lparr>pe_wire := w, pe_sent := xs\<rparr>)"
  shows "rpc_inv enc (peer_dispatch x a, b\<lparr>pe_wire := w, pe_sent := xs\<rparr>)"
proof -
  have ok: "peer_ok enc a" "rpc_dir a b" "rpc_dir b a" "peer_ok enc b"
    using assms by (simp_all add: rpc_inv_def)
  let ?b = "b\<lparr>pe_wire := w, pe_sent := xs\<rparr>"
  have "plain x" using ok(4) assms(2) by (simp add: peer_ok_def)
  then consider (request) q where "x = request_payload q" | (response) r where "x = response_payload r"
    by (auto simp: plain_def)
  then show ?thesis
  proof cases
    case request
    then have d: "peer_dispatch x a = a\<lparr>pe_tasks := pe_tasks a @ [(q, False)]\<rparr>"
      by (simp add: peer_dispatch_def)
    have "mset (waiting ?b (peer_dispatch x a)) = mset (waiting b a)"
      unfolding d by (simp add: waiting_def assms(2) request)
    then have "rpc_dir ?b (peer_dispatch x a)" using ok(3) by (simp add: rpc_dir_def d)
    moreover have "rpc_dir (peer_dispatch x a) ?b"
      using ok(2) unfolding d by (simp add: rpc_dir_def waiting_def assms(2) request)
    moreover have "peer_ok enc (peer_dispatch x a)" using ok(1) by (simp add: peer_ok_def d)
    ultimately show ?thesis using ok' by (simp add: rpc_inv_def)
  next
    case response
    from ok(2) have "flow (rpc_futures (pe_base a)) (pe_issued a) (rpc_objs (pe_base a))
      (mset (waiting a b)) (pe_log b) (r # resps xs) (mset (pe_lost_requests a))
      (mset (pe_lost_responses b))" by (simp add: rpc_dir_def assms(2) response)
    from flow_on_response [OF this] obtain F Fs where F:
      "rpc_on_response r (pe_base a) = (Inr (), (pe_base a)\<lparr>rpc_futures := F, rpc_objs := Fs\<rparr>)"
      "flow F (pe_issued a) Fs (mset (waiting a b)) (pe_log b) (resps xs) (mset (pe_lost_requests a))
        (mset (pe_lost_responses b))" by blast
    then have d: "peer_dispatch x a = a\<lparr>pe_base := (pe_base a)\<lparr>rpc_futures := F, rpc_objs := Fs\<rparr>\<rparr>"
      by (simp add: peer_dispatch_def response)
    have "rpc_dir (peer_dispatch x a) ?b" using F(2) by (simp add: rpc_dir_def d waiting_def)
    moreover have "rpc_dir ?b (peer_dispatch x a)"
      using ok(3) unfolding d by (simp add: rpc_dir_def waiting_def assms(2) response)
    moreover have "peer_ok enc (peer_dispatch x a)" using ok(1) by (simp add: peer_ok_def d)
    ultimately show ?thesis using ok' by (simp add: rpc_inv_def)
  qed
qed

lemma rpc_inv_receive:
  assumes "codec enc dec" "rpc_inv enc (a, b)" "peer_receive dec a b = Some (a', b')"
  shows "rpc_inv enc (a', b')"
proof -
  have "peer_ok enc b" using assms(2) by (simp add: rpc_inv_def)
  note next_payload = anext_wire [OF assms(1) this]
  show ?thesis
  proof (cases "pe_sent b")
    case Nil
    with next_payload assms(3) have "a' = peer_finish None a" "b' = b"
      by (auto simp: peer_receive_def split: if_splits prod.splits sum.splits option.splits)
    with rpc_inv_finish [OF assms(2)] show ?thesis by simp
  next
    case (Cons x xs)
    with next_payload obtain r where
      "rpc_anext dec \<lparr>rd_buf = pe_wire b, rd_chunks = []\<rparr> = (Inr (Some x), r)"
      "peer_ok enc (b\<lparr>pe_wire := rd_bytes r, pe_sent := xs\<rparr>)" by auto
    with assms(3) Cons rpc_inv_dispatch [OF assms(2) Cons this(2)] show ?thesis
      by (auto simp: peer_receive_def split: if_splits)
  qed
qed

lemma rpc_inv_sym: "rpc_inv enc (a, b) \<longleftrightarrow> rpc_inv enc (b, a)"
  by (auto simp: rpc_inv_def)

lemma peer_step_inv:
  "peer_step enc dec ha s t \<Longrightarrow> codec enc dec \<Longrightarrow> rpc_inv enc s \<Longrightarrow> rpc_inv enc t"
  by (induction rule: peer_step.induct)
    (auto intro: rpc_inv_call rpc_inv_cancel rpc_inv_write rpc_inv_execute rpc_inv_executed
      rpc_inv_receive rpc_inv_finish)

lemma rpc_step_inv:
  "rpc_step enc dec ha hb s t \<Longrightarrow> codec enc dec \<Longrightarrow> rpc_inv enc s \<Longrightarrow> rpc_inv enc t"
  by (induction rule: rpc_step.induct) (metis peer_step_inv rpc_inv_sym)+

lemma rpc_init_inv: "rpc_init s \<Longrightarrow> rpc_inv enc s"
  by (auto simp: rpc_init_def rpc_inv_def peer_ok_def peer_connect_def rpc_start_def rpc_dir_def
      waiting_def flow_init)

lemma rpc_reachable_inv:
  assumes "codec enc dec" "rpc_reachable enc dec ha hb s"
  shows "rpc_inv enc s"
proof -
  have "invariant_system rpc_init (rpc_step enc dec ha hb) (rpc_inv enc)"
    using assms(1) by unfold_locales (auto intro: rpc_init_inv rpc_step_inv)
  from invariant_system.reachable_inv [OF this assms(2)] show ?thesis .
qed

lemma distinct_submset: "mset xs \<subseteq># mset ys \<Longrightarrow> distinct ys \<Longrightarrow> distinct xs"
  by (metis distinct_append mset_subset_eq_exists_conv mset_append mset_eq_imp_distinct_iff ex_mset)

text \<open>The states of one call with the small codec, for the witnesses.\<close>

lemma struct_pack_4_1: "struct_pack 4 (Suc 0) = Inr [0, 0, 0, 1]"
proof -
  have four: "(4::nat) = Suc (Suc (Suc (Suc 0)))" by simp
  show ?thesis by (simp add: struct_pack_def be_bytes.simps(2) [of "Suc (Suc (Suc 0))", folded four])
qed

lemma demo_packets:
  "rpc_packet demo_enc (request_payload demo_request) = Inr [0, 0, 0, 1, 1]"
  "rpc_packet demo_enc (response_payload demo_response) = Inr [0, 0, 0, 1, 2]"
  by (simp_all add: rpc_packet_def demo_enc_def rpc_header_size_def struct_pack_4_1
      request_payload_def response_payload_def)

lemma demo_anext:
  "rpc_anext demo_dec \<lparr>rd_buf = [0, 0, 0, 1, 1], rd_chunks = []\<rparr> =
     (Inr (Some (request_payload demo_request)), \<lparr>rd_buf = [], rd_chunks = []\<rparr>)"
  "rpc_anext demo_dec \<lparr>rd_buf = [0, 0, 0, 1, 2], rd_chunks = []\<rparr> =
     (Inr (Some (response_payload demo_response)), \<lparr>rd_buf = [], rd_chunks = []\<rparr>)"
  by (simp_all add: rpc_anext_def at_eof_def receive_def readexactly_def PACKET_HEADER_size_def
      struct_unpack_def be_value_def demo_dec_def)

definition demo_caller :: "rpc_fut \<Rightarrow> peer" where
  "demo_caller f =
     (peer_connect \<lparr>rpc_futures = (if f = FPending then [1 \<mapsto> 0] else Map.empty), rpc_serial = 1,
        rpc_queue = [], rpc_objs = [f]\<rparr>)\<lparr>pe_issued := [demo_request]\<rparr>"

definition demo_callee :: "payload list \<Rightarrow> bytes \<Rightarrow> peer" where
  "demo_callee sent wire =
     (peer_connect (rpc_start []))
       \<lparr>pe_log := [(demo_request, Inr (PInt 7))], pe_sent := sent, pe_wire := wire\<rparr>"

abbreviation demo_handlers :: "string \<rightharpoonup> bool" where
  "demo_handlers \<equiv> [''ping'' \<mapsto> False]"

abbreviation demo_reachable :: "peer \<times> peer \<Rightarrow> bool" where
  "demo_reachable \<equiv> rpc_reachable demo_enc demo_dec Map.empty demo_handlers"

lemmas demo_defs = demo_caller_def demo_callee_def peer_connect_def rpc_start_def

lemma demo_answered:
  "demo_reachable (demo_caller FPending, demo_callee [response_payload demo_response] [0, 0, 0, 1, 2])"
proof -
  let ?a0 = "peer_connect (rpc_start [])"
  let ?a1 = "peer_call ''ping'' [] ?a0"
  let ?a2 = "(demo_caller FPending)\<lparr>pe_wire := [0, 0, 0, 1, 1], pe_sent := [request_payload demo_request]\<rparr>"
  let ?b1 = "?a0\<lparr>pe_tasks := [(demo_request, False)]\<rparr>"
  let ?b2 = "demo_callee [response_payload demo_response] [0, 0, 0, 1, 2]"
  have "demo_reachable (?a0, ?a0)" by (rule reach_init) (simp add: rpc_init_def)
  then have "demo_reachable (?a1, ?a0)" by (rule reach_step) (intro rpc_first step_call)
  moreover have "peer_write_request demo_enc ?a1 = Some ?a2"
    by (simp add: peer_write_request_def peer_call_def rpc_call_def demo_defs rpc_send_def
        demo_packets [unfolded demo_request_def] demo_request_def)
  ultimately have "demo_reachable (?a2, ?a0)" by (blast intro: reach_step rpc_first step_write)
  moreover have "peer_receive demo_dec ?a0 ?a2 = Some (?b1, demo_caller FPending)"
    by (simp add: peer_receive_def demo_anext peer_dispatch_def demo_defs rd_bytes_def)
  ultimately have "demo_reachable (demo_caller FPending, ?b1)"
    by (blast intro: reach_step rpc_second step_receive)
  moreover have "peer_execute demo_handlers demo_enc 0 (Inr (PInt 7)) ?b1 = Some ?b2"
    using demo_packets(2)
    by (simp add: peer_execute_def demo_defs peer_respond_def rpc_response_def rpc_send_def
        demo_request_def demo_response_def Let_def)
  ultimately show ?thesis by (blast intro: reach_step rpc_second step_execute)
qed

lemma demo_delivered:
  "demo_reachable (demo_caller (FResult (PInt 7)), demo_callee [] [])"
proof -
  have "peer_receive demo_dec (demo_caller FPending)
      (demo_callee [response_payload demo_response] [0, 0, 0, 1, 2]) =
      Some (demo_caller (FResult (PInt 7)), demo_callee [] [])"
    by (simp add: peer_receive_def demo_anext peer_dispatch_def demo_defs rd_bytes_def
        rpc_on_response_def demo_response_def fut_done_def)
  with demo_answered show ?thesis by (blast intro: reach_step rpc_first step_receive)
qed

section \<open>Properties\<close>

text \<open>
  The framing is a round trip: whatever the chunks in which the bytes arrive, iterating over a
  connection yields exactly the payloads that were sent, in order, and then stops without an
  exception, also when the connection is cut within a frame.
\<close>

theorem rpc_frames_roundtrip:
  assumes "codec enc dec"
    and "list_all2 (\<lambda>p packet. rpc_packet enc p = Inr packet) ps packets"
    and "rd_bytes r = concat packets @ rest" "cut_frame rest"
  shows "rpc_iterate dec r = (ps, None)"
proof -
  from iterate_frames [OF assms(1,2,3)] obtain r' where
    "rd_bytes r' = rest" "rpc_iterate dec r = apfst ((@) ps) (rpc_iterate dec r')" by blast
  with rpc_iterate_cut [of r' dec] assms(4) show ?thesis by simp
qed

theorem rpc_frames_roundtrip_witness:
  "rpc_iterate demo_dec \<lparr>rd_buf = [0, 0], rd_chunks = [[0, 1, 1, 0, 0], [0, 1, 2], [0, 0]]\<rparr> =
     ([request_payload demo_request, response_payload demo_response], None)"
  by (rule rpc_frames_roundtrip [OF demo_codec,
        where packets = "[[0, 0, 0, 1, 1], [0, 0, 0, 1, 2]]" and rest = "[0, 0]"])
    (simp_all add: demo_packets rd_bytes_def cut_frame_def rpc_header_size_def)



text \<open>
  No call is forgotten: while both connections are open and the writer runs, a pending future
  has a next step (the writer's, a loop's or its execution), unless its request or its response
  could not be sent at all.
\<close>

theorem rpc_progress:
  assumes "codec enc dec" "rpc_reachable enc dec ha hb (a, b)" "(x, y) \<in> {(a, b), (b, a)}"
    and "pe_open x" "pe_open y" "pe_writer x"
    and "i < length (pe_issued x)" "rpc_objs (pe_base x) ! i = FPending"
  shows "pe_issued x ! i \<in> set (pe_lost_requests x) \<or>
    rq_id (pe_issued x ! i) \<in> set (pe_lost_responses y) \<or>
    peer_write_request enc x \<noteq> None \<or> peer_receive dec y x \<noteq> None \<or>
    pe_issued x ! i \<in> fst ` set (pe_tasks y) \<or> peer_receive dec x y \<noteq> None"
proof -
  have ok: "peer_ok enc x" "peer_ok enc y" and dir: "rpc_dir x y"
    using rpc_reachable_inv [OF assms(1,2)] assms(3) by (auto simp: rpc_inv_def)
  note flow = dir [unfolded rpc_dir_def]
  let ?q = "pe_issued x ! i"
  have writes: "?q \<in> set (reqs (rpc_queue (pe_base x))) \<Longrightarrow> peer_write_request enc x \<noteq> None"
    using assms(6) by (cases "rpc_queue (pe_base x)") (auto simp: peer_write_request_def Let_def)
  have receives: "pe_open p \<Longrightarrow> peer_ok enc other \<Longrightarrow> pe_sent other \<noteq> [] \<Longrightarrow> peer_receive dec p other \<noteq> None"
    for p other
    using anext_wire [OF assms(1), of other] by (cases "pe_sent other") (auto simp: peer_receive_def)
  have "mset (pe_issued x) = mset (waiting x y) + image_mset fst (mset (pe_log y)) +
      mset (pe_lost_requests x)" using flow by (simp add: flow_def)
  moreover have "?q \<in># mset (pe_issued x)" using assms(7) by simp
  ultimately have "?q \<in># mset (waiting x y) + image_mset fst (mset (pe_log y)) +
      mset (pe_lost_requests x)" by (simp only:)
  then consider (waiting) "?q \<in> set (waiting x y)" | (lost) "?q \<in> set (pe_lost_requests x)"
    | (executed) "?q \<in># image_mset fst (mset (pe_log y))"
    by fastforce
  then show ?thesis
  proof cases
    case waiting
    then show ?thesis
      using writes receives [OF assms(5) ok(1)] by (cases "pe_sent x"; auto simp: waiting_def)
  next
    case executed
    have "rq_id ?q \<in># image_mset (rq_id \<circ> fst) (mset (pe_log y))"
      using executed by (auto simp flip: multiset.map_comp)
    moreover have "rq_id ?q \<in> dom (rpc_futures (pe_base x))"
      using flow assms(7,8) unfolding flow_def by simp
    moreover have "image_mset (rq_id \<circ> fst) (mset (pe_log y)) =
        image_mset rs_id (mset (resps (pe_sent y))) + mset (pe_lost_responses y) +
        mset_set (rq_id ` set (pe_issued x) - dom (rpc_futures (pe_base x)))"
      using flow by (simp add: flow_def)
    ultimately have "rq_id ?q \<in> rs_id ` set (resps (pe_sent y)) \<or> rq_id ?q \<in> set (pe_lost_responses y)"
      by auto
    then show ?thesis using receives [OF assms(4) ok(2)] by (cases "pe_sent y") auto
  qed simp
qed

theorem rpc_progress_witness:
  "peer_receive demo_dec (demo_caller FPending)
     (demo_callee [response_payload demo_response] [0, 0, 0, 1, 2]) \<noteq> None"
proof -
  let ?b = "demo_callee [response_payload demo_response] [0, 0, 0, 1, 2]"
  have "peer_receive demo_dec ?b (demo_caller FPending) = None"
    by (simp add: peer_receive_def demo_defs rpc_anext_def at_eof_def)
  with rpc_progress [OF demo_codec demo_answered insertI1, of 0] show ?thesis
    by (auto simp: demo_defs peer_write_request_def)
qed

text \<open>
  A response with an id that is not awaited, for instance the second response to one request,
  raises in \<^verbatim>\<open>_on_response\<close> and ends the communication, with all calls that are under way.
\<close>

theorem rpc_unknown_response:
  assumes "rs_id r \<notin> dom (rpc_futures (pe_base p))"
  shows "peer_dispatch (response_payload r) p = peer_finish (Some (NoneType_no_attribute ''done'')) p"
  using assms by (auto simp: peer_dispatch_def rpc_on_response_def dom_def peer_finish_def)

theorem rpc_unknown_response_witness:
  "peer_dispatch (response_payload demo_response) (demo_caller (FResult (PInt 7))) =
     peer_finish (Some (NoneType_no_attribute ''done'')) (demo_caller (FResult (PInt 7)))"
  using rpc_unknown_response [of demo_response "demo_caller (FResult (PInt 7))"]
  by (simp add: demo_defs)

end
