(* ===== verification/RpcServices.thy ===== *)
theory RpcServices
  imports Rpc
begin

text \<open>
  The services of the RPC example, \<^verbatim>\<open>examples/rpc/rpc/server.py\<close> and \<^verbatim>\<open>client.py\<close>: peers whose handlers are
  plain functions of the parameters of a request, the server's handler \<^verbatim>\<open>multiply\<close>, and what the calls
  of one of the two services give.
\<close>

section \<open>Handlers\<close>

type_synonym handlers = "string \<rightharpoonup> ((string \<times> pval) list \<Rightarrow> pval result)"

text \<open>The product of Python: numbers, where \<^verbatim>\<open>bool\<close> is a number, and repeated sequences.\<close>

fun py_number :: "pval \<Rightarrow> int option" where
  "py_number (PInt n) = Some n"
| "py_number (PBool b) = Some (of_bool b)"
| "py_number _ = None"

definition py_repeat :: "int \<Rightarrow> 'a list \<Rightarrow> 'a list" where
  "py_repeat n xs = concat (replicate (nat n) xs)"

definition cannot_multiply :: pyexc where
  "cannot_multiply = TypeError ''can't multiply sequence by non-int''"

fun py_mul :: "pval \<Rightarrow> pval \<Rightarrow> pval result" where
  "py_mul (PStr s) v = (case py_number v of Some n \<Rightarrow> Inr (PStr (py_repeat n s)) | None \<Rightarrow> Inl cannot_multiply)"
| "py_mul (PList s) v = (case py_number v of Some n \<Rightarrow> Inr (PList (py_repeat n s)) | None \<Rightarrow> Inl cannot_multiply)"
| "py_mul u v =
     (case (py_number u, v) of
        (Some m, PStr s) \<Rightarrow> Inr (PStr (py_repeat m s))
      | (Some m, PList s) \<Rightarrow> Inr (PList (py_repeat m s))
      | (Some m, _) \<Rightarrow> (case py_number v of Some n \<Rightarrow> Inr (PInt (m * n)) | None \<Rightarrow> Inl cannot_multiply)
      | (None, _) \<Rightarrow> Inl cannot_multiply)"

text \<open>\<^verbatim>\<open>func(**params)\<close> for \<^verbatim>\<open>lambda x, y: x * y\<close>: exactly the two parameters are accepted.\<close>

definition multiply :: "(string \<times> pval) list \<Rightarrow> pval result" where
  "multiply params =
     (if fst ` set params \<subseteq> {''x'', ''y''}
      then case (map_of params ''x'', map_of params ''y'') of
             (Some u, Some v) \<Rightarrow> py_mul u v
           | _ \<Rightarrow> Inl (TypeError ''missing required positional argument'')
      else Inl (TypeError ''got an unexpected keyword argument''))"

definition server_handlers :: handlers where
  "server_handlers = [''multiply'' \<mapsto> multiply]"

text \<open>What \<^verbatim>\<open>execute\<close> gets for a request from a service with these handlers.\<close>

definition handler_result :: "handlers \<Rightarrow> request \<Rightarrow> pval result" where
  "handler_result hs q =
     (case hs (rq_method q) of None \<Rightarrow> Inl (KeyError (rq_method q)) | Some f \<Rightarrow> f (rq_params q))"

text \<open>The methods of the handlers; none of them is a coroutine function.\<close>

definition plain_methods :: "handlers \<Rightarrow> string \<rightharpoonup> bool" where
  "plain_methods hs m = map_option (\<lambda>_. False) (hs m)"

section \<open>Services over a connection\<close>

text \<open>\<^verbatim>\<open>handle_client\<close> and \<^verbatim>\<open>handle_connection\<close> are \<^verbatim>\<open>communicate\<close>, after \<^verbatim>\<open>RPCBase.start\<close> in \<^verbatim>\<open>start\<close>.\<close>

definition handle_client :: peer where
  "handle_client = peer_connect (rpc_start [])"

definition handle_connection :: peer where
  "handle_connection = peer_connect (rpc_start [])"

inductive service_step ::
  "(payload \<Rightarrow> bytes result) \<Rightarrow> (bytes \<Rightarrow> payload result) \<Rightarrow> handlers \<Rightarrow> peer \<times> peer \<Rightarrow> peer \<times> peer \<Rightarrow> bool"
  for enc dec hs where
  sv_call: "service_step enc dec hs (a, b) (peer_call meth kwargs a, b)"
| sv_cancel: "peer_cancel f a = Some a' \<Longrightarrow> service_step enc dec hs (a, b) (a', b)"
| sv_write: "peer_write_request enc a = Some a' \<Longrightarrow> service_step enc dec hs (a, b) (a', b)"
| sv_execute: "peer_execute (plain_methods hs) enc i (handler_result hs (fst (pe_tasks a ! i))) a = Some a' \<Longrightarrow>
    service_step enc dec hs (a, b) (a', b)"
| sv_receive: "peer_receive dec a b = Some (a', b') \<Longrightarrow> service_step enc dec hs (a, b) (a', b')"
| sv_stop: "pe_open a \<Longrightarrow> service_step enc dec hs (a, b) (peer_finish None a, b)"

inductive services_step ::
  "(payload \<Rightarrow> bytes result) \<Rightarrow> (bytes \<Rightarrow> payload result) \<Rightarrow> handlers \<Rightarrow> handlers \<Rightarrow>
     peer \<times> peer \<Rightarrow> peer \<times> peer \<Rightarrow> bool"
  for enc dec ha hb where
  sv_first: "service_step enc dec ha (a, b) (a', b') \<Longrightarrow> services_step enc dec ha hb (a, b) (a', b')"
| sv_second: "service_step enc dec hb (b, a) (b', a') \<Longrightarrow> services_step enc dec ha hb (a, b) (a', b')"

definition services_init :: "peer \<times> peer \<Rightarrow> bool" where
  "services_init s \<longleftrightarrow> s = (handle_connection, handle_client)"

section \<open>Lemmas\<close>

text \<open>The services are peers whose handlers give one outcome.\<close>

lemma service_is_peer:
  "service_step enc dec hs s t \<Longrightarrow> peer_step enc dec (plain_methods hs) s t"
  by (induction rule: service_step.induct) (auto intro: peer_step.intros)

lemma services_reachable:
  assumes "reachable services_init (services_step enc dec ha hb) s"
  shows "rpc_reachable enc dec (plain_methods ha) (plain_methods hb) s"
  using assms
proof induction
  case (reach_init s)
  then show ?case by (intro reachable.reach_init) (simp add: services_init_def rpc_init_def handle_client_def handle_connection_def)
next
  case (reach_step s t)
  from reach_step.hyps(2) have "rpc_step enc dec (plain_methods ha) (plain_methods hb) s t"
    by cases (auto intro: rpc_first rpc_second dest: service_is_peer)
  with reach_step.IH show ?case by (rule reachable.reach_step)
qed

definition log_ok :: "handlers \<Rightarrow> peer \<Rightarrow> bool" where
  "log_ok hs p \<longleftrightarrow> (\<forall>(q, out) \<in> set (pe_log p). out = handler_result hs q)"

lemma log_fields [simp]:
  "pe_log (peer_call meth kwargs p) = pe_log p" "pe_log (peer_finish e p) = pe_log p"
  "pe_log (peer_dispatch x p) = pe_log p"
  by (auto simp: peer_call_def peer_finish_def peer_dispatch_def Let_def split: option.splits prod.splits sum.splits)

lemma log_respond: "pe_log (peer_respond enc q out p) = pe_log p @ [(q, out)]"
  by (auto simp: peer_respond_def Let_def split: sum.splits)

lemma log_execute:
  assumes "peer_execute (plain_methods hs) enc i (handler_result hs (fst (pe_tasks a ! i))) a = Some a'" "log_ok hs a"
  shows "log_ok hs a'"
  using assms
  by (auto simp: peer_execute_def plain_methods_def handler_result_def log_ok_def log_respond Let_def
      split: if_splits option.splits bool.splits)

lemma service_log:
  assumes "service_step enc dec hs (a, b) (a', b')" "log_ok hs a" "log_ok hs' b"
  shows "log_ok hs a' \<and> log_ok hs' b'"
  using assms
proof (cases rule: service_step.cases)
  case sv_write
  then have "pe_log a' = pe_log a"
    by (auto simp: peer_write_request_def Let_def split: if_splits list.splits sum.splits)
  with sv_write assms(2,3) show ?thesis by (simp add: log_ok_def)
next
  case sv_receive
  then have "pe_log a' = pe_log a" "pe_log b' = pe_log b"
    by (auto simp: peer_receive_def split: if_splits prod.splits sum.splits option.splits)
  with assms(2,3) show ?thesis by (simp add: log_ok_def)
next
  case (sv_cancel f)
  then have "pe_log a' = pe_log a" by (auto simp: peer_cancel_def Let_def split: if_splits)
  with sv_cancel assms(2,3) show ?thesis by (simp add: log_ok_def)
next
  case (sv_execute i)
  with assms(2,3) log_execute show ?thesis by blast
qed (simp_all add: log_ok_def)

interpretation services: invariant_system services_init "services_step enc dec ha hb"
  "\<lambda>(a, b). log_ok ha a \<and> log_ok hb b"
proof unfold_locales
  show "case s of (a, b) \<Rightarrow> log_ok ha a \<and> log_ok hb b" if "services_init s" for s
    using that by (simp add: services_init_def handle_client_def handle_connection_def peer_connect_def log_ok_def)
  show "case t of (a, b) \<Rightarrow> log_ok ha a \<and> log_ok hb b"
    if "case s of (a, b) \<Rightarrow> log_ok ha a \<and> log_ok hb b" "services_step enc dec ha hb s t" for s t
    using that(2,1) by cases (auto dest: service_log)
qed

section \<open>Properties\<close>

text \<open>
  The calls of a service of the RPC example. Whatever both services do, in every interleaving, with
  cancelled calls and after an end of the connection: the future of a call is pending, cancelled, or holds
  exactly what the other service's handler gives for the method and the parameters of the call, its
  exception included (\<^verbatim>\<open>KeyError\<close> for an unknown method). A call of \<^verbatim>\<open>multiply\<close> with two integers
  that was answered has their product.
\<close>

theorem service_calls:
  assumes "codec enc dec" "reachable services_init (services_step enc dec ha hb) (a, b)"
    and "(x, y, hs) \<in> {(a, b, hb), (b, a, ha)}" "i < length (pe_issued x)"
  shows "rpc_objs (pe_base x) ! i \<in>
      {FPending, FCancelled, outcome_fut (handler_result hs (pe_issued x ! i))} \<and>
    (hs = server_handlers \<and> rq_method (pe_issued x ! i) = ''multiply'' \<and>
       rq_params (pe_issued x ! i) = [(''x'', PInt m), (''y'', PInt n)] \<longrightarrow>
     rpc_objs (pe_base x) ! i \<in> {FPending, FCancelled, FResult (PInt (m * n))})"
proof -
  have xy: "(x, y) \<in> {(a, b), (b, a)}" using assms(3) by auto
  have "rpc_dir x y"
    using rpc_reachable_inv [OF assms(1) services_reachable [OF assms(2)]] xy by (auto simp: rpc_inv_def)
  then have "rpc_objs (pe_base x) ! i \<noteq> FPending \<longrightarrow> rpc_objs (pe_base x) ! i = FCancelled \<or>
      (\<exists>out. (pe_issued x ! i, out) \<in> set (pe_log y) \<and> rpc_objs (pe_base x) ! i = outcome_fut out)"
    using assms(4) unfolding rpc_dir_def flow_def by blast
  moreover have "log_ok hs y" using services.reachable_inv [OF assms(2)] assms(3) by auto
  ultimately have answer: "rpc_objs (pe_base x) ! i \<in>
      {FPending, FCancelled, outcome_fut (handler_result hs (pe_issued x ! i))}"
    by (auto simp: log_ok_def)
  then show ?thesis by (auto simp: handler_result_def server_handlers_def multiply_def)
qed

text \<open>The parameters that \<^verbatim>\<open>multiply\<close> takes.\<close>

lemma multiply_raises:
  "(\<exists>v. multiply params = Inr v) \<longleftrightarrow>
     fst ` set params = {''x'', ''y''} \<and>
     (\<exists>u v w. map_of params ''x'' = Some u \<and> map_of params ''y'' = Some v \<and> py_mul u v = Inr w)"
proof -
  have "fst ` set params = dom (map_of params)" by (simp add: dom_map_of_conv_image_fst)
  then show ?thesis by (auto simp: multiply_def split: option.splits)
qed

end
