(* ===== verification/RpcUdp.thy ===== *)
theory RpcUdp
  imports RpcProtocol
begin

text \<open>
  The RPC example over UDP (\<^verbatim>\<open>examples/rpc_udp/rpc/server.py\<close>): any number of \<^verbatim>\<open>RPCServer\<close>s that call
  each other through a network that may lose, repeat and reorder datagrams. Messages, futures and
  the codec are those of RpcProtocol. Addresses are numbers.
\<close>

section \<open>The server\<close>

record udp_rpc =
  ur_serial :: int
  ur_futures :: "int \<rightharpoonup> nat"
  ur_objs :: "rpc_fut list"
  ur_transport :: bool

text \<open>\<^verbatim>\<open>start\<close>; the transport exists after the start of the base class.\<close>

definition udp_rpc_start :: "rpc_fut list \<Rightarrow> udp_rpc" where
  "udp_rpc_start objs = \<lparr>ur_serial = 0, ur_futures = Map.empty, ur_objs = objs, ur_transport = True\<rparr>"

definition udp_rpc_sendto :: "bytes \<Rightarrow> nat \<Rightarrow> udp_rpc \<Rightarrow> (bytes \<times> nat) result" where
  "udp_rpc_sendto data addr s = (if ur_transport s then Inr (data, addr) else Inl (RuntimeError []))"

text \<open>
  \<^verbatim>\<open>__call__\<close>: the new state and the datagram to send, or the exception. The serial has been
  taken and the future created in any case; the future is registered when the encoding succeeded.
\<close>

definition udp_call ::
  "(payload \<Rightarrow> bytes result) \<Rightarrow> nat \<Rightarrow> string \<Rightarrow> (string \<times> pval) list \<Rightarrow> udp_rpc \<Rightarrow>
     (bytes \<times> nat) result \<times> udp_rpc" where
  "udp_call enc dest meth params s =
     (let serial = ur_serial s + 1; future = length (ur_objs s);
          s' = s\<lparr>ur_serial := serial, ur_objs := ur_objs s @ [FPending]\<rparr>
      in case enc (request_payload \<lparr>rq_id = serial, rq_method = meth, rq_params = params\<rparr>) of
           Inl e \<Rightarrow> (Inl e, s')
         | Inr data \<Rightarrow>
             let s'' = s'\<lparr>ur_futures := (ur_futures s)(serial \<mapsto> future)\<rparr>
             in (udp_rpc_sendto data dest s'', s''))"

text \<open>\<^verbatim>\<open>execute\<close> gives what the handler gives, or raises for an unknown method.\<close>

definition udp_execute :: "string set \<Rightarrow> pval result \<Rightarrow> string \<Rightarrow> pval result" where
  "udp_execute handlers out meth = (if meth \<in> handlers then out else Inl (KeyError meth))"

text \<open>\<^verbatim>\<open>_on_request\<close>: the datagram with the response, or the exception that ends the task.\<close>

definition udp_on_request ::
  "(payload \<Rightarrow> bytes result) \<Rightarrow> string set \<Rightarrow> request \<Rightarrow> nat \<Rightarrow> pval result \<Rightarrow> udp_rpc \<Rightarrow>
     (bytes \<times> nat) result" where
  "udp_on_request enc handlers q addr out s =
     bind_result (rpc_response q (udp_execute handlers out (rq_method q))) (\<lambda>p.
       bind_result (enc p) (\<lambda>data. udp_rpc_sendto data addr s))"

text \<open>
  \<^verbatim>\<open>_on_response\<close>: a result that is \<^verbatim>\<open>None\<close> is taken for an error, whose fields are then read.
\<close>

definition udp_on_response :: "response \<Rightarrow> udp_rpc \<Rightarrow> unit result \<times> udp_rpc" where
  "udp_on_response r s =
     (case ur_futures s (rs_id r) of
        None \<Rightarrow> (Inl (KeyError []), s)
      | Some f \<Rightarrow>
          let s' = s\<lparr>ur_futures := (ur_futures s)(rs_id r := None)\<rparr>
          in if fut_done (ur_objs s ! f) then (Inr (), s')
             else if rs_result r \<noteq> PNone
                  then (Inr (), s'\<lparr>ur_objs := (ur_objs s)[f := FResult (rs_result r)]\<rparr>)
                  else (case rs_error r of
                          None \<Rightarrow> (Inl (NoneType_no_attribute ''type''), s')
                        | Some e \<Rightarrow>
                            (Inr (), s'\<lparr>ur_objs := (ur_objs s)[f := FError [PStr (er_type e), er_args e]]\<rparr>)))"

text \<open>
  \<^verbatim>\<open>handle_datagram\<close>: the task to create, if any. An exception ends the task of the datagram and
  nothing else.
\<close>

definition udp_handle_datagram ::
  "(bytes \<Rightarrow> payload result) \<Rightarrow> bytes \<Rightarrow> nat \<Rightarrow> udp_rpc \<Rightarrow>
     (request \<times> nat) option result \<times> udp_rpc" where
  "udp_handle_datagram dec data addr s =
     (case dec data of
        Inl e \<Rightarrow> (Inl e, s)
      | Inr p \<Rightarrow>
          (case pl_request p of
             Some q \<Rightarrow> (Inr (Some (q, addr)), s)
           | None \<Rightarrow>
               (case pl_response p of
                  Some r \<Rightarrow> apfst (\<lambda>x. bind_result x (\<lambda>_. Inr None)) (udp_on_response r s)
                | None \<Rightarrow> (Inr None, s))))"

section \<open>Servers and the network\<close>

text \<open>
  A node is a server with its running \<^verbatim>\<open>_on_request\<close> tasks; the requests it made, with their
  destinations, and what its handlers gave are recorded. The network holds triples of source,
  destination and bytes.
\<close>

record udp_node =
  un_rpc :: udp_rpc
  un_tasks :: "(request \<times> nat) list"
  un_issued :: "(request \<times> nat) list"
  un_log :: "(request \<times> pval result) list"

type_synonym udp_system = "(nat \<Rightarrow> udp_node) \<times> (nat \<times> nat \<times> bytes) list"

definition udp_post :: "nat \<Rightarrow> (bytes \<times> nat) result \<Rightarrow> (nat \<times> nat \<times> bytes) list \<Rightarrow> (nat \<times> nat \<times> bytes) list" where
  "udp_post src sent net = (case sent of Inl _ \<Rightarrow> net | Inr (data, dest) \<Rightarrow> net @ [(src, dest, data)])"

definition udp_node_call ::
  "(payload \<Rightarrow> bytes result) \<Rightarrow> nat \<Rightarrow> nat \<Rightarrow> string \<Rightarrow> (string \<times> pval) list \<Rightarrow> udp_system \<Rightarrow> udp_system" where
  "udp_node_call enc x dest meth params = (\<lambda>(nodes, net).
     let (sent, s') = udp_call enc dest meth params (un_rpc (nodes x))
     in (nodes(x := (nodes x)\<lparr>un_rpc := s',
           un_issued := un_issued (nodes x) @
             [(\<lparr>rq_id = ur_serial s', rq_method = meth, rq_params = params\<rparr>, dest)]\<rparr>),
         udp_post x sent net))"

definition udp_node_cancel :: "nat \<Rightarrow> nat \<Rightarrow> udp_system \<Rightarrow> udp_system" where
  "udp_node_cancel x f = (\<lambda>(nodes, net).
     let s = un_rpc (nodes x)
     in (nodes(x := (nodes x)\<lparr>un_rpc := s\<lparr>ur_objs :=
           (if f < length (ur_objs s) \<and> \<not> fut_done (ur_objs s ! f) then (ur_objs s)[f := FCancelled]
            else ur_objs s)\<rparr>\<rparr>), net))"

text \<open>The end of a task for a request, whatever the handler gave.\<close>

definition udp_node_answer ::
  "(payload \<Rightarrow> bytes result) \<Rightarrow> (nat \<Rightarrow> string set) \<Rightarrow> nat \<Rightarrow> request \<times> nat \<Rightarrow> pval result \<Rightarrow>
     udp_system \<Rightarrow> udp_system" where
  "udp_node_answer enc handlers x task out = (\<lambda>(nodes, net).
     (case task of (q, addr) \<Rightarrow>
        (nodes(x := (nodes x)\<lparr>un_tasks := remove1 task (un_tasks (nodes x)),
           un_log := un_log (nodes x) @ [(q, udp_execute (handlers x) out (rq_method q))]\<rparr>),
         udp_post x (udp_on_request enc (handlers x) q addr out (un_rpc (nodes x))) net)))"

definition udp_node_deliver ::
  "(bytes \<Rightarrow> payload result) \<Rightarrow> nat \<times> nat \<times> bytes \<Rightarrow> udp_system \<Rightarrow> udp_system" where
  "udp_node_deliver dec datagram = (\<lambda>(nodes, net).
     (case datagram of (src, dest, data) \<Rightarrow>
        (case udp_handle_datagram dec data src (un_rpc (nodes dest)) of
           (res, s') \<Rightarrow>
             (nodes(dest := (nodes dest)\<lparr>un_rpc := s',
                un_tasks := un_tasks (nodes dest) @
                  (case res of Inr (Some task) \<Rightarrow> [task] | _ \<Rightarrow> [])\<rparr>), net))))"

text \<open>A datagram is delivered any number of times before it is lost.\<close>

inductive udp_step ::
  "(payload \<Rightarrow> bytes result) \<Rightarrow> (bytes \<Rightarrow> payload result) \<Rightarrow> (nat \<Rightarrow> string set) \<Rightarrow>
     udp_system \<Rightarrow> udp_system \<Rightarrow> bool"
  for enc dec handlers where
  udp_calls: "udp_step enc dec handlers s (udp_node_call enc x dest meth params s)"
| udp_cancels: "udp_step enc dec handlers s (udp_node_cancel x f s)"
| udp_answers: "task \<in> set (un_tasks (nodes x)) \<Longrightarrow>
    udp_step enc dec handlers (nodes, net) (udp_node_answer enc handlers x task out (nodes, net))"
| udp_delivers: "datagram \<in> set net \<Longrightarrow>
    udp_step enc dec handlers (nodes, net) (udp_node_deliver dec datagram (nodes, net))"
| udp_loses: "udp_step enc dec handlers (nodes, net) (nodes, remove1 datagram net)"

definition udp_init :: "udp_system \<Rightarrow> bool" where
  "udp_init s \<longleftrightarrow>
     s = (\<lambda>_. \<lparr>un_rpc = udp_rpc_start [], un_tasks = [], un_issued = [], un_log = []\<rparr>, [])"

section \<open>Every answer belongs to its call\<close>

fun udp_outcome_fut :: "pval result \<Rightarrow> rpc_fut" where
  "udp_outcome_fut (Inr v) = FResult v"
| "udp_outcome_fut (Inl e) = FError [PStr (str_type e), PList (map PStr (exc_args e))]"

text \<open>What may be in the network from \<^verbatim>\<open>src\<close> to \<^verbatim>\<open>dest\<close>.\<close>

definition honest :: "(nat \<Rightarrow> udp_node) \<Rightarrow> nat \<Rightarrow> nat \<Rightarrow> payload \<Rightarrow> bool" where
  "honest nodes src dest p \<longleftrightarrow>
     (\<exists>q. p = request_payload q \<and> (q, dest) \<in> set (un_issued (nodes src))) \<or>
     (\<exists>q out. (q, src) \<in> set (un_issued (nodes dest)) \<and> (q, out) \<in> set (un_log (nodes src)) \<and>
        rpc_response q out = Inr p)"

text \<open>A node's own bookkeeping: serials count the calls and every registered future is its call's.\<close>

definition udp_node_ok :: "udp_node \<Rightarrow> bool" where
  "udp_node_ok n \<longleftrightarrow>
     ur_serial (un_rpc n) = int (length (un_issued n)) \<and>
     length (ur_objs (un_rpc n)) = length (un_issued n) \<and>
     (\<forall>i < length (un_issued n). rq_id (fst (un_issued n ! i)) = int i + 1) \<and>
     (\<forall>k f. ur_futures (un_rpc n) k = Some f \<longrightarrow> int f + 1 = k \<and> f < length (un_issued n))"

text \<open>The future of the \<^verbatim>\<open>i\<close>th call of \<^verbatim>\<open>x\<close>: pending, cancelled, or an outcome at its destination.\<close>

definition udp_answered :: "(nat \<Rightarrow> udp_node) \<Rightarrow> nat \<Rightarrow> nat \<Rightarrow> bool" where
  "udp_answered nodes x i \<longleftrightarrow>
     (case un_issued (nodes x) ! i of (q, dest) \<Rightarrow>
        ur_objs (un_rpc (nodes x)) ! i \<in> {FPending, FCancelled} \<or>
        (\<exists>out. (q, out) \<in> set (un_log (nodes dest)) \<and> out \<noteq> Inr PNone \<and>
           ur_objs (un_rpc (nodes x)) ! i = udp_outcome_fut out))"

definition udp_inv :: "(payload \<Rightarrow> bytes result) \<Rightarrow> udp_system \<Rightarrow> bool" where
  "udp_inv enc = (\<lambda>(nodes, net).
     (\<forall>x. udp_node_ok (nodes x)) \<and>
     (\<forall>(src, dest, data) \<in> set net. \<exists>p. enc p = Inr data \<and> honest nodes src dest p) \<and>
     (\<forall>x. \<forall>(q, addr) \<in> set (un_tasks (nodes x)). (q, x) \<in> set (un_issued (nodes addr))) \<and>
     (\<forall>x. \<forall>i < length (un_issued (nodes x)). udp_answered nodes x i))"

text \<open>Requests made and outcomes recorded only grow; what was honest stays so.\<close>

definition grows :: "(nat \<Rightarrow> udp_node) \<Rightarrow> (nat \<Rightarrow> udp_node) \<Rightarrow> bool" where
  "grows nodes nodes' \<longleftrightarrow>
     (\<forall>x. (\<exists>ys. un_issued (nodes' x) = un_issued (nodes x) @ ys) \<and>
        set (un_log (nodes x)) \<subseteq> set (un_log (nodes' x)))"

lemma grows_issued: "grows nodes nodes' \<Longrightarrow> set (un_issued (nodes x)) \<subseteq> set (un_issued (nodes' x))"
proof -
  assume "grows nodes nodes'"
  then obtain ys where "un_issued (nodes' x) = un_issued (nodes x) @ ys"
    unfolding grows_def by blast
  then show ?thesis by simp
qed

lemma grows_log: "grows nodes nodes' \<Longrightarrow> set (un_log (nodes x)) \<subseteq> set (un_log (nodes' x))"
  by (simp add: grows_def)

lemma honest_grows: "honest nodes src dest p \<Longrightarrow> grows nodes nodes' \<Longrightarrow> honest nodes' src dest p"
  unfolding honest_def using grows_issued [of nodes nodes'] grows_log [of nodes nodes'] by blast

lemma answered_grows:
  assumes "udp_answered nodes x i" "grows nodes nodes'" "i < length (un_issued (nodes x))"
    and "ur_objs (un_rpc (nodes' x)) ! i = ur_objs (un_rpc (nodes x)) ! i"
  shows "udp_answered nodes' x i"
proof -
  have "un_issued (nodes' x) ! i = un_issued (nodes x) ! i"
    using assms(2,3) unfolding grows_def by (metis nth_append)
  then show ?thesis
    using assms(1,4) grows_log [OF assms(2)] unfolding udp_answered_def
    by (auto split: prod.splits)
qed

lemma net_grows:
  assumes "\<forall>(src, dest, data) \<in> set net. \<exists>p. enc p = Inr data \<and> honest nodes src dest p"
    and "grows nodes nodes'"
    and "\<And>data dest. sent = Inr (data, dest) \<Longrightarrow> \<exists>p. enc p = Inr data \<and> honest nodes' x dest p"
  shows "\<forall>(src, dest, data) \<in> set (udp_post x sent net).
    \<exists>p. enc p = Inr data \<and> honest nodes' src dest p"
proof (cases sent)
  case (Inl e)
  with assms(1) honest_grows [OF _ assms(2)] show ?thesis by (fastforce simp: udp_post_def)
next
  case (Inr m)
  obtain d to where m: "m = (d, to)" by fastforce
  have "\<forall>(src, dest, data) \<in> set net. \<exists>p. enc p = Inr data \<and> honest nodes' src dest p"
    using assms(1) honest_grows [OF _ assms(2)] by fastforce
  moreover have "\<exists>p. enc p = Inr d \<and> honest nodes' x to p" by (rule assms(3)) (simp add: Inr m)
  ultimately show ?thesis by (auto simp: udp_post_def Inr m)
qed

lemma tasks_grow:
  assumes "\<forall>x. \<forall>(q, addr) \<in> set (un_tasks (nodes x)). (q, x) \<in> set (un_issued (nodes addr))"
    and "grows nodes nodes'" "\<And>y. set (un_tasks (nodes' y)) \<subseteq> set (un_tasks (nodes y))"
  shows "\<forall>x. \<forall>(q, addr) \<in> set (un_tasks (nodes' x)). (q, x) \<in> set (un_issued (nodes' addr))"
  using assms grows_issued [OF assms(2)] by fast

lemma udp_inv_call:
  assumes "udp_inv enc (nodes, net)"
  shows "udp_inv enc (udp_node_call enc x dest meth params (nodes, net))"
proof -
  let ?n = "nodes x"
  let ?q = "\<lparr>rq_id = ur_serial (un_rpc ?n) + 1, rq_method = meth, rq_params = params\<rparr>"
  obtain sent s' where c: "udp_call enc dest meth params (un_rpc ?n) = (sent, s')" by fastforce
  let ?n' = "?n\<lparr>un_rpc := s', un_issued := un_issued ?n @ [(?q, dest)]\<rparr>"
  let ?nodes = "nodes(x := ?n')"
  have s': "ur_serial s' = ur_serial (un_rpc ?n) + 1" "ur_objs s' = ur_objs (un_rpc ?n) @ [FPending]"
    "ur_futures s' = ur_futures (un_rpc ?n) \<or>
     ur_futures s' = (ur_futures (un_rpc ?n))(rq_id ?q \<mapsto> length (ur_objs (un_rpc ?n)))"
    and sent: "sent = Inr (d, to) \<Longrightarrow> to = dest \<and> enc (request_payload ?q) = Inr d" for d to
    using c by (auto simp: udp_call_def udp_rpc_sendto_def Let_def split: sum.splits if_splits)
  have ok: "udp_node_ok ?n" using assms by (simp add: udp_inv_def)
  then have "udp_node_ok ?n'"
    using s' unfolding udp_node_ok_def by (auto simp: nth_append less_Suc_eq split: if_splits)
  have grows: "grows nodes ?nodes" by (simp add: grows_def)
  have call: "udp_node_call enc x dest meth params (nodes, net) = (?nodes, udp_post x sent net)"
    by (simp add: udp_node_call_def c s'(1))
  have "udp_answered ?nodes y i" if i: "i < length (un_issued (?nodes y))" for y i
  proof (cases "y = x \<and> i = length (un_issued ?n)")
    case True
    then show ?thesis using ok s'(2) by (simp add: udp_answered_def udp_node_ok_def nth_append)
  next
    case False
    then have "i < length (un_issued (nodes y))" using i by (auto split: if_splits)
    moreover from this have "udp_answered nodes y i" using assms by (simp add: udp_inv_def)
    moreover have "length (ur_objs (un_rpc ?n)) = length (un_issued ?n)"
      using ok by (simp add: udp_node_ok_def)
    ultimately show ?thesis
      by (intro answered_grows [OF _ grows]) (auto simp: s'(2) nth_append)
  qed
  moreover have "\<exists>p. enc p = Inr d \<and> honest ?nodes x to p" if "sent = Inr (d, to)" for d to
    using sent [OF that] by (auto simp: honest_def)
  then have "\<forall>(src, dest, data) \<in> set (udp_post x sent net).
      \<exists>p. enc p = Inr data \<and> honest ?nodes src dest p"
    by (intro net_grows [OF _ grows]) (use assms in \<open>auto simp: udp_inv_def\<close>)
  moreover have "\<forall>y. \<forall>(q, addr) \<in> set (un_tasks (?nodes y)). (q, y) \<in> set (un_issued (?nodes addr))"
    by (rule tasks_grow [OF _ grows]) (use assms in \<open>auto simp: udp_inv_def\<close>)
  ultimately show ?thesis
    using assms \<open>udp_node_ok ?n'\<close> unfolding call udp_inv_def by (simp add: fun_upd_def)
qed

lemma udp_inv_cancel:
  assumes "udp_inv enc (nodes, net)"
  shows "udp_inv enc (udp_node_cancel x f (nodes, net))"
proof -
  let ?s = "un_rpc (nodes x)"
  let ?objs = "if f < length (ur_objs ?s) \<and> \<not> fut_done (ur_objs ?s ! f)
    then (ur_objs ?s)[f := FCancelled] else ur_objs ?s"
  let ?nodes = "nodes(x := (nodes x)\<lparr>un_rpc := ?s\<lparr>ur_objs := ?objs\<rparr>\<rparr>)"
  have cancel: "udp_node_cancel x f (nodes, net) = (?nodes, net)"
    unfolding udp_node_cancel_def Let_def by simp
  have grows: "grows nodes ?nodes" by (simp add: grows_def)
  have ok: "udp_node_ok (nodes y)" for y using assms by (simp add: udp_inv_def)
  have "udp_answered ?nodes y i" if i: "i < length (un_issued (?nodes y))" for y i
  proof -
    have len: "i < length (un_issued (nodes y))" using i by (auto split: if_splits)
    then have "udp_answered nodes y i" using assms by (simp add: udp_inv_def)
    then show ?thesis
    proof (cases "y = x \<and> i = f \<and> \<not> fut_done (ur_objs ?s ! f)")
      case True
      then have "f < length (ur_objs ?s)" using len ok [of x] by (simp add: udp_node_ok_def)
      with True show ?thesis by (auto simp: udp_answered_def split: prod.splits)
    qed (intro answered_grows [OF _ grows], auto simp: len)
  qed
  moreover have "\<forall>(src, dest, data) \<in> set net. \<exists>p. enc p = Inr data \<and> honest ?nodes src dest p"
    using assms honest_grows [OF _ grows] by (fastforce simp: udp_inv_def)
  moreover have "\<forall>y. \<forall>(q, addr) \<in> set (un_tasks (?nodes y)). (q, y) \<in> set (un_issued (?nodes addr))"
    by (rule tasks_grow [OF _ grows]) (use assms in \<open>auto simp: udp_inv_def\<close>)
  moreover have "udp_node_ok (?nodes y)" for y using ok [of y] by (auto simp: udp_node_ok_def)
  ultimately show ?thesis unfolding cancel udp_inv_def by blast
qed

lemma udp_inv_answer:
  assumes "udp_inv enc (nodes, net)" "task \<in> set (un_tasks (nodes x))"
  shows "udp_inv enc (udp_node_answer enc handlers x task out (nodes, net))"
proof -
  obtain q addr where task: "task = (q, addr)" by fastforce
  let ?out = "udp_execute (handlers x) out (rq_method q)"
  let ?sent = "udp_on_request enc (handlers x) q addr out (un_rpc (nodes x))"
  let ?nodes = "nodes(x := (nodes x)\<lparr>un_tasks := remove1 task (un_tasks (nodes x)),
    un_log := un_log (nodes x) @ [(q, ?out)]\<rparr>)"
  have step: "udp_node_answer enc handlers x task out (nodes, net) = (?nodes, udp_post x ?sent net)"
    by (simp add: udp_node_answer_def task)
  have grows: "grows nodes ?nodes" by (auto simp: grows_def)
  have ok: "udp_node_ok (nodes y)" for y using assms by (simp add: udp_inv_def)
  have issued: "(q, x) \<in> set (un_issued (nodes addr))"
    using assms by (fastforce simp: udp_inv_def task)
  have "\<exists>p. enc p = Inr d \<and> honest ?nodes x to p" if "?sent = Inr (d, to)" for d to
  proof -
    from that obtain p where p: "rpc_response q ?out = Inr p" "enc p = Inr d" "to = addr"
      by (auto simp: udp_on_request_def bind_result_Inr_iff udp_rpc_sendto_def split: if_splits)
    have "honest ?nodes x to p"
      unfolding honest_def using p(1,3) issued grows_issued [OF grows, of addr]
      by (intro disjI2 exI [of _ q] exI [of _ ?out]) auto
    with p(2) show ?thesis by blast
  qed
  then have "\<forall>(src, dest, data) \<in> set (udp_post x ?sent net).
      \<exists>p. enc p = Inr data \<and> honest ?nodes src dest p"
    by (intro net_grows [OF _ grows]) (use assms in \<open>auto simp: udp_inv_def\<close>)
  moreover have "\<forall>y. \<forall>(q, addr) \<in> set (un_tasks (?nodes y)). (q, y) \<in> set (un_issued (?nodes addr))"
    by (rule tasks_grow [OF _ grows])
      (use assms set_remove1_subset [of task "un_tasks (nodes x)"] in \<open>auto simp: udp_inv_def\<close>)
  moreover have "udp_node_ok (?nodes y)" for y using ok [of y] by (auto simp: udp_node_ok_def)
  moreover have "udp_answered ?nodes y i" if "i < length (un_issued (?nodes y))" for y i
  proof -
    have len: "i < length (un_issued (nodes y))" using that by (auto split: if_splits)
    then have "udp_answered nodes y i" using assms by (simp add: udp_inv_def)
    with len show ?thesis by (intro answered_grows [OF _ grows]) auto
  qed
  ultimately show ?thesis unfolding step udp_inv_def by blast
qed

text \<open>What an honest response does to the node that gets it.\<close>

lemma udp_on_response_ok:
  assumes "udp_node_ok n" "(q, src) \<in> set (un_issued n)"
    and "rpc_response q out = Inr (response_payload r)" "udp_on_response r (un_rpc n) = (res, s')"
  shows "udp_node_ok (n\<lparr>un_rpc := s'\<rparr>) \<and>
    (ur_objs s' = ur_objs (un_rpc n) \<or>
     (\<exists>f < length (un_issued n). un_issued n ! f = (q, src) \<and> out \<noteq> Inr PNone \<and>
        ur_objs s' = (ur_objs (un_rpc n))[f := udp_outcome_fut out]))"
proof -
  let ?s = "un_rpc n"
  note ok = assms(1) [unfolded udp_node_ok_def]
  from assms(2) obtain i where i: "i < length (un_issued n)" "un_issued n ! i = (q, src)"
    by (auto simp: in_set_conv_nth)
  then have "rq_id q = int i + 1" using ok by (metis fst_conv)
  then have rs: "rs_id r = int i + 1"
    using assms(3) by (auto simp: rpc_response_def response_payload_def split: sum.splits if_splits)
  have out: "rs_result r \<noteq> PNone \<Longrightarrow> FResult (rs_result r) = udp_outcome_fut out \<and> out \<noteq> Inr PNone"
    "rs_error r = Some e \<Longrightarrow> FError [PStr (er_type e), er_args e] = udp_outcome_fut out \<and> out \<noteq> Inr PNone"
    for e
    using assms(3)
    by (cases out; auto simp: rpc_response_def response_payload_def split: if_splits)+
  show ?thesis
  proof (cases "ur_futures ?s (rs_id r)")
    case None
    with assms(1,4) show ?thesis by (auto simp: udp_on_response_def)
  next
    case (Some f)
    then have "f = i" using ok rs by force
    have s': "ur_serial s' = ur_serial ?s" "ur_futures s' = (ur_futures ?s)(rs_id r := None)"
      "ur_objs s' = ur_objs ?s \<or> out \<noteq> Inr PNone \<and> ur_objs s' = (ur_objs ?s)[f := udp_outcome_fut out]"
      using assms(4) Some out
      by (auto simp: udp_on_response_def Let_def split: if_splits option.splits)
    then have "udp_node_ok (n\<lparr>un_rpc := s'\<rparr>)" using ok by (auto simp: udp_node_ok_def)
    with s'(3) i \<open>f = i\<close> show ?thesis by blast
  qed
qed

text \<open>A response that is delivered settles at most one future, with the outcome its server logged.\<close>

lemma udp_response_delivered:
  assumes inv: "udp_inv enc (nodes, net)" and p: "honest nodes src dest p" "dec data = Inr p" "pl_request p = None"
    and h: "udp_handle_datagram dec data src (un_rpc (nodes dest)) = (res, s')"
    and grows: "grows nodes nodes'"
    and here: "un_rpc (nodes' dest) = s'" "un_issued (nodes' dest) = un_issued (nodes dest)"
  shows "(case res of Inr (Some task) \<Rightarrow> [task] | _ \<Rightarrow> []) = [] \<and>
    udp_node_ok ((nodes dest)\<lparr>un_rpc := s'\<rparr>) \<and>
    (\<forall>i < length (un_issued (nodes dest)). udp_answered nodes' dest i)"
proof -
  have ok: "udp_node_ok (nodes dest)" using inv by (simp add: udp_inv_def)
  have answered: "udp_answered nodes dest i" if "i < length (un_issued (nodes dest))" for i
    using inv that by (simp add: udp_inv_def)
  from p(1,3) obtain q out where q: "(q, src) \<in> set (un_issued (nodes dest))"
    "(q, out) \<in> set (un_log (nodes src))" "rpc_response q out = Inr p"
    by (auto simp: honest_def)
  from rpc_response_plain [OF q(3)] obtain r where r: "p = response_payload r" ..
  obtain res' where "udp_on_response r (un_rpc (nodes dest)) = (res', s')"
    and new: "(case res of Inr (Some task) \<Rightarrow> [task] | _ \<Rightarrow> []) = []"
    using h p(2,3) r
    by (cases "udp_on_response r (un_rpc (nodes dest))"; cases "fst (udp_on_response r (un_rpc (nodes dest)))")
      (auto simp: udp_handle_datagram_def)
  from udp_on_response_ok [OF ok q(1) q(3) [unfolded r] this(1)]
  have s': "udp_node_ok ((nodes dest)\<lparr>un_rpc := s'\<rparr>)"
    "ur_objs s' = ur_objs (un_rpc (nodes dest)) \<or>
     (\<exists>f < length (un_issued (nodes dest)). un_issued (nodes dest) ! f = (q, src) \<and> out \<noteq> Inr PNone \<and>
        ur_objs s' = (ur_objs (un_rpc (nodes dest)))[f := udp_outcome_fut out])" by blast+
  have "udp_answered nodes' dest i" if i: "i < length (un_issued (nodes dest))" for i
  proof (cases "ur_objs s' ! i = ur_objs (un_rpc (nodes dest)) ! i")
    case True
    with i answered_grows [OF answered grows] here show ?thesis by simp
  next
    case False
    then have "un_issued (nodes dest) ! i = (q, src)" "out \<noteq> Inr PNone"
      "ur_objs s' ! i = udp_outcome_fut out"
      using s'(2) i ok by (auto simp: udp_node_ok_def nth_list_update split: if_splits)
    with q(2) grows_log [OF grows, of src] here show ?thesis by (auto simp: udp_answered_def)
  qed
  with s'(1) new show ?thesis by simp
qed

lemma udp_inv_deliver:
  assumes "udp_inv enc (nodes, net)" "codec enc dec" "datagram \<in> set net"
  shows "udp_inv enc (udp_node_deliver dec datagram (nodes, net))"
proof -
  obtain src dest data where d: "datagram = (src, dest, data)" by (cases datagram) auto
  obtain res s' where h: "udp_handle_datagram dec data src (un_rpc (nodes dest)) = (res, s')"
    by fastforce
  let ?new = "case res of Inr (Some task) \<Rightarrow> [task] | _ \<Rightarrow> []"
  let ?nodes = "nodes(dest := (nodes dest)\<lparr>un_rpc := s', un_tasks := un_tasks (nodes dest) @ ?new\<rparr>)"
  have step: "udp_node_deliver dec datagram (nodes, net) = (?nodes, net)"
    by (simp add: udp_node_deliver_def d h)
  have ok: "udp_node_ok (nodes y)" for y using assms(1) by (simp add: udp_inv_def)
  from assms(1,3) obtain p where p: "enc p = Inr data" "honest nodes src dest p"
    by (fastforce simp: udp_inv_def d)
  then have dec: "dec data = Inr p" using codecD [OF assms(2)] by blast
  have grows: "grows nodes ?nodes" by (simp add: grows_def)
  have answered: "udp_answered nodes y i" if "i < length (un_issued (nodes y))" for y i
    using assms(1) that by (simp add: udp_inv_def)
  have "(\<forall>(q, addr) \<in> set ?new. (q, dest) \<in> set (un_issued (nodes addr))) \<and>
    udp_node_ok ((nodes dest)\<lparr>un_rpc := s'\<rparr>) \<and>
    (\<forall>i < length (un_issued (nodes dest)). udp_answered ?nodes dest i)"
  proof (cases "pl_request p")
    case (Some q)
    then have "s' = un_rpc (nodes dest)" "res = Inr (Some (q, src))"
      using h dec by (simp_all add: udp_handle_datagram_def)
    moreover have "(q, dest) \<in> set (un_issued (nodes src))"
      using p(2) Some rpc_response_plain by (fastforce simp: honest_def)
    ultimately show ?thesis
      using ok [of dest] answered_grows [OF answered grows] by simp
  next
    case None
    have "?new = [] \<and> udp_node_ok ((nodes dest)\<lparr>un_rpc := s'\<rparr>) \<and>
        (\<forall>i < length (un_issued (nodes dest)). udp_answered ?nodes dest i)"
      by (rule udp_response_delivered [OF assms(1) p(2) dec None h grows]) simp_all
    then show ?thesis by (elim conjE, intro conjI) (simp, assumption+)
  qed
  note new = this
  have "udp_node_ok (?nodes y)" for y using ok [of y] new by (auto simp: udp_node_ok_def)
  moreover have "\<forall>(src, dest, data) \<in> set net. \<exists>p. enc p = Inr data \<and> honest ?nodes src dest p"
    using assms(1) honest_grows [OF _ grows] by (fastforce simp: udp_inv_def)
  moreover have "(q, y) \<in> set (un_issued (?nodes addr))" if "(q, addr) \<in> set (un_tasks (?nodes y))" for y q addr
    using that assms(1) new by (auto simp: udp_inv_def split: if_splits)
  moreover have "udp_answered ?nodes y i" if "i < length (un_issued (?nodes y))" for y i
    using new that answered_grows [OF answered grows] by (cases "y = dest") auto
  ultimately show ?thesis unfolding step udp_inv_def by fast
qed

lemma udp_step_inv:
  "udp_step enc dec handlers s t \<Longrightarrow> codec enc dec \<Longrightarrow> udp_inv enc s \<Longrightarrow> udp_inv enc t"
proof (induction rule: udp_step.induct)
  case (udp_loses nodes net datagram)
  then show ?case using set_remove1_subset [of datagram net] by (fastforce simp: udp_inv_def)
qed (auto intro: udp_inv_call udp_inv_cancel udp_inv_answer udp_inv_deliver)

lemma udp_reachable_inv:
  assumes "codec enc dec" "reachable udp_init (udp_step enc dec handlers) s"
  shows "udp_inv enc s"
proof -
  have "invariant_system udp_init (udp_step enc dec handlers) (udp_inv enc)"
    using assms(1) udp_step_inv
    by unfold_locales (auto simp: udp_init_def udp_inv_def udp_node_ok_def udp_rpc_start_def)
  from invariant_system.reachable_inv [OF this assms(2)] show ?thesis .
qed

section \<open>Properties\<close>

text \<open>
  C8. Calls over a network that loses, repeats and reorders datagrams: whatever happens, the future
  of a call is pending, cancelled, or holds what the called server's handler gave for this very
  request; a result \<^verbatim>\<open>None\<close> is never delivered.
\<close>

theorem udp_rpc_results:
  assumes "codec enc dec" "reachable udp_init (udp_step enc dec handlers) (nodes, net)"
    and "i < length (un_issued (nodes x))" "un_issued (nodes x) ! i = (q, dest)"
  shows "rq_id q = int i + 1 \<and>
    (ur_objs (un_rpc (nodes x)) ! i \<in> {FPending, FCancelled} \<or>
     (\<exists>out. (q, out) \<in> set (un_log (nodes dest)) \<and> out \<noteq> Inr PNone \<and>
        ur_objs (un_rpc (nodes x)) ! i = udp_outcome_fut out))"
proof -
  have inv: "udp_inv enc (nodes, net)" by (rule udp_reachable_inv [OF assms(1,2)])
  then have "udp_answered nodes x i" "udp_node_ok (nodes x)" using assms(3) by (simp_all add: udp_inv_def)
  moreover from this(2) have "rq_id (fst (un_issued (nodes x) ! i)) = int i + 1"
    using assms(3) by (simp add: udp_node_ok_def)
  ultimately show ?thesis by (simp add: udp_answered_def assms(4))
qed

text \<open>A handler that returns \<^verbatim>\<open>None\<close>: its response raises, and the future is forgotten unresolved.\<close>

theorem udp_none_result:
  assumes "ur_futures s k = Some f" "ur_objs s ! f = FPending"
  shows "udp_on_response \<lparr>rs_id = k, rs_result = PNone, rs_error = None\<rparr> s =
    (Inl (NoneType_no_attribute ''type''), s\<lparr>ur_futures := (ur_futures s)(k := None)\<rparr>)"
  using assms by (simp add: udp_on_response_def fut_done_def Let_def)

theorem udp_none_result_witness:
  "udp_on_response \<lparr>rs_id = 1, rs_result = PNone, rs_error = None\<rparr>
     \<lparr>ur_serial = 1, ur_futures = [1 \<mapsto> 0], ur_objs = [FPending], ur_transport = True\<rparr> =
   (Inl (NoneType_no_attribute ''type''),
    \<lparr>ur_serial = 1, ur_futures = Map.empty, ur_objs = [FPending], ur_transport = True\<rparr>)"
  using udp_none_result
    [of "\<lparr>ur_serial = 1, ur_futures = [1 \<mapsto> 0], ur_objs = [FPending], ur_transport = True\<rparr>" 1 0]
  by simp

theorem udp_rpc_results_witness:
  "\<exists>nodes net. reachable udp_init (udp_step demo_enc demo_dec (\<lambda>_. {''ping''})) (nodes, net) \<and>
     ur_objs (un_rpc (nodes 0)) = [FResult (PInt 7)] \<and>
     (demo_request, Inr (PInt 7)) \<in> set (un_log (nodes 1))"
proof -
  let ?R = "reachable udp_init (udp_step demo_enc demo_dec (\<lambda>_. {''ping''}))"
  let ?n0 = "\<lambda>_::nat. \<lparr>un_rpc = udp_rpc_start [], un_tasks = [], un_issued = [], un_log = []\<rparr>"
  let ?A = "\<lambda>F fut. \<lparr>un_rpc = \<lparr>ur_serial = 1, ur_futures = F, ur_objs = [fut], ur_transport = True\<rparr>,
    un_tasks = [], un_issued = [(demo_request, 1)], un_log = []\<rparr>"
  let ?B = "\<lambda>tasks l. \<lparr>un_rpc = udp_rpc_start [], un_tasks = tasks, un_issued = [], un_log = l\<rparr>"
  let ?log = "[(demo_request, Inr (PInt 7))]"
  let ?nodes = "?n0(0 := ?A Map.empty (FResult (PInt 7)), 1 := ?B [] ?log)"
  let ?net = "[(0, 1, [1]), (1, 0, [2])] :: (nat \<times> nat \<times> bytes) list"
  note ev = udp_node_call_def udp_call_def udp_rpc_start_def udp_rpc_sendto_def udp_post_def
    udp_node_deliver_def udp_handle_datagram_def udp_node_answer_def udp_on_request_def
    udp_execute_def rpc_response_def demo_enc_def demo_dec_def demo_request_def demo_response_def
    udp_on_response_def fut_done_def request_payload_def response_payload_def
  have "?R (?n0, [])" by (rule reach_init) (simp add: udp_init_def)
  from reach_step [OF this, OF udp_calls [of _ _ _ _ 0 1 "''ping''" "[]"]]
  have "?R (?n0(0 := ?A [1 \<mapsto> 0] FPending), [(0, 1, [1])])" by (simp add: ev)
  from reach_step [OF this, OF udp_delivers [of "(0, 1, [1])"]]
  have "?R (?n0(0 := ?A [1 \<mapsto> 0] FPending, 1 := ?B [(demo_request, 0)] []), [(0, 1, [1])])"
    by (simp add: ev)
  from reach_step [OF this, OF udp_answers [of "(demo_request, 0)" _ 1 _ _ _ _ "Inr (PInt 7)"]]
  have "?R (?n0(0 := ?A [1 \<mapsto> 0] FPending, 1 := ?B [] ?log), ?net)" by (simp add: ev)
  from reach_step [OF this, OF udp_delivers [of "(1, 0, [2])"]]
  have r: "?R (?nodes, ?net)" by (simp add: ev fun_upd_twist)
  from udp_rpc_results [OF demo_codec r, of 0 0 demo_request 1]
  obtain out where "(demo_request, out) \<in> set (un_log (?nodes 1))" by auto
  with r show ?thesis by (intro exI [of _ ?nodes] exI [of _ ?net]) simp
qed

end
