(* ===== verification/Doh.thy ===== *)
theory Doh
  imports NetServices ServiceBase
begin

text \<open>
  The example server that answers DNS over UDP by asking a DNS server over HTTPS
  (\<^verbatim>\<open>examples/doh_server/doh_server.py\<close>): \<^verbatim>\<open>handle_datagram\<close> cut at its awaits, start and stop, on the
  datagram server of the library. What the HTTPS server answers is the environment.
\<close>

section \<open>The server\<close>

text \<open>
  A datagram is handled by a task: it has not begun, waits for the answer to its request, has sent the
  reply, or has failed or been cancelled.
\<close>

datatype 'd doh_phase = Begun | Asked | Replied 'd | Left pyexc

record 'd doh_task =
  dt_data :: 'd
  dt_addr :: nat
  dt_phase :: "'d doh_phase"

text \<open>
  The attributes \<^verbatim>\<open>session\<close> and \<^verbatim>\<open>_transport\<close> are missing or hold an object that is open or not. The requests
  posted and the datagrams sent are recorded with the task that made them.
\<close>

record 'd DNSUDPService =
  du_transport :: "bool option"
  du_session :: "bool option"
  du_tasks :: "'d doh_task list"
  du_posts :: "(nat \<times> 'd) list"
  du_sent :: "(nat \<times> 'd \<times> nat) list"

definition new_doh :: "'d DNSUDPService" where
  "new_doh = \<lparr>du_transport = None, du_session = None, du_tasks = [], du_posts = [], du_sent = []\<rparr>"

definition doh_start_transport :: "'d DNSUDPService \<Rightarrow> 'd DNSUDPService" where
  "doh_start_transport s = s\<lparr>du_transport := Some True\<rparr>"

definition doh_start_session :: "'d DNSUDPService \<Rightarrow> 'd DNSUDPService" where
  "doh_start_session s = s\<lparr>du_session := Some True\<rparr>"

definition doh_received :: "'d \<Rightarrow> nat \<Rightarrow> 'd DNSUDPService \<Rightarrow> 'd DNSUDPService" where
  "doh_received data addr s =
     s\<lparr>du_tasks := du_tasks s @ [\<lparr>dt_data = data, dt_addr = addr, dt_phase = Begun\<rparr>]\<rparr>"

definition set_doh_phase :: "nat \<Rightarrow> 'd doh_phase \<Rightarrow> 'd DNSUDPService \<Rightarrow> 'd DNSUDPService" where
  "set_doh_phase i p s = s\<lparr>du_tasks := (du_tasks s)[i := (du_tasks s ! i)\<lparr>dt_phase := p\<rparr>]\<rparr>"

text \<open>\<^verbatim>\<open>handle_datagram\<close> up to the answer, and from the answer on.\<close>

definition doh_ask :: "nat \<Rightarrow> 'd DNSUDPService \<Rightarrow> 'd DNSUDPService" where
  "doh_ask i s =
     (case du_session s of
        None \<Rightarrow> set_doh_phase i (Left (AttributeError ''session'')) s
      | Some False \<Rightarrow> set_doh_phase i (Left (RuntimeError ''Session is closed'')) s
      | Some True \<Rightarrow>
          set_doh_phase i Asked (s\<lparr>du_posts := du_posts s @ [(i, dt_data (du_tasks s ! i))]\<rparr>))"

definition doh_answer :: "nat \<Rightarrow> 'd result \<Rightarrow> 'd DNSUDPService \<Rightarrow> 'd DNSUDPService" where
  "doh_answer i response s =
     (case response of
        Inl e \<Rightarrow> set_doh_phase i (Left e) s
      | Inr body \<Rightarrow>
          (case du_transport s of
             None \<Rightarrow> set_doh_phase i (Left (RuntimeError [])) s
           | Some _ \<Rightarrow>
               set_doh_phase i (Replied body)
                 (s\<lparr>du_sent := du_sent s @ [(i, body, dt_addr (du_tasks s ! i))]\<rparr>)))"

text \<open>\<^verbatim>\<open>stop\<close>: the session is closed first, then the tasks are cancelled and the transport is closed.\<close>

definition doh_close_session :: "'d DNSUDPService \<Rightarrow> 'd DNSUDPService" where
  "doh_close_session s = s\<lparr>du_session := map_option (\<lambda>_. False) (du_session s)\<rparr>"

definition doh_close_transport :: "'d DNSUDPService \<Rightarrow> 'd DNSUDPService" where
  "doh_close_transport s = s\<lparr>du_transport := map_option (\<lambda>_. False) (du_transport s)\<rparr>"

definition in_phase :: "nat \<Rightarrow> 'd doh_phase \<Rightarrow> 'd DNSUDPService \<Rightarrow> bool" where
  "in_phase i p s \<longleftrightarrow> i < length (du_tasks s) \<and> dt_phase (du_tasks s ! i) = p"

inductive doh_step :: "'d DNSUDPService \<Rightarrow> 'd DNSUDPService \<Rightarrow> bool" where
  doh_up: "du_transport s = None \<Longrightarrow> doh_step s (doh_start_transport s)"
| doh_session: "du_session s = None \<Longrightarrow> du_transport s = Some True \<Longrightarrow> doh_step s (doh_start_session s)"
| doh_datagram: "du_transport s = Some True \<Longrightarrow> doh_step s (doh_received data addr s)"
| doh_asks: "in_phase i Begun s \<Longrightarrow> doh_step s (doh_ask i s)"
| doh_answered: "in_phase i Asked s \<Longrightarrow> doh_step s (doh_answer i r s)"
| doh_cancelled: "in_phase i Begun s \<or> in_phase i Asked s \<Longrightarrow> doh_step s (set_doh_phase i (Left CancelledError) s)"
| doh_stop_session: "doh_step s (doh_close_session s)"
| doh_stop_transport: "doh_step s (doh_close_transport s)"

section \<open>Replies\<close>

text \<open>
  The tasks that have asked are those with a request, once each, and the tasks that have replied those with
  a datagram.
\<close>

definition asked :: "'d doh_phase \<Rightarrow> bool" where
  "asked p \<longleftrightarrow> p = Asked \<or> (\<exists>b. p = Replied b)"

definition posts_ok :: "'d doh_task list \<Rightarrow> (nat \<times> 'd) list \<Rightarrow> bool" where
  "posts_ok tasks posts \<longleftrightarrow>
     distinct (map fst posts) \<and>
     (\<forall>i d. (i, d) \<in> set posts \<longrightarrow> i < length tasks \<and> dt_data (tasks ! i) = d \<and> dt_phase (tasks ! i) \<noteq> Begun) \<and>
     (\<forall>i < length tasks. asked (dt_phase (tasks ! i)) \<longrightarrow> (i, dt_data (tasks ! i)) \<in> set posts)"

definition sent_ok :: "'d doh_task list \<Rightarrow> (nat \<times> 'd \<times> nat) list \<Rightarrow> bool" where
  "sent_ok tasks sent \<longleftrightarrow>
     distinct (map fst sent) \<and>
     (\<forall>i b a. (i, b, a) \<in> set sent \<longrightarrow>
        i < length tasks \<and> dt_addr (tasks ! i) = a \<and> dt_phase (tasks ! i) = Replied b)"

definition doh_inv :: "'d DNSUDPService \<Rightarrow> bool" where
  "doh_inv s \<longleftrightarrow> posts_ok (du_tasks s) (du_posts s) \<and> sent_ok (du_tasks s) (du_sent s)"

lemma posts_ok_phase:
  assumes "posts_ok tasks posts" "i < length tasks" "p \<noteq> Begun" "asked p \<longrightarrow> asked (dt_phase (tasks ! i))"
  shows "posts_ok (tasks[i := (tasks ! i)\<lparr>dt_phase := p\<rparr>]) posts"
  unfolding posts_ok_def
proof (intro conjI allI impI)
  show "distinct (map fst posts)" using assms(1) by (simp add: posts_ok_def)
  fix j d
  assume "(j, d) \<in> set posts"
  then have j: "j < length tasks" "dt_data (tasks ! j) = d" "dt_phase (tasks ! j) \<noteq> Begun"
    using assms(1) unfolding posts_ok_def by blast+
  then show "j < length (tasks[i := (tasks ! i)\<lparr>dt_phase := p\<rparr>])"
    "dt_data (tasks[i := (tasks ! i)\<lparr>dt_phase := p\<rparr>] ! j) = d"
    "dt_phase (tasks[i := (tasks ! i)\<lparr>dt_phase := p\<rparr>] ! j) \<noteq> Begun"
    using assms(3) by (cases "i = j"; simp)+
next
  fix j
  assume j: "j < length (tasks[i := (tasks ! i)\<lparr>dt_phase := p\<rparr>])"
    "asked (dt_phase (tasks[i := (tasks ! i)\<lparr>dt_phase := p\<rparr>] ! j))"
  have "asked (dt_phase (tasks ! j))" "dt_data (tasks[i := (tasks ! i)\<lparr>dt_phase := p\<rparr>] ! j) = dt_data (tasks ! j)"
    using j assms(2,4) by (cases "i = j"; simp)+
  with j(1) assms(1) show "(j, dt_data (tasks[i := (tasks ! i)\<lparr>dt_phase := p\<rparr>] ! j)) \<in> set posts"
    by (simp add: posts_ok_def)
qed

lemma sent_ok_phase:
  assumes "sent_ok tasks sent" "i < length tasks" "dt_phase (tasks ! i) \<in> {Begun, Asked}"
  shows "sent_ok (tasks[i := (tasks ! i)\<lparr>dt_phase := p\<rparr>]) sent"
  using assms by (auto simp: sent_ok_def nth_list_update)

lemma in_phase_sent: "in_phase i Begun s \<or> in_phase i Asked s \<longleftrightarrow>
    i < length (du_tasks s) \<and> dt_phase (du_tasks s ! i) \<in> {Begun, Asked}"
  by (auto simp: in_phase_def)

lemma doh_inv_leave:
  assumes "doh_inv s" "in_phase i Begun s \<or> in_phase i Asked s"
  shows "doh_inv (set_doh_phase i (Left e) s)"
  using assms(1) assms(2) [unfolded in_phase_sent]
  by (simp add: doh_inv_def set_doh_phase_def posts_ok_phase sent_ok_phase asked_def)

text \<open>A task that is about to ask or to reply is recorded for the first time.\<close>

lemma posts_ok_ask:
  assumes "posts_ok tasks posts" "i < length tasks" "dt_phase (tasks ! i) = Begun"
  shows "posts_ok (tasks[i := (tasks ! i)\<lparr>dt_phase := Asked\<rparr>]) (posts @ [(i, dt_data (tasks ! i))])"
proof -
  have fresh: "i \<notin> fst ` set posts" using assms(1,3) by (auto simp: posts_ok_def)
  show ?thesis
    using assms fresh by (auto simp: posts_ok_def asked_def nth_list_update)
qed

lemma sent_ok_reply:
  assumes "sent_ok tasks sent" "i < length tasks" "dt_phase (tasks ! i) = Asked"
  shows "sent_ok (tasks[i := (tasks ! i)\<lparr>dt_phase := Replied b\<rparr>]) (sent @ [(i, b, dt_addr (tasks ! i))])"
proof -
  have fresh: "i \<notin> fst ` set sent" using assms(1,3) by (auto simp: sent_ok_def)
  then show ?thesis
    using assms by (auto simp: sent_ok_def nth_list_update)
qed

lemma doh_inv_ask:
  assumes "doh_inv s" "in_phase i Begun s"
  shows "doh_inv (doh_ask i s)"
proof (cases "du_session s = Some True")
  case True
  with assms show ?thesis
    by (simp add: doh_ask_def doh_inv_def in_phase_def set_doh_phase_def posts_ok_ask sent_ok_phase)
next
  case False
  then show ?thesis using doh_inv_leave [OF assms(1)] assms(2)
    by (auto simp: doh_ask_def split: option.splits bool.splits)
qed

lemma doh_inv_answer:
  assumes "doh_inv s" "in_phase i Asked s"
  shows "doh_inv (doh_answer i r s)"
proof (cases "\<exists>body t. r = Inr body \<and> du_transport s = Some t")
  case False
  then show ?thesis using doh_inv_leave [OF assms(1)] assms(2)
    by (auto simp: doh_answer_def split: sum.splits option.splits)
next
  case True
  then obtain body t where b: "r = Inr body" "du_transport s = Some t" by blast
  with assms show ?thesis
    by (simp add: doh_answer_def doh_inv_def in_phase_def set_doh_phase_def posts_ok_phase sent_ok_reply asked_def)
qed

lemma doh_inv_received: "doh_inv s \<Longrightarrow> doh_inv (doh_received data addr s)"
  by (auto simp: doh_inv_def doh_received_def posts_ok_def sent_ok_def nth_append less_Suc_eq asked_def)

lemma doh_step_inv: "doh_step s t \<Longrightarrow> doh_inv s \<Longrightarrow> doh_inv t"
proof (induction rule: doh_step.induct)
  case (doh_datagram s data addr)
  then show ?case by (simp add: doh_inv_received)
next
  case (doh_asks i s)
  then show ?case by (simp add: doh_inv_ask)
next
  case (doh_answered i s r)
  then show ?case by (simp add: doh_inv_answer)
next
  case (doh_cancelled i s)
  then show ?case by (simp add: doh_inv_leave)
qed (simp_all add: doh_inv_def doh_start_transport_def doh_start_session_def doh_close_session_def
    doh_close_transport_def)

interpretation doh_system: invariant_system "\<lambda>s. s = new_doh" doh_step doh_inv
proof unfold_locales
  show "s = new_doh \<Longrightarrow> doh_inv s" for s :: "'a DNSUDPService" by (simp add: doh_inv_def new_doh_def posts_ok_def sent_ok_def)
qed (rule doh_step_inv)

text \<open>
  Every datagram that the server sends is the answer to the request it posted for a datagram it had received
  from that address; a received datagram is asked for at most once and answered at most once. When the session
  has been closed, nothing more is asked.
\<close>

theorem doh_replies:
  assumes "reachable (\<lambda>s. s = new_doh) doh_step s"
  shows "(\<forall>i body addr. (i, body, addr) \<in> set (du_sent s) \<longrightarrow>
      (\<exists>data. i < length (du_tasks s) \<and> (i, data) \<in> set (du_posts s) \<and>
        du_tasks s ! i = \<lparr>dt_data = data, dt_addr = addr, dt_phase = Replied body\<rparr>)) \<and>
    distinct (map fst (du_posts s)) \<and> distinct (map fst (du_sent s)) \<and>
    (\<forall>t. du_session s = Some False \<and> doh_step s t \<longrightarrow> du_session t = Some False \<and> du_posts t = du_posts s)"
proof (intro conjI allI impI)
  have inv: "doh_inv s" by (rule doh_system.reachable_inv [OF assms])
  show "distinct (map fst (du_posts s))" "distinct (map fst (du_sent s))"
    using inv by (simp_all add: doh_inv_def posts_ok_def sent_ok_def)
  show "\<exists>data. i < length (du_tasks s) \<and> (i, data) \<in> set (du_posts s) \<and>
        du_tasks s ! i = \<lparr>dt_data = data, dt_addr = addr, dt_phase = Replied body\<rparr>"
    if "(i, body, addr) \<in> set (du_sent s)" for i body addr
  proof -
    have t: "i < length (du_tasks s)" "dt_addr (du_tasks s ! i) = addr" "dt_phase (du_tasks s ! i) = Replied body"
      using inv that unfolding doh_inv_def sent_ok_def by blast+
    then have "(i, dt_data (du_tasks s ! i)) \<in> set (du_posts s)"
      using inv by (simp add: doh_inv_def posts_ok_def asked_def)
    with t show ?thesis by (intro exI [of _ "dt_data (du_tasks s ! i)"]) simp
  qed
  show "du_session t = Some False" "du_posts t = du_posts s" if "du_session s = Some False \<and> doh_step s t" for t
    using that by (auto elim!: doh_step.cases simp: doh_start_transport_def doh_received_def doh_ask_def
        doh_answer_def doh_close_session_def doh_close_transport_def set_doh_phase_def
        split: sum.splits option.splits)
qed

definition doh_example :: "nat DNSUDPService" where
  "doh_example = doh_answer 0 (Inr 9) (doh_ask 0 (doh_received 4 7 (doh_start_session (doh_start_transport new_doh))))"

lemma doh_example_reachable: "reachable (\<lambda>s. s = new_doh) doh_step doh_example"
proof -
  let ?r = "reachable (\<lambda>s. s = new_doh) doh_step"
  have "?r (doh_start_transport (new_doh :: nat DNSUDPService))"
    by (rule reach_step, rule reach_init, rule refl, rule doh_up) (simp add: new_doh_def)
  then have "?r (doh_start_session (doh_start_transport (new_doh :: nat DNSUDPService)))"
    by (rule reach_step, intro doh_session) (simp_all add: new_doh_def doh_start_transport_def)
  then have "?r (doh_received 4 7 (doh_start_session (doh_start_transport (new_doh :: nat DNSUDPService))))"
    by (rule reach_step, intro doh_datagram) (simp add: new_doh_def doh_start_transport_def doh_start_session_def)
  then have "?r (doh_ask 0 (doh_received 4 7 (doh_start_session (doh_start_transport (new_doh :: nat DNSUDPService)))))"
    by (rule reach_step, intro doh_asks) (simp add: in_phase_def new_doh_def doh_received_def
        doh_start_transport_def doh_start_session_def)
  then show ?thesis
    unfolding doh_example_def
    by (rule reach_step, intro doh_answered) (simp add: in_phase_def new_doh_def doh_received_def
        doh_start_transport_def doh_start_session_def doh_ask_def set_doh_phase_def)
qed

theorem doh_replies_witness:
  "(0, 9, 7) \<in> set (du_sent doh_example) \<and>
   du_tasks doh_example ! 0 = \<lparr>dt_data = 4, dt_addr = 7, dt_phase = Replied 9\<rparr> \<and> distinct (map fst (du_sent doh_example))"
proof -
  have "(0, 9, 7) \<in> set (du_sent doh_example)" "(0, d) \<in> set (du_posts doh_example) \<Longrightarrow> d = 4" for d
    by (simp_all add: doh_example_def doh_answer_def doh_ask_def doh_received_def doh_start_session_def
        doh_start_transport_def new_doh_def set_doh_phase_def)
  with doh_replies [OF doh_example_reachable] show ?thesis by blast
qed

end
