(* ===== verification/DocsPages.thy ===== *)
theory DocsPages
  imports Prelude
begin

text \<open>
  The index of the documentation for language models, which the build of the documentation writes
  (\<^verbatim>\<open>docs/source/llmstxt.py\<close>): the table of pages, the links and the two files. Sphinx gives the
  configuration and the sources of the pages.
\<close>

section \<open>Pages and links\<close>

text \<open>A page: stem, title, description, and whether it is optional.\<close>

type_synonym page = "string \<times> string \<times> string \<times> bool"

definition PAGES :: "page list" where
  "PAGES =
     [(''index'', ''Overview'',
       ''Introduction, installation, quick start, and services overview'', False),
      (''tutorial'', ''Tutorial'',
       ''Step-by-step guide building production asyncio services'', False),
      (''modules'', ''Modules'',
       ''All built-in modules: threads, timeout, pool, circuit breaker, logging, signals'', False),
      (''threads'', ''Threads'',
       ''Running blocking code in thread pools with @threaded and WorkerPool'', False),
      (''timeout'', ''Timeout'',
       ''Deadline and timeout utilities for coroutines'', False),
      (''pool'', ''Connection Pool'',
       ''Generic async connection pool implementation'', False),
      (''worker_pool'', ''Worker Pool'',
       ''Process-based worker pool for CPU-bound tasks'', False),
      (''process_pool'', ''Process Pool'',
       ''Low-level process pool and inter-process communication'', False),
      (''circuit_breaker'', ''Circuit Breaker'',
       ''Circuit breaker pattern to prevent cascading failures'', False),
      (''async_backoff'', ''Async Backoff'',
       ''asyncbackoff and asyncretry decorators for retry logic'', False),
      (''context'', ''Context'',
       ''Dependency injection context for sharing objects across services'', False),
      (''signal'', ''Signals'',
       ''Pre/post-start signal hooks for service coordination'', False),
      (''entrypoint'', ''Entrypoint'',
       ''Event loop setup, logging configuration, and graceful shutdown'', False),
      (''logging'', ''Logging'',
       ''Structured logging, log formats, and async log flushing'', False),
      (''statistic'', ''Statistics'',
       ''Built-in metrics collection and exposition'', False),
      (''aggregate'', ''Aggregate'',
       ''Aggregating and batching async operations'', False),
      (''io'', ''I/O Utilities'',
       ''Async file and stream I/O helpers'', False),
      (''utils'', ''Utilities'',
       ''Miscellaneous utility functions and helpers'', False),
      (''services/index'', ''Services'',
       ''All built-in services: HTTP, TCP, UDP, CRON, ASGI, gRPC, and more'', False),
      (''api/index'', ''API Reference'',
       ''Full autodoc API reference for all public classes and functions'', False),
      (''pytest'', ''Pytest Plugin'',
       ''aiomisc pytest fixtures and plugin for async test support'', True),
      (''plugins'', ''Plugins'',
       ''Optional integrations: uvloop, rich logging, carbon metrics'', True)]"

definition page_url :: "string \<Rightarrow> string \<Rightarrow> string" where
  "page_url stem base_url =
     (if stem \<in> {''api/index'', ''services/index''} then base_url @ stem @ ''.html''
      else base_url @ ''_sources/'' @ stem @ ''.rst.txt'')"

definition page_link :: "string \<Rightarrow> string \<Rightarrow> string \<Rightarrow> string \<Rightarrow> string" where
  "page_link stem title description base_url =
     ''- ['' @ title @ '']('' @ page_url stem base_url @ ''): '' @ description"

definition links_heading :: "string list" where
  "links_heading =
     [''## Docs source files split by topic for easier navigation and LLM processing:'',
      [],
      ''The links below point to the raw source of each documentation page'',
      ''(`/_sources/<topic>.rst.txt` on docs.aiomisc.com).'',
      ''Prefer these for LLM consumption: no HTML scaffolding, no navigation chrome,'',
      ''no JavaScript.'',
      []]"

definition link_of :: "string \<Rightarrow> page \<Rightarrow> string" where
  "link_of base_url = (\<lambda>(s, t, d, _). page_link s t d base_url)"

definition is_optional :: "page \<Rightarrow> bool" where
  "is_optional = (\<lambda>(_, _, _, opt). opt)"

definition links_block :: "page list \<Rightarrow> string \<Rightarrow> string" where
  "links_block pages base_url =
     (let essential = filter (\<lambda>p. \<not> is_optional p) pages;
          optional = filter is_optional pages;
          lines = links_heading @ map (link_of base_url) essential;
          lines = (if optional \<noteq> []
            then lines @ [[], ''## Optional'', []] @ map (link_of base_url) optional else lines)
      in py_join [CHR 0x0A] lines)"

section \<open>The files\<close>

record sphinx_config =
  sc_project :: string
  sc_html_title :: "string option"
  sc_html_baseurl :: "string option"
  sc_llms_pages :: "page list"

definition base_url_of :: "sphinx_config \<Rightarrow> string" where
  "base_url_of cfg =
     (let base_url = (case sc_html_baseurl cfg of Some u \<Rightarrow> u | None \<Rightarrow> [])
      in if base_url \<noteq> [] \<and> \<not> py_endswith base_url ''/'' then base_url @ ''/'' else base_url)"

definition llms_txt :: "sphinx_config \<Rightarrow> string" where
  "llms_txt cfg =
     ''# '' @ sc_project cfg @ [CHR 0x0A, CHR 0x0A] @
     ''> '' @ (case sc_html_title cfg of Some t \<Rightarrow> if t = [] then sc_project cfg else t
               | None \<Rightarrow> sc_project cfg) @ [CHR 0x0A, CHR 0x0A] @
     links_block (sc_llms_pages cfg) (base_url_of cfg) @ [CHR 0x0A]"

text \<open>The second file joins the sources that exist; \<^verbatim>\<open>sources\<close> maps stems to the text of their files.\<close>

fun llms_parts :: "(string \<rightharpoonup> string) \<Rightarrow> page list \<Rightarrow> string list" where
  "llms_parts sources [] = []"
| "llms_parts sources ((stem, _) # pages) =
     (case sources stem of
        Some text \<Rightarrow> text # llms_parts sources pages
      | None \<Rightarrow> llms_parts sources pages)"

definition llms_separator :: string where
  "llms_separator = [CHR 0x0A, CHR 0x0A] @ ''---'' @ [CHR 0x0A, CHR 0x0A]"

definition on_build_finished ::
  "bool \<Rightarrow> string \<Rightarrow> sphinx_config \<Rightarrow> (string \<rightharpoonup> string) \<Rightarrow> (string \<times> string) list" where
  "on_build_finished exception builder cfg sources =
     (if exception \<or> builder \<noteq> ''html'' then []
      else [(''llms.txt'', llms_txt cfg),
            (''llms-full.txt'', py_join llms_separator (llms_parts sources (sc_llms_pages cfg)))])"

section \<open>Reading the index\<close>

lemma py_split_append_sep: "c \<notin> set p \<Longrightarrow> py_split c (p @ c # s) = p # py_split c s"
  by (induction p) auto

lemma py_split_no_occurrence: "c \<notin> set p \<Longrightarrow> py_split c p = [p]"
  by (induction p) auto

lemma py_split_join:
  "ps \<noteq> [] \<Longrightarrow> \<forall>p \<in> set ps. c \<notin> set p \<Longrightarrow> py_split c (py_join [c] ps) = ps"
proof (induction ps rule: induct_list012)
  case 1
  then show ?case by simp
next
  case (2 p)
  then show ?case by (simp add: py_split_no_occurrence)
next
  case (3 p q ps)
  then show ?case by (simp add: py_split_append_sep)
qed

text \<open>What a reader gets from a line: title, address and description of a link.\<close>

definition parse_link :: "string \<Rightarrow> (string \<times> string \<times> string) option" where
  "parse_link line =
     (if take 3 line = ''- ['' then
        (let rest = drop 3 line;
             title = takeWhile (\<lambda>c. c \<noteq> CHR '']'') rest;
             rest = drop (length title + 2) rest;
             url = takeWhile (\<lambda>c. c \<noteq> CHR '')'') rest
         in Some (title, url, drop (length url + 3) rest))
      else None)"

definition plain_page :: "page \<Rightarrow> bool" where
  "plain_page = (\<lambda>(stem, title, description, _).
     CHR '')'' \<notin> set stem \<and> CHR 0x0A \<notin> set stem \<and> CHR '']'' \<notin> set title \<and> CHR 0x0A \<notin> set title \<and>
     CHR 0x0A \<notin> set description)"

lemma takeWhile_stop: "c \<notin> set xs \<Longrightarrow> takeWhile (\<lambda>x. x \<noteq> c) (xs @ c # ys) = xs"
  by (induction xs) auto

lemma parse_page_link:
  assumes "CHR '']'' \<notin> set t" "CHR '')'' \<notin> set (page_url s base)"
  shows "parse_link (page_link s t d base) = Some (t, page_url s base, d)"
proof -
  have "drop (5 + length u) (x # y # u @ x' # y' # z' # d) = d" for u and x y x' y' z' :: char
    by (simp add: eval_nat_numeral)
  with assms show ?thesis by (simp add: parse_link_def page_link_def takeWhile_stop Let_def)
qed

lemma page_url_chars: "c \<in> set (page_url s base) \<Longrightarrow>
    c \<in> set base \<or> c \<in> set s \<or> c \<in> set (''_sources/.rst.txt.html'')"
  by (auto simp: page_url_def split: if_splits)

lemma page_url_inj: "page_url s base = page_url s' base \<Longrightarrow> s = s'"
  by (auto simp: page_url_def split: if_splits)

lemma plain_link:
  assumes "plain_page p" "CHR '')'' \<notin> set base" "CHR 0x0A \<notin> set base"
  shows "parse_link (link_of base p) = Some (fst (snd p), page_url (fst p) base, fst (snd (snd p)))"
    and "CHR 0x0A \<notin> set (link_of base p)"
proof -
  obtain s t d opt where p: "p = (s, t, d, opt)" by (cases p)
  have "CHR '')'' \<notin> set (page_url s base)" "CHR 0x0A \<notin> set (page_url s base)"
    using assms page_url_chars [of "CHR '')''" s base] page_url_chars [of "CHR 0x0A" s base]
    by (auto simp: p plain_page_def)
  with assms(1) show "parse_link (link_of base p) = Some (fst (snd p), page_url (fst p) base, fst (snd (snd p)))"
    "CHR 0x0A \<notin> set (link_of base p)"
    by (simp_all add: p link_of_def plain_page_def parse_page_link) (simp add: page_link_def)
qed

lemma heading_no_links:
  "List.map_filter parse_link links_heading = []" "\<forall>l \<in> set links_heading. CHR 0x0A \<notin> set l"
  "parse_link [] = None" "parse_link ''## Optional'' = None"
  by (simp_all add: links_heading_def parse_link_def List.map_filter_simps)

lemma map_filter_append: "List.map_filter f (xs @ ys) = List.map_filter f xs @ List.map_filter f ys"
  by (simp add: List.map_filter_def)

lemma map_filter_links:
  assumes "\<forall>p \<in> set pages. plain_page p" "CHR '')'' \<notin> set base" "CHR 0x0A \<notin> set base"
  shows "List.map_filter parse_link (map (link_of base) pages) =
    map (\<lambda>(s, t, d, _). (t, page_url s base, d)) pages"
  using assms by (induction pages) (auto simp: List.map_filter_simps plain_link)

text \<open>
  Whatever pages are configured, a reader of the links finds each of them exactly once: the essential
  ones in order, then the optional ones, with their titles, addresses and descriptions; pages with
  different stems have different addresses.
\<close>

theorem links_roundtrip:
  assumes "\<forall>p \<in> set pages. plain_page p" "CHR '')'' \<notin> set base" "CHR 0x0A \<notin> set base"
  shows "List.map_filter parse_link (py_split (CHR 0x0A) (links_block pages base)) =
      map (\<lambda>(s, t, d, _). (t, page_url s base, d))
        (filter (\<lambda>p. \<not> is_optional p) pages @ filter is_optional pages) \<and>
    (distinct (map fst pages) \<longrightarrow> distinct (map (\<lambda>p. page_url (fst p) base) pages))"
proof
  let ?e = "filter (\<lambda>p. \<not> is_optional p) pages" and ?o = "filter is_optional pages"
  let ?lines = "links_heading @ map (link_of base) ?e @
    (if ?o \<noteq> [] then [[], ''## Optional'', []] @ map (link_of base) ?o else [])"
  have "links_block pages base = py_join [CHR 0x0A] ?lines"
    by (simp add: links_block_def Let_def)
  moreover have "?lines \<noteq> []" by (simp add: links_heading_def)
  moreover have "\<forall>l \<in> set ?lines. CHR 0x0A \<notin> set l"
    using heading_no_links(2) plain_link(2) [OF _ assms(2,3)] assms(1) by auto
  ultimately have "py_split (CHR 0x0A) (links_block pages base) = ?lines"
    using py_split_join [of ?lines "CHR 0x0A"] by simp
  then show "List.map_filter parse_link (py_split (CHR 0x0A) (links_block pages base)) =
      map (\<lambda>(s, t, d, _). (t, page_url s base, d)) (?e @ ?o)"
    using assms
    by (simp add: map_filter_append map_filter_links heading_no_links List.map_filter_simps)
  show "distinct (map fst pages) \<longrightarrow> distinct (map (\<lambda>p. page_url (fst p) base) pages)"
    by (auto simp: distinct_map inj_on_def dest!: page_url_inj)
qed

lemma PAGES_plain: "list_all plain_page PAGES"
  by code_simp

theorem links_roundtrip_witness:
  "(''Overview'', ''https://docs.aiomisc.com/_sources/index.rst.txt'',
    ''Introduction, installation, quick start, and services overview'')
   \<in> set (List.map_filter parse_link
       (py_split (CHR 0x0A) (links_block PAGES ''https://docs.aiomisc.com/'')))"
proof -
  have p: "\<forall>p \<in> set PAGES. plain_page p" using PAGES_plain by (simp add: list_all_iff)
  have b: "CHR '')'' \<notin> set ''https://docs.aiomisc.com/''" "CHR 0x0A \<notin> set ''https://docs.aiomisc.com/''"
    by simp_all
  have "List.map_filter parse_link (py_split (CHR 0x0A) (links_block PAGES ''https://docs.aiomisc.com/'')) =
      map (\<lambda>(s, t, d, _). (t, page_url s ''https://docs.aiomisc.com/'', d))
        (filter (\<lambda>p. \<not> is_optional p) PAGES @ filter is_optional PAGES)"
    by (rule conjunct1 [OF links_roundtrip [OF p b]])
  moreover have "(''index'', ''Overview'',
      ''Introduction, installation, quick start, and services overview'', False) \<in> set PAGES"
    by (simp add: PAGES_def)
  ultimately show ?thesis
    by (force simp: is_optional_def page_url_def)
qed

text \<open>The address prefix ends in a slash or is empty, and no file is written after a failed build.\<close>

lemma base_url_slash: "base_url_of cfg = [] \<or> py_endswith (base_url_of cfg) ''/''"
  by (auto simp: base_url_of_def Let_def py_endswith_iff)

lemma llms_parts_eq: "llms_parts sources pages = List.map_filter (\<lambda>p. sources (fst p)) pages"
  by (induction sources pages rule: llms_parts.induct)
    (auto simp: List.map_filter_simps split: option.splits)

lemma failed_build_writes_nothing:
  "on_build_finished ex b cfg sources = [] \<longleftrightarrow> ex \<or> b \<noteq> ''html''"
  by (simp add: on_build_finished_def)

lemma PAGES_stems: "distinct (map fst PAGES)"
  by code_simp

end
