(* ===== verification/Spec2Isabelle.thy ===== *)
theory Spec2Isabelle
  imports DnsService CircuitBreaker Backoff Aggregate Pool WorkerPool ThreadPool Recurring Entrypoint
    EntrypointSignals PytestFixtures RavenPlain WorkerSession WorkerSignals ThreadHelpers Servers WebServices
    Profiling PluginsCommand Counters Io ProcessServices WorkerPoolLife RpcServices RpcUdp Doh DocsPages
begin

text \<open>
  A verification development of aiomisc, a library of utilities for asyncio programs: services
  with a common life cycle, pools of threads, processes and instances, retries, circuit breakers,
  aggregation, periodic tasks, logging, files and a DNS server.

  \<^bold>\<open>The program and its models.\<close> The Python packages are \<^verbatim>\<open>aiomisc\<close>, \<^verbatim>\<open>aiomisc_log\<close> and
  \<^verbatim>\<open>aiomisc_worker\<close>. An \<^verbatim>\<open>entrypoint\<close> starts services concurrently and stops them; services use the
  pools and callbacks below; the DNS servers are services over the stream and datagram servers.

  \<^item> \<^verbatim>\<open>service/dns/\<close>: DnsTree (\<^verbatim>\<open>tree.py\<close>, the radix tree), DnsRecords (\<^verbatim>\<open>records.py\<close>), DnsZone
    (\<^verbatim>\<open>zone.py\<close>), DnsStore (\<^verbatim>\<open>store.py\<close>), DnsService (\<^verbatim>\<open>service.py\<close>, requests, UDP and TCP). The tree
    is an instance of the keyed-store interface and the store uses it through that interface.
    Streams holds bytes, \<^verbatim>\<open>struct\<close> packing and stream readers.
  \<^item> \<^verbatim>\<open>circuit_breaker.py\<close>: CircuitBreaker. \<^verbatim>\<open>backoff.py\<close> and \<^verbatim>\<open>timeout.py\<close>: Backoff.
    \<^verbatim>\<open>aggregate.py\<close>: Aggregate. \<^verbatim>\<open>pool.py\<close>: Pool. \<^verbatim>\<open>counters.py\<close>: Counters.
  \<^item> \<^verbatim>\<open>aiomisc_worker/\<close> and \<^verbatim>\<open>worker_pool.py\<close>: WorkerProtocol (\<^verbatim>\<open>protocol.py\<close>), WorkerPool (the pool,
    \<^verbatim>\<open>worker.py\<close>, \<^verbatim>\<open>forking.py\<close> and \<^verbatim>\<open>process.py\<close>), WorkerStartup (how workers get their set-up),
    WorkerSession (a call down to the bytes of the connection), WorkerSignals (the signals of cancelled
    calls) and WorkerPoolLife (socket, supervisor, futures and
    closing of the pool).
    \<^verbatim>\<open>thread_pool.py\<close>: ThreadPool and ThreadHelpers (\<^verbatim>\<open>run_in_executor\<close>, \<^verbatim>\<open>run_in_new_thread\<close>).
  \<^item> \<^verbatim>\<open>recurring.py\<close>, \<^verbatim>\<open>periodic.py\<close>, \<^verbatim>\<open>cron.py\<close> and their services: Recurring.
  \<^item> \<^verbatim>\<open>utils.py\<close> and \<^verbatim>\<open>compat.py\<close>: Utils, Compat (event loops, \<^verbatim>\<open>shield\<close>, \<^verbatim>\<open>select\<close>) and Identifiers (the fast
    UUIDs, on words of 128 bits). \<^verbatim>\<open>signal.py\<close>, \<^verbatim>\<open>context.py\<close>, \<^verbatim>\<open>context_vars.py\<close> and
    \<^verbatim>\<open>service/base.py\<close>: ServiceBase. \<^verbatim>\<open>entrypoint.py\<close>: Entrypoint, EntrypointConfig (configuration and
    \<^verbatim>\<open>run\<close>) and EntrypointSignals (the signals of the class and of its instances).
  \<^item> \<^verbatim>\<open>aiomisc_log/\<close> and \<^verbatim>\<open>log.py\<close>: Logging and LogHooks (the hooks for unhandled exceptions with the loggers they
    use). \<^verbatim>\<open>io.py\<close>: Io.
  \<^item> \<^verbatim>\<open>service/tcp.py\<close>, \<^verbatim>\<open>udp.py\<close>, \<^verbatim>\<open>tls.py\<close>: NetServices and, for the life of a server, Servers. \<^verbatim>\<open>service/process.py\<close>,
    \<^verbatim>\<open>service/sdwatchdog.py\<close>, \<^verbatim>\<open>process_pool.py\<close>: ProcessServices. \<^verbatim>\<open>service/raven.py\<close>: Raven (the
    queued transport), RavenService (sessions, connectors and the service) and RavenPlain (closing the transport with a
    task per message).
  \<^item> \<^verbatim>\<open>pytest.py\<close>: TestProxy (delays and the TCP proxy), PytestPlugin (fixtures, tests, the event
    loop of a test, unused ports) and PytestFixtures (the entrypoint of a test, switches, bound sockets).
  \<^item> \<^verbatim>\<open>service/aiohttp.py\<close>, \<^verbatim>\<open>grpc_server.py\<close>, \<^verbatim>\<open>plugins/__init__.py\<close>: Adapters. \<^verbatim>\<open>service/aiohttp.py\<close> (HTTPS), \<^verbatim>\<open>asgi.py\<close>
    and \<^verbatim>\<open>uvicorn.py\<close>: WebServices. \<^verbatim>\<open>service/profiler.py\<close>, \<^verbatim>\<open>tracer.py\<close>, \<^verbatim>\<open>carbon.py\<close>: Profiling.
    \<^verbatim>\<open>plugins/__main__.py\<close>: PluginsCommand.
  \<^item> \<^verbatim>\<open>examples/rpc\<close>, \<^verbatim>\<open>examples/rpc_udp\<close>: RpcProtocol (packets and the table of futures), Rpc (two peers over a
    stream), RpcServices (the server and the client over it) and RpcUdp (servers over datagrams). \<^verbatim>\<open>examples/doh_server\<close>: Doh. \<^verbatim>\<open>docs/source/llmstxt.py\<close>: DocsPages.
  \<^item> Prelude holds what all of them share: Python exceptions and results, strings, futures, and
    the interfaces \<^verbatim>\<open>keyed_store\<close> (a store whose updates are seen at their key only),
    \<^verbatim>\<open>invariant_system\<close> (a transition system with an invariant) and \<^verbatim>\<open>functional_refinement\<close>
    (operations that implement an abstract specification). WorkerProtocol has the interface
    \<^verbatim>\<open>exact_reader\<close> of the three transports' readers, Recurring the interface \<^verbatim>\<open>delay_strategy\<close> between
    the loop and the periodic and cron strategies.

  \<^bold>\<open>How code becomes definitions.\<close> An object is a record with the fields of the class, an enumeration
  a datatype, a method a function from the object and its arguments to a result and the changed
  object; a result is \<^const>\<open>Inl\<close> of an exception or \<^const>\<open>Inr\<close> of a value, and an exception carries
  its class hierarchy, so that \<^verbatim>\<open>except\<close> clauses are tests on it. Coroutines and threads that
  interleave are cut at their suspension points: every piece between two of them is one definition,
  and an \<^verbatim>\<open>inductive\<close> step relation says which piece may run next, so that the theorems hold for
  every schedule. A coroutine that has no concurrent state is a function that is given the list of
  what its environment does (the outcome and the duration of each awaited call); such a function
  recurs on that list, which therefore plays the role of fuel: a theorem about all lists speaks of
  every finite prefix of a run, and the theorems on never-ending loops (periodic and cron
  callbacks, the robust client, the watchdog) say that the loop has gone through the whole list.
  Where a loop ends by itself the theorem says so (the retry loop needs no more than
  \<^verbatim>\<open>max_tries\<close> elements, or one more than pauses fit into its deadline).

  Clock values and ratios are exact numbers, so floating-point rounding is not modelled, and
  counters are unbounded as in Python. Third-party packages and the operating system are arguments of the
  definitions: dnslib's packing and parsing, pickle, HMAC, croniter's next date, the user's functions, the
  results of socket calls.

  \<^bold>\<open>What is shown.\<close>
  \<^item> DNS: the tree behaves as a map and finds the longest bound prefix; zones and stores keep their
    records well formed under all operations; the store refines a plain dictionary of zones, errors
    included; replacement is atomic; answers are sound, and a
    case in which the responsible zone is missed; replies and the order of TCP replies.
  \<^item> Circuit breaker: bounds of the statistic in all interleavings, equivalence of its early-stopping window
    with the full one, and the exact state transitions of an entry.
  \<^item> Backoff: number of attempts, deadline, accounting and result, for single calls and for a decorated
    function. Aggregation: batch sizes, closed batches
    under execution, delivery of results, and that batching is invisible to a call that returns. Pool: exclusive use, permits, and the exception in the check
    that breaks them.
  \<^item> Workers: round trip of packets however they are chunked, the exact handshake, calls over the wire
    against a specification without bytes, results of the process pool in all interleavings, the start
    of the workers from the pool's set-up to its authentication and the closing of the pool; what the
    signal of a cancelled call does to its own and to other calls, and a case of swapped results; size and
    results of the thread pool and of single threads; the task under a \<^verbatim>\<open>shield\<close>.
  \<^item> Services: joined start-up, complete shutdown, accounting and schedules of recurring callbacks, types of
    JSON log records, order of the threaded log handler, lines of asynchronous files, reconnection of robust
    clients, verification in TLS contexts, handlers of stopped servers, respawned processes, the
    watchdog's timing, and, in this theory, what systemd is told of the start of a group of services;
    which receivers an entrypoint calls.

  \<^item> Tests and reports: transparency of the TCP proxy under all settings, the default context of a test,
    delivery of the queued Raven transport, the closing of the transports and their sessions, and who hears of unhandled
    exceptions.

  \<^item> Adapters: options and life of the HTTP and HTTPS services, the configuration uvicorn gets, the
    ports of the gRPC service, the profiler's collection, printed units, namespaces, and which plugin wins.

  \<^item> Examples: the remote calls of two peers over a stream, and of any number of servers over a
    network that loses and repeats datagrams, give what the handlers gave for them, down to the server's product of two numbers; the replies of the
    DNS over HTTPS server; the links of the documentation index.

  \<^bold>\<open>Not modelled.\<close> Text for humans (\<^verbatim>\<open>__repr__\<close>, log messages); fixtures that only return an option; parsing of command lines; re-exports, type aliases,
  packaging and the settings of the documentation build, which have no behaviour of their own; the scripts of
  the examples.
\<close>

section \<open>Systemd is told of the start\<close>

text \<open>
  \<^verbatim>\<open>setup\<close> of the watchdog connects its handlers to the signals of the entrypoint: what the watchdog
  does for each event of a group of \<open>n\<close> services, in the order in which the entrypoint logs them.
\<close>

definition watchdog_setup ::
  "unit result \<Rightarrow> nat \<Rightarrow> ep_event \<Rightarrow> SDWatchdogService \<Rightarrow> SDWatchdogService" where
  "watchdog_setup os n ev sd =
     (case ev of
        PreStart \<Rightarrow> fst (sd_pre_start os n sd)
      | PostStart \<Rightarrow> sd_post_start n sd
      | PreStop \<Rightarrow> sd_pre_stop n sd
      | PostStop \<Rightarrow> sd_post_stop sd
      | _ \<Rightarrow> sd)"

lemma watchdog_pre_start:
  "a \<noteq> [] \<Longrightarrow> sd = watchdog_setup (Inr ()) n PreStart (SDWatchdogService_init (Some a) i) \<Longrightarrow>
     sd_connected sd \<and> sd_sent sd = [ProcessServices.Starting n]"
  by (simp add: watchdog_setup_def sd_pre_start_def sd_connect_def SDWatchdogService_init_def Let_def)

lemma sd_start_sends:
  "sd_start w sd = Inr sd' \<Longrightarrow> sd_connected sd' = sd_connected sd \<and>
     (\<exists>usec. sd_sent sd' = sd_sent sd @ map WatchdogUsec usec)"
  by (auto simp: sd_start_def sd_send_def Let_def bind_result_Inr_iff split: option.splits if_splits
      intro: exI [of _ "[]"] exI [of _ "[_]"])

lemma startup_log:
  assumes "reachable (startup_init n e) startup_step s" "ep_log e = []"
  shows "ep_log (su_ep s) = PreStart # (if group_left (su_group s) then [PostStart] else [])"
  using startup.reachable_inv [OF assms(1)] assms(2) by (simp add: startup_inv_def)

lemma left_phases:
  assumes "reachable (startup_init n e) startup_step s" "group_left (su_group s)" "i < n"
  shows "su_phases s ! i \<in> {Up, Returned} \<or> (\<exists>x. su_phases s ! i = Failed x)"
proof -
  have inv: "startup_inv n e s" by (rule startup.reachable_inv [OF assms(1)])
  obtain p where p: "p = su_phases s ! i" by blast
  then have mem: "p \<in> set (su_phases s)" using inv assms(3) by (simp add: startup_inv_def)
  have "group_phases (su_group s) (set (su_phases s))" using inv by (simp add: startup_inv_def)
  then have "settled_phase p \<or> NotStarted \<noteq> p \<and> Entrypoint.Starting \<noteq> p \<and> \<not> joining_phase p"
    using assms(2) mem by (auto simp: group_phases_def group_left_def split: group.splits)
  then have "p \<in> {Up, Returned} \<or> (\<exists>x. p = Failed x)"
    by (auto simp: settled_phase_def joining_phase_def split: phase.splits)
  then show ?thesis unfolding p .
qed




end
